(* ===== verification/Prelude.thy ===== *)
theory Prelude
  imports Main "HOL-Library.Word" "HOL-Library.AList"
begin

text \<open>
  Shared material of the development: the machine integer types of the Rust code, its
  saturating arithmetic, the fixed-width byte codecs (\<open>to_le_bytes\<close>, \<open>from_be_bytes\<close> and
  their kin), fallible computations that may panic, bounded logs (queues that keep their
  newest entries) and association lists standing for hash maps.

  \<^item> \<open>u8\<close> to \<open>u64\<close> are words of that width; \<open>usize\<close> values (lengths and
    offsets of in-memory buffers) are \<open>nat\<close>.
  \<^item> A hash map whose iteration order or length the code observes is an association list
    with distinct keys (the list order is the map's iteration order); the other maps are
    partial functions.
\<close>

unbundle bit_operations_syntax

named_theorems sat_simps \<open>saturating arithmetic read through \<open>unat\<close>\<close>
named_theorems codec_simps \<open>byte codecs\<close>
named_theorems res_simps \<open>computations that may panic\<close>

section \<open>Machine integers\<close>

type_synonym u8 = "8 word"
type_synonym u16 = "16 word"
type_synonym u32 = "32 word"
type_synonym u64 = "64 word"
type_synonym bytes = "8 word list"

definition sat_add :: "'a::len word \<Rightarrow> 'a word \<Rightarrow> 'a word" where
  "sat_add a b = (if unat a + unat b < 2 ^ LENGTH('a) then a + b else - 1)"

definition sat_sub :: "'a::len word \<Rightarrow> 'a word \<Rightarrow> 'a word" where
  "sat_sub a b = (if b \<le> a then a - b else 0)"

lemma unat_lt: "unat a < 2 ^ LENGTH('a)" for a :: "'a::len word"
  by (rule unsigned_less)

lemma unat_le_max: "unat a \<le> 2 ^ LENGTH('a) - Suc 0" for a :: "'a::len word"
  using unat_lt [of a] by linarith

lemma unat_sat_add [sat_simps]:
  "unat (sat_add a b) = min (unat a + unat b) (2 ^ LENGTH('a) - 1)" for a b :: "'a::len word"
  by (auto simp: sat_add_def unat_word_ariths unsigned_minus_1_eq_mask mask_eq_exp_minus_1)

lemma unat_sat_sub [sat_simps]: "unat (sat_sub a b) = unat a - unat b"
  by (auto simp: sat_sub_def unat_sub word_le_nat_alt)

lemma sat_add_commute: "sat_add a b = sat_add b a"
  by (simp add: sat_add_def add.commute)

lemma sat_add_assoc: "sat_add (sat_add a b) c = sat_add a (sat_add b c)"
proof -
  have "unat (sat_add (sat_add a b) c) = unat (sat_add a (sat_add b c))"
    by (simp add: sat_simps)
  then show ?thesis by (simp only: word_unat_eq_iff)
qed

lemma sat_add_0 [simp]: "sat_add a 0 = a" "sat_add 0 a = a"
  using unat_lt [of a] by (auto simp: sat_add_def)

lemma le_sat_add: "a \<le> sat_add a b" "b \<le> sat_add a b"
  using unat_le_max [of a] unat_le_max [of b]
  by (auto simp: word_le_nat_alt sat_simps)

lemma sat_sub_self [simp]: "sat_sub a a = 0"
  by (simp add: sat_sub_def)

lemma sat_sub_le: "sat_sub a b \<le> a"
  by (simp add: word_le_nat_alt sat_simps)

text \<open>Sums that stay below the type's maximum do not saturate.\<close>

lemma sat_add_exact: "unat a + unat b < 2 ^ LENGTH('a) \<Longrightarrow> sat_add a b = a + b"
  for a b :: "'a::len word"
  by (simp add: sat_add_def)

section \<open>Byte codecs\<close>

primrec nat_to_le :: "nat \<Rightarrow> nat \<Rightarrow> bytes" where
  "nat_to_le 0 x = []"
| "nat_to_le (Suc n) x = word_of_nat (x mod 256) # nat_to_le n (x div 256)"

primrec le_to_nat :: "bytes \<Rightarrow> nat" where
  "le_to_nat [] = 0"
| "le_to_nat (b # bs) = unat b + 256 * le_to_nat bs"

lemma length_nat_to_le [simp, codec_simps]: "length (nat_to_le n x) = n"
  by (induction n arbitrary: x) auto

lemma unat_byte_of_nat [simp]: "unat (word_of_nat (x mod 256) :: u8) = x mod 256"
  by (simp add: unat_of_nat)

lemma le_to_nat_to_le: "le_to_nat (nat_to_le n x) = x mod 256 ^ n"
  by (induction n arbitrary: x) (auto simp: mod_mult2_eq)

lemma le_to_nat_bound: "le_to_nat bs < 256 ^ length bs"
proof (induction bs)
  case Nil
  then show ?case by simp
next
  case (Cons b bs)
  have "unat b < 256" using unat_lt [of b] by simp
  with Cons show ?case by simp
qed

lemma nat_to_le_to_nat: "nat_to_le (length bs) (le_to_nat bs) = bs"
proof (induction bs)
  case Nil
  then show ?case by simp
next
  case (Cons b bs)
  have "unat b < 256" using unat_lt [of b] by simp
  with Cons show ?case by simp
qed

text \<open>\<open>to_le_bytes\<close>, \<open>to_be_bytes\<close> and their inverses on the code's widths.\<close>

definition le16 :: "u16 \<Rightarrow> bytes" where "le16 w = nat_to_le 2 (unat w)"
definition le32 :: "u32 \<Rightarrow> bytes" where "le32 w = nat_to_le 4 (unat w)"
definition le64 :: "u64 \<Rightarrow> bytes" where "le64 w = nat_to_le 8 (unat w)"
definition of_le16 :: "bytes \<Rightarrow> u16" where "of_le16 bs = word_of_nat (le_to_nat bs)"
definition of_le32 :: "bytes \<Rightarrow> u32" where "of_le32 bs = word_of_nat (le_to_nat bs)"
definition of_le64 :: "bytes \<Rightarrow> u64" where "of_le64 bs = word_of_nat (le_to_nat bs)"
definition of_be16 :: "bytes \<Rightarrow> u16" where "of_be16 bs = word_of_nat (le_to_nat (rev bs))"
definition of_be32 :: "bytes \<Rightarrow> u32" where "of_be32 bs = word_of_nat (le_to_nat (rev bs))"
definition of_be64 :: "bytes \<Rightarrow> u64" where "of_be64 bs = word_of_nat (le_to_nat (rev bs))"

lemma length_le [simp, codec_simps]:
  "length (le16 a) = 2" "length (le32 b) = 4" "length (le64 c) = 8"
  by (simp_all add: le16_def le32_def le64_def)

lemma of_le_le [simp, codec_simps]:
  "of_le16 (le16 a) = a" "of_le32 (le32 b) = b" "of_le64 (le64 c) = c"
  using unat_lt [of a] unat_lt [of b] unat_lt [of c]
  by (simp_all add: of_le16_def le16_def of_le32_def le32_def of_le64_def le64_def
      le_to_nat_to_le)

text \<open>\<open>&buf[off..off + n]\<close>, used only where the bounds have been checked.\<close>

definition slice :: "nat \<Rightarrow> nat \<Rightarrow> 'a list \<Rightarrow> 'a list" where
  "slice off n xs = take n (drop off xs)"

lemma length_slice [simp]: "length (slice off n xs) = min n (length xs - off)"
  by (simp add: slice_def)

lemma slice_append_left: "off + n \<le> length xs \<Longrightarrow> slice off n (xs @ ys) = slice off n xs"
  by (simp add: slice_def)

lemma slice_append_right: "length xs \<le> off \<Longrightarrow> slice off n (xs @ ys) = slice (off - length xs) n ys"
  by (simp add: slice_def)

lemma slice_exact [simp]: "length xs = n \<Longrightarrow> slice 0 n xs = xs"
  by (simp add: slice_def)

lemma nth_slice: "i < n \<Longrightarrow> off + n \<le> length xs \<Longrightarrow> slice off n xs ! i = xs ! (off + i)"
  by (simp add: slice_def)

lemma slice_concat_uniform:
  assumes "\<And>x. x \<in> set xs \<Longrightarrow> length x = w" and "i < length xs"
  shows "slice (w * i) w (concat xs) = xs ! i"
  using assms
proof (induction xs arbitrary: i)
  case Nil
  then show ?case by simp
next
  case (Cons x xs)
  show ?case
  proof (cases i)
    case 0
    with Cons.prems show ?thesis by (simp add: slice_def)
  next
    case (Suc j)
    from Cons.prems Suc have "slice (w * j) w (concat xs) = xs ! j"
      by (intro Cons.IH) auto
    with Suc Cons.prems(1) [of x] show ?thesis
      by (simp add: slice_append_right)
  qed
qed

lemma length_concat_uniform:
  "(\<And>x. x \<in> set xs \<Longrightarrow> length x = w) \<Longrightarrow> length (concat xs) = w * length xs"
  by (induction xs) auto

section \<open>Computations that may panic\<close>

text \<open>
  A Rust function returning \<open>Option<T>\<close> that indexes slices has three outcomes: it
  panics, it returns \<open>None\<close> (\<open>Fail\<close>), or it returns a value.
\<close>

datatype 'a res = Panic | Fail | Ok 'a

fun bindr :: "'a res \<Rightarrow> ('a \<Rightarrow> 'b res) \<Rightarrow> 'b res" where
  "bindr Panic f = Panic"
| "bindr Fail f = Fail"
| "bindr (Ok x) f = f x"

definition idx :: "'a list \<Rightarrow> nat \<Rightarrow> 'a res" where
  "idx xs i = (if i < length xs then Ok (xs ! i) else Panic)"

definition of_opt :: "'a option \<Rightarrow> 'a res" where
  "of_opt x = (case x of None \<Rightarrow> Fail | Some y \<Rightarrow> Ok y)"

definition to_opt :: "'a res \<Rightarrow> 'a option" where
  "to_opt r = (case r of Ok x \<Rightarrow> Some x | _ \<Rightarrow> None)"

lemma of_opt_simps [simp, res_simps]: "of_opt None = Fail" "of_opt (Some x) = Ok x"
  by (simp_all add: of_opt_def)

lemma of_opt_not_Panic [simp, res_simps]: "of_opt x \<noteq> Panic"
  by (cases x) auto

lemma idx_Ok [simp, res_simps]: "i < length xs \<Longrightarrow> idx xs i = Ok (xs ! i)"
  by (simp add: idx_def)

lemma bindr_not_Panic [res_simps, intro]:
  "m \<noteq> Panic \<Longrightarrow> (\<And>x. m = Ok x \<Longrightarrow> f x \<noteq> Panic) \<Longrightarrow> bindr m f \<noteq> Panic"
  by (cases m) auto

lemma bindr_OkE [elim]:
  assumes "bindr m f = Ok y"
  obtains x where "m = Ok x" and "f x = Ok y"
  using assms by (cases m) auto

lemma bindr_Panic_iff: "bindr m f = Panic \<longleftrightarrow> m = Panic \<or> (\<exists>x. m = Ok x \<and> f x = Panic)"
  by (cases m) auto

lemma bindr_Ok_iff: "bindr m f = Ok y \<longleftrightarrow> (\<exists>x. m = Ok x \<and> f x = Ok y)"
  by (cases m) auto

section \<open>Logs that keep their newest entries\<close>

text \<open>
  Several parts of the program keep a bounded history: they append an entry and drop the
  oldest ones beyond a capacity (completed histogram hours, recent samples, the ring files
  on disk, the DNS history being loaded). \<open>keep_last n\<close> is their common specification.
\<close>

definition keep_last :: "nat \<Rightarrow> 'a list \<Rightarrow> 'a list" where
  "keep_last n xs = drop (length xs - n) xs"

lemma length_keep_last [simp]: "length (keep_last n xs) = min n (length xs)"
  by (auto simp: keep_last_def)

lemma keep_last_id [simp]: "length xs \<le> n \<Longrightarrow> keep_last n xs = xs"
  by (simp add: keep_last_def)

lemma keep_last_Nil [simp]: "keep_last n [] = []"
  by (simp add: keep_last_def)

lemma set_keep_last_subset: "set (keep_last n xs) \<subseteq> set xs"
  by (simp add: keep_last_def set_drop_subset)

lemma keep_last_keep_last_append:
  "keep_last n (keep_last n xs @ ys) = keep_last n (xs @ ys)"
proof (cases "length xs \<le> n")
  case True
  then show ?thesis by simp
next
  case False
  then show ?thesis
    by (simp add: keep_last_def drop_append add.commute)
qed

lemma keep_last_keep_last: "keep_last m (keep_last n xs) = keep_last (min m n) xs"
proof (cases "length xs \<le> n")
  case True
  then show ?thesis by (auto simp: keep_last_def min_def)
next
  case False
  then show ?thesis by (cases "m \<le> n") (auto simp: keep_last_def min_def)
qed

lemma keep_last_snoc: "0 < n \<Longrightarrow> keep_last n (xs @ [x]) = keep_last (n - 1) xs @ [x]"
  by (cases n) (auto simp: keep_last_def Suc_diff_le)

locale bounded_log =
  fixes push :: "'e \<Rightarrow> 's \<Rightarrow> 's"
    and contents :: "'s \<Rightarrow> 'e list"
    and cap :: nat
    and inv :: "'s \<Rightarrow> bool"
  assumes push_contents: "inv s \<Longrightarrow> contents (push e s) = keep_last cap (contents s @ [e])"
    and push_inv: "inv s \<Longrightarrow> inv (push e s)"
begin

lemma pushes_inv: "inv s \<Longrightarrow> inv (fold push es s)"
  by (induction es arbitrary: s) (auto simp: push_inv)

lemma pushes_contents:
  "inv s \<Longrightarrow> length (contents s) \<le> cap \<Longrightarrow>
    contents (fold push es s) = keep_last cap (contents s @ es)"
proof (induction es arbitrary: s)
  case Nil
  then show ?case by simp
next
  case (Cons e es)
  have "contents (fold push es (push e s)) = keep_last cap (contents (push e s) @ es)"
    using Cons.prems by (intro Cons.IH) (auto simp: push_inv push_contents)
  with Cons.prems show ?case
    by (simp add: push_contents keep_last_keep_last_append)
qed

lemma pushes_bounded:
  "inv s \<Longrightarrow> length (contents s) \<le> cap \<Longrightarrow> length (contents (fold push es s)) \<le> cap"
  by (simp add: pushes_contents)

lemma pushes_newest:
  assumes "inv s" and "length (contents s) \<le> cap" and "cap \<le> length es"
  shows "contents (fold push es s) = keep_last cap es"
proof -
  have "keep_last cap (contents s @ es) = keep_last cap es"
    using assms(3) by (simp add: keep_last_def)
  with assms show ?thesis by (simp add: pushes_contents)
qed

end

section \<open>Association lists as hash maps\<close>

text \<open>\<open>entry(k).or_default()\<close> followed by an update of the entry in place.\<close>

definition upd_entry :: "'k \<Rightarrow> 'v \<Rightarrow> ('v \<Rightarrow> 'v) \<Rightarrow> ('k \<times> 'v) list \<Rightarrow> ('k \<times> 'v) list" where
  "upd_entry k d f m = AList.update k (f (case map_of m k of None \<Rightarrow> d | Some v \<Rightarrow> v)) m"

lemma map_of_alist_update [simp]: "map_of (AList.update k v m) = (map_of m)(k \<mapsto> v)"
  by (rule ext) (simp add: update_conv)

lemma map_of_upd_entry:
  "map_of (upd_entry k d f m) =
     (map_of m)(k \<mapsto> f (case map_of m k of None \<Rightarrow> d | Some v \<Rightarrow> v))"
  by (simp add: upd_entry_def)

lemma distinct_upd_entry: "distinct (map fst m) \<Longrightarrow> distinct (map fst (upd_entry k d f m))"
  by (simp add: upd_entry_def distinct_update)

text \<open>\<open>retain\<close>.\<close>

lemma distinct_keys_filter: "distinct (map fst m) \<Longrightarrow> distinct (map fst (filter P m))"
  by (simp add: distinct_map_filter)

lemma map_of_filter_key:
  "distinct (map fst m) \<Longrightarrow>
    map_of (filter P m) k = (case map_of m k of None \<Rightarrow> None
                              | Some v \<Rightarrow> if P (k, v) then Some v else None)"
proof (induction m)
  case Nil
  then show ?case by simp
next
  case (Cons e m)
  obtain k' v' where e: "e = (k', v')" by (cases e)
  show ?case
  proof (cases "k = k'")
    case True
    with Cons.prems e have "map_of m k = None"
      by (auto simp: map_of_eq_None_iff)
    with Cons True e show ?thesis by auto
  next
    case False
    with Cons e show ?thesis by auto
  qed
qed

end
