(* ===== verification/Rust_Strings.thy ===== *)
theory Rust_Strings
  imports Prelude "HOL-Library.Char_ord" "HOL-Library.List_Lexorder" "HOL-Library.Product_Lexorder"
begin

text \<open>
  The parts of Rust's string library the program uses. A Rust \<open>str\<close> is its UTF-8 byte
  sequence, and a HOL \<open>char\<close> is a byte, so a \<open>string\<close> stands for a Rust string
  directly; \<open>len()\<close> is \<open>length\<close>, and the order of \<open>str\<close> (bytewise) is the
  lexicographic order of \<open>string\<close>.

  Here are ASCII case mapping, splitting and joining, trimming of Unicode white space,
  decimal and hexadecimal printing and parsing, and the strict and lossy UTF-8 decoders.
\<close>

section \<open>Bytes and characters\<close>

definition byte_of :: "char \<Rightarrow> u8" where
  "byte_of c = word_of_nat (of_char c)"

definition char_of_byte :: "u8 \<Rightarrow> char" where
  "char_of_byte b = char_of (unat b)"

definition bytes_of_string :: "string \<Rightarrow> bytes" where
  "bytes_of_string s = map byte_of s"

definition string_of_bytes :: "bytes \<Rightarrow> string" where
  "string_of_bytes bs = map char_of_byte bs"

lemma of_char_lt_256 [simp]: "(of_char c :: nat) < 256"
  by (metis of_char_mod_256 mod_less_divisor zero_less_numeral)

lemma char_of_byte_of [simp]: "char_of_byte (byte_of c) = c"
  by (simp add: char_of_byte_def byte_of_def unat_of_nat)

lemma byte_of_char_of [simp]: "byte_of (char_of_byte b) = b"
proof -
  have "unat b < 256" using unat_lt [of b] by simp
  then show ?thesis by (simp add: char_of_byte_def byte_of_def)
qed

lemma string_of_bytes_of_string [simp]: "string_of_bytes (bytes_of_string s) = s"
  by (simp add: string_of_bytes_def bytes_of_string_def o_def)

lemma bytes_of_string_of_bytes [simp]: "bytes_of_string (string_of_bytes bs) = bs"
  by (simp add: string_of_bytes_def bytes_of_string_def o_def)

section \<open>ASCII case\<close>

definition ascii_lower :: "char \<Rightarrow> char" where
  "ascii_lower c = (let n = (of_char c :: nat) in if 65 \<le> n \<and> n \<le> 90 then char_of (n + 32) else c)"

definition ascii_upper :: "char \<Rightarrow> char" where
  "ascii_upper c = (let n = (of_char c :: nat) in if 97 \<le> n \<and> n \<le> 122 then char_of (n - 32) else c)"

definition to_ascii_lowercase :: "string \<Rightarrow> string" where
  "to_ascii_lowercase s = map ascii_lower s"

definition to_ascii_uppercase :: "string \<Rightarrow> string" where
  "to_ascii_uppercase s = map ascii_upper s"

definition eq_ignore_ascii_case :: "string \<Rightarrow> string \<Rightarrow> bool" where
  "eq_ignore_ascii_case a b = (to_ascii_lowercase a = to_ascii_lowercase b)"

definition is_ascii_alphabetic :: "char \<Rightarrow> bool" where
  "is_ascii_alphabetic c =
     (let n = (of_char c :: nat) in (65 \<le> n \<and> n \<le> 90) \<or> (97 \<le> n \<and> n \<le> 122))"

lemma eq_ignore_ascii_case_refl [simp]: "eq_ignore_ascii_case s s"
  by (simp add: eq_ignore_ascii_case_def)

lemma eq_ignore_ascii_case_sym: "eq_ignore_ascii_case a b \<Longrightarrow> eq_ignore_ascii_case b a"
  by (simp add: eq_ignore_ascii_case_def)

lemma length_to_ascii_lowercase [simp]: "length (to_ascii_lowercase s) = length s"
  by (simp add: to_ascii_lowercase_def)

section \<open>Splitting, joining, searching\<close>

fun split_once :: "char \<Rightarrow> string \<Rightarrow> (string \<times> string) option" where
  "split_once c [] = None"
| "split_once c (x # xs) =
     (if x = c then Some ([], xs)
      else map_option (\<lambda>(a, b). (x # a, b)) (split_once c xs))"

fun rsplit_once :: "char \<Rightarrow> string \<Rightarrow> (string \<times> string) option" where
  "rsplit_once c s = map_option (\<lambda>(a, b). (rev b, rev a)) (split_once c (rev s))"

fun split_on :: "char \<Rightarrow> string \<Rightarrow> string list" where
  "split_on c [] = [[]]"
| "split_on c (x # xs) =
     (if x = c then [] # split_on c xs
      else (case split_on c xs of [] \<Rightarrow> [[x]] | y # ys \<Rightarrow> (x # y) # ys))"

fun splitn :: "nat \<Rightarrow> char \<Rightarrow> string \<Rightarrow> string list" where
  "splitn 0 c s = []"
| "splitn (Suc 0) c s = [s]"
| "splitn (Suc (Suc n)) c s =
     (case split_once c s of None \<Rightarrow> [s] | Some (a, b) \<Rightarrow> a # splitn (Suc n) c b)"

fun join :: "string \<Rightarrow> string list \<Rightarrow> string" where
  "join sep [] = []"
| "join sep [x] = x"
| "join sep (x # y # ys) = x @ sep @ join sep (y # ys)"

definition starts_with :: "string \<Rightarrow> string \<Rightarrow> bool" where
  "starts_with p s = (take (length p) s = p)"

definition strip_prefix :: "string \<Rightarrow> string \<Rightarrow> string option" where
  "strip_prefix p s = (if starts_with p s then Some (drop (length p) s) else None)"

fun contains_str :: "string \<Rightarrow> string \<Rightarrow> bool" where
  "contains_str p [] = (p = [])"
| "contains_str p (x # xs) = (starts_with p (x # xs) \<or> contains_str p xs)"

function trim_start_matches :: "string \<Rightarrow> string \<Rightarrow> string" where
  "trim_start_matches p s =
     (if p \<noteq> [] \<and> starts_with p s \<and> s \<noteq> [] then trim_start_matches p (drop (length p) s) else s)"
  by pat_completeness auto
termination
  by (relation "measure (\<lambda>(p, s). length s)") auto

declare trim_start_matches.simps [simp del]

lemma split_once_Some_append: "c \<notin> set a \<Longrightarrow> split_once c (a @ c # b) = Some (a, b)"
  by (induction a) auto

lemma split_once_None: "c \<notin> set s \<Longrightarrow> split_once c s = None"
  by (induction s) auto

lemma split_onceD: "split_once c s = Some (a, b) \<Longrightarrow> s = a @ c # b \<and> c \<notin> set a"
  by (induction s arbitrary: a) (auto split: if_splits)

lemma length_splitn: "length (splitn n c s) \<le> n"
  by (induction n c s rule: splitn.induct) (auto split: option.splits)

lemma split_on_nonempty [simp]: "split_on c s \<noteq> []"
  by (induction s) (auto split: list.splits)

section \<open>White space\<close>

text \<open>
  The number of bytes of the white-space character a string starts with, 0 when it does
  not start with one: the \<open>White_Space\<close> characters of Unicode in UTF-8.
\<close>

fun ws_len :: "string \<Rightarrow> nat" where
  "ws_len [] = 0"
| "ws_len (c # cs) =
    (let n = (of_char c :: nat) in
     if (9 \<le> n \<and> n \<le> 13) \<or> n = 32 then 1
     else (case cs of [] \<Rightarrow> 0 | d # ds \<Rightarrow>
       (let m = (of_char d :: nat) in
        if n = 194 \<and> (m = 133 \<or> m = 160) then 2
        else (case ds of [] \<Rightarrow> 0 | e # _ \<Rightarrow>
          (let k = (of_char e :: nat) in
           if (n = 225 \<and> m = 154 \<and> k = 128)
            \<or> (n = 226 \<and> m = 128 \<and> ((128 \<le> k \<and> k \<le> 138) \<or> k = 168 \<or> k = 169 \<or> k = 175))
            \<or> (n = 226 \<and> m = 129 \<and> k = 159)
            \<or> (n = 227 \<and> m = 128 \<and> k = 128)
           then 3 else 0)))))"

definition ws_suffix :: "string \<Rightarrow> nat" where
  "ws_suffix s =
     (if 1 \<le> length s \<and> ws_len (drop (length s - 1) s) = 1 then 1
      else if 2 \<le> length s \<and> ws_len (drop (length s - 2) s) = 2 then 2
      else if 3 \<le> length s \<and> ws_len (drop (length s - 3) s) = 3 then 3 else 0)"

function trim_start :: "string \<Rightarrow> string" where
  "trim_start s = (if ws_len s = 0 \<or> s = [] then s else trim_start (drop (ws_len s) s))"
  by pat_completeness auto
termination
  by (relation "measure length") auto

function trim_end :: "string \<Rightarrow> string" where
  "trim_end s = (if ws_suffix s = 0 \<or> s = [] then s else trim_end (take (length s - ws_suffix s) s))"
  by pat_completeness auto
termination
  by (relation "measure length") auto

declare trim_start.simps [simp del] trim_end.simps [simp del]

definition trim :: "string \<Rightarrow> string" where
  "trim s = trim_end (trim_start s)"

function split_ws :: "string \<Rightarrow> string \<Rightarrow> string list" where
  "split_ws acc s =
     (if s = [] then (if acc = [] then [] else [rev acc])
      else if ws_len s = 0 then split_ws (hd s # acc) (tl s)
      else (if acc = [] then [] else [rev acc]) @ split_ws [] (drop (ws_len s) s))"
  by pat_completeness auto
termination
  by (relation "measure (\<lambda>(acc, s). length s)") (auto simp: neq_Nil_conv)

declare split_ws.simps [simp del]

definition split_whitespace :: "string \<Rightarrow> string list" where
  "split_whitespace s = split_ws [] s"

text \<open>\<open>lines()\<close>: split at newlines, drop a trailing carriage return, no empty last line.\<close>

definition lines :: "string \<Rightarrow> string list" where
  "lines s =
     (let ls = split_on (char_of (10 :: nat)) s;
          ls = (if last ls = [] then butlast ls else ls)
      in map (\<lambda>l. if l \<noteq> [] \<and> last l = char_of (13 :: nat) then butlast l else l) ls)"

definition no_ws :: "string \<Rightarrow> bool" where
  "no_ws s = (ws_len s = 0 \<and> ws_suffix s = 0)"

lemma trim_no_ws: "no_ws s \<Longrightarrow> trim s = s"
  by (simp add: no_ws_def trim_def trim_start.simps [of s] trim_end.simps [of s])

lemma trim_Nil [simp]: "trim [] = []"
  by (simp add: trim_def trim_start.simps trim_end.simps)

section \<open>Numbers as text\<close>

definition digit_char :: "nat \<Rightarrow> char" where
  "digit_char d = (if d < 10 then char_of (48 + d) else char_of (87 + d))"

definition to_digit :: "nat \<Rightarrow> char \<Rightarrow> nat option" where
  "to_digit radix c =
     (let n = (of_char c :: nat);
          d = (if 48 \<le> n \<and> n \<le> 57 then n - 48
               else if 97 \<le> n \<and> n \<le> 122 then n - 87
               else if 65 \<le> n \<and> n \<le> 90 then n - 55 else 36)
      in if d < radix then Some d else None)"

definition is_ascii_hexdigit :: "char \<Rightarrow> bool" where
  "is_ascii_hexdigit c = (to_digit 16 c \<noteq> None)"

fun dec :: "nat \<Rightarrow> string" where
  "dec n = (if n < 10 then [digit_char n] else dec (n div 10) @ [digit_char (n mod 10)])"

declare dec.simps [simp del]

fun hex :: "nat \<Rightarrow> string" where
  "hex n = (if n < 16 then [digit_char n] else hex (n div 16) @ [digit_char (n mod 16)])"

declare hex.simps [simp del]

text \<open>\<open>{:02x}\<close> of a byte.\<close>

definition hex02 :: "u8 \<Rightarrow> string" where
  "hex02 b = [digit_char (unat b div 16), digit_char (unat b mod 16)]"

text \<open>
  \<open>from_str_radix\<close> and \<open>parse\<close> of an unsigned type with maximum \<open>mx\<close>: one leading plus
  is accepted, at least one digit is required, and overflow is an error.
\<close>

fun digits_val :: "nat \<Rightarrow> nat \<Rightarrow> nat \<Rightarrow> string \<Rightarrow> nat option" where
  "digits_val radix mx acc [] = Some acc"
| "digits_val radix mx acc (c # cs) =
     (case to_digit radix c of
        None \<Rightarrow> None
      | Some d \<Rightarrow> (let a = acc * radix + d in if a \<le> mx then digits_val radix mx a cs else None))"

definition from_str_radix :: "nat \<Rightarrow> nat \<Rightarrow> string \<Rightarrow> nat option" where
  "from_str_radix radix mx s =
     (case s of
        [] \<Rightarrow> None
      | c # cs \<Rightarrow> if c = CHR ''+'' then (if cs = [] then None else digits_val radix mx 0 cs)
                   else digits_val radix mx 0 s)"

definition parse_u8 :: "string \<Rightarrow> u8 option" where
  "parse_u8 s = map_option word_of_nat (from_str_radix 10 255 s)"

definition parse_u32 :: "string \<Rightarrow> u32 option" where
  "parse_u32 s = map_option word_of_nat (from_str_radix 10 4294967295 s)"

definition parse_hex_u8 :: "string \<Rightarrow> u8 option" where
  "parse_hex_u8 s = map_option word_of_nat (from_str_radix 16 255 s)"

definition parse_hex_u32 :: "string \<Rightarrow> u32 option" where
  "parse_hex_u32 s = map_option word_of_nat (from_str_radix 16 4294967295 s)"

lemma of_char_digit_char [simp]:
  "d < 16 \<Longrightarrow> (of_char (digit_char d) :: nat) = (if d < 10 then 48 + d else 87 + d)"
  by (auto simp: digit_char_def)

lemma to_digit_digit_char [simp]: "d < radix \<Longrightarrow> radix \<le> 16 \<Longrightarrow> to_digit radix (digit_char d) = Some d"
  by (auto simp: to_digit_def Let_def)

lemma digits_val_bound: "digits_val radix mx acc s = Some v \<Longrightarrow> acc \<le> mx \<Longrightarrow> v \<le> mx"
  by (induction s arbitrary: acc) (auto split: option.splits if_splits simp: Let_def)

lemma digit_char_neq [simp]:
  "d < 16 \<Longrightarrow> digit_char d \<noteq> CHR ''+''" "d < 16 \<Longrightarrow> digit_char d \<noteq> CHR '':''"
  "d < 16 \<Longrightarrow> digit_char d \<noteq> CHR ''.''" "d < 16 \<Longrightarrow> digit_char d \<noteq> CHR ''-''"
  by (auto dest!: arg_cong [where f = "of_char :: char \<Rightarrow> nat"] split: if_splits)

lemma ws_len_plain:
  "32 < (of_char c :: nat) \<Longrightarrow> (of_char c :: nat) < 128 \<Longrightarrow> ws_len (c # cs) = 0"
  by (auto simp: Let_def split: list.splits)

lemma ws_len_digit [simp]: "d < 16 \<Longrightarrow> ws_len (digit_char d # cs) = 0"
  by (rule ws_len_plain) auto

lemma no_ws_hex02: "no_ws (hex02 b)"
proof -
  have "unat b < 256" using unat_lt [of b] by simp
  then have "unat b div 16 < 16" by auto
  then show ?thesis by (simp add: no_ws_def hex02_def ws_suffix_def del: ws_len.simps)
qed

lemma parse_hex_u8_hex02 [simp]: "parse_hex_u8 (hex02 b) = Some b"
proof -
  have "unat b < 256" using unat_lt [of b] by simp
  then have "unat b div 16 < 16" and "unat b div 16 * 16 + unat b mod 16 = unat b" by auto
  with \<open>unat b < 256\<close> show ?thesis
    by (simp add: parse_hex_u8_def from_str_radix_def hex02_def Let_def)
qed

section \<open>UTF-8\<close>

text \<open>
  One step of \<open>Utf8Chunks\<close>: the number of bytes of the sequence (or maximal invalid
  prefix) at the front, and whether it is valid.
\<close>

definition utf8_cont :: "u8 \<Rightarrow> bool" where
  "utf8_cont b = (b AND 192 = 128)"

fun utf8_step :: "bytes \<Rightarrow> nat \<times> bool" where
  "utf8_step [] = (0, True)"
| "utf8_step (b # r) =
    (if b < 128 then (1, True)
     else if 194 \<le> b \<and> b \<le> 223 then
       (case r of x # _ \<Rightarrow> if utf8_cont x then (2, True) else (1, False) | [] \<Rightarrow> (1, False))
     else if 224 \<le> b \<and> b \<le> 239 then
       (case r of [] \<Rightarrow> (1, False)
        | x # r2 \<Rightarrow>
          if (b = 224 \<and> 160 \<le> x \<and> x \<le> 191) \<or> (225 \<le> b \<and> b \<le> 236 \<and> 128 \<le> x \<and> x \<le> 191)
             \<or> (b = 237 \<and> 128 \<le> x \<and> x \<le> 159) \<or> (238 \<le> b \<and> 128 \<le> x \<and> x \<le> 191)
          then (case r2 of y # _ \<Rightarrow> if utf8_cont y then (3, True) else (2, False) | [] \<Rightarrow> (2, False))
          else (1, False))
     else if 240 \<le> b \<and> b \<le> 244 then
       (case r of [] \<Rightarrow> (1, False)
        | x # r2 \<Rightarrow>
          if (b = 240 \<and> 144 \<le> x \<and> x \<le> 191) \<or> (241 \<le> b \<and> b \<le> 243 \<and> 128 \<le> x \<and> x \<le> 191)
             \<or> (b = 244 \<and> 128 \<le> x \<and> x \<le> 143)
          then (case r2 of [] \<Rightarrow> (2, False)
                | y # r3 \<Rightarrow> if utf8_cont y
                    then (case r3 of z # _ \<Rightarrow> if utf8_cont z then (4, True) else (3, False)
                          | [] \<Rightarrow> (3, False))
                    else (2, False))
          else (1, False))
     else (1, False))"

lemma utf8_step_pos: "bs \<noteq> [] \<Longrightarrow> 0 < fst (utf8_step bs)"
  by (cases bs) (auto split: list.splits)

lemma utf8_step_len: "fst (utf8_step bs) \<le> length bs"
  by (cases bs) (auto split: list.splits)

lemma utf8_step_shrinks [simp]: "bs \<noteq> [] \<Longrightarrow> length bs - fst (utf8_step bs) < length bs"
  using utf8_step_pos [of bs] by simp

function from_utf8_lossy :: "bytes \<Rightarrow> bytes" where
  "from_utf8_lossy bs =
     (if bs = [] then []
      else (if snd (utf8_step bs) then take (fst (utf8_step bs)) bs else [239, 191, 189])
           @ from_utf8_lossy (drop (fst (utf8_step bs)) bs))"
  by pat_completeness auto
termination
  by (relation "measure length") auto

function utf8_valid :: "bytes \<Rightarrow> bool" where
  "utf8_valid bs =
     (if bs = [] then True
      else if snd (utf8_step bs) then utf8_valid (drop (fst (utf8_step bs)) bs) else False)"
  by pat_completeness auto
termination
  by (relation "measure length") auto

declare from_utf8_lossy.simps [simp del] utf8_valid.simps [simp del]

definition from_utf8 :: "bytes \<Rightarrow> string option" where
  "from_utf8 bs = (if utf8_valid bs then Some (string_of_bytes bs) else None)"

lemma from_utf8_lossy_valid: "utf8_valid bs \<Longrightarrow> from_utf8_lossy bs = bs"
proof (induction bs rule: from_utf8_lossy.induct)
  case (1 bs)
  then show ?case
    by (auto simp: utf8_valid.simps [of bs] from_utf8_lossy.simps [of bs] split: if_splits)
qed

text \<open>\<open>chars()\<close> of valid UTF-8: each character as the bytes that encode it.\<close>

function chars :: "string \<Rightarrow> string list" where
  "chars s =
     (if s = [] then []
      else take (fst (utf8_step (bytes_of_string s))) s # chars (drop (fst (utf8_step (bytes_of_string s))) s))"
  by pat_completeness auto
termination
proof (relation "measure length")
  fix s :: string assume "s \<noteq> []"
  then show "(drop (fst (utf8_step (bytes_of_string s))) s, s) \<in> measure length"
    using utf8_step_pos [of "bytes_of_string s"] by (simp add: bytes_of_string_def)
qed simp

declare chars.simps [simp del]

lemma chars_Nil [simp]: "chars [] = []"
  by (simp add: chars.simps)

lemma chars_ascii: "byte_of c < 128 \<Longrightarrow> chars (c # cs) = [c] # chars cs"
  by (simp add: chars.simps [of "c # cs"] bytes_of_string_def)

end
