(* ===== verification/Ip_Text.thy ===== *)
theory Ip_Text
  imports Rust_Strings
begin

text \<open>
  The IP address types of Rust's standard library, their \<open>Display\<close> and \<open>FromStr\<close>
  implementations (\<open>core::net::parser\<close>: greedy numbers with a digit limit, groups with
  separators, an embedded IPv4 tail, one \<open>::\<close>). An IPv4 address is its big-endian
  32-bit value, an IPv6 address its 128-bit value.
\<close>

datatype ip_addr = V4 u32 | V6 "128 word"

section \<open>Octets and segments\<close>

definition ipv4_of_octets :: "bytes \<Rightarrow> u32" where
  "ipv4_of_octets os = word_of_nat (le_to_nat (rev os))"

definition ipv6_of_octets :: "bytes \<Rightarrow> 128 word" where
  "ipv6_of_octets os = word_of_nat (le_to_nat (rev os))"

definition ipv4_octets :: "u32 \<Rightarrow> bytes" where
  "ipv4_octets a = rev (nat_to_le 4 (unat a))"

definition ipv6_segments :: "128 word \<Rightarrow> u16 list" where
  "ipv6_segments a = map (\<lambda>i. ucast (drop_bit (16 * (7 - i)) a)) [0..<8]"

definition ipv6_of_segments :: "u16 list \<Rightarrow> 128 word" where
  "ipv6_of_segments gs = fold (\<lambda>g a. push_bit 16 a OR ucast g) gs 0"

text \<open>The four 32-bit words of an IPv6 address, most significant first.\<close>

definition ipv6_words :: "128 word \<Rightarrow> u32 list" where
  "ipv6_words a = map (\<lambda>i. ucast (drop_bit (32 * (3 - i)) a)) [0..<4]"

definition ip_is_loopback6 :: "128 word \<Rightarrow> bool" where
  "ip_is_loopback6 a = (a = 1)"

lemma ipv4_octets_of_octets: "length os = 4 \<Longrightarrow> ipv4_octets (ipv4_of_octets os) = os"
proof -
  assume len: "length os = 4"
  have "le_to_nat (rev os) < 256 ^ length (rev os)" by (rule le_to_nat_bound)
  with len have "le_to_nat (rev os) < 2 ^ 32" by simp
  then have "unat (ipv4_of_octets os) = le_to_nat (rev os)"
    by (simp add: ipv4_of_octets_def unat_of_nat)
  with nat_to_le_to_nat [of "rev os"] len show ?thesis
    by (simp add: ipv4_octets_def)
qed

lemma ipv4_of_octets_octets [simp]: "ipv4_of_octets (ipv4_octets a) = a"
  using unat_lt [of a] by (simp add: ipv4_of_octets_def ipv4_octets_def le_to_nat_to_le)

lemma length_ipv4_octets [simp]: "length (ipv4_octets a) = 4"
  by (simp add: ipv4_octets_def)

section \<open>Display\<close>

definition ipv4_to_string :: "u32 \<Rightarrow> string" where
  "ipv4_to_string a = join ''.'' (map (\<lambda>o'. dec (unat o')) (ipv4_octets a))"

text \<open>The first longest run of zero segments, as (start, length).\<close>

fun zero_runs :: "nat \<Rightarrow> nat \<times> nat \<Rightarrow> nat \<times> nat \<Rightarrow> u16 list \<Rightarrow> nat \<times> nat" where
  "zero_runs i cur best [] = best"
| "zero_runs i cur best (g # gs) =
     (if g = 0
      then (let cur' = (if snd cur = 0 then (i, 1) else (fst cur, snd cur + 1));
                best' = (if snd best < snd cur' then cur' else best)
            in zero_runs (Suc i) cur' best' gs)
      else zero_runs (Suc i) (0, 0) best gs)"

definition hex_groups :: "u16 list \<Rightarrow> string" where
  "hex_groups gs = join '':'' (map (\<lambda>g. hex (unat g)) gs)"

definition ipv6_to_string :: "128 word \<Rightarrow> string" where
  "ipv6_to_string a =
     (let segs = ipv6_segments a in
      if take 6 segs = [0, 0, 0, 0, 0, 65535]
      then ''::ffff:'' @ ipv4_to_string (ucast a)
      else (let (start, len) = zero_runs 0 (0, 0) (0, 0) segs in
            if len > 1
            then hex_groups (take start segs) @ ''::'' @ hex_groups (drop (start + len) segs)
            else hex_groups segs))"

fun ip_to_string :: "ip_addr \<Rightarrow> string" where
  "ip_to_string (V4 a) = ipv4_to_string a"
| "ip_to_string (V6 a) = ipv6_to_string a"

section \<open>Parsing\<close>

fun read_digits :: "nat \<Rightarrow> nat \<Rightarrow> nat \<Rightarrow> nat \<Rightarrow> string \<Rightarrow> (nat \<times> nat \<times> string) option" where
  "read_digits radix maxd n v [] = Some (n, v, [])"
| "read_digits radix maxd n v (c # cs) =
     (case to_digit radix c of
        None \<Rightarrow> Some (n, v, c # cs)
      | Some d \<Rightarrow> if n + 1 > maxd then None else read_digits radix maxd (n + 1) (v * radix + d) cs)"

definition read_number :: "nat \<Rightarrow> nat \<Rightarrow> bool \<Rightarrow> nat \<Rightarrow> string \<Rightarrow> (nat \<times> string) option" where
  "read_number radix maxd allow_zero_prefix limit s =
     (case read_digits radix maxd 0 0 s of
        None \<Rightarrow> None
      | Some (n, v, r) \<Rightarrow>
          if n = 0 then None
          else if \<not> allow_zero_prefix \<and> starts_with ''0'' s \<and> n > 1 then None
          else if v \<le> limit then Some (v, r) else None)"

definition read_sep :: "char \<Rightarrow> nat \<Rightarrow> string \<Rightarrow> string option" where
  "read_sep c i s = (if i = 0 then Some s else strip_prefix [c] s)"

fun read_ipv4_groups :: "nat \<Rightarrow> nat \<Rightarrow> string \<Rightarrow> (bytes \<times> string) option" where
  "read_ipv4_groups 0 i s = Some ([], s)"
| "read_ipv4_groups (Suc n) i s =
     (case read_sep (CHR ''.'') i s of None \<Rightarrow> None
      | Some s1 \<Rightarrow> (case read_number 10 3 False 255 s1 of None \<Rightarrow> None
        | Some (v, s2) \<Rightarrow> (case read_ipv4_groups n (Suc i) s2 of None \<Rightarrow> None
          | Some (vs, s3) \<Rightarrow> Some (word_of_nat v # vs, s3))))"

definition read_ipv4 :: "string \<Rightarrow> (bytes \<times> string) option" where
  "read_ipv4 s = read_ipv4_groups 4 0 s"

definition parse_ipv4 :: "string \<Rightarrow> u32 option" where
  "parse_ipv4 s =
     (case read_ipv4 s of Some (os, []) \<Rightarrow> Some (ipv4_of_octets os) | _ \<Rightarrow> None)"

text \<open>\<open>read_groups\<close> with \<open>n\<close> groups left, the next one having index \<open>i\<close>.\<close>

fun read_groups :: "nat \<Rightarrow> nat \<Rightarrow> string \<Rightarrow> u16 list \<times> bool \<times> string" where
  "read_groups 0 i s = ([], False, s)"
| "read_groups (Suc n) i s =
     (case (if n = 0 then None
            else (case read_sep (CHR '':'') i s of None \<Rightarrow> None | Some s1 \<Rightarrow> read_ipv4 s1)) of
        Some (os, r) \<Rightarrow> ([of_be16 (take 2 os), of_be16 (drop 2 os)], True, r)
      | None \<Rightarrow>
         (case (case read_sep (CHR '':'') i s of None \<Rightarrow> None
                | Some s1 \<Rightarrow> read_number 16 4 True 65535 s1) of
            None \<Rightarrow> ([], False, s)
          | Some (g, r) \<Rightarrow>
             (let (gs, v4, r') = read_groups n (Suc i) r in (word_of_nat g # gs, v4, r'))))"

definition read_ipv6 :: "string \<Rightarrow> (u16 list \<times> string) option" where
  "read_ipv6 s =
     (let (h, v4, r) = read_groups 8 0 s in
      if length h = 8 then Some (h, r)
      else if v4 then None
      else (case strip_prefix ''::'' r of
              None \<Rightarrow> None
            | Some r1 \<Rightarrow>
               (let (t, v4', r2) = read_groups (8 - (length h + 1)) 0 r1 in
                Some (h @ replicate (8 - length h - length t) 0 @ t, r2))))"

definition parse_ipv6 :: "string \<Rightarrow> (128 word) option" where
  "parse_ipv6 s =
     (case read_ipv6 s of Some (gs, []) \<Rightarrow> Some (ipv6_of_segments gs) | _ \<Rightarrow> None)"

definition parse_ip :: "string \<Rightarrow> ip_addr option" where
  "parse_ip s =
     (case read_ipv4 s of
        Some (os, r) \<Rightarrow> if r = [] then Some (V4 (ipv4_of_octets os)) else None
      | None \<Rightarrow> map_option V6 (parse_ipv6 s))"

section \<open>Parsing what Display prints (IPv4)\<close>

text \<open>Values up to 255 print as one to three digits without a leading zero.\<close>

lemma read_number_dec:
  assumes "n \<le> 255" and "rest = [] \<or> to_digit 10 (hd rest) = None"
  shows "read_number 10 3 False 255 (dec n @ rest) = Some (n, rest)"
proof -
  have stop: "read_digits 10 3 k v rest = Some (k, v, rest)" for k v
    using assms(2) by (cases rest) auto
  consider "n < 10" | "10 \<le> n" "n < 100" | "100 \<le> n" by linarith
  then show ?thesis
  proof cases
    case 1
    then show ?thesis
      by (simp add: read_number_def dec.simps [of n] stop)
  next
    case 2
    then have "n div 10 < 10" and "n div 10 \<noteq> 0" by auto
    then have d: "dec n = [digit_char (n div 10), digit_char (n mod 10)]"
      using 2 by (simp add: dec.simps [of n] dec.simps [of "n div 10"])
    have "digit_char (n div 10) \<noteq> CHR ''0''"
      using \<open>n div 10 < 10\<close> \<open>n div 10 \<noteq> 0\<close>
      by (auto dest!: arg_cong [where f = "of_char :: char \<Rightarrow> nat"])
    with 2 \<open>n div 10 < 10\<close> show ?thesis
      by (simp add: read_number_def d stop starts_with_def)
  next
    case 3
    then have h: "n div 10 div 10 < 10" "n div 10 \<ge> 10" "n div 10 div 10 \<noteq> 0" using assms(1) by auto
    then have d: "dec n = [digit_char (n div 10 div 10), digit_char (n div 10 mod 10),
        digit_char (n mod 10)]"
      using 3 by (simp add: dec.simps [of n] dec.simps [of "n div 10"] dec.simps [of "n div 10 div 10"])
    have v: "(n div 10 div 10 * 10 + n div 10 mod 10) * 10 + n mod 10 = n" by presburger
    have "digit_char (n div 10 div 10) \<noteq> CHR ''0''"
      using h by (auto dest!: arg_cong [where f = "of_char :: char \<Rightarrow> nat"])
    with 3 h v assms(1) show ?thesis
      by (simp add: read_number_def d stop starts_with_def)
  qed
qed

lemma to_digit_dot [simp]: "to_digit 10 (CHR ''.'') = None"
  by (simp add: to_digit_def)

lemma read_ipv4_Suc: "read_ipv4 s = read_ipv4_groups (Suc (Suc (Suc (Suc 0)))) 0 s"
  by (simp add: read_ipv4_def numeral_eq_Suc)

lemma read_ipv4_octets:
  assumes "length os = 4" and "rest = [] \<or> to_digit 10 (hd rest) = None"
  shows "read_ipv4 (join ''.'' (map (\<lambda>o'. dec (unat o')) os) @ rest) = Some (os, rest)"
proof -
  obtain a b c d where os: "os = [a, b, c, d]"
    using assms(1) by (auto simp: numeral_eq_Suc length_Suc_conv)
  have le: "unat x \<le> 255" for x :: u8 using unat_lt [of x] by simp
  have num: "read_number 10 3 False 255 (dec (unat x) @ CHR ''.'' # r) = Some (unat x, CHR ''.'' # r)"
    for x :: u8 and r by (rule read_number_dec) (auto simp: le)
  have num': "read_number 10 3 False 255 (dec (unat d) @ rest) = Some (unat d, rest)"
    by (rule read_number_dec) (auto simp: le assms(2))
  show ?thesis
    by (simp add: os read_ipv4_Suc read_sep_def strip_prefix_def starts_with_def num num')
qed

lemma parse_ipv4_to_string: "parse_ipv4 (ipv4_to_string a) = Some a"
  using read_ipv4_octets [of "ipv4_octets a" "[]"]
  by (simp add: parse_ipv4_def ipv4_to_string_def)

lemma parse_ip_ipv4_to_string: "parse_ip (ipv4_to_string a) = Some (V4 a)"
  using read_ipv4_octets [of "ipv4_octets a" "[]"]
  by (simp add: parse_ip_def ipv4_to_string_def)

end
