(* ===== verification/Addresses.thy ===== *)
theory Addresses
  imports Ip_Text
begin

text \<open>
  Address handling of \<open>utils.rs\<close>: MAC addresses as text, MAC classification, IPv4
  subnet membership, IPv6 address types, interface roles, and what an ARP or neighbour
  table entry says about the ownership of an address. A \<open>[u8; 6]\<close> is a list of six bytes.
\<close>

type_synonym mac = bytes

section \<open>MAC addresses as text\<close>

datatype mac_error = InvalidMacFormat string | InvalidMacHex string

definition mac_to_string :: "mac \<Rightarrow> string" where
  "mac_to_string m = join '':'' (map hex02 m)"

fun parse_mac_parts :: "string list \<Rightarrow> mac_error + mac" where
  "parse_mac_parts [] = Inr []"
| "parse_mac_parts (p # ps) =
     (case parse_hex_u8 (trim p) of
        None \<Rightarrow> Inl (InvalidMacHex p)
      | Some b \<Rightarrow> (case parse_mac_parts ps of Inl e \<Rightarrow> Inl e | Inr bs \<Rightarrow> Inr (b # bs)))"

definition mac_from_str :: "string \<Rightarrow> mac_error + mac" where
  "mac_from_str s =
     (let parts = splitn 6 (CHR '':'') s in
      if length parts \<noteq> 6 then Inl (InvalidMacFormat s) else parse_mac_parts parts)"

lemma parse_mac_parts_hex02: "parse_mac_parts (map hex02 m) = Inr m"
  by (induction m) (auto simp: trim_no_ws no_ws_hex02)

lemma length_parse_mac_parts: "parse_mac_parts ps = Inr m \<Longrightarrow> length m = length ps"
  by (induction ps arbitrary: m) (auto split: option.splits sum.splits)

lemma colon_notin_hex02 [simp]: "CHR '':'' \<notin> set (hex02 b)"
proof -
  have "unat b < 256" using unat_lt [of b] by simp
  then have "unat b div 16 < 16" by auto
  then show ?thesis by (auto simp: hex02_def dest: sym)
qed

lemma splitn_hex02:
  "length m = n \<Longrightarrow> 0 < n \<Longrightarrow> splitn n (CHR '':'') (join '':'' (map hex02 m)) = map hex02 m"
proof (induction m arbitrary: n)
  case Nil
  then show ?case by simp
next
  case (Cons b m)
  show ?case
  proof (cases m)
    case Nil
    with Cons.prems have "n = Suc 0" by simp
    with Nil show ?thesis by simp
  next
    case (Cons c m')
    then obtain k where k: "n = Suc (Suc k)" "length m = Suc k"
      using Cons.prems by (cases n) auto
    have "splitn (Suc k) (CHR '':'') (join '':'' (map hex02 m)) = map hex02 m"
      using Cons.IH k by simp
    then show ?thesis
      using k(1) Cons by (simp add: split_once_Some_append)
  qed
qed

lemma mac_from_str_length: "mac_from_str s = Inr m \<Longrightarrow> length m = 6"
  by (auto simp: mac_from_str_def Let_def dest: length_parse_mac_parts split: if_splits)

lemma mac_from_to_string: "length m = 6 \<Longrightarrow> mac_from_str (mac_to_string m) = Inr m"
  by (simp add: mac_from_str_def mac_to_string_def splitn_hex02 parse_mac_parts_hex02)

lemma mac_to_string_inj:
  "length m = 6 \<Longrightarrow> length m' = 6 \<Longrightarrow> mac_to_string m = mac_to_string m' \<Longrightarrow> m = m'"
  by (metis mac_from_to_string sum.inject(2))

section \<open>MAC classes\<close>

definition is_special_mac_address :: "mac \<Rightarrow> bool" where
  "is_special_mac_address m =
     (if m = [255, 255, 255, 255, 255, 255] then True
      else if m ! 0 AND 1 = 1 then True
      else if m = [0, 0, 0, 0, 0, 0] then True
      else False)"

definition is_broadcast_mac :: "mac \<Rightarrow> bool" where
  "is_broadcast_mac m = (m = replicate 6 255)"

definition is_multicast_mac :: "mac \<Rightarrow> bool" where
  "is_multicast_mac m = (m ! 0 AND 1 \<noteq> 0)"

lemma and_1_cases: "(x :: u8) AND 1 = 0 \<or> x AND 1 = 1"
  by (simp add: and_one_eq mod2_eq_if)

lemma replicate_6: "replicate 6 x = [x, x, x, x, x, x]"
  by (simp add: numeral_eq_Suc)

lemma broadcast_is_multicast: "is_broadcast_mac m \<Longrightarrow> is_multicast_mac m"
  by (simp add: is_broadcast_mac_def is_multicast_mac_def replicate_6)

lemma not_special_unicast:
  assumes "\<not> is_special_mac_address m"
  shows "\<not> is_multicast_mac m" and "\<not> is_broadcast_mac m"
proof -
  show m: "\<not> is_multicast_mac m"
    using assms and_1_cases [of "m ! 0"]
    by (auto simp: is_special_mac_address_def is_multicast_mac_def split: if_splits)
  then show "\<not> is_broadcast_mac m"
    using broadcast_is_multicast by blast
qed

section \<open>IPv4 subnets\<close>

definition ipv4_mask :: "nat \<Rightarrow> u32" where
  "ipv4_mask prefix = (if prefix = 0 then 0 else push_bit (32 - prefix) (- 1))"

definition ipv4_in_cidr :: "string \<Rightarrow> string \<Rightarrow> bool" where
  "ipv4_in_cidr ip cidr =
     (case split_once (CHR ''/'') cidr of None \<Rightarrow> False
      | Some (net_str, prefix_str) \<Rightarrow>
        (case parse_ipv4 ip of None \<Rightarrow> False
         | Some ip_addr \<Rightarrow> (case parse_ipv4 net_str of None \<Rightarrow> False
           | Some net_addr \<Rightarrow> (case parse_u8 prefix_str of None \<Rightarrow> False
             | Some v \<Rightarrow> if v \<le> 32
                 then ip_addr AND ipv4_mask (unat v) = net_addr AND ipv4_mask (unat v)
                 else False))))"

text \<open>\<open>monitor.rs\<close> parses the same text once per snapshot into (network, mask).\<close>

definition parse_cidr_to_u32 :: "string \<Rightarrow> (u32 \<times> u32) option" where
  "parse_cidr_to_u32 cidr =
     (case split_once (CHR ''/'') (trim cidr) of None \<Rightarrow> None
      | Some (ip_str, prefix_str) \<Rightarrow>
        (case parse_ipv4 (trim ip_str) of None \<Rightarrow> None
         | Some ip \<Rightarrow> (case parse_u32 (trim prefix_str) of None \<Rightarrow> None
           | Some prefix \<Rightarrow>
              if prefix > 32 then None
              else (let mask = (if prefix = 0 then 0
                                else if prefix = 32 then - 1
                                else push_bit (32 - unat prefix) (- 1))
                    in Some (ip AND mask, mask)))))"

lemma bit_ipv4_mask: "bit (ipv4_mask p) i \<longleftrightarrow> 32 - p \<le> i \<and> i < 32" if "p \<le> 32"
  using that by (auto simp: ipv4_mask_def bit_simps)

lemma masked_eq_iff_drop_bit:
  assumes "p \<le> 32"
  shows "a AND ipv4_mask p = b AND ipv4_mask p \<longleftrightarrow> drop_bit (32 - p) a = drop_bit (32 - p) b"
proof
  assume eq: "a AND ipv4_mask p = b AND ipv4_mask p"
  show "drop_bit (32 - p) a = drop_bit (32 - p) b"
  proof (rule bit_word_eqI)
    fix n assume "n < LENGTH(32)"
    have "bit (a AND ipv4_mask p) (32 - p + n) = bit (b AND ipv4_mask p) (32 - p + n)"
      using eq by simp
    then show "bit (drop_bit (32 - p) a) n = bit (drop_bit (32 - p) b) n"
      using bit_imp_le_length [of a "32 - p + n"] bit_imp_le_length [of b "32 - p + n"]
      by (auto simp: bit_simps bit_ipv4_mask [OF assms])
  qed
next
  assume eq: "drop_bit (32 - p) a = drop_bit (32 - p) b"
  show "a AND ipv4_mask p = b AND ipv4_mask p"
  proof (rule bit_word_eqI)
    fix n assume n: "n < LENGTH(32)"
    have "bit (drop_bit (32 - p) a) (n - (32 - p)) = bit (drop_bit (32 - p) b) (n - (32 - p))"
      using eq by simp
    then show "bit (a AND ipv4_mask p) n = bit (b AND ipv4_mask p) n"
      by (auto simp: bit_simps bit_ipv4_mask [OF assms])
  qed
qed

section \<open>IPv6 address types\<close>

datatype ipv6_addr_kind = Loopback6 | LinkLocal6 | UniqueLocal6 | GlobalUnicast6 | Multicast6
  | Unspecified6 | Other6

definition ipv6_addr_type :: "128 word \<Rightarrow> ipv6_addr_kind" where
  "ipv6_addr_type ip =
     (let s0 = ipv6_segments ip ! 0 in
      if ip_is_loopback6 ip then Loopback6
      else if ip = 0 then Unspecified6
      else if s0 AND 0xff00 = 0xff00 then Multicast6
      else if s0 AND 0xfe00 = 0xfe80 then LinkLocal6
      else if s0 AND 0xfe00 = 0xfc00 then UniqueLocal6
      else if s0 AND 0xe000 = 0x2000 then GlobalUnicast6
      else Other6)"

lemma and_fe00_not_fe80: "(s :: u16) AND 0xfe00 \<noteq> 0xfe80"
proof
  assume "s AND 0xfe00 = 0xfe80"
  then have "bit (s AND 0xfe00) 7 = bit (0xfe80 :: u16) 7" by simp
  then show False by (simp add: bit_simps)
qed

section \<open>Interface roles\<close>

datatype interface_role = RoleOther | RoleLoopback | RoleEthernet | RoleWifi | RoleBridge | RoleTun

fun is_included_in_topology :: "interface_role \<Rightarrow> bool \<Rightarrow> bool" where
  "is_included_in_topology RoleLoopback has_ip = False"
| "is_included_in_topology RoleOther has_ip = has_ip"
| "is_included_in_topology _ has_ip = True"

text \<open>
  The inputs are the contents of \<open>type\<close> and \<open>uevent\<close> (\<open>None\<close> when unreadable) and
  whether \<open>bridge\<close> and \<open>tun_flags\<close> exist under \<open>/sys/class/net/<ifname>\<close>.
\<close>

definition infer_role_from_sysfs ::
  "string \<Rightarrow> string option \<Rightarrow> bool \<Rightarrow> string option \<Rightarrow> bool \<Rightarrow> interface_role" where
  "infer_role_from_sysfs ifname type_file is_bridge uevent_file is_tun =
     (let dev_type = (case type_file of None \<Rightarrow> 0
                      | Some s \<Rightarrow> (case parse_u32 (trim s) of None \<Rightarrow> 0 | Some t \<Rightarrow> t));
          uevent = (case uevent_file of None \<Rightarrow> [] | Some s \<Rightarrow> s)
      in if is_bridge then RoleBridge
         else if contains_str ''DEVTYPE=wlan'' uevent then RoleWifi
         else if contains_str ''DEVTYPE=bridge'' uevent then RoleBridge
         else if dev_type = 772 then RoleLoopback
         else if dev_type = 1 then
           (let lower = to_ascii_lowercase ifname in
            if starts_with ''wifi'' lower \<or> starts_with ''wlan'' lower then RoleWifi
            else RoleEthernet)
         else if dev_type = 512 then RoleTun
         else if dev_type = 65534 then RoleTun
         else if is_tun then RoleTun
         else RoleOther)"

section \<open>Neighbour entries\<close>

definition strip_nonalpha :: "string \<Rightarrow> string" where
  "strip_nonalpha s =
     rev (dropWhile (\<lambda>c. \<not> is_ascii_alphabetic c)
       (rev (dropWhile (\<lambda>c. \<not> is_ascii_alphabetic c) s)))"

definition known_neighbor_states :: "string list" where
  "known_neighbor_states = [''REACHABLE'', ''STALE'', ''DELAY'', ''PROBE'', ''FAILED'', ''NOARP'',
     ''INCOMPLETE'', ''INVALID'']"

fun first_known_state :: "string list \<Rightarrow> string option" where
  "first_known_state [] = None"
| "first_known_state (p # ps) =
     (let n = to_ascii_uppercase (strip_nonalpha p) in
      if n \<in> set known_neighbor_states then Some n else first_known_state ps)"

definition extract_neighbor_state :: "string list \<Rightarrow> string option" where
  "extract_neighbor_state parts = first_known_state (rev parts)"

definition arp_confirms_ownership :: "string \<Rightarrow> bool" where
  "arp_confirms_ownership flags =
     (case parse_hex_u32 (trim_start_matches ''0x'' flags) of
        None \<Rightarrow> False | Some f \<Rightarrow> f AND 0xA = 0x2)"

definition neighbor_confirms_ownership :: "string \<Rightarrow> bool" where
  "neighbor_confirms_ownership state =
     (state \<in> {''REACHABLE'', ''STALE'', ''DELAY'', ''PROBE'', ''PERMANENT''})"

definition pick_best_neighbor_state :: "string \<Rightarrow> string \<Rightarrow> string" where
  "pick_best_neighbor_state a b =
     (let rank = (\<lambda>s :: string. if s = ''REACHABLE'' then 4 else if s = ''STALE'' then 3
                    else if s = ''DELAY'' then 2 else if s = ''PROBE'' then 1 else (0::nat))
      in if a = [] \<or> rank b > rank a then b else a)"

lemma first_known_state_mem: "first_known_state ps = Some s \<Longrightarrow> s \<in> set known_neighbor_states"
  by (induction ps) (auto simp: Let_def split: if_splits)

section \<open>Properties\<close>

text \<open>Printing a MAC address and parsing the text gives the address back.\<close>

theorem mac_roundtrip:
  assumes "length m = 6"
  shows "mac_from_str (mac_to_string m) = Inr m"
  using assms by (rule mac_from_to_string)

theorem mac_roundtrip_witness:
  "mac_from_str (mac_to_string [0xaa, 0xbb, 0xcc, 0xdd, 0xee, 0xff]) = Inr [0xaa, 0xbb, 0xcc, 0xdd, 0xee, 0xff]"
  by (rule mac_roundtrip) simp

end
