(* ===== verification/Common.thy ===== *)
theory Common
  imports Addresses
begin

text \<open>
  The types the kernel program and the daemon share (\<open>bandix-plus-common\<close>), with the memory
  layout of the DNS event header (\<open>repr(C)\<close>, little endian, 32 bytes with its tail padding),
  and the device registry of \<open>monitor.rs\<close>. A \<open>[u32; 4]\<close> is a list of four words.
\<close>

abbreviation device_traffic_max_entries :: nat where "device_traffic_max_entries \<equiv> 8192"
abbreviation dns_packet_max_bytes :: nat where "dns_packet_max_bytes \<equiv> 1600"

record dns_packet_header =
  ph_timestamp_ns :: u64
  ph_ifindex :: u32
  ph_captured_len :: u32
  ph_ip_offset :: u16
  ph_ip_version :: u8
  ph_direction :: u8
  ph_mac :: mac
  ph_has_mac :: u8

datatype ip_version = IpV4 | IpV6
datatype traffic_direction = Ingress | Egress

fun ip_version_byte :: "ip_version \<Rightarrow> u8" where
  "ip_version_byte IpV4 = 4" | "ip_version_byte IpV6 = 6"

fun direction_byte :: "traffic_direction \<Rightarrow> u8" where
  "direction_byte Ingress = 1" | "direction_byte Egress = 2"

record iface_traffic_key =
  ik_ifindex :: u32
  ik_ip_version :: u8
  ik_direction :: u8

record device_traffic_key =
  dk_ifindex :: u32
  dk_mac :: mac
  dk_ip_version :: u8
  dk_direction :: u8

record traffic_value =
  tv_packets :: u64
  tv_bytes :: u64

record ecm_traffic_key =
  ek_ip :: "u32 list"
  ek_ip_version :: u8
  ek_direction :: u8

record router_ip_key =
  rk_ip :: "u32 list"
  rk_ip_version :: u8

text \<open>The header as the bytes of the ring buffer item.\<close>

abbreviation dns_header_size :: nat where "dns_header_size \<equiv> 32"

definition encode_packet_header :: "dns_packet_header \<Rightarrow> bytes" where
  "encode_packet_header h =
     le64 (ph_timestamp_ns h) @ le32 (ph_ifindex h) @ le32 (ph_captured_len h) @ le16 (ph_ip_offset h)
     @ [ph_ip_version h, ph_direction h] @ ph_mac h @ [ph_has_mac h, 0] @ [0, 0, 0, 0]"

definition decode_packet_header :: "bytes \<Rightarrow> dns_packet_header" where
  "decode_packet_header bs =
     \<lparr>ph_timestamp_ns = of_le64 (slice 0 8 bs), ph_ifindex = of_le32 (slice 8 4 bs),
      ph_captured_len = of_le32 (slice 12 4 bs), ph_ip_offset = of_le16 (slice 16 2 bs),
      ph_ip_version = bs ! 18, ph_direction = bs ! 19, ph_mac = slice 20 6 bs, ph_has_mac = bs ! 26\<rparr>"

lemma nth_append_at: "length xs = n \<Longrightarrow> n \<le> i \<Longrightarrow> (xs @ ys) ! i = ys ! (i - n)"
  by (simp add: nth_append)

lemma length_encode_packet_header: "length (ph_mac h) = 6 \<Longrightarrow> length (encode_packet_header h) = 32"
  by (simp add: encode_packet_header_def)

lemma packet_header_roundtrip:
  assumes "length (ph_mac h) = 6"
  shows "decode_packet_header (encode_packet_header h @ rest) = h"
  using assms
  by (cases h) (simp add: encode_packet_header_def decode_packet_header_def slice_def nth_append)

section \<open>Known devices\<close>

record known_device =
  kd_ifindex :: u32
  kd_mac :: mac
  kd_ipv4 :: "string list"
  kd_ipv6 :: "string list"
  kd_hostname :: string
  kd_logical_iface :: string
  kd_subnet :: string
  kd_last_seen_ms :: u64

type_synonym device_key = "u32 \<times> mac"
type_synonym registry = "(device_key \<times> known_device) list"

end
