(* ===== verification/Buckets.thy ===== *)
theory Buckets
  imports Prelude "HOL-Library.Multiset"
begin

text \<open>
  The counters of \<open>monitor.rs\<close>: \<open>CounterQuad\<close> (rates and bytes per direction and IP
  version) and \<open>AggregatedBucket\<close> (an hour or a day of samples), with the operations that
  accumulate, filter, finalize and merge them, and the bucket arithmetic of \<open>api.rs\<close>.
  The four counter families (up and down, IPv4 and IPv6) are written out field by field as
  the code does; \<open>family\<close> and its accessors state the lemmas once for all four.
\<close>

section \<open>CounterQuad\<close>

record quad =
  q_up_v4_bps :: u64
  q_down_v4_bps :: u64
  q_up_v6_bps :: u64
  q_down_v6_bps :: u64
  q_up_v4_bytes :: u64
  q_down_v4_bytes :: u64
  q_up_v6_bytes :: u64
  q_down_v6_bytes :: u64

definition quad_default :: quad where
  "quad_default = \<lparr>q_up_v4_bps = 0, q_down_v4_bps = 0, q_up_v6_bps = 0, q_down_v6_bps = 0,
     q_up_v4_bytes = 0, q_down_v4_bytes = 0, q_up_v6_bytes = 0, q_down_v6_bytes = 0\<rparr>"

definition quad_is_empty :: "quad \<Rightarrow> bool" where
  "quad_is_empty q =
     (q_up_v4_bytes q = 0 \<and> q_down_v4_bytes q = 0 \<and> q_up_v6_bytes q = 0 \<and> q_down_v6_bytes q = 0
      \<and> q_up_v4_bps q = 0 \<and> q_down_v4_bps q = 0 \<and> q_up_v6_bps q = 0 \<and> q_down_v6_bps q = 0)"

definition add_quad :: "quad \<Rightarrow> quad \<Rightarrow> quad" where
  "add_quad dst src =
     \<lparr>q_up_v4_bps = sat_add (q_up_v4_bps dst) (q_up_v4_bps src),
      q_down_v4_bps = sat_add (q_down_v4_bps dst) (q_down_v4_bps src),
      q_up_v6_bps = sat_add (q_up_v6_bps dst) (q_up_v6_bps src),
      q_down_v6_bps = sat_add (q_down_v6_bps dst) (q_down_v6_bps src),
      q_up_v4_bytes = sat_add (q_up_v4_bytes dst) (q_up_v4_bytes src),
      q_down_v4_bytes = sat_add (q_down_v4_bytes dst) (q_down_v4_bytes src),
      q_up_v6_bytes = sat_add (q_up_v6_bytes dst) (q_up_v6_bytes src),
      q_down_v6_bytes = sat_add (q_down_v6_bytes dst) (q_down_v6_bytes src)\<rparr>"

definition add_bytes_quad :: "quad \<Rightarrow> quad \<Rightarrow> quad" where
  "add_bytes_quad dst src =
     dst\<lparr>q_up_v4_bytes := sat_add (q_up_v4_bytes dst) (q_up_v4_bytes src),
         q_down_v4_bytes := sat_add (q_down_v4_bytes dst) (q_down_v4_bytes src),
         q_up_v6_bytes := sat_add (q_up_v6_bytes dst) (q_up_v6_bytes src),
         q_down_v6_bytes := sat_add (q_down_v6_bytes dst) (q_down_v6_bytes src)\<rparr>"

definition bytes_only :: "quad \<Rightarrow> quad" where
  "bytes_only src =
     quad_default\<lparr>q_up_v4_bytes := q_up_v4_bytes src, q_down_v4_bytes := q_down_v4_bytes src,
        q_up_v6_bytes := q_up_v6_bytes src, q_down_v6_bytes := q_down_v6_bytes src\<rparr>"

section \<open>AggregatedBucket\<close>

record bucket =
  start_ts_ms :: u64
  end_ts_ms :: u64
  sample_count :: u64
  up_v4_bytes :: u64
  down_v4_bytes :: u64
  up_v6_bytes :: u64
  down_v6_bytes :: u64
  up_v4_bps_sum :: u64
  up_v4_bps_max :: u64
  up_v4_bps_min :: u64
  down_v4_bps_sum :: u64
  down_v4_bps_max :: u64
  down_v4_bps_min :: u64
  up_v6_bps_sum :: u64
  up_v6_bps_max :: u64
  up_v6_bps_min :: u64
  down_v6_bps_sum :: u64
  down_v6_bps_max :: u64
  down_v6_bps_min :: u64
  up_v4_bps_avg :: u64
  up_v4_bps_p95 :: u64
  down_v4_bps_avg :: u64
  down_v4_bps_p95 :: u64
  up_v6_bps_avg :: u64
  up_v6_bps_p95 :: u64
  down_v6_bps_avg :: u64
  down_v6_bps_p95 :: u64

definition empty_bucket :: "u64 \<Rightarrow> u64 \<Rightarrow> bucket" where
  "empty_bucket s e =
     \<lparr>start_ts_ms = s, end_ts_ms = e, sample_count = 0,
      up_v4_bytes = 0, down_v4_bytes = 0, up_v6_bytes = 0, down_v6_bytes = 0,
      up_v4_bps_sum = 0, up_v4_bps_max = 0, up_v4_bps_min = 0,
      down_v4_bps_sum = 0, down_v4_bps_max = 0, down_v4_bps_min = 0,
      up_v6_bps_sum = 0, up_v6_bps_max = 0, up_v6_bps_min = 0,
      down_v6_bps_sum = 0, down_v6_bps_max = 0, down_v6_bps_min = 0,
      up_v4_bps_avg = 0, up_v4_bps_p95 = 0, down_v4_bps_avg = 0, down_v4_bps_p95 = 0,
      up_v6_bps_avg = 0, up_v6_bps_p95 = 0, down_v6_bps_avg = 0, down_v6_bps_p95 = 0\<rparr>"

datatype history_traffic_type = TTAll | TTIpv4 | TTIpv6

fun with_traffic_type :: "bucket \<Rightarrow> history_traffic_type \<Rightarrow> bucket" where
  "with_traffic_type b TTAll = b"
| "with_traffic_type b TTIpv4 =
     b\<lparr>up_v6_bytes := 0, down_v6_bytes := 0,
       up_v6_bps_sum := 0, up_v6_bps_avg := 0, up_v6_bps_max := 0, up_v6_bps_min := 0, up_v6_bps_p95 := 0,
       down_v6_bps_sum := 0, down_v6_bps_avg := 0, down_v6_bps_max := 0, down_v6_bps_min := 0,
       down_v6_bps_p95 := 0\<rparr>"
| "with_traffic_type b TTIpv6 =
     b\<lparr>up_v4_bytes := 0, down_v4_bytes := 0,
       up_v4_bps_sum := 0, up_v4_bps_avg := 0, up_v4_bps_max := 0, up_v4_bps_min := 0, up_v4_bps_p95 := 0,
       down_v4_bps_sum := 0, down_v4_bps_avg := 0, down_v4_bps_max := 0, down_v4_bps_min := 0,
       down_v4_bps_p95 := 0\<rparr>"

text \<open>The average fields, set when there are samples (shared by \<open>finalize\<close> and the daily merge).\<close>

definition set_averages :: "bucket \<Rightarrow> bucket" where
  "set_averages b =
     (if sample_count b > 0
      then b\<lparr>up_v4_bps_avg := up_v4_bps_sum b div sample_count b,
             down_v4_bps_avg := down_v4_bps_sum b div sample_count b,
             up_v6_bps_avg := up_v6_bps_sum b div sample_count b,
             down_v6_bps_avg := down_v6_bps_sum b div sample_count b\<rparr>
      else b)"

definition set_p95 :: "bucket \<Rightarrow> bucket" where
  "set_p95 b =
     b\<lparr>up_v4_bps_p95 := up_v4_bps_max b, down_v4_bps_p95 := down_v4_bps_max b,
       up_v6_bps_p95 := up_v6_bps_max b, down_v6_bps_p95 := down_v6_bps_max b\<rparr>"

definition finalize :: "bucket \<Rightarrow> bucket" where
  "finalize b = set_p95 (set_averages b)"

text \<open>The body of \<open>ingest_iface\<close> and \<open>ingest_device\<close>: one sample into the current bucket.\<close>

definition add_sample :: "quad \<Rightarrow> bucket \<Rightarrow> bucket" where
  "add_sample m e =
     (let first = (sample_count e = 0) in
      e\<lparr>up_v4_bytes := sat_add (up_v4_bytes e) (q_up_v4_bytes m),
        down_v4_bytes := sat_add (down_v4_bytes e) (q_down_v4_bytes m),
        up_v6_bytes := sat_add (up_v6_bytes e) (q_up_v6_bytes m),
        down_v6_bytes := sat_add (down_v6_bytes e) (q_down_v6_bytes m),
        up_v4_bps_min := (if first then q_up_v4_bps m else min (up_v4_bps_min e) (q_up_v4_bps m)),
        down_v4_bps_min := (if first then q_down_v4_bps m else min (down_v4_bps_min e) (q_down_v4_bps m)),
        up_v6_bps_min := (if first then q_up_v6_bps m else min (up_v6_bps_min e) (q_up_v6_bps m)),
        down_v6_bps_min := (if first then q_down_v6_bps m else min (down_v6_bps_min e) (q_down_v6_bps m)),
        up_v4_bps_max := max (up_v4_bps_max e) (q_up_v4_bps m),
        down_v4_bps_max := max (down_v4_bps_max e) (q_down_v4_bps m),
        up_v6_bps_max := max (up_v6_bps_max e) (q_up_v6_bps m),
        down_v6_bps_max := max (down_v6_bps_max e) (q_down_v6_bps m),
        up_v4_bps_sum := sat_add (up_v4_bps_sum e) (q_up_v4_bps m),
        down_v4_bps_sum := sat_add (down_v4_bps_sum e) (q_down_v4_bps m),
        up_v6_bps_sum := sat_add (up_v6_bps_sum e) (q_up_v6_bps m),
        down_v6_bps_sum := sat_add (down_v6_bps_sum e) (q_down_v6_bps m),
        sample_count := sample_count e + 1\<rparr>)"

text \<open>One hourly bucket into the daily accumulator (\<open>merge_hourly_to_daily\<close>).\<close>

definition merge_min :: "u64 \<Rightarrow> u64 \<Rightarrow> u64" where
  "merge_min acc b = (if acc = 0 \<or> (b > 0 \<and> b < acc) then b else acc)"

definition merge_bucket :: "bucket \<Rightarrow> bucket \<Rightarrow> bucket" where
  "merge_bucket b acc =
     (let acc1 = acc\<lparr>
        up_v4_bytes := sat_add (up_v4_bytes acc) (up_v4_bytes b),
        down_v4_bytes := sat_add (down_v4_bytes acc) (down_v4_bytes b),
        up_v6_bytes := sat_add (up_v6_bytes acc) (up_v6_bytes b),
        down_v6_bytes := sat_add (down_v6_bytes acc) (down_v6_bytes b),
        up_v4_bps_max := max (up_v4_bps_max acc) (up_v4_bps_max b),
        down_v4_bps_max := max (down_v4_bps_max acc) (down_v4_bps_max b),
        up_v6_bps_max := max (up_v6_bps_max acc) (up_v6_bps_max b),
        down_v6_bps_max := max (down_v6_bps_max acc) (down_v6_bps_max b),
        up_v4_bps_min := merge_min (up_v4_bps_min acc) (up_v4_bps_min b),
        down_v4_bps_min := merge_min (down_v4_bps_min acc) (down_v4_bps_min b),
        up_v6_bps_min := merge_min (up_v6_bps_min acc) (up_v6_bps_min b),
        down_v6_bps_min := merge_min (down_v6_bps_min acc) (down_v6_bps_min b)\<rparr>;
          acc2 = (set_p95 acc1)\<lparr>
        sample_count := sat_add (sample_count acc) (sample_count b),
        up_v4_bps_sum := sat_add (up_v4_bps_sum acc) (up_v4_bps_sum b),
        down_v4_bps_sum := sat_add (down_v4_bps_sum acc) (down_v4_bps_sum b),
        up_v6_bps_sum := sat_add (up_v6_bps_sum acc) (up_v6_bps_sum b),
        down_v6_bps_sum := sat_add (down_v6_bps_sum acc) (down_v6_bps_sum b)\<rparr>
      in set_averages acc2)"

text \<open>\<open>api.rs\<close>: summing the buckets of several devices over the same window.\<close>

definition accumulate_bucket :: "bucket \<Rightarrow> bucket \<Rightarrow> bucket" where
  "accumulate_bucket dst src =
     dst\<lparr>up_v4_bytes := sat_add (up_v4_bytes dst) (up_v4_bytes src),
         down_v4_bytes := sat_add (down_v4_bytes dst) (down_v4_bytes src),
         up_v6_bytes := sat_add (up_v6_bytes dst) (up_v6_bytes src),
         down_v6_bytes := sat_add (down_v6_bytes dst) (down_v6_bytes src),
         up_v4_bps_avg := sat_add (up_v4_bps_avg dst) (up_v4_bps_avg src),
         up_v4_bps_max := sat_add (up_v4_bps_max dst) (up_v4_bps_max src),
         up_v4_bps_min := sat_add (up_v4_bps_min dst) (up_v4_bps_min src),
         up_v4_bps_p95 := sat_add (up_v4_bps_p95 dst) (up_v4_bps_p95 src),
         down_v4_bps_avg := sat_add (down_v4_bps_avg dst) (down_v4_bps_avg src),
         down_v4_bps_max := sat_add (down_v4_bps_max dst) (down_v4_bps_max src),
         down_v4_bps_min := sat_add (down_v4_bps_min dst) (down_v4_bps_min src),
         down_v4_bps_p95 := sat_add (down_v4_bps_p95 dst) (down_v4_bps_p95 src),
         up_v6_bps_avg := sat_add (up_v6_bps_avg dst) (up_v6_bps_avg src),
         up_v6_bps_max := sat_add (up_v6_bps_max dst) (up_v6_bps_max src),
         up_v6_bps_min := sat_add (up_v6_bps_min dst) (up_v6_bps_min src),
         up_v6_bps_p95 := sat_add (up_v6_bps_p95 dst) (up_v6_bps_p95 src),
         down_v6_bps_avg := sat_add (down_v6_bps_avg dst) (down_v6_bps_avg src),
         down_v6_bps_max := sat_add (down_v6_bps_max dst) (down_v6_bps_max src),
         down_v6_bps_min := sat_add (down_v6_bps_min dst) (down_v6_bps_min src),
         down_v6_bps_p95 := sat_add (down_v6_bps_p95 dst) (down_v6_bps_p95 src)\<rparr>"

definition add_bucket_bytes :: "quad \<Rightarrow> bucket \<Rightarrow> quad" where
  "add_bucket_bytes dst b =
     dst\<lparr>q_up_v4_bytes := sat_add (q_up_v4_bytes dst) (up_v4_bytes b),
         q_down_v4_bytes := sat_add (q_down_v4_bytes dst) (down_v4_bytes b),
         q_up_v6_bytes := sat_add (q_up_v6_bytes dst) (up_v6_bytes b),
         q_down_v6_bytes := sat_add (q_down_v6_bytes dst) (down_v6_bytes b)\<rparr>"

definition cumulative_from_buckets :: "bucket list \<Rightarrow> quad" where
  "cumulative_from_buckets bs = foldl add_bucket_bytes quad_default bs"

section \<open>The four counter families\<close>

datatype family = UpV4 | DownV4 | UpV6 | DownV6

fun q_bps :: "family \<Rightarrow> quad \<Rightarrow> u64" where
  "q_bps UpV4 = q_up_v4_bps" | "q_bps DownV4 = q_down_v4_bps"
| "q_bps UpV6 = q_up_v6_bps" | "q_bps DownV6 = q_down_v6_bps"

fun q_bytes :: "family \<Rightarrow> quad \<Rightarrow> u64" where
  "q_bytes UpV4 = q_up_v4_bytes" | "q_bytes DownV4 = q_down_v4_bytes"
| "q_bytes UpV6 = q_up_v6_bytes" | "q_bytes DownV6 = q_down_v6_bytes"

fun b_bytes :: "family \<Rightarrow> bucket \<Rightarrow> u64" where
  "b_bytes UpV4 = up_v4_bytes" | "b_bytes DownV4 = down_v4_bytes"
| "b_bytes UpV6 = up_v6_bytes" | "b_bytes DownV6 = down_v6_bytes"

fun b_sum :: "family \<Rightarrow> bucket \<Rightarrow> u64" where
  "b_sum UpV4 = up_v4_bps_sum" | "b_sum DownV4 = down_v4_bps_sum"
| "b_sum UpV6 = up_v6_bps_sum" | "b_sum DownV6 = down_v6_bps_sum"

fun b_max :: "family \<Rightarrow> bucket \<Rightarrow> u64" where
  "b_max UpV4 = up_v4_bps_max" | "b_max DownV4 = down_v4_bps_max"
| "b_max UpV6 = up_v6_bps_max" | "b_max DownV6 = down_v6_bps_max"

fun b_min :: "family \<Rightarrow> bucket \<Rightarrow> u64" where
  "b_min UpV4 = up_v4_bps_min" | "b_min DownV4 = down_v4_bps_min"
| "b_min UpV6 = up_v6_bps_min" | "b_min DownV6 = down_v6_bps_min"

fun b_avg :: "family \<Rightarrow> bucket \<Rightarrow> u64" where
  "b_avg UpV4 = up_v4_bps_avg" | "b_avg DownV4 = down_v4_bps_avg"
| "b_avg UpV6 = up_v6_bps_avg" | "b_avg DownV6 = down_v6_bps_avg"

fun b_p95 :: "family \<Rightarrow> bucket \<Rightarrow> u64" where
  "b_p95 UpV4 = up_v4_bps_p95" | "b_p95 DownV4 = down_v4_bps_p95"
| "b_p95 UpV6 = up_v6_bps_p95" | "b_p95 DownV6 = down_v6_bps_p95"

lemma quad_eq_iff: "q = q' \<longleftrightarrow> (\<forall>f. q_bps f q = q_bps f q' \<and> q_bytes f q = q_bytes f q')" for q q' :: quad
proof
  assume h: "\<forall>f. q_bps f q = q_bps f q' \<and> q_bytes f q = q_bytes f q'"
  show "q = q'"
    using spec [OF h, of UpV4] spec [OF h, of DownV4] spec [OF h, of UpV6] spec [OF h, of DownV6]
    by (cases q; cases q') simp
qed simp

lemma q_add_quad [simp]:
  "q_bps f (add_quad a b) = sat_add (q_bps f a) (q_bps f b)"
  "q_bytes f (add_quad a b) = sat_add (q_bytes f a) (q_bytes f b)"
  by (cases f; simp add: add_quad_def)+

lemma q_add_bytes_quad [simp]:
  "q_bps f (add_bytes_quad a b) = q_bps f a"
  "q_bytes f (add_bytes_quad a b) = sat_add (q_bytes f a) (q_bytes f b)"
  by (cases f; simp add: add_bytes_quad_def)+

lemma q_default [simp]: "q_bps f quad_default = 0" "q_bytes f quad_default = 0"
  by (cases f; simp add: quad_default_def)+

lemma q_bytes_only [simp]: "q_bps f (bytes_only q) = 0" "q_bytes f (bytes_only q) = q_bytes f q"
  by (cases f; simp add: bytes_only_def quad_default_def)+

lemma quad_is_empty_iff: "quad_is_empty q \<longleftrightarrow> (\<forall>f. q_bps f q = 0 \<and> q_bytes f q = 0)"
proof
  assume h: "\<forall>f. q_bps f q = 0 \<and> q_bytes f q = 0"
  show "quad_is_empty q"
    using spec [OF h, of UpV4] spec [OF h, of DownV4] spec [OF h, of UpV6] spec [OF h, of DownV6]
    by (simp add: quad_is_empty_def)
next
  assume "quad_is_empty q"
  then show "\<forall>f. q_bps f q = 0 \<and> q_bytes f q = 0"
    by (intro allI; rename_tac f; case_tac f) (simp_all add: quad_is_empty_def)
qed

lemma q_add_bucket_bytes [simp]:
  "q_bps f (add_bucket_bytes a b) = q_bps f a"
  "q_bytes f (add_bucket_bytes a b) = sat_add (q_bytes f a) (b_bytes f b)"
  by (cases f; simp add: add_bucket_bytes_def)+

lemma b_empty_bucket [simp]:
  "b_bytes f (empty_bucket s e) = 0" "b_sum f (empty_bucket s e) = 0"
  "b_max f (empty_bucket s e) = 0" "b_min f (empty_bucket s e) = 0"
  "sample_count (empty_bucket s e) = 0"
  "start_ts_ms (empty_bucket s e) = s" "end_ts_ms (empty_bucket s e) = e"
  by (cases f; simp add: empty_bucket_def)+

lemma b_add_sample [simp]:
  "b_bytes f (add_sample m e) = sat_add (b_bytes f e) (q_bytes f m)"
  "b_sum f (add_sample m e) = sat_add (b_sum f e) (q_bps f m)"
  "b_max f (add_sample m e) = max (b_max f e) (q_bps f m)"
  "b_min f (add_sample m e) =
     (if sample_count e = 0 then q_bps f m else min (b_min f e) (q_bps f m))"
  "sample_count (add_sample m e) = sample_count e + 1"
  "start_ts_ms (add_sample m e) = start_ts_ms e" "end_ts_ms (add_sample m e) = end_ts_ms e"
  by (cases f; simp add: add_sample_def Let_def)+

lemma b_finalize [simp]:
  "b_bytes f (finalize e) = b_bytes f e" "b_sum f (finalize e) = b_sum f e"
  "b_max f (finalize e) = b_max f e" "b_min f (finalize e) = b_min f e"
  "b_p95 f (finalize e) = b_max f e"
  "b_avg f (finalize e) =
     (if sample_count e > 0 then b_sum f e div sample_count e else b_avg f e)"
  "sample_count (finalize e) = sample_count e"
  "start_ts_ms (finalize e) = start_ts_ms e" "end_ts_ms (finalize e) = end_ts_ms e"
  by (cases f; simp add: finalize_def set_p95_def set_averages_def)+

text \<open>The derived fields are apart from the others.\<close>

lemma b_set:
  "b_bytes f (set_p95 e) = b_bytes f e" "b_bytes f (set_averages e) = b_bytes f e"
  "b_sum f (set_p95 e) = b_sum f e" "b_sum f (set_averages e) = b_sum f e"
  "b_max f (set_p95 e) = b_max f e" "b_max f (set_averages e) = b_max f e"
  by (cases f; simp add: set_p95_def set_averages_def)+

lemma set_shared:
  "sample_count (set_p95 e) = sample_count e" "sample_count (set_averages e) = sample_count e"
  "start_ts_ms (set_p95 e) = start_ts_ms e" "start_ts_ms (set_averages e) = start_ts_ms e"
  "end_ts_ms (set_p95 e) = end_ts_ms e" "end_ts_ms (set_averages e) = end_ts_ms e"
  by (simp_all add: set_p95_def set_averages_def)

lemmas b_set_fields =
  b_set [where f = UpV4, simplified] b_set [where f = DownV4, simplified]
  b_set [where f = UpV6, simplified] b_set [where f = DownV6, simplified] set_shared

lemma b_merge_bucket [simp]:
  "b_bytes f (merge_bucket b e) = sat_add (b_bytes f e) (b_bytes f b)"
  "b_sum f (merge_bucket b e) = sat_add (b_sum f e) (b_sum f b)"
  "b_max f (merge_bucket b e) = max (b_max f e) (b_max f b)"
  "sample_count (merge_bucket b e) = sat_add (sample_count e) (sample_count b)"
  "start_ts_ms (merge_bucket b e) = start_ts_ms e" "end_ts_ms (merge_bucket b e) = end_ts_ms e"
  by (cases f; simp add: merge_bucket_def Let_def b_set_fields)+

section \<open>Saturating sums\<close>

definition sat_sum :: "'a::len word list \<Rightarrow> 'a word" where
  "sat_sum xs = foldr sat_add xs 0"

lemma sat_sum_simps [simp]: "sat_sum [] = 0" "sat_sum (x # xs) = sat_add x (sat_sum xs)"
  by (simp_all add: sat_sum_def)

lemma unat_sat_sum [sat_simps]:
  "unat (sat_sum xs) = min (sum_list (map unat xs)) (2 ^ LENGTH('a) - 1)" for xs :: "'a::len word list"
  by (induction xs) (auto simp: sat_simps)

lemma sat_sum_append: "sat_sum (xs @ ys) = sat_add (sat_sum xs) (sat_sum ys)"
  by (induction xs) (auto simp: sat_add_assoc)

lemma sat_sum_mset_cong: "mset xs = mset ys \<Longrightarrow> sat_sum xs = sat_sum ys"
  by (metis mset_map sum_mset_sum_list unat_sat_sum word_unat_eq_iff)

lemma foldl_sat_add: "foldl (\<lambda>a m. sat_add a (g m)) z xs = sat_add z (sat_sum (map g xs))"
  by (induction xs arbitrary: z) (auto simp: sat_add_assoc)

lemma sat_sum_exact:
  "sum_list (map unat xs) < 2 ^ LENGTH('a) \<Longrightarrow> unat (sat_sum xs) = sum_list (map unat xs)"
  for xs :: "'a::len word list"
  by (simp add: unat_sat_sum min_def) linarith

lemma q_cumulative_from_buckets [simp]:
  "q_bytes f (cumulative_from_buckets bs) = sat_sum (map (b_bytes f) bs)"
  "q_bps f (cumulative_from_buckets bs) = 0"
proof -
  have "q_bytes f (foldl add_bucket_bytes q bs) = foldl (\<lambda>a b. sat_add a (b_bytes f b)) (q_bytes f q) bs" for q
    by (induction bs arbitrary: q) auto
  then show "q_bytes f (cumulative_from_buckets bs) = sat_sum (map (b_bytes f) bs)"
    by (simp add: cumulative_from_buckets_def foldl_sat_add)
  have "q_bps f (foldl add_bucket_bytes q bs) = q_bps f q" for q
    by (induction bs arbitrary: q) auto
  then show "q_bps f (cumulative_from_buckets bs) = 0"
    by (simp add: cumulative_from_buckets_def)
qed

section \<open>A bucket is the statistics of its samples\<close>

definition samples_bucket :: "u64 \<Rightarrow> u64 \<Rightarrow> quad list \<Rightarrow> bucket" where
  "samples_bucket s e ms = fold add_sample ms (empty_bucket s e)"

lemma samples_bucket_snoc: "samples_bucket s e (ms @ [m]) = add_sample m (samples_bucket s e ms)"
  by (simp add: samples_bucket_def)

lemma samples_bucket_bytes:
  "b_bytes f (samples_bucket s e ms) = sat_sum (map (q_bytes f) ms)"
  "b_sum f (samples_bucket s e ms) = sat_sum (map (q_bps f) ms)"
  by (induction ms rule: rev_induct)
     (auto simp: samples_bucket_snoc sat_sum_append, auto simp: samples_bucket_def)

lemma samples_bucket_count: "sample_count (samples_bucket s e ms) = of_nat (length ms)"
  by (induction ms rule: rev_induct) (auto simp: samples_bucket_snoc, simp add: samples_bucket_def)

lemma samples_bucket_max:
  "ms \<noteq> [] \<Longrightarrow> b_max f (samples_bucket s e ms) = Max (set (map (q_bps f) ms))"
proof (induction ms rule: rev_induct)
  case Nil
  then show ?case by simp
next
  case (snoc m ms)
  then show ?case
    by (cases "ms = []") (auto simp: samples_bucket_snoc max.commute, simp add: samples_bucket_def)
qed

lemma samples_bucket_min:
  "ms \<noteq> [] \<Longrightarrow> length ms < 2 ^ 64 \<Longrightarrow>
    b_min f (samples_bucket s e ms) = Min (set (map (q_bps f) ms))"
proof (induction ms rule: rev_induct)
  case Nil
  then show ?case by simp
next
  case (snoc m ms)
  show ?case
  proof (cases "ms = []")
    case True
    then show ?thesis by (simp add: samples_bucket_snoc) (simp add: samples_bucket_def)
  next
    case False
    have "(of_nat (length ms) :: u64) \<noteq> 0"
      using False snoc.prems by (simp add: word_of_nat_eq_0_iff nat_dvd_not_less)
    with False snoc show ?thesis
      by (auto simp: samples_bucket_snoc samples_bucket_count min.commute)
  qed
qed

lemma sum_list_bounds:
  fixes xs :: "nat list"
  assumes "xs \<noteq> []"
  shows "length xs * Min (set xs) \<le> sum_list xs" and "sum_list xs \<le> length xs * Max (set xs)"
proof -
  have "sum_list (map (\<lambda>_. Min (set xs)) xs) \<le> sum_list (map (\<lambda>x. x) xs)"
    by (rule sum_list_mono) simp
  then show "length xs * Min (set xs) \<le> sum_list xs" by (simp add: sum_list_triv)
  have "sum_list (map (\<lambda>x. x) xs) \<le> sum_list (map (\<lambda>_. Max (set xs)) xs)"
    by (rule sum_list_mono) simp
  then show "sum_list xs \<le> length xs * Max (set xs)" by (simp add: sum_list_triv)
qed

lemma unat_Min: "finite A \<Longrightarrow> A \<noteq> {} \<Longrightarrow> unat (Min A) = Min (unat ` A)" for A :: "u64 set"
  by (auto intro!: mono_Min_commute simp: mono_def word_le_nat_alt)

lemma unat_Max: "finite A \<Longrightarrow> A \<noteq> {} \<Longrightarrow> unat (Max A) = Max (unat ` A)" for A :: "u64 set"
  by (auto intro!: mono_Max_commute simp: mono_def word_le_nat_alt)

lemma average_between:
  fixes xs :: "u64 list"
  assumes "xs \<noteq> []" and "sum_list (map unat xs) < 2 ^ 64" and "length xs < 2 ^ 64"
  shows "Min (set xs) \<le> sat_sum xs div of_nat (length xs)"
    and "sat_sum xs div of_nat (length xs) \<le> Max (set xs)"
proof -
  let ?ns = "map unat xs"
  have len: "unat (of_nat (length xs) :: u64) = length xs"
    using assms(3) by (simp add: unat_of_nat)
  have sum: "unat (sat_sum xs) = sum_list ?ns"
    using sat_sum_exact [of xs] assms(2) by simp
  have ns: "?ns \<noteq> []" "0 < length xs" using assms(1) by auto
  have "Min (set ?ns) \<le> sum_list ?ns div length xs"
    using sum_list_bounds(1) [OF ns(1)] ns(2)
    by (metis div_le_mono length_map nonzero_mult_div_cancel_left less_numeral_extra(3))
  then show "Min (set xs) \<le> sat_sum xs div of_nat (length xs)"
    using assms(1) by (simp add: word_le_nat_alt unat_div len sum unat_Min)
  have "sum_list ?ns div length xs \<le> Max (set ?ns)"
    using sum_list_bounds(2) [OF ns(1)] ns(2)
    by (metis div_le_mono length_map nonzero_mult_div_cancel_left less_numeral_extra(3))
  then show "sat_sum xs div of_nat (length xs) \<le> Max (set xs)"
    using assms(1) by (simp add: word_le_nat_alt unat_div len sum unat_Max)
qed

text \<open>An hour's finalized bucket reports the statistics of the samples it was fed.\<close>

theorem hour_bucket_statistics:
  assumes "ms \<noteq> []" and "length ms < 2 ^ 64"
    and "sum_list (map (\<lambda>m. unat (q_bps f m)) ms) < 2 ^ 64"
  shows "let b = finalize (samples_bucket s e ms) in
     unat (sample_count b) = length ms
   \<and> b_bytes f b = sat_sum (map (q_bytes f) ms)
   \<and> b_min f b = Min (set (map (q_bps f) ms))
   \<and> b_max f b = Max (set (map (q_bps f) ms))
   \<and> b_p95 f b = b_max f b
   \<and> b_min f b \<le> b_avg f b \<and> b_avg f b \<le> b_max f b"
proof -
  have c: "unat (of_nat (length ms) :: u64) = length ms"
    using assms(2) by (simp add: unat_of_nat)
  then have "(of_nat (length ms) :: u64) > 0"
    using assms(1) by (simp add: word_less_nat_alt)
  with c average_between [of "map (q_bps f) ms"] assms show ?thesis
    by (simp add: Let_def samples_bucket_count samples_bucket_bytes samples_bucket_min
        samples_bucket_max o_def)
qed

theorem hour_bucket_statistics_witness:
  "let ms = [quad_default\<lparr>q_up_v4_bps := 4\<rparr>, quad_default\<lparr>q_up_v4_bps := 6\<rparr>];
       b = finalize (samples_bucket 0 1 ms)
   in b_min UpV4 b \<le> b_avg UpV4 b \<and> b_avg UpV4 b \<le> b_max UpV4 b"
proof -
  let ?ms = "[quad_default\<lparr>q_up_v4_bps := 4\<rparr>, quad_default\<lparr>q_up_v4_bps := 6\<rparr>]"
  have "?ms \<noteq> []" and "length ?ms < 2 ^ 64"
    and "sum_list (map (\<lambda>m. unat (q_bps UpV4 m)) ?ms) < 2 ^ 64"
    by (simp_all add: quad_default_def)
  from hour_bucket_statistics [OF this, of 0 1] show ?thesis unfolding Let_def by blast
qed

end
