(* ===== verification/Topology.thy ===== *)
theory Topology
  imports Addresses
begin

text \<open>
  \<open>topology.rs\<close>: the snapshot of the host's interfaces, built from the interface list, the
  subnets and the firewall zones read from the system, and its look-ups by index and by
  name. The bridge that enslaves an interface (\<open>/sys/class/net/<ifname>/master\<close>) is the
  parameter \<open>master\<close>.
\<close>

record interface_info =
  info_ifindex :: u32
  info_name :: string
  info_role :: interface_role

record interface =
  if_ifindex :: u32
  if_name :: string
  if_role :: interface_role
  if_zone :: string
  if_parent_ifindex :: "u32 option"
  if_ipv4_cidrs :: "string list"
  if_ipv6_cidrs :: "string list"

type_synonym topology = "(u32 \<times> interface) list"

definition infer_parent_name :: "(string \<Rightarrow> string option) \<Rightarrow> string \<Rightarrow> string option" where
  "infer_parent_name master ifname =
     (case master ifname of
        Some m \<Rightarrow> Some m
      | None \<Rightarrow> let base = hd (split_on CHR ''.'' ifname) in if base \<noteq> ifname then Some base else None)"

definition build_interface ::
  "(string \<Rightarrow> string option) \<Rightarrow> interface_info \<Rightarrow> (string \<Rightarrow> string list option)
   \<Rightarrow> (string \<Rightarrow> u32 option) \<Rightarrow> (string \<Rightarrow> string option) \<Rightarrow> interface" where
  "build_interface master info subnet_map by_name zones =
     (let cidrs = (case subnet_map (info_name info) of None \<Rightarrow> [] | Some cs \<Rightarrow> cs);
          parent_name = infer_parent_name master (info_name info);
          zone = (case zones (info_name info) of
                    Some z \<Rightarrow> Some z
                  | None \<Rightarrow> (case parent_name of None \<Rightarrow> None | Some p \<Rightarrow> zones p))
      in \<lparr>if_ifindex = info_ifindex info, if_name = info_name info, if_role = info_role info,
          if_zone = (case zone of None \<Rightarrow> ''unknown'' | Some z \<Rightarrow> z),
          if_parent_ifindex = (case parent_name of None \<Rightarrow> None | Some p \<Rightarrow> by_name p),
          if_ipv4_cidrs = filter (\<lambda>c. CHR '':'' \<notin> set c) cidrs,
          if_ipv6_cidrs = filter (\<lambda>c. CHR '':'' \<in> set c) cidrs\<rparr>)"

definition discover ::
  "(string \<Rightarrow> string option) \<Rightarrow> interface_info list \<Rightarrow> (string \<Rightarrow> string list option)
   \<Rightarrow> (string \<Rightarrow> string option) \<Rightarrow> topology" where
  "discover master infos subnet_map zones =
     (let by_name = foldl (\<lambda>m i. m(info_name i \<mapsto> info_ifindex i)) Map.empty infos
      in foldl (\<lambda>t i. let node = build_interface master i subnet_map by_name zones;
                          has_ip = (if_ipv4_cidrs node \<noteq> [] \<or> if_ipv6_cidrs node \<noteq> [])
                      in if is_included_in_topology (if_role node) has_ip
                         then AList.update (if_ifindex node) node t else t) [] infos)"

definition topology_interfaces :: "topology \<Rightarrow> interface list" where
  "topology_interfaces t = sort_key if_ifindex (map snd t)"

definition by_ifindex :: "topology \<Rightarrow> u32 \<Rightarrow> interface option" where
  "by_ifindex t i = map_of t i"

definition ifindex_by_name :: "topology \<Rightarrow> string \<Rightarrow> u32 option" where
  "ifindex_by_name t name =
     (let n = trim name
      in if n = [] then None
         else map_option if_ifindex (List.find (\<lambda>i. if_name i = n) (map snd t)))"

section \<open>Well-formed snapshots\<close>

definition entry_ok :: "u32 \<times> interface \<Rightarrow> bool" where
  "entry_ok e =
     (let (i, f) = e
      in if_ifindex f = i
       \<and> is_included_in_topology (if_role f) (if_ipv4_cidrs f \<noteq> [] \<or> if_ipv6_cidrs f \<noteq> [])
       \<and> list_all (\<lambda>c. CHR '':'' \<notin> set c) (if_ipv4_cidrs f)
       \<and> list_all (\<lambda>c. CHR '':'' \<in> set c) (if_ipv6_cidrs f))"

definition topology_ok :: "topology \<Rightarrow> bool" where
  "topology_ok t = (distinct (map fst t) \<and> list_all entry_ok t)"

lemma topology_ok_update:
  assumes "topology_ok t" and "topology_ok [(i, f)]"
  shows "topology_ok (AList.update i f t)"
proof -
  have "set (AList.update i f t) \<subseteq> insert (i, f) (set t)"
    by (induction t) auto
  with assms show ?thesis
    unfolding topology_ok_def list_all_iff by (simp add: distinct_update) blast
qed

lemma discover_ok: "topology_ok (discover master infos subnet_map zones)"
proof -
  have "topology_ok t \<Longrightarrow>
      topology_ok (foldl (\<lambda>t i. let node = build_interface master i subnet_map bn zones;
                          has_ip = (if_ipv4_cidrs node \<noteq> [] \<or> if_ipv6_cidrs node \<noteq> [])
                      in if is_included_in_topology (if_role node) has_ip
                         then AList.update (if_ifindex node) node t else t) t infos)" for t bn
  proof (induction infos arbitrary: t)
    case Nil
    then show ?case by simp
  next
    case (Cons i infos)
    let ?n = "build_interface master i subnet_map bn zones"
    have "topology_ok [(if_ifindex ?n, ?n)]"
      if "is_included_in_topology (if_role ?n) (if_ipv4_cidrs ?n \<noteq> [] \<or> if_ipv6_cidrs ?n \<noteq> [])"
    proof -
      have "list_all (\<lambda>c. CHR '':'' \<notin> set c) (if_ipv4_cidrs ?n)"
        and "list_all (\<lambda>c. CHR '':'' \<in> set c) (if_ipv6_cidrs ?n)"
        by (auto simp: build_interface_def Let_def list_all_iff split: option.splits)
      with that show ?thesis by (simp add: topology_ok_def entry_ok_def)
    qed
    with Cons show ?case
      by (simp add: Let_def topology_ok_update del: is_included_in_topology.simps)
  qed
  moreover have "topology_ok []" by (simp add: topology_ok_def)
  ultimately show ?thesis by (simp add: discover_def Let_def)
qed

lemma ifindex_by_name_sound:
  assumes "topology_ok t" and "ifindex_by_name t name = Some i"
  shows "\<exists>f. by_ifindex t i = Some f \<and> if_name f = trim name"
proof -
  obtain f where f: "List.find (\<lambda>i. if_name i = trim name) (map snd t) = Some f" and i: "if_ifindex f = i"
    using assms(2) by (auto simp: ifindex_by_name_def Let_def split: if_splits)
  from f have "if_name f = trim name" and "f \<in> set (map snd t)"
    unfolding find_Some_iff by (auto intro: nth_mem [of _ "map snd t", simplified length_map])
  moreover from this obtain j where "(j, f) \<in> set t" by auto
  moreover have "j = i" and "distinct (map fst t)"
    using assms(1) \<open>(j, f) \<in> set t\<close> i by (auto simp: topology_ok_def list_all_iff entry_ok_def)
  ultimately show ?thesis by (auto simp: by_ifindex_def intro: map_of_is_SomeI)
qed

text \<open>C40: the discovered snapshot is consistent: every interface that is stored is one the role
  rule includes (never a loopback, an unclassified one only with an address), under its own
  index, its addresses split by family; and a look-up by name returns the index of an interface
  of that name.\<close>

theorem discovered_topology_consistent:
  assumes "t = discover master infos subnet_map zones"
  shows "topology_ok t
       \<and> (case ifindex_by_name t name of None \<Rightarrow> True
            | Some i \<Rightarrow> \<exists>f. by_ifindex t i = Some f \<and> if_name f = trim name \<and> if_role f \<noteq> RoleLoopback)"
proof -
  have ok: "topology_ok t" using assms by (simp add: discover_ok)
  have "if_role f \<noteq> RoleLoopback" if "by_ifindex t i = Some f" for i f
    using ok that by (auto simp: topology_ok_def by_ifindex_def list_all_iff entry_ok_def dest!: map_of_SomeD)
  with ok ifindex_by_name_sound [OF ok, of name] show ?thesis
    by (auto split: option.split)
qed

theorem discovered_topology_consistent_witness:
  "topology_ok (discover (\<lambda>_. None) [\<lparr>info_ifindex = 1, info_name = ''lo'', info_role = RoleLoopback\<rparr>]
     (\<lambda>_. None) (\<lambda>_. None))"
  by (rule discovered_topology_consistent [OF refl, THEN conjunct1])

end
