(* ===== verification/F64.thy ===== *)
theory F64
  imports Prelude Complex_Main "HOL-Library.Log_Nat"
begin

text \<open>
  The double precision arithmetic of the rate computations, on non-negative values: every operation
  rounds its exact rational result to the nearest multiple of the unit in the last place, ties to
  even. The program's values lie between \<open>10 ^ -17\<close> and \<open>10 ^ 24\<close> or are zero, so that neither
  overflow nor subnormal numbers occur and a double is the rational it stands for.

  With the operations come the conversions from and to \<open>u64\<close> (\<open>as\<close> truncates and saturates),
  the smoothing of rates, and the bounds on rounding that the components use.
\<close>

section \<open>Rounding\<close>

definition pow2 :: "int \<Rightarrow> rat" where
  "pow2 e = (if 0 \<le> e then 2 ^ nat e else 1 / 2 ^ nat (- e))"

text \<open>The exponent of the leading binary digit.\<close>

definition leading_exp :: "rat \<Rightarrow> int" where
  "leading_exp x =
     (let (a, b) = quotient_of x; k = int (floorlog 2 (nat a)) - int (floorlog 2 (nat b))
      in if x < pow2 k then k - 1 else k)"

definition half_even :: "rat \<Rightarrow> int" where
  "half_even q =
     (let f = \<lfloor>q\<rfloor>; d = q - of_int f
      in if d < 1 / 2 then f else if 1 / 2 < d then f + 1 else if even f then f else f + 1)"

definition f64 :: "rat \<Rightarrow> rat" where
  "f64 x = (if x = 0 then 0
            else let ulp = pow2 (leading_exp x - 52) in of_int (half_even (x / ulp)) * ulp)"

section \<open>Conversions\<close>

definition f64_of_u64 :: "u64 \<Rightarrow> rat" where
  "f64_of_u64 n = f64 (of_nat (unat n))"

definition f64_to_u64 :: "rat \<Rightarrow> u64" where
  "f64_to_u64 x = word_of_nat (min (nat \<lfloor>x\<rfloor>) (2 ^ 64 - 1))"

definition round_half_up :: "rat \<Rightarrow> rat" where
  "round_half_up x = of_int \<lfloor>x + 1 / 2\<rfloor>"

section \<open>Smoothing\<close>

text \<open>\<open>((0.4 * new as f64) + (0.6 * old as f64)) as u64\<close> and its form without new traffic.\<close>

definition c_0_4 :: rat where "c_0_4 = f64 (4 / 10)"
definition c_0_6 :: rat where "c_0_6 = f64 (6 / 10)"

definition ewma :: "u64 \<Rightarrow> u64 \<Rightarrow> u64" where
  "ewma new old = f64_to_u64 (f64 (f64 (c_0_4 * f64_of_u64 new) + f64 (c_0_6 * f64_of_u64 old)))"

definition decay :: "u64 \<Rightarrow> u64" where
  "decay old = f64_to_u64 (f64 (c_0_6 * f64_of_u64 old))"

section \<open>Rounding errors\<close>

declare of_nat_unat [simp del]

lemma pow2_pos [simp]: "0 < pow2 e"
  by (simp add: pow2_def)

lemma pow2_add: "pow2 (a + b) = pow2 a * pow2 b"
proof -
  have p: "pow2 e = 2 powi e" for e
    by (simp add: pow2_def power_int_def inverse_eq_divide power_one_over)
  show ?thesis by (simp add: p power_int_add)
qed

lemma pow2_nat: "pow2 (int n) = 2 ^ n"
  by (simp add: pow2_def)

lemma pow2_sub: "pow2 (e - int n) * 2 ^ n = pow2 e"
  using pow2_add [of "e - int n" "int n"] by (simp only: pow2_nat diff_add_cancel)

lemma pow2_Suc: "pow2 (e + 1) = pow2 e * 2"
  using pow2_sub [of "e + 1" 1] by simp

lemma leading_exp_bounds:
  assumes "0 < x"
  shows "pow2 (leading_exp x) \<le> x" and "x < pow2 (leading_exp x + 1)"
proof -
  obtain a b where q: "quotient_of x = (a, b)" by (cases "quotient_of x")
  have b: "0 < b" using quotient_of_denom_pos [OF q] .
  have x: "x = of_int a / of_int b" using quotient_of_div [OF q] .
  have a: "0 < a" using assms b by (simp add: x zero_less_divide_iff)
  let ?A = "floorlog 2 (nat a)" and ?B = "floorlog 2 (nat b)"
  have fa: "2 ^ (?A - 1) \<le> nat a" "nat a < 2 ^ ?A" using floorlog_bounds [of "nat a" 2] a by simp_all
  have fb: "2 ^ (?B - 1) \<le> nat b" "nat b < 2 ^ ?B" using floorlog_bounds [of "nat b" 2] b by simp_all
  have posA: "0 < ?A" and posB: "0 < ?B" using a b by (simp_all add: floorlog_def)
  have up: "(2 :: rat) ^ (n - 1) * 2 = 2 ^ n" if "0 < n" for n :: nat using that by (cases n) simp_all
  have a1: "(2 :: rat) ^ ?A \<le> 2 * of_int a" and a2: "of_int a < (2 :: rat) ^ ?A"
  proof -
    have "(2 :: rat) ^ (?A - 1) \<le> of_nat (nat a)" using fa(1) by (metis of_nat_le_iff of_nat_numeral of_nat_power)
    moreover have "of_nat (nat a) = (of_int a :: rat)" using a by simp
    ultimately show "(2 :: rat) ^ ?A \<le> 2 * of_int a" using up [OF posA] by linarith
    have "of_nat (nat a) < (2 :: rat) ^ ?A" using fa(2) by (metis of_nat_less_iff of_nat_numeral of_nat_power)
    then show "of_int a < (2 :: rat) ^ ?A" using a by simp
  qed
  have b1: "(2 :: rat) ^ ?B \<le> 2 * of_int b" and b2: "of_int b < (2 :: rat) ^ ?B"
  proof -
    have "(2 :: rat) ^ (?B - 1) \<le> of_nat (nat b)" using fb(1) by (metis of_nat_le_iff of_nat_numeral of_nat_power)
    moreover have "of_nat (nat b) = (of_int b :: rat)" using b by simp
    ultimately show "(2 :: rat) ^ ?B \<le> 2 * of_int b" using up [OF posB] by linarith
    have "of_nat (nat b) < (2 :: rat) ^ ?B" using fb(2) by (metis of_nat_less_iff of_nat_numeral of_nat_power)
    then show "of_int b < (2 :: rat) ^ ?B" using b by simp
  qed
  let ?k = "int ?A - int ?B"
  have k: "pow2 ?k = 2 ^ ?A / 2 ^ ?B"
  proof -
    have "pow2 (?k + int ?B) = pow2 ?k * pow2 (int ?B)" by (rule pow2_add)
    then have "(2 :: rat) ^ ?A = pow2 ?k * 2 ^ ?B" by (simp add: pow2_nat)
    then show ?thesis by simp
  qed
  have bpos: "(0 :: rat) < of_int b" using b by simp
  have lo: "pow2 (?k - 1) \<le> x"
  proof -
    have "pow2 (?k - 1) * 2 = pow2 ?k" using pow2_sub [of ?k 1] by (simp only: of_nat_1 power_one_right)
    then have h: "pow2 (?k - 1) = 2 ^ ?A / 2 ^ ?B / 2" unfolding k by (simp only: eq_divide_eq_numeral1) simp
    have "(2 :: rat) ^ ?A / 2 ^ ?B / 2 \<le> (2 * of_int a) / 2 ^ ?B / 2"
      by (intro divide_right_mono a1) simp_all
    also have "\<dots> = of_int a / 2 ^ ?B" by simp
    also have "\<dots> \<le> of_int a / of_int b" using b2 a bpos by (intro divide_left_mono) simp_all
    finally show ?thesis by (simp add: h x)
  qed
  have hi: "x < pow2 (?k + 1)"
  proof -
    have h: "pow2 (?k + 1) = 2 ^ ?A / 2 ^ ?B * 2" by (simp only: pow2_Suc k)
    have "of_int a / of_int b < (2 :: rat) ^ ?A / of_int b" by (rule divide_strict_right_mono [OF a2 bpos])
    also have "\<dots> = 2 * 2 ^ ?A / (2 * of_int b)" by simp
    also have "\<dots> \<le> 2 * 2 ^ ?A / 2 ^ ?B" using b1 bpos by (intro divide_left_mono) simp_all
    finally show ?thesis unfolding h x by (simp only: mult.commute times_divide_eq_left times_divide_eq_right)
  qed
  show "pow2 (leading_exp x) \<le> x" using lo by (simp add: leading_exp_def q Let_def not_less)
  show "x < pow2 (leading_exp x + 1)" using hi by (simp add: leading_exp_def q Let_def)
qed

lemma half_even_error: "\<bar>of_int (half_even q) - q\<bar> \<le> 1 / 2"
proof -
  have "of_int \<lfloor>q\<rfloor> \<le> q" "q < of_int \<lfloor>q\<rfloor> + 1" by linarith+
  then show ?thesis by (auto simp: half_even_def Let_def abs_le_iff)
qed

lemma half_even_int: "half_even (of_int n) = n"
  by (simp add: half_even_def)

lemma f64_error:
  assumes "0 \<le> x"
  shows "\<bar>f64 x - x\<bar> \<le> x / 2 ^ 53"
proof (cases "x = 0")
  case True
  then show ?thesis by (simp add: f64_def)
next
  case False
  with assms have pos: "0 < x" by simp
  let ?u = "pow2 (leading_exp x - 52)"
  have "\<bar>of_int (half_even (x / ?u)) - x / ?u\<bar> * ?u \<le> 1 / 2 * ?u"
    by (rule mult_right_mono [OF half_even_error]) (simp add: less_imp_le)
  moreover have "\<bar>of_int (half_even (x / ?u)) - x / ?u\<bar> * ?u = \<bar>of_int (half_even (x / ?u)) * ?u - x\<bar>"
  proof -
    have u: "0 < ?u" by simp
    then have "\<bar>of_int (half_even (x / ?u)) - x / ?u\<bar> * ?u = \<bar>(of_int (half_even (x / ?u)) - x / ?u) * ?u\<bar>"
      by (simp only: abs_mult abs_of_pos)
    also have "(of_int (half_even (x / ?u)) - x / ?u) * ?u = of_int (half_even (x / ?u)) * ?u - x"
    proof -
      have "x / ?u * ?u = x" using u by (metis less_irrefl nonzero_eq_divide_eq)
      then show ?thesis by (simp only: left_diff_distrib)
    qed
    finally show ?thesis .
  qed
  ultimately have e: "\<bar>f64 x - x\<bar> \<le> ?u / 2" using False by (simp add: f64_def Let_def)
  have "?u * 2 ^ 52 = pow2 (leading_exp x)" using pow2_sub [of "leading_exp x" 52] by simp
  then have "?u * 2 ^ 52 \<le> x" using leading_exp_bounds(1) [OF pos] by simp
  with e show ?thesis by simp
qed

lemma f64_exact:
  assumes "n < 2 ^ 53"
  shows "f64 (of_nat n) = of_nat n"
proof (cases "n = 0")
  case True
  then show ?thesis by (simp add: f64_def)
next
  case False
  let ?x = "of_nat n :: rat" and ?e = "leading_exp (of_nat n)"
  have pos: "0 < ?x" using False by simp
  have "?e \<le> 52"
  proof (rule ccontr)
    assume "\<not> ?e \<le> 52"
    then have "0 \<le> ?e - 53" by simp
    then have "1 \<le> pow2 (?e - 53)" by (simp add: pow2_def)
    then have "2 ^ 53 \<le> pow2 (?e - 53) * pow2 (int 53)" by (simp only: pow2_nat) simp
    also have "\<dots> = pow2 ?e" using pow2_add [of "?e - 53" "int 53"] by (simp only: of_nat_numeral diff_add_cancel)
    also have "\<dots> \<le> ?x" by (rule leading_exp_bounds(1) [OF pos])
    finally have "(2 :: rat) ^ 53 \<le> of_nat n" .
    then have "of_nat (2 ^ 53) \<le> (of_nat n :: rat)" by simp
    then show False using assms by (simp only: of_nat_le_iff)
  qed
  then obtain m where m: "52 - ?e = int m" using zero_le_imp_eq_int [of "52 - ?e"] by auto
  have "?e - 52 = 0 - int m" using m by simp
  then have u: "pow2 (?e - 52) * 2 ^ m = 1" using pow2_sub [of 0 m] by (simp only:) (simp add: pow2_def)
  then have "1 / pow2 (?e - 52) = 2 ^ m" by (metis less_irrefl mult.commute nonzero_divide_eq_eq pow2_pos)
  then have "?x / pow2 (?e - 52) = ?x * 2 ^ m" by (metis times_divide_eq_right mult.right_neutral)
  also have "\<dots> = of_int (int n * 2 ^ m)" by simp
  finally have h: "half_even (?x / pow2 (?e - 52)) = int n * 2 ^ m" by (simp only: half_even_int)
  have "f64 ?x = of_int (int n * 2 ^ m) * pow2 (?e - 52)" using False by (simp only: f64_def h Let_def) simp
  also have "\<dots> = ?x * (pow2 (?e - 52) * 2 ^ m)" by (simp add: mult.assoc mult.commute)
  finally show ?thesis by (simp only: u mult_1_right)
qed


section \<open>Bounds on smoothed rates\<close>

lemma f64_upper: "0 \<le> x \<Longrightarrow> f64 x \<le> x * (1 + 1 / 2 ^ 53)"
  using f64_error [of x] unfolding abs_le_iff by (simp add: field_simps)

lemma f64_lower: "0 \<le> x \<Longrightarrow> x * (1 - 1 / 2 ^ 53) \<le> f64 x"
  using f64_error [of x] unfolding abs_le_iff by (simp add: field_simps)

lemma f64_nonneg: "0 \<le> x \<Longrightarrow> 0 \<le> f64 x"
proof -
  assume x: "0 \<le> x"
  then have "0 \<le> x * (1 - 1 / 2 ^ 53)" by simp
  then show ?thesis using f64_lower [OF x] by linarith
qed

lemma f64_of_u64_nonneg [simp]: "0 \<le> f64_of_u64 n"
  unfolding f64_of_u64_def by (rule f64_nonneg) simp

lemma f64_of_u64_upper: "f64_of_u64 n \<le> of_nat (unat n) * (1 + 1 / 2 ^ 53)"
  unfolding f64_of_u64_def by (rule f64_upper) simp

lemma f64_of_u64_exact: "unat n < 2 ^ 53 \<Longrightarrow> f64_of_u64 n = of_nat (unat n)"
  by (simp add: f64_of_u64_def f64_exact)

lemma c_0_6_bounds: "0 \<le> c_0_6" "c_0_6 \<le> 6 / 10 * (1 + 1 / 2 ^ 53)" "6 / 10 * (1 - 1 / 2 ^ 53) \<le> c_0_6"
  unfolding c_0_6_def using f64_upper [of "6 / 10"] f64_lower [of "6 / 10"] f64_nonneg [of "6 / 10"] by simp_all

lemma c_0_4_bounds: "0 \<le> c_0_4" "c_0_4 \<le> 4 / 10 * (1 + 1 / 2 ^ 53)" "4 / 10 * (1 - 1 / 2 ^ 53) \<le> c_0_4"
  unfolding c_0_4_def using f64_upper [of "4 / 10"] f64_lower [of "4 / 10"] f64_nonneg [of "4 / 10"] by simp_all

lemma unat_f64_to_u64: "unat (f64_to_u64 x) = min (nat \<lfloor>x\<rfloor>) (2 ^ 64 - 1)"
  by (simp add: f64_to_u64_def unat_of_nat)

lemma f64_to_u64_le: "0 \<le> x \<Longrightarrow> of_nat (unat (f64_to_u64 x)) \<le> x"
proof -
  assume x: "0 \<le> x"
  have "unat (f64_to_u64 x) \<le> nat \<lfloor>x\<rfloor>" unfolding unat_f64_to_u64 by (rule min.cobounded1)
  then have "int (unat (f64_to_u64 x)) \<le> \<lfloor>x\<rfloor>" using x by (simp add: le_nat_iff)
  then have "of_int (int (unat (f64_to_u64 x))) \<le> x" by (simp only: le_floor_iff)
  then show ?thesis by simp
qed

lemma f64_to_u64_ge: "x < 2 ^ 64 \<Longrightarrow> x < of_nat (unat (f64_to_u64 x)) + 1"
proof -
  assume x: "x < 2 ^ 64"
  then have "x < of_int (2 ^ 64)" by simp
  then have "\<lfloor>x\<rfloor> < 2 ^ 64" by (simp only: floor_less_iff)
  then have "\<lfloor>x\<rfloor> \<le> int (2 ^ 64 - 1)" by simp
  then have "nat \<lfloor>x\<rfloor> \<le> 2 ^ 64 - 1" by (simp only: nat_le_iff)
  then have "unat (f64_to_u64 x) = nat \<lfloor>x\<rfloor>" unfolding unat_f64_to_u64 by (rule min.absorb1)
  moreover have "\<lfloor>x\<rfloor> \<le> int (nat \<lfloor>x\<rfloor>)" by simp
  ultimately have "\<lfloor>x\<rfloor> \<le> int (unat (f64_to_u64 x))" by simp
  then have "of_int \<lfloor>x\<rfloor> \<le> (of_int (int (unat (f64_to_u64 x))) :: rat)" by (simp only: of_int_le_iff)
  then show ?thesis using floor_correct [of x] by simp
qed

text \<open>Without traffic a rate shrinks to at most seven tenths of itself.\<close>

lemma decay_bound: "of_nat (unat (decay s)) \<le> (7 / 10 * of_nat (unat s) :: rat)"
proof -
  let ?n = "of_nat (unat s) :: rat" and ?u = "1 + 1 / 2 ^ 53 :: rat"
  have p: "0 \<le> c_0_6 * f64_of_u64 s" using c_0_6_bounds(1) by simp
  have "of_nat (unat (decay s)) \<le> f64 (c_0_6 * f64_of_u64 s)"
    unfolding decay_def by (rule f64_to_u64_le) (rule f64_nonneg [OF p])
  also have "\<dots> \<le> c_0_6 * f64_of_u64 s * ?u" by (rule f64_upper [OF p])
  also have "\<dots> \<le> (6 / 10 * ?u) * (?n * ?u) * ?u"
    using c_0_6_bounds f64_of_u64_upper [of s] by (intro mult_right_mono mult_mono) simp_all
  also have "\<dots> = (6 / 10 * ?u * ?u * ?u) * ?n" by (simp only: mult_ac)
  also have "\<dots> \<le> 7 / 10 * ?n" by (rule mult_right_mono) simp_all
  finally show ?thesis .
qed

lemma decay_less: "s \<noteq> 0 \<Longrightarrow> decay s < s"
proof -
  assume "s \<noteq> 0"
  then have "0 < unat s" using unat_gt_0 by blast
  then have "(7 / 10 * of_nat (unat s) :: rat) < of_nat (unat s)" by simp
  with decay_bound [of s] have "(of_nat (unat (decay s)) :: rat) < of_nat (unat s)" by linarith
  then have "unat (decay s) < unat s" by (simp only: of_nat_less_iff)
  then show ?thesis by (simp only: word_less_nat_alt)
qed

lemma decay_0 [simp]: "decay 0 = 0"
  using decay_bound [of 0] by (simp add: unsigned_eq_0_iff)

text \<open>A smoothed rate lies between the old and the new one, up to one unit of truncation.\<close>

lemma smoothing_error:
  fixes a b x y fx fy s :: rat
  assumes "0 \<le> a" "0 \<le> b" "a < 2 ^ 50" "b < 2 ^ 50"
    and "x \<le> (4 / 10 * (1 + 1 / 2 ^ 53)) * a" "(4 / 10 * (1 - 1 / 2 ^ 53)) * a \<le> x"
    and "y \<le> (6 / 10 * (1 + 1 / 2 ^ 53)) * b" "(6 / 10 * (1 - 1 / 2 ^ 53)) * b \<le> y"
    and "\<bar>fx - x\<bar> \<le> x / 2 ^ 53" "\<bar>fy - y\<bar> \<le> y / 2 ^ 53" "\<bar>s - (fx + fy)\<bar> \<le> (fx + fy) / 2 ^ 53"
  shows "\<bar>s - (4 / 10 * a + 6 / 10 * b)\<bar> < 1 / 2"
proof -
  have a: "a / 2 ^ 53 < 1 / 8" and b: "b / 2 ^ 53 < 1 / 8" using assms(3,4) by simp_all
  have h: "c * (1 + 1 / d) * z = c * z + c * (z / d)" "c * (1 - 1 / d) * z = c * z - c * (z / d)" for c d z :: rat
    by (simp_all add: distrib_left distrib_right left_diff_distrib right_diff_distrib)
  have x: "x \<le> 4 / 10 * a + 1 / 20" "4 / 10 * a - 1 / 20 \<le> x"
    and y: "y \<le> 6 / 10 * b + 3 / 40" "6 / 10 * b - 3 / 40 \<le> y" using assms(5-8) [unfolded h] a b by linarith+
  have "x / 2 ^ 53 < 1 / 16" "y / 2 ^ 53 < 1 / 10" using x(1) y(1) assms(3,4) by simp_all
  then have fx: "\<bar>fx - x\<bar> < 1 / 16" and fy: "\<bar>fy - y\<bar> < 1 / 10" using assms(9,10) by linarith+
  have "fx + fy < 2 ^ 50 + 1" using fx fy x(1) y(1) assms(1-4) by linarith
  then have "(fx + fy) / 2 ^ 53 < 3 / 20" by simp
  then have "\<bar>s - (fx + fy)\<bar> < 3 / 20" using assms(11) by linarith
  with fx fy x y show ?thesis by linarith
qed

lemma ewma_bounds:
  assumes "unat a < 2 ^ 50" and "unat b < 2 ^ 50"
  shows "unat (ewma a b) \<le> max (unat a) (unat b)" and "min (unat a) (unat b) \<le> Suc (unat (ewma a b))"
proof -
  let ?a = "of_nat (unat a) :: rat" and ?b = "of_nat (unat b) :: rat" and ?u = "1 / 2 ^ 53 :: rat"
  let ?x = "c_0_4 * ?a" and ?y = "c_0_6 * ?b"
  let ?s = "f64 (f64 ?x + f64 ?y)"
  have ex: "f64_of_u64 a = ?a" "f64_of_u64 b = ?b" using assms by (simp_all add: f64_of_u64_exact)
  have lt: "?a < 2 ^ 50" "?b < 2 ^ 50"
    using assms by (metis of_nat_less_iff of_nat_numeral of_nat_power)+
  have xy: "0 \<le> ?x" "0 \<le> ?y" using c_0_4_bounds(1) c_0_6_bounds(1) by simp_all
  have fxy: "0 \<le> f64 ?x" "0 \<le> f64 ?y" using xy by (simp_all add: f64_nonneg)
  have xu: "?x \<le> (4 / 10 * (1 + ?u)) * ?a" by (rule mult_right_mono [OF c_0_4_bounds(2)]) simp
  have xl: "(4 / 10 * (1 - ?u)) * ?a \<le> ?x" by (rule mult_right_mono [OF c_0_4_bounds(3)]) simp
  have yu: "?y \<le> (6 / 10 * (1 + ?u)) * ?b" by (rule mult_right_mono [OF c_0_6_bounds(2)]) simp
  have yl: "(6 / 10 * (1 - ?u)) * ?b \<le> ?y" by (rule mult_right_mono [OF c_0_6_bounds(3)]) simp
  have ab: "0 \<le> ?a" "0 \<le> ?b" by simp_all
  have ewma: "ewma a b = f64_to_u64 ?s" by (simp add: ewma_def ex)
  have s0: "0 \<le> ?s" using fxy by (simp add: f64_nonneg)
  have close: "\<bar>?s - (4 / 10 * ?a + 6 / 10 * ?b)\<bar> < 1 / 2"
    by (rule smoothing_error [OF ab lt xu xl yu yl f64_error [OF xy(1)] f64_error [OF xy(2)] f64_error])
      (use fxy in simp)
  show "unat (ewma a b) \<le> max (unat a) (unat b)"
  proof (rule ccontr)
    assume "\<not> ?thesis"
    then have "max (unat a) (unat b) + 1 \<le> unat (ewma a b)" by simp
    then have "of_nat (max (unat a) (unat b) + 1) \<le> (of_nat (unat (ewma a b)) :: rat)" by (simp only: of_nat_le_iff)
    then have "max ?a ?b + 1 \<le> of_nat (unat (ewma a b))" by (simp add: of_nat_max)
    also have "\<dots> \<le> ?s" unfolding ewma by (rule f64_to_u64_le [OF s0])
    also have "\<dots> \<le> 4 / 10 * ?a + 6 / 10 * ?b + 1 / 2" using close by linarith
    also have "\<dots> \<le> max ?a ?b + 1 / 2" by (simp add: max_def)
    finally show False by simp
  qed
  show "min (unat a) (unat b) \<le> Suc (unat (ewma a b))"
  proof (rule ccontr)
    assume "\<not> ?thesis"
    then have "Suc (unat (ewma a b)) + 1 \<le> min (unat a) (unat b)" by linarith
    then have "of_nat (Suc (unat (ewma a b)) + 1) \<le> (of_nat (min (unat a) (unat b)) :: rat)" by (simp only: of_nat_le_iff)
    then have "of_nat (unat (ewma a b)) + 2 \<le> min ?a ?b" by (simp add: of_nat_min)
    moreover have "?s < 2 ^ 64"
    proof -
      have "?s < 2 ^ 50 + 2 ^ 50 + 1" using close lt ab by linarith
      then show ?thesis by simp
    qed
    then have "?s < of_nat (unat (ewma a b)) + 1" unfolding ewma by (rule f64_to_u64_ge)
    moreover have "min ?a ?b - 1 / 2 \<le> ?s"
    proof -
      have "min ?a ?b \<le> 4 / 10 * ?a + 6 / 10 * ?b" by (simp add: min_def)
      with close show ?thesis by linarith
    qed
    ultimately show False by linarith
  qed
qed

declare of_nat_unat [simp]

end
