(* ===== verification/Accounting.thy ===== *)
theory Accounting
  imports Common Buckets Topology F64
begin

text \<open>
  The accounting rules of \<open>monitor.rs\<close> that the snapshot applies to every counter: the increment
  of a counter, the four families a counter is booked to, the smoothing of rates, the interface an
  address belongs to, and the cache of neighbour ownership that maps an address of the offload
  engine (ECM) to a device. An ECM address is the four words of a key with its IP version.
\<close>

abbreviation ecm_idle_timeout_ms :: u64 where "ecm_idle_timeout_ms \<equiv> 60000"
abbreviation ecm_history_fallback_ms :: u64 where "ecm_history_fallback_ms \<equiv> 300000"

type_synonym ecm_addr = "u32 list \<times> u8"

section \<open>Increments and rates\<close>

text \<open>A counter that went backwards was reset and counts from zero.\<close>

definition delta_bytes :: "u64 \<Rightarrow> u64 \<Rightarrow> u64" where
  "delta_bytes current prev = (if current \<ge> prev then current - prev else current)"

text \<open>Bits per second of an increment over an interval in seconds.\<close>

definition delta_rate :: "u64 \<Rightarrow> rat \<Rightarrow> u64" where
  "delta_rate n sec = f64_to_u64 (round_half_up (f64 (f64 (f64_of_u64 n * 8) / sec)))"

definition fill_quad :: "u8 \<Rightarrow> u8 \<Rightarrow> u64 \<Rightarrow> rat \<Rightarrow> quad \<Rightarrow> quad" where
  "fill_quad ipv direction n sec q =
     (let bps = delta_rate n sec in
      if ipv = ip_version_byte IpV4 \<and> direction = direction_byte Ingress
      then q\<lparr>q_up_v4_bps := sat_add (q_up_v4_bps q) bps, q_up_v4_bytes := sat_add (q_up_v4_bytes q) n\<rparr>
      else if ipv = ip_version_byte IpV4 \<and> direction = direction_byte Egress
      then q\<lparr>q_down_v4_bps := sat_add (q_down_v4_bps q) bps, q_down_v4_bytes := sat_add (q_down_v4_bytes q) n\<rparr>
      else if ipv = ip_version_byte IpV6 \<and> direction = direction_byte Ingress
      then q\<lparr>q_up_v6_bps := sat_add (q_up_v6_bps q) bps, q_up_v6_bytes := sat_add (q_up_v6_bytes q) n\<rparr>
      else if ipv = ip_version_byte IpV6 \<and> direction = direction_byte Egress
      then q\<lparr>q_down_v6_bps := sat_add (q_down_v6_bps q) bps, q_down_v6_bytes := sat_add (q_down_v6_bytes q) n\<rparr>
      else q)"

text \<open>What enters the router from the internet is a download.\<close>

definition fill_quad_wan :: "u8 \<Rightarrow> u8 \<Rightarrow> u64 \<Rightarrow> rat \<Rightarrow> quad \<Rightarrow> quad" where
  "fill_quad_wan ipv direction n sec q =
     (let inverted = (if direction = direction_byte Ingress then direction_byte Egress
                      else if direction = direction_byte Egress then direction_byte Ingress
                      else direction)
      in fill_quad ipv inverted n sec q)"

text \<open>The smoothing block that recurs in the snapshot: the rates of \<open>s\<close> move towards those of \<open>m\<close>.\<close>

definition smooth_rates :: "quad \<Rightarrow> quad \<Rightarrow> quad" where
  "smooth_rates m s =
     s\<lparr>q_up_v4_bps := ewma (q_up_v4_bps m) (q_up_v4_bps s), q_down_v4_bps := ewma (q_down_v4_bps m) (q_down_v4_bps s),
       q_up_v6_bps := ewma (q_up_v6_bps m) (q_up_v6_bps s), q_down_v6_bps := ewma (q_down_v6_bps m) (q_down_v6_bps s)\<rparr>"

definition take_rates :: "quad \<Rightarrow> quad \<Rightarrow> quad" where
  "take_rates s m =
     m\<lparr>q_up_v4_bps := q_up_v4_bps s, q_down_v4_bps := q_down_v4_bps s,
       q_up_v6_bps := q_up_v6_bps s, q_down_v6_bps := q_down_v6_bps s\<rparr>"

definition take_bytes :: "quad \<Rightarrow> quad \<Rightarrow> quad" where
  "take_bytes s m =
     m\<lparr>q_up_v4_bytes := q_up_v4_bytes s, q_down_v4_bytes := q_down_v4_bytes s,
       q_up_v6_bytes := q_up_v6_bytes s, q_down_v6_bytes := q_down_v6_bytes s\<rparr>"

text \<open>The block for an entry without traffic: rates decay, bytes are zero.\<close>

definition decay_rates :: "quad \<Rightarrow> quad" where
  "decay_rates s =
     s\<lparr>q_up_v4_bps := decay (q_up_v4_bps s), q_down_v4_bps := decay (q_down_v4_bps s),
       q_up_v6_bps := decay (q_up_v6_bps s), q_down_v6_bps := decay (q_down_v6_bps s),
       q_up_v4_bytes := 0, q_down_v4_bytes := 0, q_up_v6_bytes := 0, q_down_v6_bytes := 0\<rparr>"

definition rates_zero :: "quad \<Rightarrow> bool" where
  "rates_zero s = (q_up_v4_bps s = 0 \<and> q_down_v4_bps s = 0 \<and> q_up_v6_bps s = 0 \<and> q_down_v6_bps s = 0)"

section \<open>Addresses and subnets\<close>

definition parse_cidr_to_u128 :: "string \<Rightarrow> (128 word \<times> 128 word) option" where
  "parse_cidr_to_u128 cidr =
     (case split_once (CHR ''/'') cidr of None \<Rightarrow> None
      | Some (ip, prefix) \<Rightarrow>
        (case parse_ipv6 (hd (split_on (CHR ''%'') ip)) of None \<Rightarrow> None
         | Some a \<Rightarrow> (case parse_u32 prefix of None \<Rightarrow> None
           | Some p \<Rightarrow> if p > 128 then None
               else (let mask = (if p = 0 then 0 else push_bit (128 - unat p) (- 1)) in Some (a AND mask, mask)))))"

definition u128_of_words :: "u32 list \<Rightarrow> 128 word" where
  "u128_of_words ws = foldl (\<lambda>acc w. push_bit 32 acc OR ucast w) 0 ws"

definition ecm_address :: "string \<Rightarrow> ecm_addr option" where
  "ecm_address ip =
     (case parse_ip (hd (split_on (CHR ''%'') ip)) of
        None \<Rightarrow> None
      | Some (V4 a) \<Rightarrow> Some ([a, 0, 0, 0], 4)
      | Some (V6 a) \<Rightarrow> Some (ipv6_words a, 6))"

definition is_private_or_local_ipv4 :: "u32 \<Rightarrow> bool" where
  "is_private_or_local_ipv4 ip =
     (ip AND 0xFF000000 = 0x0A000000 \<or> ip AND 0xFFF00000 = 0xAC100000 \<or> ip AND 0xFFFF0000 = 0xC0A80000
      \<or> ip AND 0xFFFF0000 = 0xA9FE0000 \<or> ip AND 0xFF000000 = 0x7F000000 \<or> ip AND 0xF0000000 = 0xE0000000
      \<or> ip = 0xFFFFFFFF)"

text \<open>Unique local (\<open>fc00::/7\<close>) and link-local (\<open>fe80::/10\<close>) by the first word of the address.\<close>

definition is_local_ipv6_word :: "u32 \<Rightarrow> bool" where
  "is_local_ipv6_word w = (w AND 0xFE000000 = 0xFC000000 \<or> w AND 0xFFC00000 = 0xFE800000)"

datatype subnet_match = MatchNone | MatchUnique u32 | MatchAmbiguous

fun unique_subnet_loop :: "subnet_match \<Rightarrow> u32 list \<Rightarrow> subnet_match" where
  "unique_subnet_loop r [] = r"
| "unique_subnet_loop MatchNone (i # is) = unique_subnet_loop (MatchUnique i) is"
| "unique_subnet_loop (MatchUnique p) (i # is) =
     (if p \<noteq> i then MatchAmbiguous else unique_subnet_loop (MatchUnique p) is)"
| "unique_subnet_loop MatchAmbiguous (i # is) = unique_subnet_loop MatchAmbiguous is"

definition unique_subnet_iface :: "u32 list \<Rightarrow> subnet_match" where
  "unique_subnet_iface is = unique_subnet_loop MatchNone is"

section \<open>Neighbour ownership\<close>

record ownership =
  ow_device :: "device_key option"
  ow_observed_ms :: u64
  ow_observation_tick :: u64

type_synonym ownership_cache = "ecm_addr \<rightharpoonup> ownership"

definition valid_owner :: "u64 \<Rightarrow> ownership \<Rightarrow> device_key option" where
  "valid_owner now ow = (if sat_sub now (ow_observed_ms ow) < ecm_history_fallback_ms then ow_device ow else None)"

definition observe_neighbor :: "ecm_addr \<Rightarrow> device_key \<Rightarrow> u64 \<Rightarrow> u64 \<Rightarrow> ownership_cache \<Rightarrow> ownership_cache" where
  "observe_neighbor address device observed_ms tick cache =
     (let entry = (case cache address of Some e \<Rightarrow> e
                   | None \<Rightarrow> \<lparr>ow_device = Some device, ow_observed_ms = observed_ms, ow_observation_tick = tick\<rparr>);
          entry' = (if ow_observation_tick entry = tick \<and> ow_device entry \<noteq> Some device then entry\<lparr>ow_device := None\<rparr>
                    else if ow_observation_tick entry \<noteq> tick then entry\<lparr>ow_device := Some device\<rparr>
                    else entry)
      in cache(address \<mapsto> entry'\<lparr>ow_observed_ms := observed_ms, ow_observation_tick := tick\<rparr>))"

datatype owner_diagnostic = NotSeen | Expired | Conflict | Available

definition neighbor_owner_diagnostic :: "ownership_cache \<Rightarrow> ecm_addr \<Rightarrow> u64 \<Rightarrow> owner_diagnostic \<times> u64 option" where
  "neighbor_owner_diagnostic cache address now =
     (case cache address of None \<Rightarrow> (NotSeen, None)
      | Some ow \<Rightarrow> let age = sat_sub now (ow_observed_ms ow) in
          if age \<ge> ecm_history_fallback_ms then (Expired, Some age)
          else if ow_device ow = None then (Conflict, Some age)
          else (Available, Some age))"

definition ipv6_neighbor_poll_due :: "u64 \<Rightarrow> u64 \<Rightarrow> bool \<Rightarrow> bool" where
  "ipv6_neighbor_poll_due now last_poll force =
     (let elapsed = sat_sub now last_poll in elapsed \<ge> 10000 \<or> (force \<and> elapsed \<ge> 2000))"

definition is_new_unmapped_lan_ipv6_ecm ::
  "ecm_traffic_key \<Rightarrow> (ecm_traffic_key \<rightharpoonup> u64) \<Rightarrow> ownership_cache \<Rightarrow> (u32 \<times> 128 word \<times> 128 word) list \<Rightarrow> u64 \<Rightarrow> bool" where
  "is_new_unmapped_lan_ipv6_ecm key previous owners lan_subnets now =
     (if ek_ip_version key \<noteq> 6 \<or> previous key \<noteq> None
         \<or> (case owners (ek_ip key, ek_ip_version key) of None \<Rightarrow> False | Some ow \<Rightarrow> valid_owner now ow \<noteq> None)
      then False
      else (let ip = u128_of_words (ek_ip key) in list_ex (\<lambda>(_, net, mask). ip AND mask = net) lan_subnets))"


section \<open>Bookings by family\<close>

text \<open>The family a counter key is booked to: ingress of a device or LAN interface is its upload.\<close>

definition family_of :: "u8 \<Rightarrow> u8 \<Rightarrow> family option" where
  "family_of ipv direction =
     (if ipv = 4 \<and> direction = 1 then Some UpV4 else if ipv = 4 \<and> direction = 2 then Some DownV4
      else if ipv = 6 \<and> direction = 1 then Some UpV6 else if ipv = 6 \<and> direction = 2 then Some DownV6 else None)"

definition opposite :: "u8 \<Rightarrow> u8" where
  "opposite d = (if d = 1 then 2 else if d = 2 then 1 else d)"

definition book :: "u8 \<Rightarrow> u8 \<Rightarrow> family \<Rightarrow> u64 \<Rightarrow> u64" where
  "book ipv direction f n = (if family_of ipv direction = Some f then n else 0)"

lemma fill_quad_bytes: "q_bytes f (fill_quad v d n sec q) = sat_add (q_bytes f q) (book v d f n)"
  by (cases f) (simp_all add: fill_quad_def family_of_def book_def Let_def)

lemma fill_quad_bps: "q_bps f (fill_quad v d n sec q) = sat_add (q_bps f q) (book v d f (delta_rate n sec))"
  by (cases f) (simp_all add: fill_quad_def family_of_def book_def Let_def)

lemma fill_quad_wan_eq: "fill_quad_wan v d n sec q = fill_quad v (opposite d) n sec q"
  by (simp add: fill_quad_wan_def opposite_def)

lemma q_smooth_rates [simp]:
  "q_bps f (smooth_rates m s) = ewma (q_bps f m) (q_bps f s)" "q_bytes f (smooth_rates m s) = q_bytes f s"
  by (cases f; simp add: smooth_rates_def)+

lemma q_take_rates [simp]: "q_bps f (take_rates s m) = q_bps f s" "q_bytes f (take_rates s m) = q_bytes f m"
  by (cases f; simp add: take_rates_def)+

lemma q_take_bytes [simp]: "q_bps f (take_bytes s m) = q_bps f m" "q_bytes f (take_bytes s m) = q_bytes f s"
  by (cases f; simp add: take_bytes_def)+

lemma q_decay_rates [simp]: "q_bps f (decay_rates s) = decay (q_bps f s)" "q_bytes f (decay_rates s) = 0"
  by (cases f; simp add: decay_rates_def)+

lemma rates_zero_iff: "rates_zero s \<longleftrightarrow> (\<forall>f. q_bps f s = 0)"
proof
  assume h: "\<forall>f. q_bps f s = 0"
  show "rates_zero s"
    using spec [OF h, of UpV4] spec [OF h, of DownV4] spec [OF h, of UpV6] spec [OF h, of DownV6]
    by (simp add: rates_zero_def)
next
  assume "rates_zero s"
  then show "\<forall>f. q_bps f s = 0" by (intro allI; rename_tac f; case_tac f) (simp_all add: rates_zero_def)
qed

lemma delta_bytes_forward: "prev \<le> cur \<Longrightarrow> unat (delta_bytes cur prev) = unat cur - unat prev"
  by (simp add: delta_bytes_def unat_sub)

lemma delta_bytes_0 [simp]: "delta_bytes n 0 = n"
  by (simp add: delta_bytes_def)

lemma delta_bytes_same [simp]: "delta_bytes n n = 0"
  by (simp add: delta_bytes_def)

section \<open>Subnets\<close>

lemma unique_subnet_loop_unique:
  "unique_subnet_loop (MatchUnique p) is = (if \<forall>i \<in> set is. i = p then MatchUnique p else MatchAmbiguous)"
proof (induction "is")
  case (Cons i "is")
  have amb: "unique_subnet_loop MatchAmbiguous js = MatchAmbiguous" for js by (induction js) simp_all
  show ?case using Cons amb by auto
qed simp

lemma unique_subnet_iface_eq:
  "unique_subnet_iface is =
     (case is of [] \<Rightarrow> MatchNone | i # js \<Rightarrow> if \<forall>j \<in> set js. j = i then MatchUnique i else MatchAmbiguous)"
  by (cases "is") (simp_all add: unique_subnet_iface_def unique_subnet_loop_unique)

lemma unique_subnet_iface_iff: "unique_subnet_iface is = MatchUnique i \<longleftrightarrow> is \<noteq> [] \<and> (\<forall>j \<in> set is. j = i)"
  by (cases "is") (auto simp: unique_subnet_iface_eq)

text \<open>The two readings of an IPv4 subnet text agree: the membership test used for neighbours and the
  (network, mask) pair used for offloaded traffic accept the same addresses.\<close>

lemma ipv4_mask_cases:
  "p \<le> 32 \<Longrightarrow> (if p = 0 then 0 else if p = 32 then - 1 else push_bit (32 - unat p) (- 1)) = ipv4_mask (unat p)" for p :: u32
proof -
  have "unat (32 :: u32) = 32" by simp
  then show ?thesis by (auto simp: ipv4_mask_def unat_eq_0)
qed

lemma digits_val_ge: "digits_val r m acc cs = Some v \<Longrightarrow> acc \<le> v"
proof (induction r m acc cs rule: digits_val.induct)
  case (2 r m acc c cs)
  then obtain d where d: "to_digit r c = Some d" "digits_val r m (acc * r + d) cs = Some v"
      "acc * r + d \<le> m" by (auto simp: Let_def split: option.splits if_splits)
  have "acc * r + d \<le> v" using "2.IH" [OF d(1) refl d(3) d(2)] .
  moreover have "1 \<le> r" using d(1) by (auto simp: to_digit_def Let_def split: if_splits)
  then have "acc \<le> acc * r" by simp
  ultimately show ?case by linarith
qed simp

lemma digits_val_limit: "digits_val r m acc cs = Some v \<Longrightarrow> v \<le> m' \<Longrightarrow> digits_val r m' acc cs = Some v"
proof (induction r m acc cs rule: digits_val.induct)
  case (2 r m acc c cs)
  then obtain d where d: "to_digit r c = Some d" "digits_val r m (acc * r + d) cs = Some v"
      "acc * r + d \<le> m" by (auto simp: Let_def split: option.splits if_splits)
  have "digits_val r m' (acc * r + d) cs = Some v" using "2.IH" [OF d(1) refl d(3) d(2) "2.prems"(2)] .
  moreover have "acc * r + d \<le> m'" using digits_val_ge [OF d(2)] "2.prems"(2) by simp
  ultimately show ?case using d(1) by simp
qed simp

lemma from_str_radix_limit: "from_str_radix r m s = Some v \<Longrightarrow> v \<le> m' \<Longrightarrow> from_str_radix r m' s = Some v"
  by (cases s) (auto simp: from_str_radix_def simp del: digits_val.simps split: if_splits intro: digits_val_limit)

lemma from_str_radix_le: "from_str_radix r m s = Some v \<Longrightarrow> v \<le> m"
  by (cases s) (auto simp: from_str_radix_def simp del: digits_val.simps split: if_splits dest: digits_val_bound)

lemma parse_prefix_agree:
  "(case parse_u8 s of None \<Rightarrow> None | Some v \<Rightarrow> if v \<le> 32 then Some (unat v) else None)
   = (case parse_u32 s of None \<Rightarrow> None | Some p \<Rightarrow> if p > 32 then None else Some (unat p))"
proof -
  have w8: "unat (word_of_nat v :: u8) = v" "(word_of_nat v :: u8) \<le> 32 \<longleftrightarrow> v \<le> 32" if "v \<le> 255" for v
    using that by (simp_all add: unat_of_nat word_le_nat_alt)
  have w32: "unat (word_of_nat v :: u32) = v" "32 < (word_of_nat v :: u32) \<longleftrightarrow> 32 < v" if "v \<le> 4294967295" for v
    using that by (simp_all add: unat_of_nat word_less_nat_alt)
  show ?thesis
  proof (cases "from_str_radix 10 255 s")
    case (Some v)
    have "from_str_radix 10 4294967295 s = Some v"
      using from_str_radix_limit [OF Some] from_str_radix_le [OF Some] by simp
    then show ?thesis using Some from_str_radix_le [OF Some] by (simp add: parse_u8_def parse_u32_def w8 w32 not_less)
  next
    case None
    have "32 < v" if "from_str_radix 10 4294967295 s = Some v" for v
      using from_str_radix_limit [OF that, of 255] None by (cases "v \<le> 255") simp_all
    then show ?thesis using None from_str_radix_le [of 10 4294967295 s]
      by (auto simp: parse_u8_def parse_u32_def w32 split: option.split)
  qed
qed

text \<open>The two ways the program tests an IPv4 address against a configured subnet agree.\<close>

theorem subnet_tests_agree:
  assumes "trim cidr = cidr"
    and "\<And>a b. split_once (CHR ''/'') cidr = Some (a, b) \<Longrightarrow> trim a = a \<and> trim b = b"
  shows "ipv4_in_cidr ip cidr =
     (case parse_ipv4 ip of None \<Rightarrow> False
      | Some a \<Rightarrow> (case parse_cidr_to_u32 cidr of None \<Rightarrow> False | Some (net, m) \<Rightarrow> a AND m = net AND m))"
proof (cases "split_once (CHR ''/'') cidr")
  case None
  then show ?thesis using assms(1) by (simp add: ipv4_in_cidr_def parse_cidr_to_u32_def split: option.split)
next
  case (Some ab)
  obtain a b where ab: "ab = (a, b)" by (cases ab)
  have t: "trim a = a" "trim b = b" using assms(2) Some ab by auto
  note agree = parse_prefix_agree [of b]
  show ?thesis
  proof (cases "parse_ipv4 a")
    case None
    then show ?thesis using Some ab t assms(1) by (simp add: ipv4_in_cidr_def parse_cidr_to_u32_def split: option.split)
  next
    case net: (Some net)
    show ?thesis
    proof (cases "parse_u32 b")
      case None
      then have "\<not> v \<le> 32" if "parse_u8 b = Some v" for v using agree that by (auto split: if_splits)
      then show ?thesis using None net Some ab t assms(1)
        by (auto simp: ipv4_in_cidr_def parse_cidr_to_u32_def split: option.split)
    next
      case p: (Some p)
      show ?thesis
      proof (cases "p > 32")
        case True
        then have "\<not> v \<le> 32" if "parse_u8 b = Some v" for v using agree that p by (auto split: if_splits)
        then show ?thesis using True p net Some ab t assms(1)
          by (auto simp: ipv4_in_cidr_def parse_cidr_to_u32_def split: option.split)
      next
        case False
        then obtain v where v: "parse_u8 b = Some v" "v \<le> 32" "unat v = unat p"
          using agree p by (auto split: option.splits if_splits)
        have m: "(if p = 0 then 0 else if p = 32 then - 1 else push_bit (32 - unat p) (- 1)) = ipv4_mask (unat p)"
          using ipv4_mask_cases [of p] False by simp
        show ?thesis using False v p net Some ab t assms(1)
          by (simp add: ipv4_in_cidr_def parse_cidr_to_u32_def m and.assoc Let_def split: option.split)
      qed
    qed
  qed
qed

theorem subnet_tests_agree_witness:
  "ipv4_in_cidr ''192.168.1.9'' ''192.168.1.0/24'' =
     (case parse_ipv4 ''192.168.1.9'' of None \<Rightarrow> False
      | Some a \<Rightarrow> (case parse_cidr_to_u32 ''192.168.1.0/24'' of None \<Rightarrow> False | Some (net, m) \<Rightarrow> a AND m = net AND m))"
proof (rule subnet_tests_agree)
  show "trim ''192.168.1.0/24'' = ''192.168.1.0/24''" by code_simp
  have "split_once (CHR ''/'') ''192.168.1.0/24'' = Some (''192.168.1.0'', ''24'')" by code_simp
  moreover have "trim ''192.168.1.0'' = ''192.168.1.0''" "trim ''24'' = ''24''" by code_simp+
  ultimately show "trim a = a \<and> trim b = b" if "split_once (CHR ''/'') ''192.168.1.0/24'' = Some (a, b)" for a b
    using that by simp
qed


section \<open>Observing neighbours\<close>

type_synonym observation = "ecm_addr \<times> device_key \<times> u64"

definition observe_all :: "u64 \<Rightarrow> observation list \<Rightarrow> ownership_cache \<Rightarrow> ownership_cache" where
  "observe_all tick obs cache = fold (\<lambda>(a, d, t). observe_neighbor a d t tick) obs cache"

definition observed_devices :: "ecm_addr \<Rightarrow> observation list \<Rightarrow> device_key list" where
  "observed_devices a obs = map (\<lambda>(_, d, _). d) (filter (\<lambda>(a', _, _). a' = a) obs)"

definition observed_times :: "ecm_addr \<Rightarrow> observation list \<Rightarrow> u64 list" where
  "observed_times a obs = map (\<lambda>(_, _, t). t) (filter (\<lambda>(a', _, _). a' = a) obs)"

text \<open>The device all observations agree on.\<close>

definition agreed :: "device_key list \<Rightarrow> device_key option" where
  "agreed ds = (case ds of [] \<Rightarrow> None | d # ds' \<Rightarrow> if \<forall>d' \<in> set ds'. d' = d then Some d else None)"

lemma agreed_snoc: "ds \<noteq> [] \<Longrightarrow> agreed (ds @ [d]) = (if agreed ds = Some d then Some d else None)"
  by (cases ds) (auto simp: agreed_def)

lemma agreed_set_cong: "set ds = set ds' \<Longrightarrow> agreed ds = agreed ds'"
proof -
  assume h: "set ds = set ds'"
  have iff: "agreed xs = Some x \<longleftrightarrow> set xs = {x}" for xs x by (cases xs) (auto simp: agreed_def)
  have "agreed ds = Some x \<longleftrightarrow> agreed ds' = Some x" for x by (simp only: iff h)
  then show ?thesis by (metis not_Some_eq)
qed

lemma observe_all_result:
  assumes "\<forall>e. cache a = Some e \<longrightarrow> ow_observation_tick e \<noteq> tick"
  shows "observe_all tick obs cache a =
     (if observed_devices a obs = [] then cache a
      else Some \<lparr>ow_device = agreed (observed_devices a obs), ow_observed_ms = last (observed_times a obs),
                 ow_observation_tick = tick\<rparr>)"
proof (induction obs rule: rev_induct)
  case Nil
  then show ?case by (simp add: observe_all_def observed_devices_def)
next
  case (snoc x obs)
  obtain b d t where x: "x = (b, d, t)" by (cases x)
  have run: "observe_all tick (obs @ [x]) cache = observe_neighbor b d t tick (observe_all tick obs cache)"
    by (simp add: observe_all_def x)
  show ?case
  proof (cases "b = a")
    case False
    then have "observed_devices a (obs @ [x]) = observed_devices a obs"
      and "observed_times a (obs @ [x]) = observed_times a obs"
      by (simp_all add: x observed_devices_def observed_times_def)
    moreover have "observe_all tick (obs @ [x]) cache a = observe_all tick obs cache a"
      using False by (simp add: run observe_neighbor_def Let_def)
    ultimately show ?thesis using snoc by simp
  next
    case True
    have ds: "observed_devices a (obs @ [x]) = observed_devices a obs @ [d]"
      and ts: "observed_times a (obs @ [x]) = observed_times a obs @ [t]"
      using True by (simp_all add: x observed_devices_def observed_times_def)
    show ?thesis
    proof (cases "observed_devices a obs = []")
      case empty: True
      then have "observe_all tick obs cache a = cache a" using snoc by simp
      then show ?thesis using True assms empty
        by (cases "cache a") (auto simp: run ds ts observe_neighbor_def Let_def agreed_def)
    next
      case False
      then have "observe_all tick obs cache a = Some \<lparr>ow_device = agreed (observed_devices a obs),
          ow_observed_ms = last (observed_times a obs), ow_observation_tick = tick\<rparr>" using snoc by simp
      then show ?thesis using True False by (simp add: run ds ts observe_neighbor_def Let_def agreed_snoc)
    qed
  qed
qed

lemma observed_perm:
  assumes "mset obs = mset obs'"
  shows "set (observed_devices a obs) = set (observed_devices a obs')"
    and "observed_devices a obs = [] \<longleftrightarrow> observed_devices a obs' = []"
proof -
  have s: "set obs = set obs'" using assms by (rule mset_eq_setD)
  then show "set (observed_devices a obs) = set (observed_devices a obs')" by (simp add: observed_devices_def)
  show "observed_devices a obs = [] \<longleftrightarrow> observed_devices a obs' = []"
    using s by (auto simp: observed_devices_def filter_empty_conv)
qed

text \<open>C34: the owner of an offloaded address after a round of neighbour observations does not depend on
  the order the system lists the neighbours in: it is the device every observation of the address
  names, no device when two observations disagree, what it was before when there is none; and it
  counts as the owner for five minutes after the observation.\<close>

theorem neighbour_owner_order_independent:
  assumes "\<forall>a e. cache a = Some e \<longrightarrow> ow_observation_tick e \<noteq> tick" and "mset obs = mset obs'"
  shows "map_option ow_device (observe_all tick obs cache a) = map_option ow_device (observe_all tick obs' cache a)
    \<and> (observed_devices a obs \<noteq> [] \<longrightarrow>
        (\<exists>e. observe_all tick obs cache a = Some e \<and>
             (valid_owner now e = Some d \<longleftrightarrow>
                set (observed_devices a obs) = {d} \<and> sat_sub now (last (observed_times a obs)) < 300000)))"
proof (intro conjI impI)
  have c: "\<forall>e. cache a = Some e \<longrightarrow> ow_observation_tick e \<noteq> tick" using assms(1) by blast
  note p = observed_perm [OF assms(2), of a]
  show "map_option ow_device (observe_all tick obs cache a) = map_option ow_device (observe_all tick obs' cache a)"
    using p agreed_set_cong [OF p(1)] by (simp add: observe_all_result [of cache a tick, OF c])
  assume ne: "observed_devices a obs \<noteq> []"
  have "agreed (observed_devices a obs) = Some d \<longleftrightarrow> set (observed_devices a obs) = {d}"
    using ne by (cases "observed_devices a obs") (auto simp: agreed_def)
  then show "\<exists>e. observe_all tick obs cache a = Some e \<and>
             (valid_owner now e = Some d \<longleftrightarrow>
                set (observed_devices a obs) = {d} \<and> sat_sub now (last (observed_times a obs)) < 300000)"
    using ne by (simp add: observe_all_result [of cache a tick, OF c] valid_owner_def)
qed

theorem neighbour_owner_order_independent_witness:
  "map_option ow_device (observe_all 7 [(([1, 0, 0, 0], 4), (2, [2, 0, 0, 0, 0, 1]), 7), (([1, 0, 0, 0], 4), (2, [2, 0, 0, 0, 0, 2]), 7)]
      Map.empty ([1, 0, 0, 0], 4))
   = map_option ow_device (observe_all 7 [(([1, 0, 0, 0], 4), (2, [2, 0, 0, 0, 0, 2]), 7), (([1, 0, 0, 0], 4), (2, [2, 0, 0, 0, 0, 1]), 7)]
      Map.empty ([1, 0, 0, 0], 4))"
  by (rule neighbour_owner_order_independent [THEN conjunct1]) simp_all

text \<open>An address that two devices claimed at the same tick has no owner; the next tick that sees one of
  them resolves it again.\<close>

lemma conflict_unresolved:
  assumes "\<forall>e. cache a = Some e \<longrightarrow> ow_observation_tick e \<noteq> tick" and "d1 \<noteq> d2"
    and "d1 \<in> set (observed_devices a obs)" and "d2 \<in> set (observed_devices a obs)"
  shows "\<exists>e. observe_all tick obs cache a = Some e \<and> valid_owner now e = None"
proof -
  have "agreed (observed_devices a obs) = None"
    using assms(2-4) by (cases "observed_devices a obs") (auto simp: agreed_def split: if_splits, metis+)
  moreover have "observed_devices a obs \<noteq> []" using assms(3) by auto
  ultimately show ?thesis by (simp add: observe_all_result [of cache a tick, OF assms(1)] valid_owner_def)
qed

end
