(* ===== verification/Ring_Codec.thy ===== *)
theory Ring_Codec
  imports Buckets
begin

text \<open>
  The on-disk format of the traffic rings of \<open>persistence.rs\<close>: the 64 byte header, the
  220 byte version 2 record (and the 180 byte version 1 record that is still read) and their
  FNV-1a checksum, with the round trips and the detection of damaged records.
\<close>

section \<open>Errors and constants\<close>

datatype ring_error =
    Io_error
  | Zero_capacity
  | Invalid_magic
  | Unsupported_version u32
  | Header_checksum
  | Header_values
  | Header_positions
  | Inconsistent_nonfull u32 u32
  | Record_length
  | Record_checksum

abbreviation ring_magic :: bytes where
  "ring_magic \<equiv> [0x42, 0x44, 0x58, 0x50, 0x52, 0x4E, 0x47, 0x31]"

abbreviation ring_version :: u32 where "ring_version \<equiv> 2"
abbreviation ring_header_size :: nat where "ring_header_size \<equiv> 64"
abbreviation ring_v1_record_size :: nat where "ring_v1_record_size \<equiv> 180"
abbreviation ring_record_data_size :: nat where "ring_record_data_size \<equiv> 216"
abbreviation ring_record_size :: nat where "ring_record_size \<equiv> 220"

record ring_header =
  rh_version :: u32
  rh_slot_count :: u32
  rh_write_pos :: u32
  rh_valid_count :: u32
  rh_record_size :: u32

record ring_record =
  rr_bucket :: bucket

section \<open>The checksum\<close>

definition checksum_step :: "u32 \<Rightarrow> u8 \<Rightarrow> u32" where
  "checksum_step h b = (h XOR ucast b) * 0x01000193"

definition checksum32 :: "bytes \<Rightarrow> u32" where
  "checksum32 data = foldl checksum_step 0x811c9dc5 data"

section \<open>Header\<close>

definition default_ring_header :: "u32 \<Rightarrow> ring_header" where
  "default_ring_header slots =
     \<lparr>rh_version = ring_version, rh_slot_count = slots, rh_write_pos = 0, rh_valid_count = 0,
      rh_record_size = of_nat ring_record_size\<rparr>"

definition header_prefix :: "ring_header \<Rightarrow> bytes" where
  "header_prefix h = ring_magic @ le32 (rh_version h) @ le32 (rh_slot_count h) @ le32 (rh_write_pos h)
     @ le32 (rh_valid_count h) @ le32 (rh_record_size h)"

definition encode_ring_header :: "ring_header \<Rightarrow> bytes" where
  "encode_ring_header h = header_prefix h @ le32 (checksum32 (header_prefix h)) @ replicate 32 0"

text \<open>The checks of \<open>read_ring_header\<close> on the 64 bytes it has read, in their order.\<close>

definition decode_ring_header :: "bytes \<Rightarrow> ring_error + ring_header" where
  "decode_ring_header buf =
     (if slice 0 8 buf \<noteq> ring_magic then Inl Invalid_magic else
      let version = of_le32 (slice 8 4 buf) in
      if version \<noteq> 1 \<and> version \<noteq> ring_version then Inl (Unsupported_version version) else
      if of_le32 (slice 28 4 buf) \<noteq> checksum32 (slice 0 28 buf) then Inl Header_checksum else
      let slots = of_le32 (slice 12 4 buf);
          write_pos = of_le32 (slice 16 4 buf);
          valid = of_le32 (slice 20 4 buf);
          size = of_le32 (slice 24 4 buf);
          expected = (if version = 1 then ring_v1_record_size else ring_record_size) in
      if slots = 0 \<or> unat size \<noteq> expected then Inl Header_values else
      if write_pos \<ge> slots \<or> valid > slots then Inl Header_positions else
      Inr \<lparr>rh_version = version, rh_slot_count = slots, rh_write_pos = write_pos,
           rh_valid_count = valid, rh_record_size = size\<rparr>)"

text \<open>\<open>read_exact\<close> of the first 64 bytes fails on a shorter file.\<close>

definition read_ring_header :: "bytes \<Rightarrow> ring_error + ring_header" where
  "read_ring_header file =
     (if length file < ring_header_size then Inl Io_error
      else decode_ring_header (slice 0 ring_header_size file))"

definition header_ok :: "ring_header \<Rightarrow> bool" where
  "header_ok h =
     ((rh_version h = 1 \<and> unat (rh_record_size h) = ring_v1_record_size
       \<or> rh_version h = ring_version \<and> unat (rh_record_size h) = ring_record_size)
      \<and> 0 < rh_slot_count h \<and> rh_write_pos h < rh_slot_count h \<and> rh_valid_count h \<le> rh_slot_count h)"

definition ring_total_size :: "ring_header \<Rightarrow> nat" where
  "ring_total_size h = ring_header_size + unat (rh_slot_count h) * unat (rh_record_size h)"

definition ring_min_size :: "ring_header \<Rightarrow> ring_error + nat" where
  "ring_min_size h =
     (if rh_valid_count h = 0 then Inr ring_header_size
      else if rh_valid_count h < rh_slot_count h
      then (if rh_write_pos h \<noteq> rh_valid_count h
            then Inl (Inconsistent_nonfull (rh_write_pos h) (rh_valid_count h))
            else Inr (ring_header_size + unat (rh_valid_count h) * unat (rh_record_size h)))
      else Inr (ring_header_size + unat (rh_slot_count h) * unat (rh_record_size h)))"

definition ring_size_bounds :: "ring_header \<Rightarrow> ring_error + (nat \<times> nat)" where
  "ring_size_bounds h =
     (case ring_min_size h of Inl e \<Rightarrow> Inl e | Inr m \<Rightarrow> Inr (m, ring_total_size h))"

definition ring_data_offset :: "ring_header \<Rightarrow> nat \<Rightarrow> nat" where
  "ring_data_offset h slot = ring_header_size + slot * unat (rh_record_size h)"

section \<open>Records\<close>

definition record_fields :: "bucket \<Rightarrow> u64 list" where
  "record_fields b =
     [start_ts_ms b, end_ts_ms b, sample_count b,
      up_v4_bytes b, down_v4_bytes b, up_v6_bytes b, down_v6_bytes b,
      up_v4_bps_sum b, up_v4_bps_max b, up_v4_bps_min b, up_v4_bps_avg b, up_v4_bps_p95 b,
      down_v4_bps_sum b, down_v4_bps_max b, down_v4_bps_min b, down_v4_bps_avg b, down_v4_bps_p95 b,
      up_v6_bps_sum b, up_v6_bps_max b, up_v6_bps_min b, up_v6_bps_avg b, up_v6_bps_p95 b,
      down_v6_bps_sum b, down_v6_bps_max b, down_v6_bps_min b, down_v6_bps_avg b, down_v6_bps_p95 b]"

definition encode_ring_record :: "ring_record \<Rightarrow> bytes" where
  "encode_ring_record r =
     (let data = concat (map le64 (record_fields (rr_bucket r)))
      in data @ le32 (checksum32 data))"

text \<open>The \<open>i\<close>-th call of the closure \<open>next\<close>.\<close>

definition next_u64 :: "bytes \<Rightarrow> nat \<Rightarrow> u64" where
  "next_u64 data i = of_le64 (slice (8 * i) 8 data)"

definition decode_v1_bucket :: "bytes \<Rightarrow> bucket" where
  "decode_v1_bucket d =
     (let n = next_u64 d in
      \<lparr>start_ts_ms = n 0, end_ts_ms = n 1, sample_count = 1,
       up_v4_bytes = n 2, down_v4_bytes = n 3, up_v6_bytes = n 4, down_v6_bytes = n 5,
       up_v4_bps_sum = n 6, up_v4_bps_max = n 7, up_v4_bps_min = n 8,
       down_v4_bps_sum = n 10, down_v4_bps_max = n 11, down_v4_bps_min = n 12,
       up_v6_bps_sum = n 14, up_v6_bps_max = n 15, up_v6_bps_min = n 16,
       down_v6_bps_sum = n 18, down_v6_bps_max = n 19, down_v6_bps_min = n 20,
       up_v4_bps_avg = n 6, up_v4_bps_p95 = n 9, down_v4_bps_avg = n 10, down_v4_bps_p95 = n 13,
       up_v6_bps_avg = n 14, up_v6_bps_p95 = n 17, down_v6_bps_avg = n 18, down_v6_bps_p95 = n 21\<rparr>)"

definition decode_v2_bucket :: "bytes \<Rightarrow> bucket" where
  "decode_v2_bucket d =
     (let n = next_u64 d in
      \<lparr>start_ts_ms = n 0, end_ts_ms = n 1, sample_count = n 2,
       up_v4_bytes = n 3, down_v4_bytes = n 4, up_v6_bytes = n 5, down_v6_bytes = n 6,
       up_v4_bps_sum = n 7, up_v4_bps_max = n 8, up_v4_bps_min = n 9,
       down_v4_bps_sum = n 12, down_v4_bps_max = n 13, down_v4_bps_min = n 14,
       up_v6_bps_sum = n 17, up_v6_bps_max = n 18, up_v6_bps_min = n 19,
       down_v6_bps_sum = n 22, down_v6_bps_max = n 23, down_v6_bps_min = n 24,
       up_v4_bps_avg = n 10, up_v4_bps_p95 = n 11, down_v4_bps_avg = n 15, down_v4_bps_p95 = n 16,
       up_v6_bps_avg = n 20, up_v6_bps_p95 = n 21, down_v6_bps_avg = n 25, down_v6_bps_p95 = n 26\<rparr>)"

definition decode_ring_record :: "bytes \<Rightarrow> u32 \<Rightarrow> ring_error + ring_record" where
  "decode_ring_record data version =
     (let record_size = (if version = 1 then ring_v1_record_size else ring_record_size) in
      if length data \<noteq> record_size then Inl Record_length else
      let data_size = record_size - 4 in
      if of_le32 (drop data_size data) \<noteq> checksum32 (take data_size data) then Inl Record_checksum else
      Inr \<lparr>rr_bucket = (if version = 1 then decode_v1_bucket data else decode_v2_bucket data)\<rparr>)"

section \<open>Fixed width codecs\<close>

text \<open>
  A codec of constant width: any slot of a concatenation of encoded values decodes to the
  value written there. The ring's headers and records are both such codecs.
\<close>

locale fixed_codec =
  fixes enc :: "'a \<Rightarrow> bytes" and dc :: "bytes \<Rightarrow> ring_error + 'a" and width :: nat
    and ok :: "'a \<Rightarrow> bool"
  assumes enc_length: "length (enc x) = width"
    and dc_enc: "ok x \<Longrightarrow> dc (enc x) = Inr x"
begin

lemma slot_bytes: "i < length xs \<Longrightarrow> slice (width * i) width (concat (map enc xs)) = enc (xs ! i)"
  by (subst slice_concat_uniform) (auto simp: enc_length)

lemma slot_decodes:
  "i < length xs \<Longrightarrow> ok (xs ! i) \<Longrightarrow> dc (slice (width * i) width (concat (map enc xs))) = Inr (xs ! i)"
  by (simp add: slot_bytes dc_enc)

lemma total_length: "length (concat (map enc xs)) = width * length xs"
  by (subst length_concat_uniform [where w = width]) (auto simp: enc_length)

lemma prefix_decodes: "ok x \<Longrightarrow> dc (slice 0 width (enc x @ rest)) = Inr x"
  by (simp add: slice_append_left enc_length dc_enc)

lemma enc_inject: "ok x \<Longrightarrow> ok y \<Longrightarrow> enc x = enc y \<Longrightarrow> x = y"
  by (metis dc_enc sum.inject(2))

end

lemma length_header_prefix [simp]: "length (header_prefix h) = 28"
  by (simp add: header_prefix_def)

lemma length_encode_ring_header [simp]: "length (encode_ring_header h) = 64"
  by (simp add: encode_ring_header_def)

lemma header_prefix_slices:
  "slice 0 8 (header_prefix h @ r) = ring_magic"
  "slice 8 4 (header_prefix h @ r) = le32 (rh_version h)"
  "slice 12 4 (header_prefix h @ r) = le32 (rh_slot_count h)"
  "slice 16 4 (header_prefix h @ r) = le32 (rh_write_pos h)"
  "slice 20 4 (header_prefix h @ r) = le32 (rh_valid_count h)"
  "slice 24 4 (header_prefix h @ r) = le32 (rh_record_size h)"
  by (simp_all add: header_prefix_def slice_def)

lemma decode_encode_ring_header: "header_ok h \<Longrightarrow> decode_ring_header (encode_ring_header h) = Inr h"
proof -
  assume ok: "header_ok h"
  have a: "slice 0 28 (encode_ring_header h) = header_prefix h"
    by (simp add: encode_ring_header_def slice_append_left)
  have b: "slice 28 4 (encode_ring_header h) = le32 (checksum32 (header_prefix h))"
    by (simp add: encode_ring_header_def slice_append_right slice_append_left)
  note s = header_prefix_slices [of h "le32 (checksum32 (header_prefix h)) @ replicate 32 0",
      folded encode_ring_header_def]
  show ?thesis
    using ok unfolding decode_ring_header_def header_ok_def
    by (auto simp: a b s Let_def)
qed

lemma length_record_data [simp]: "length (concat (map le64 (record_fields b))) = 216"
  by (subst length_concat_uniform [where w = 8]) (auto simp: record_fields_def)

lemma length_encode_ring_record [simp]: "length (encode_ring_record r) = 220"
  by (simp add: encode_ring_record_def Let_def)

lemma length_record_fields [simp]: "length (record_fields b) = 27"
  by (simp add: record_fields_def)

lemma next_u64_record:
  assumes "i < 27"
  shows "next_u64 (concat (map le64 (record_fields b)) @ r) i = record_fields b ! i"
proof -
  have "slice (8 * i) 8 (concat (map le64 (record_fields b)) @ r)
      = slice (8 * i) 8 (concat (map le64 (record_fields b)))"
    using assms by (subst slice_append_left) auto
  also have "\<dots> = map le64 (record_fields b) ! i"
    using assms by (intro slice_concat_uniform) auto
  finally show ?thesis using assms by (simp add: next_u64_def)
qed

lemma decode_v2_fields:
  "decode_v2_bucket (concat (map le64 (record_fields b)) @ r) = b"
  by (simp add: decode_v2_bucket_def Let_def next_u64_record) (simp add: record_fields_def)

lemma decode_encode_ring_record: "decode_ring_record (encode_ring_record r) 2 = Inr r"
  by (cases r) (simp add: decode_ring_record_def encode_ring_record_def Let_def decode_v2_fields)

interpretation header_codec: fixed_codec encode_ring_header decode_ring_header 64 header_ok
  by unfold_locales (simp_all add: decode_encode_ring_header)

interpretation record_codec: fixed_codec encode_ring_record "\<lambda>d. decode_ring_record d 2" 220 "\<lambda>_. True"
  by unfold_locales (simp_all add: decode_encode_ring_record)

text \<open>A header written to the front of a ring file is read back as it was, whatever follows it,
  for every header the code can write (either version, positions within the capacity).\<close>

theorem ring_header_roundtrip:
  assumes "header_ok h"
  shows "read_ring_header (encode_ring_header h @ rest) = Inr h"
  using header_codec.prefix_decodes [OF assms, of rest] by (simp add: read_ring_header_def)

theorem ring_header_roundtrip_witness:
  "read_ring_header (encode_ring_header (default_ring_header 720) @ [1, 2]) = Inr (default_ring_header 720)"
  by (rule ring_header_roundtrip) (simp add: header_ok_def default_ring_header_def word_less_nat_alt)

text \<open>Decoding an encoded record gives the record back, field by field (27 of them), and only the
  220 byte form decodes.\<close>

theorem ring_record_roundtrip:
  "decode_ring_record (encode_ring_record r) 2 = Inr r
   \<and> (length data \<noteq> 220 \<longrightarrow> decode_ring_record data 2 = Inl Record_length)"
  by (simp add: decode_encode_ring_record) (simp add: decode_ring_record_def)

theorem ring_record_roundtrip_witness:
  "decode_ring_record [1, 2, 3] 2 = Inl Record_length"
  using ring_record_roundtrip [of undefined "[1, 2, 3]"] by simp

section \<open>The checksum detects a damaged byte\<close>

lemma fnv_prime_inverse: "(0x01000193 :: u32) * 0x359c449b = 1"
  by simp

lemma fnv_mult_inj: "a * 0x01000193 = b * 0x01000193 \<Longrightarrow> a = b" for a b :: u32
proof -
  assume "a * 0x01000193 = b * 0x01000193"
  then have "a * (0x01000193 * 0x359c449b) = b * (0x01000193 * 0x359c449b)"
    by (simp only: mult.assoc [symmetric])
  then show "a = b" by (simp only: fnv_prime_inverse mult_1_right)
qed

lemma xor_inj: "a XOR c = b XOR c \<Longrightarrow> a = b" for a b c :: "'a::len word"
  by (metis xor.assoc xor_self_eq xor.right_neutral)

lemma checksum_step_inj: "checksum_step h b = checksum_step h' b \<Longrightarrow> h = h'"
  by (auto simp: checksum_step_def dest!: fnv_mult_inj xor_inj)

lemma checksum_step_byte_inj:
  assumes "checksum_step h a = checksum_step h b"
  shows "a = b"
proof -
  have "h XOR ucast a = h XOR ucast b"
    using assms by (auto simp: checksum_step_def dest: fnv_mult_inj)
  then have h: "(ucast a :: u32) = ucast b" by (metis xor.commute xor_inj)
  show ?thesis
  proof (rule bit_word_eqI)
    fix n assume "n < LENGTH(8)"
    then show "bit a n = bit b n" using arg_cong [OF h, of "\<lambda>w. bit w n"] by (simp add: bit_ucast_iff)
  qed
qed

lemma foldl_checksum_inj: "foldl checksum_step h bs = foldl checksum_step h' bs \<Longrightarrow> h = h'"
  by (induction bs arbitrary: h h') (auto dest: checksum_step_inj)

lemma checksum32_update:
  assumes "i < length data" and "checksum32 (data[i := b]) = checksum32 data"
  shows "b = data ! i"
proof -
  have "data = take i data @ data ! i # drop (Suc i) data"
    using assms(1) by (rule id_take_nth_drop)
  moreover have "data[i := b] = take i data @ b # drop (Suc i) data"
    using assms(1) by (rule upd_conv_take_nth_drop)
  ultimately have "foldl checksum_step 0x811c9dc5 (take i data @ b # drop (Suc i) data)
      = foldl checksum_step 0x811c9dc5 (take i data @ data ! i # drop (Suc i) data)"
    using assms(2) unfolding checksum32_def by metis
  then show ?thesis
    by (auto dest!: foldl_checksum_inj checksum_step_byte_inj)
qed

text \<open>C25: a stored record with one damaged byte, wherever it is, is never accepted: the checksum is
  reported as wrong and no bucket is restored from it.\<close>

theorem damaged_record_detected:
  assumes "i < 220" and "b \<noteq> encode_ring_record r ! i"
  shows "decode_ring_record ((encode_ring_record r)[i := b]) 2 = Inl Record_checksum"
proof -
  define d where "d = concat (map le64 (record_fields (rr_bucket r)))"
  have len: "length d = 216" by (simp add: d_def)
  have enc: "encode_ring_record r = d @ le32 (checksum32 d)"
    by (simp add: encode_ring_record_def d_def Let_def)
  have "of_le32 (drop 216 ((encode_ring_record r)[i := b])) \<noteq> checksum32 (take 216 ((encode_ring_record r)[i := b]))"
  proof (cases "i < 216")
    case True
    then have e: "(encode_ring_record r)[i := b] = d[i := b] @ le32 (checksum32 d)"
      by (simp add: enc len list_update_append1)
    have "checksum32 (d[i := b]) \<noteq> checksum32 d"
      using checksum32_update [of i d b] True len assms(2) by (auto simp: enc nth_append)
    then show ?thesis unfolding e by (simp add: len)
  next
    case False
    let ?c = "le32 (checksum32 d)"
    have e: "(encode_ring_record r)[i := b] = d @ ?c[i - 216 := b]"
      using False by (simp add: enc len list_update_append)
    have "?c[i - 216 := b] \<noteq> ?c"
      using False assms len by (auto simp: enc nth_append dest!: arg_cong [where f = "\<lambda>xs. xs ! (i - 216)"])
    moreover have "le32 (of_le32 bs) = bs" if "length bs = 4" for bs
      using that le_to_nat_bound [of bs] nat_to_le_to_nat [of bs]
      by (simp add: le32_def of_le32_def unat_of_nat)
    ultimately have "of_le32 (?c[i - 216 := b]) \<noteq> checksum32 d"
      by (metis length_le(2) length_list_update)
    then show ?thesis unfolding e by (simp add: len)
  qed
  then show ?thesis by (simp add: decode_ring_record_def Let_def)
qed

lemma nat_to_le_0: "nat_to_le n 0 = replicate n 0"
  by (induction n) simp_all

lemma le64_0: "le64 0 = replicate 8 0"
  by (simp only: le64_def unsigned_0 nat_to_le_0)

lemma encode_empty_first: "encode_ring_record \<lparr>rr_bucket = empty_bucket 0 1\<rparr> ! 0 = 0"
  by (simp add: encode_ring_record_def Let_def record_fields_def empty_bucket_def le64_0 nth_append)

theorem damaged_record_detected_witness:
  "let r = \<lparr>rr_bucket = empty_bucket 0 1\<rparr>
   in decode_ring_record ((encode_ring_record r)[0 := 1]) 2 = Inl Record_checksum"
  unfolding Let_def
  by (rule damaged_record_detected) (simp_all add: encode_empty_first)

end
