(* ===== verification/Ring.thy ===== *)
theory Ring
  imports Ring_Codec Rust_Strings
begin

text \<open>
  The ring files of \<open>persistence.rs\<close>: appending an hour's record, reading the records back
  oldest first, opening or creating a ring of a given capacity, migrating rings of the first
  format version or of another capacity, and moving damaged files out of the way.

  The file system maps paths (directory and file name) to contents. An I/O operation on a
  file that exists succeeds; opening a file that does not exist, creating one that does
  (\<open>create_new\<close>) and reading past the end fail. The process id and the clock are the
  environment.
\<close>

section \<open>Files\<close>

type_synonym path = "string \<times> string"
type_synonym files = "path \<Rightarrow> bytes option"

record env =
  env_pid :: u32
  env_now_ms :: u64

definition file_stem :: "string \<Rightarrow> string" where
  "file_stem n = (case rsplit_once CHR ''.'' n of
     None \<Rightarrow> n | Some (a, _) \<Rightarrow> if a = [] then n else a)"

definition file_extension :: "string \<Rightarrow> string option" where
  "file_extension n = (case rsplit_once CHR ''.'' n of
     None \<Rightarrow> None | Some (a, b) \<Rightarrow> if a = [] then None else Some b)"

definition with_extension :: "path \<Rightarrow> string \<Rightarrow> path" where
  "with_extension p ext = (fst p, file_stem (snd p) @ ''.'' @ ext)"

definition is_ring_file :: "path \<Rightarrow> bool" where
  "is_ring_file p = (file_extension (snd p) = Some ''ring'')"

definition bad_path :: "env \<Rightarrow> path \<Rightarrow> path" where
  "bad_path e p = (fst p, snd p @ ''.bad.'' @ dec (unat (env_now_ms e)))"

definition quarantine_bad_file :: "env \<Rightarrow> path \<Rightarrow> files \<Rightarrow> files" where
  "quarantine_bad_file e p fs =
     (case fs p of None \<Rightarrow> fs | Some c \<Rightarrow> fs(p := None, bad_path e p := Some c))"

definition write_at :: "nat \<Rightarrow> bytes \<Rightarrow> bytes \<Rightarrow> bytes" where
  "write_at off bs file =
     take off (file @ replicate (off - length file) 0) @ bs @ drop (off + length bs) file"

definition write_ring_header :: "ring_header \<Rightarrow> bytes \<Rightarrow> bytes" where
  "write_ring_header h file = write_at 0 (encode_ring_header h) file"

section \<open>Reading\<close>

datatype read_outcome = Corrupt | Eof | Records "ring_record list"

fun read_slots ::
  "ring_header \<Rightarrow> bytes \<Rightarrow> nat \<Rightarrow> nat \<Rightarrow> nat \<Rightarrow> nat \<Rightarrow> ring_record list \<Rightarrow> read_outcome" where
  "read_slots h file start 0 i pos out = Records out"
| "read_slots h file start (Suc n) i pos out =
     (let idx = (start + i) mod unat (rh_slot_count h);
          size = unat (rh_record_size h);
          offset = ring_data_offset h idx
      in if offset + size > length file then Corrupt else
         let pos' = (if i > 0 \<and> idx = 0 then offset else pos) in
         if pos' + size > length file then Eof else
         (case decode_ring_record (slice pos' size file) (rh_version h) of
            Inl _ \<Rightarrow> Corrupt
          | Inr r \<Rightarrow> read_slots h file start n (Suc i) (pos' + size) (out @ [r])))"

definition read_ring_records_limited ::
  "env \<Rightarrow> path \<Rightarrow> u32 \<Rightarrow> files \<Rightarrow> files \<times> (ring_error + ring_record list)" where
  "read_ring_records_limited e p limit fs =
     (case fs p of None \<Rightarrow> (fs, Inl Io_error) | Some file \<Rightarrow>
        (case read_ring_header file of Inl _ \<Rightarrow> (quarantine_bad_file e p fs, Inr []) | Inr h \<Rightarrow>
           (case ring_size_bounds h of Inl _ \<Rightarrow> (quarantine_bad_file e p fs, Inr []) | Inr (lo, hi) \<Rightarrow>
              if length file < lo \<or> length file > hi then (quarantine_bad_file e p fs, Inr []) else
              let count = unat (min (rh_valid_count h) limit);
                  start = (unat (rh_write_pos h) + unat (rh_slot_count h) - count) mod unat (rh_slot_count h)
              in (case read_slots h file start count 0 (ring_data_offset h start) [] of
                    Corrupt \<Rightarrow> (quarantine_bad_file e p fs, Inr [])
                  | Eof \<Rightarrow> (fs, Inl Io_error)
                  | Records rs \<Rightarrow> (fs, Inr rs)))))"

definition read_ring_records :: "env \<Rightarrow> path \<Rightarrow> files \<Rightarrow> files \<times> (ring_error + ring_record list)" where
  "read_ring_records e p fs = read_ring_records_limited e p (- 1) fs"

section \<open>Opening and migrating\<close>

definition migrate_tmp_path :: "env \<Rightarrow> path \<Rightarrow> path" where
  "migrate_tmp_path e p =
     with_extension p (''migrate.'' @ dec (unat (env_pid e)) @ ''.'' @ dec (unat (env_now_ms e)))"

definition migrated_header :: "u32 \<Rightarrow> ring_record list \<Rightarrow> ring_header" where
  "migrated_header slots rs =
     (default_ring_header slots)\<lparr>rh_valid_count := of_nat (length rs),
        rh_write_pos := of_nat (length rs) mod slots\<rparr>"

definition migrate_ring :: "env \<Rightarrow> path \<Rightarrow> u32 \<Rightarrow> files \<Rightarrow> files \<times> (ring_error + unit)" where
  "migrate_ring e p slots fs =
     (case read_ring_records_limited e p slots fs of
        (fs1, Inl err) \<Rightarrow> (fs1, Inl err)
      | (fs1, Inr rs) \<Rightarrow>
          let tmp = migrate_tmp_path e p in
          if fs1 tmp \<noteq> None then (fs1(tmp := None), Inl Io_error)
          else (let file = write_ring_header (migrated_header slots rs) [] @ concat (map encode_ring_record rs)
                in (fs1(tmp := None, p := Some file), Inr ())))"

lemma quarantine_gone [simp]: "quarantine_bad_file e p fs p = None"
proof -
  have "bad_path e p \<noteq> p" by (cases p) (simp add: bad_path_def)
  then show ?thesis by (simp add: quarantine_bad_file_def split: option.split)
qed

text \<open>
  A damaged file is quarantined and the function starts over; then the path no longer
  exists, so it restarts at most once.
\<close>

function open_or_create_ring :: "env \<Rightarrow> path \<Rightarrow> u32 \<Rightarrow> files \<Rightarrow> files \<times> (ring_error + unit)" where
  "open_or_create_ring e p slots fs =
     (if \<not> slots > 0 then (fs, Inl Zero_capacity) else
      case fs p of
        None \<Rightarrow> (fs(p := Some (write_ring_header (default_ring_header slots) [])), Inr ())
      | Some file \<Rightarrow>
          (case read_ring_header file of
             Inl _ \<Rightarrow> open_or_create_ring e p slots (quarantine_bad_file e p fs)
           | Inr h \<Rightarrow>
               (case ring_size_bounds h of
                  Inl err \<Rightarrow> (fs, Inl err)
                | Inr (lo, hi) \<Rightarrow>
                    if length file < lo \<or> length file > hi
                    then open_or_create_ring e p slots (quarantine_bad_file e p fs)
                    else if rh_version h = 1 \<or> rh_slot_count h \<noteq> slots
                    then migrate_ring e p slots fs
                    else (fs, Inr ()))))"
  by pat_completeness auto
termination by (relation "measure (\<lambda>(e, p, slots, fs). if fs p = None then 0 else 1)") auto

declare open_or_create_ring.simps [simp del]

section \<open>Appending\<close>

definition advance_header :: "ring_header \<Rightarrow> ring_header" where
  "advance_header h =
     (let slot = rh_write_pos h mod rh_slot_count h
      in h\<lparr>rh_write_pos := (slot + 1) mod rh_slot_count h,
           rh_valid_count := min (rh_valid_count h + 1) (rh_slot_count h)\<rparr>)"

definition append_ring_record_with_capacity ::
  "env \<Rightarrow> path \<Rightarrow> ring_record \<Rightarrow> u32 \<Rightarrow> files \<Rightarrow> files \<times> (ring_error + unit)" where
  "append_ring_record_with_capacity e p r slots fs =
     (case open_or_create_ring e p slots fs of
        (fs1, Inl err) \<Rightarrow> (fs1, Inl err)
      | (fs1, Inr _) \<Rightarrow>
          (case fs1 p of None \<Rightarrow> (fs1, Inl Io_error) | Some file \<Rightarrow>
             (case read_ring_header file of
                Inl err \<Rightarrow> (fs1, Inl err)
              | Inr h \<Rightarrow>
                  let slot = unat (rh_write_pos h mod rh_slot_count h);
                      file1 = write_at (ring_data_offset h slot) (encode_ring_record r) file;
                      file2 = write_ring_header (advance_header h) file1
                  in (fs1(p := Some file2), Inr ()))))"

section \<open>Names of ring files\<close>

definition normalize_mac_hex :: "string \<Rightarrow> string option" where
  "normalize_mac_hex mac =
     (let compact = to_ascii_lowercase (filter (\<lambda>c. c \<noteq> CHR '':'') mac)
      in if length compact \<noteq> 12 \<or> \<not> list_all is_ascii_hexdigit compact then None else Some compact)"

definition mac_hex_to_colon :: "string \<Rightarrow> string option" where
  "mac_hex_to_colon hx =
     (if length hx \<noteq> 12 \<or> \<not> list_all is_ascii_hexdigit hx then None
      else Some (join '':'' (map (\<lambda>i. to_ascii_lowercase (slice (i * 2) 2 hx)) [0..<6])))"

definition encode_component :: "string \<Rightarrow> string" where
  "encode_component input = concat (map (hex02 \<circ> byte_of) input)"

fun decode_pairs :: "string list \<Rightarrow> bytes \<Rightarrow> bytes res" where
  "decode_pairs [] acc = Ok acc"
| "decode_pairs [hi] acc = Panic"
| "decode_pairs (hi # lo # rest) acc =
     bindr (of_opt (parse_hex_u8 (hi @ lo))) (\<lambda>v. decode_pairs rest (acc @ [v]))"

definition decode_component :: "string \<Rightarrow> string res" where
  "decode_component hx =
     (if hx = [] \<or> length hx mod 2 \<noteq> 0 then Fail
      else bindr (decode_pairs (chars hx) []) (\<lambda>bs. of_opt (from_utf8 bs)))"

lemma byte_of_digit_char [simp]: "d < 16 \<Longrightarrow> byte_of (digit_char d) < 128"
  by (simp add: byte_of_def word_less_nat_alt unat_of_nat)

lemma chars_encode_component:
  "chars (encode_component s) = concat (map (\<lambda>c. map (\<lambda>d. [d]) (hex02 (byte_of c))) s)"
proof (induction s)
  case Nil
  then show ?case by (simp add: encode_component_def)
next
  case (Cons c s)
  have "unat (byte_of c) div 16 < 16" using unat_lt [of "byte_of c"] by auto
  with Cons show ?case by (simp add: encode_component_def hex02_def chars_ascii)
qed

lemma decode_pairs_hex:
  "decode_pairs (concat (map (\<lambda>c. map (\<lambda>d. [d]) (hex02 (byte_of c))) s)) acc = Ok (acc @ bytes_of_string s)"
proof (induction s arbitrary: acc)
  case Nil
  then show ?case by (simp add: bytes_of_string_def)
next
  case (Cons c s)
  have "parse_hex_u8 [digit_char (unat (byte_of c) div 16), digit_char (unat (byte_of c) mod 16)] = Some (byte_of c)"
    using parse_hex_u8_hex02 [of "byte_of c"] by (simp add: hex02_def)
  with Cons show ?case by (simp add: hex02_def bytes_of_string_def)
qed

lemma decode_encode_component:
  assumes "s \<noteq> []" and "utf8_valid (bytes_of_string s)"
  shows "decode_component (encode_component s) = Ok s"
proof -
  have "length (encode_component s) = 2 * length s"
    by (induction s) (simp_all add: encode_component_def hex02_def)
  moreover have "encode_component s \<noteq> []"
    using assms(1) by (cases s) (simp_all add: encode_component_def hex02_def)
  ultimately show ?thesis
    using assms by (simp add: decode_component_def chars_encode_component decode_pairs_hex from_utf8_def)
qed

text \<open>The file name component made from an interface name decodes to that name, for every
  non-empty (UTF-8) name.\<close>

theorem component_roundtrip:
  assumes "s \<noteq> []" and "utf8_valid (bytes_of_string s)"
  shows "decode_component (encode_component s) = Ok s"
  using assms by (rule decode_encode_component)

theorem component_roundtrip_witness: "decode_component (encode_component ''br-lan'') = Ok ''br-lan''"
  by (rule component_roundtrip) (simp_all add: bytes_of_string_def byte_of_def utf8_valid.simps)

text \<open>
  A stem of an even number of bytes but an odd number of characters indexes past the end of
  the character vector: such a file in the data directory stops the program.
\<close>

lemma decode_component_panics: "decode_component [char_of (0xC3 :: nat), char_of (0xA9 :: nat)] = Panic"
  by (simp add: decode_component_def chars.simps bytes_of_string_def byte_of_def utf8_cont_def)

section \<open>What a ring file holds\<close>

definition rec_size :: "u32 \<Rightarrow> nat" where
  "rec_size v = (if v = 1 then ring_v1_record_size else ring_record_size)"

definition stored :: "u32 \<Rightarrow> bytes \<Rightarrow> ring_record \<Rightarrow> bool" where
  "stored v raw r = (length raw = rec_size v \<and> decode_ring_record raw v = Inr r)"

definition the_header :: "u32 \<Rightarrow> u32 \<Rightarrow> u32 \<Rightarrow> nat \<Rightarrow> ring_header" where
  "the_header v cap wp n =
     \<lparr>rh_version = v, rh_slot_count = cap, rh_write_pos = wp, rh_valid_count = of_nat n,
      rh_record_size = of_nat (rec_size v)\<rparr>"

text \<open>
  \<open>ring_holds v cap file rs\<close>: the file is a well-formed ring of format version \<open>v\<close> and
  capacity \<open>cap\<close> whose records are \<open>rs\<close>, oldest first. While the ring is not full the
  slots are in order; once it is full the oldest record is at the write position.
\<close>

definition ring_holds :: "u32 \<Rightarrow> u32 \<Rightarrow> bytes \<Rightarrow> ring_record list \<Rightarrow> bool" where
  "ring_holds v cap file rs =
     (\<exists>raws slots wp. (v = 1 \<or> v = 2)
        \<and> file = encode_ring_header (the_header v cap wp (length raws)) @ concat raws
        \<and> list_all2 (stored v) raws slots \<and> length raws \<le> unat cap \<and> wp < cap
        \<and> (length raws < unat cap \<longrightarrow> unat wp = length raws)
        \<and> rs = rotate (unat wp) slots)"

lemma ring_holdsE:
  assumes "ring_holds v cap file rs"
  obtains raws slots wp where "v = 1 \<or> v = 2"
    and "file = encode_ring_header (the_header v cap wp (length raws)) @ concat raws"
    and "list_all2 (stored v) raws slots" and "length raws \<le> unat cap" and "wp < cap"
    and "length raws < unat cap \<Longrightarrow> unat wp = length raws" and "rs = rotate (unat wp) slots"
    and "length slots = length raws" and "length rs = length raws"
    and "\<And>raw. raw \<in> set raws \<Longrightarrow> length raw = rec_size v"
    and "length file = 64 + rec_size v * length raws"
proof -
  from assms obtain raws slots wp where *: "v = 1 \<or> v = 2"
    "file = encode_ring_header (the_header v cap wp (length raws)) @ concat raws"
    "list_all2 (stored v) raws slots" "length raws \<le> unat cap" "wp < cap"
    "length raws < unat cap \<longrightarrow> unat wp = length raws" "rs = rotate (unat wp) slots"
    unfolding ring_holds_def by blast
  have len: "length raw = rec_size v" if "raw \<in> set raws" for raw
    using *(3) that by (auto simp: list_all2_conv_all_nth in_set_conv_nth stored_def)
  have "length (concat raws) = rec_size v * length raws"
    by (rule length_concat_uniform) (rule len)
  moreover have "length slots = length raws"
    using *(3) by (simp add: list_all2_lengthD)
  ultimately have "length file = 64 + rec_size v * length raws" "length slots = length raws"
    "length rs = length raws"
    using *(2,7) by simp_all
  then show thesis
    using that [of wp raws slots] * len by blast
qed

lemma length_ring_holds: "ring_holds v cap file rs \<Longrightarrow> length rs \<le> unat cap"
  by (erule ring_holdsE) simp

lemma unat_rec_size [simp]: "unat (of_nat (rec_size v) :: u32) = rec_size v"
  by (simp add: rec_size_def unat_of_nat)

lemma header_ok_the_header:
  assumes "v = 1 \<or> v = 2" and "n \<le> unat cap" and "wp < cap"
  shows "header_ok (the_header v cap wp n)" and "unat (of_nat n :: u32) = n"
proof -
  show n: "unat (of_nat n :: u32) = n"
    using assms(2) unat_lt [of cap] by (simp add: unat_of_nat)
  have "0 < cap" using assms(3) by (metis word_gt_0 word_not_simps(1))
  with assms n show "header_ok (the_header v cap wp n)"
    by (auto simp: header_ok_def the_header_def word_le_nat_alt rec_size_def)
qed

lemma size_bounds_the_header:
  assumes "v = 1 \<or> v = 2" and "n \<le> unat cap" and "wp < cap"
    and "n < unat cap \<Longrightarrow> unat wp = n"
  shows "ring_size_bounds (the_header v cap wp n) = Inr (64 + n * rec_size v, 64 + unat cap * rec_size v)"
proof -
  have n: "unat (of_nat n :: u32) = n" using header_ok_the_header(2) [OF assms(1-3)] .
  then have "(of_nat n :: u32) = 0 \<longleftrightarrow> n = 0" by (metis unat_eq_zero of_nat_0)
  moreover have "(of_nat n :: u32) < cap \<longleftrightarrow> n < unat cap" by (simp add: word_less_nat_alt n)
  moreover have "wp = of_nat n" if "n < unat cap"
    using assms(4) [OF that] n by (simp add: word_unat_eq_iff)
  ultimately show ?thesis
    using assms(2) n
    by (auto simp: ring_size_bounds_def ring_min_size_def ring_total_size_def the_header_def)
qed

lemma the_header_fields [simp]:
  "rh_version (the_header v cap wp n) = v" "rh_slot_count (the_header v cap wp n) = cap"
  "rh_write_pos (the_header v cap wp n) = wp" "rh_valid_count (the_header v cap wp n) = of_nat n"
  "unat (rh_record_size (the_header v cap wp n)) = rec_size v"
  by (simp_all add: the_header_def)

section \<open>Reading back\<close>

lemma read_slots_correct:
  assumes "v = rh_version h" "cap = unat (rh_slot_count h)" "rec_size v = unat (rh_record_size h)"
    and fl: "file = hdr @ concat raws" "length hdr = 64"
    and sts: "list_all2 (stored v) raws slots"
    and "\<And>j. j < n \<Longrightarrow> (start + (i + j)) mod cap < length raws"
    and "n > 0 \<Longrightarrow> pos = ring_data_offset h ((start + i) mod cap) \<or> i > 0 \<and> (start + i) mod cap = 0"
  shows "read_slots h file start n i pos out
       = Records (out @ map (\<lambda>j. slots ! ((start + (i + j)) mod cap)) [0..<n])"
  using assms(7,8)
proof (induction n arbitrary: i pos out)
  case 0
  then show ?case by simp
next
  case (Suc n)
  let ?idx = "(start + i) mod cap" and ?w = "rec_size v"
  have idx: "?idx < length raws" using Suc.prems(1) [of 0] by simp
  have w: "length raw = ?w" if "raw \<in> set raws" for raw
    using sts that by (auto simp: list_all2_conv_all_nth in_set_conv_nth stored_def)
  have len: "length file = 64 + ?w * length raws"
    using fl w by (simp add: length_concat_uniform)
  have off: "ring_data_offset h ?idx = 64 + ?w * ?idx"
    by (simp add: ring_data_offset_def assms(3) [symmetric] mult.commute)
  have fits: "64 + ?w * ?idx + ?w \<le> length file"
    using idx len by (metis add.assoc add_le_cancel_left mult_Suc_right mult_le_mono2 Suc_leI add.commute)
  have pos: "(if i > 0 \<and> ?idx = 0 then ring_data_offset h ?idx else pos) = 64 + ?w * ?idx"
    using Suc.prems(2) off by auto
  have "slice (64 + ?w * ?idx) ?w file = raws ! ?idx"
    unfolding fl(1) using idx w fl(2) by (simp add: slice_append_right slice_concat_uniform)
  then have dec: "decode_ring_record (slice (64 + ?w * ?idx) ?w file) v = Inr (slots ! ?idx)"
    using sts idx by (simp add: list_all2_conv_all_nth stored_def)
  have next_pos: "64 + ?w * ?idx + ?w = ring_data_offset h ((start + Suc i) mod cap)
      \<or> Suc i > 0 \<and> (start + Suc i) mod cap = 0" if "n > 0"
  proof (cases "Suc ?idx = cap")
    case True
    then have "(start + Suc i) mod cap = 0" by (simp add: mod_Suc)
    then show ?thesis by simp
  next
    case False
    then have "(start + Suc i) mod cap = Suc ?idx" by (simp add: mod_Suc)
    then show ?thesis by (simp add: ring_data_offset_def assms(3) [symmetric] mult.commute)
  qed
  have "read_slots h file start (Suc n) i pos out
      = read_slots h file start n (Suc i) (64 + ?w * ?idx + ?w) (out @ [slots ! ?idx])"
    using fits pos dec off by (simp add: Let_def assms(1-3) [symmetric])
  also have "\<dots> = Records ((out @ [slots ! ?idx]) @ map (\<lambda>j. slots ! ((start + (Suc i + j)) mod cap)) [0..<n])"
  proof (rule Suc.IH)
    show "(start + (Suc i + j)) mod cap < length raws" if "j < n" for j
      using Suc.prems(1) [of "Suc j"] that by simp
  qed (rule next_pos)
  also have "\<dots> = Records (out @ map (\<lambda>j. slots ! ((start + (i + j)) mod cap)) [0..<Suc n])"
    by (simp add: upt_conv_Cons map_Suc_upt [symmetric] del: upt_Suc)
  finally show ?case .
qed

lemma newest_slots:
  assumes "length slots \<le> cap" and "wp < cap" and "length slots < cap \<Longrightarrow> wp = length slots"
    and "cnt \<le> length slots" and "j < cnt"
  shows "(((wp + cap - cnt) mod cap) + j) mod cap < length slots"
    and "slots ! ((((wp + cap - cnt) mod cap) + j) mod cap) = keep_last cnt (rotate wp slots) ! j"
proof -
  have e: "(((wp + cap - cnt) mod cap) + j) mod cap = (wp + (cap - cnt) + j) mod cap"
    using assms by (simp add: mod_add_left_eq)
  have k: "keep_last cnt (rotate wp slots) ! j = slots ! ((wp + (length slots - cnt + j)) mod length slots)"
    using assms(4,5) by (simp add: keep_last_def nth_rotate)
  show "(((wp + cap - cnt) mod cap) + j) mod cap < length slots"
   and "slots ! ((((wp + cap - cnt) mod cap) + j) mod cap) = keep_last cnt (rotate wp slots) ! j"
  proof (atomize (full), cases "length slots < cap")
    case True
    with assms have wp: "wp = length slots" by simp
    have "(wp + (cap - cnt) + j) mod cap = (cap + (length slots - cnt + j)) mod cap"
      using assms wp by (simp add: algebra_simps)
    also have "\<dots> = length slots - cnt + j"
    proof -
      have "length slots - cnt + j < cap" using assms(4,5) True by linarith
      then show ?thesis by (simp only: mod_add_self1 mod_less)
    qed
    finally have a: "(((wp + cap - cnt) mod cap) + j) mod cap = length slots - cnt + j" using e by simp
    have "(wp + (length slots - cnt + j)) mod length slots = length slots - cnt + j"
    proof -
      have "length slots - cnt + j < length slots" using assms(4,5) by linarith
      then show ?thesis unfolding wp by (simp only: mod_add_self1 mod_less)
    qed
    with a k assms show "(((wp + cap - cnt) mod cap) + j) mod cap < length slots \<and>
        slots ! ((((wp + cap - cnt) mod cap) + j) mod cap) = keep_last cnt (rotate wp slots) ! j"
      by simp
  next
    case False
    with assms(1) have "length slots = cap" by simp
    with e k assms show "(((wp + cap - cnt) mod cap) + j) mod cap < length slots \<and>
        slots ! ((((wp + cap - cnt) mod cap) + j) mod cap) = keep_last cnt (rotate wp slots) ! j"
      by (simp add: add.assoc)
  qed
qed

lemma read_limited_holds:
  assumes "ring_holds v cap file rs" and "fs p = Some file"
  shows "read_ring_records_limited e p limit fs = (fs, Inr (keep_last (unat limit) rs))"
  using assms(1)
proof (cases rule: ring_holdsE)
  case (1 raws slots wp)
  let ?h = "the_header v cap wp (length raws)"
  let ?cnt = "unat (min (rh_valid_count ?h) limit)"
  let ?start = "(unat wp + unat cap - ?cnt) mod unat cap"
  note ok = header_ok_the_header [OF 1(1) 1(4) 1(5)]
  have hdr: "read_ring_header file = Inr ?h"
    using ok(1) unfolding 1(2) read_ring_header_def
    by (simp add: header_codec.prefix_decodes)
  have bounds: "ring_size_bounds ?h = Inr (64 + length raws * rec_size v, 64 + unat cap * rec_size v)"
    using 1 by (intro size_bounds_the_header) auto
  have size: "64 + length raws * rec_size v \<le> length file" "length file \<le> 64 + unat cap * rec_size v"
    using 1(4,11) by (simp_all add: mult.commute)
  have cnt: "?cnt = min (length raws) (unat limit)"
    using ok(2) by (simp add: min_def word_le_nat_alt)
  have wp: "unat wp < unat cap" using 1(5) by (simp add: word_less_nat_alt)
  note ns = newest_slots [where slots = slots and cap = "unat cap" and wp = "unat wp" and cnt = ?cnt]
  have pre: "length slots \<le> unat cap" "length slots < unat cap \<Longrightarrow> unat wp = length slots"
    "?cnt \<le> length slots"
    using 1(4,6,8) cnt by auto
  have "read_slots ?h file ?start ?cnt 0 (ring_data_offset ?h ?start) []
      = Records ([] @ map (\<lambda>j. slots ! ((?start + (0 + j)) mod unat cap)) [0..<?cnt])"
  proof (rule read_slots_correct [where v = v and slots = slots and raws = raws
        and hdr = "encode_ring_header ?h"])
    show "(?start + (0 + j)) mod unat cap < length raws" if "j < ?cnt" for j
      using ns(1) [OF pre(1) wp pre(2) pre(3) that] 1(8) by simp
  qed (use 1 wp in simp_all)
  also have "map (\<lambda>j. slots ! ((?start + (0 + j)) mod unat cap)) [0..<?cnt] = keep_last ?cnt rs"
    using ns(2) [OF pre(1) wp pre(2) pre(3)] pre(3) by (intro nth_equalityI) (simp_all add: 1(7))
  also have "keep_last ?cnt rs = keep_last (unat limit) rs"
    using cnt 1(9) by (auto simp: keep_last_def min_def)
  finally show ?thesis
    using size by (simp add: read_ring_records_limited_def assms(2) hdr bounds Let_def not_less)
qed

section \<open>Appending\<close>

lemma write_at_front: "length x = length y \<Longrightarrow> write_at 0 x (y @ rest) = x @ rest"
  by (simp add: write_at_def)

lemma write_at_slot:
  assumes "\<And>raw. raw \<in> set raws \<Longrightarrow> length raw = w" and "length x = w" and "i \<le> length raws"
  shows "write_at (length hdr + w * i) x (hdr @ concat raws)
       = hdr @ concat (if i < length raws then raws[i := x] else raws @ [x])"
proof (cases "i < length raws")
  case True
  then have r: "raws = take i raws @ raws ! i # drop (Suc i) raws" by (rule id_take_nth_drop)
  have len: "length (concat (take i raws)) = w * i"
    using True by (subst length_concat_uniform [where w = w]) (auto intro: assms(1) dest: in_set_takeD)
  have wi: "length (raws ! i) = w" using True by (simp add: assms(1))
  have "concat raws = concat (take i raws) @ raws ! i @ concat (drop (Suc i) raws)"
    by (subst (1) r) simp
  then have "write_at (length hdr + w * i) x (hdr @ concat raws)
      = hdr @ concat (take i raws) @ x @ concat (drop (Suc i) raws)"
    using len wi assms(2) by (simp add: write_at_def)
  with True show ?thesis by (simp add: upd_conv_take_nth_drop)
next
  case False
  with assms(3) have i: "i = length raws" by simp
  have "length (concat raws) = w * i" unfolding i by (rule length_concat_uniform) (rule assms(1))
  with False show ?thesis by (simp add: write_at_def)
qed

lemma rotate_replace_oldest:
  assumes "wp < length slots"
  shows "rotate (Suc wp) (slots[wp := r]) = keep_last (length slots) (rotate wp slots @ [r])"
proof -
  define a b where "a = take wp slots" and "b = drop (Suc wp) slots"
  have s: "slots = a @ slots ! wp # b" and a: "length a = wp"
    using assms by (simp_all add: a_def b_def id_take_nth_drop [symmetric])
  have "slots[wp := r] = (a @ [r]) @ b"
    using assms by (simp add: a_def b_def upd_conv_take_nth_drop)
  then have "rotate (Suc wp) (slots[wp := r]) = b @ a @ [r]"
    using rotate_append [of "a @ [r]" b] a by simp
  moreover have "rotate wp slots = slots ! wp # b @ a"
    using rotate_append [of a "slots ! wp # b"] s a by simp
  moreover have "length slots = Suc (length b + length a)"
    using arg_cong [OF s, of length] by simp
  ultimately show ?thesis by (simp add: keep_last_def)
qed

lemma advance_the_header:
  assumes "n \<le> unat cap" and "wp < cap" and "cap < - 1"
  shows "advance_header (the_header v cap wp n) = the_header v cap ((wp + 1) mod cap) (min (n + 1) (unat cap))"
    and "unat ((wp + 1) mod cap) = (unat wp + 1) mod unat cap"
proof -
  have cap: "unat cap < 2 ^ 32 - 1"
    using assms(3) by (simp add: word_less_nat_alt unsigned_minus_1_eq_mask mask_eq_exp_minus_1)
  have wp: "wp mod cap = wp" using assms(2) by (simp add: unat_mod word_unat_eq_iff word_less_nat_alt)
  have n: "unat (of_nat n + 1 :: u32) = n + 1"
    using assms(1) cap by (simp add: unat_word_ariths unat_of_nat)
  then have "min (of_nat n + 1) cap = (of_nat (min (n + 1) (unat cap)) :: u32)"
    using cap by (auto simp: min_def word_le_nat_alt word_unat_eq_iff unat_of_nat)
  with wp show "advance_header (the_header v cap wp n) = the_header v cap ((wp + 1) mod cap) (min (n + 1) (unat cap))"
    by (simp add: advance_header_def the_header_def)
  show "unat ((wp + 1) mod cap) = (unat wp + 1) mod unat cap"
    using assms(2) cap by (simp add: unat_mod unat_word_ariths word_less_nat_alt)
qed

lemma read_header_holds:
  assumes "ring_holds v cap file rs"
  shows "\<exists>wp. read_ring_header file = Inr (the_header v cap wp (length rs))
     \<and> ring_size_bounds (the_header v cap wp (length rs)) = Inr (64 + length rs * rec_size v, 64 + unat cap * rec_size v)
     \<and> length file = 64 + length rs * rec_size v \<and> length rs \<le> unat cap \<and> 0 < cap"
  using assms
proof (cases rule: ring_holdsE)
  case (1 raws slots wp)
  have "read_ring_header file = Inr (the_header v cap wp (length raws))"
    using header_ok_the_header(1) [OF 1(1) 1(4) 1(5)] unfolding 1(2) read_ring_header_def
    by (simp add: header_codec.prefix_decodes)
  moreover have "ring_size_bounds (the_header v cap wp (length raws)) = Inr (64 + length raws * rec_size v, 64 + unat cap * rec_size v)"
    using 1 by (intro size_bounds_the_header) auto
  moreover have "0 < cap" using 1(5) by (metis word_gt_0 word_not_simps(1))
  ultimately show ?thesis using 1(4,9,11) by (auto simp: mult.commute)
qed

lemma open_holds:
  assumes "ring_holds v cap file rs" and "fs p = Some file" and "0 < slots"
  shows "open_or_create_ring e p slots fs =
     (if v = 1 \<or> cap \<noteq> slots then migrate_ring e p slots fs else (fs, Inr ()))"
  using read_header_holds [OF assms(1)] assms(2,3)
  by (auto simp: open_or_create_ring.simps [of e p slots fs] mult.commute)

lemma append_step:
  assumes "ring_holds 2 cap file rs" and "cap < - 1"
    and "read_ring_header file = Inr h"
  shows "ring_holds 2 cap
     (write_ring_header (advance_header h)
       (write_at (ring_data_offset h (unat (rh_write_pos h mod rh_slot_count h))) (encode_ring_record r) file))
     (keep_last (unat cap) (rs @ [r]))"
  using assms(1)
proof (cases rule: ring_holdsE)
  case (1 raws slots wp)
  have "read_ring_header file = Inr (the_header 2 cap wp (length raws))"
    using header_ok_the_header(1) [OF 1(1) 1(4) 1(5)] unfolding 1(2) read_ring_header_def
    by (simp add: header_codec.prefix_decodes)
  with assms(3) have h: "h = the_header 2 cap wp (length raws)" by simp
  have wp: "unat (wp mod cap) = unat wp" "unat wp < unat cap"
    using 1(5) by (simp_all add: unat_mod word_less_nat_alt)
  let ?i = "unat wp" and ?enc = "encode_ring_record r"
  define raws' where "raws' = (if ?i < length raws then raws[?i := ?enc] else raws @ [?enc])"
  define slots' where "slots' = (if ?i < length raws then slots[?i := r] else slots @ [r])"
  have i: "?i \<le> length raws" using 1(4,6) wp by (cases "length raws < unat cap") auto
  have rec2: "rec_size 2 = 220" by (simp add: rec_size_def)
  have off: "ring_data_offset h (unat (rh_write_pos h mod rh_slot_count h)) =
      length (encode_ring_header (the_header 2 cap wp (length raws))) + 220 * ?i"
    by (simp add: h ring_data_offset_def wp rec2 mult.commute)
  have "write_at (ring_data_offset h (unat (rh_write_pos h mod rh_slot_count h))) ?enc file
      = encode_ring_header (the_header 2 cap wp (length raws)) @ concat raws'"
    unfolding off 1(2) raws'_def using 1(10) i by (intro write_at_slot) (auto simp: rec2)
  then have file': "write_ring_header (advance_header h)
       (write_at (ring_data_offset h (unat (rh_write_pos h mod rh_slot_count h))) ?enc file)
      = encode_ring_header (the_header 2 cap ((wp + 1) mod cap) (min (length raws + 1) (unat cap))) @ concat raws'"
    using advance_the_header(1) [OF 1(4) 1(5) assms(2)] by (simp add: write_ring_header_def write_at_front h)
  have len: "length raws' = min (length raws + 1) (unat cap)"
    using 1(4,6) wp by (auto simp: raws'_def min_def)
  have all: "list_all2 (stored 2) raws' slots'"
    using 1(3,8) i decode_encode_ring_record [of r]
    by (auto simp: raws'_def slots'_def rec2 stored_def intro!: list_all2_update_cong list_all2_appendI)
  have rot: "rotate ((?i + 1) mod unat cap) slots' = keep_last (unat cap) (rs @ [r])"
  proof (cases "length raws < unat cap")
    case True
    then have *: "?i = length slots" "slots' = slots @ [r]" "rs = slots"
      using 1(6-8) by (auto simp: slots'_def)
    have "rotate ((?i + 1) mod unat cap) slots' = slots'"
      using True 1(8) * by (intro rotate_id) (cases "length slots + 1 = unat cap", simp_all)
    then show ?thesis
      using True 1(8) * by simp
  next
    case False
    then have c: "length raws = unat cap" "slots' = slots[?i := r]" using 1(4) wp by (auto simp: slots'_def)
    then have "rotate ((?i + 1) mod unat cap) slots' = rotate (Suc ?i) (slots[?i := r])"
      using 1(8) rotate_conv_mod [of "Suc ?i" "slots[?i := r]"] by simp
    also have "\<dots> = keep_last (unat cap) (rs @ [r])"
      using c 1(7,8) wp rotate_replace_oldest [of ?i slots r] by simp
    finally show ?thesis .
  qed
  have "0 < cap" using 1(5) by (metis word_gt_0 word_not_simps(1))
  then have lt: "(wp + 1) mod cap < cap"
    by (simp add: word_less_nat_alt unat_mod)
  have "length raws' < unat cap \<longrightarrow> unat ((wp + 1) mod cap) = length raws'"
    using 1(4,6) wp advance_the_header(2) [OF 1(4) 1(5) assms(2)] len by (auto simp: min_def split: if_splits)
  then show ?thesis
    unfolding ring_holds_def file'
    using all lt len rot advance_the_header(2) [OF 1(4) 1(5) assms(2)]
    by (intro exI [of _ raws'] exI [of _ slots'] exI [of _ "(wp + 1) mod cap"]) simp
qed

lemma default_ring_holds:
  assumes "0 < cap"
  shows "ring_holds 2 cap (write_ring_header (default_ring_header cap) []) []"
proof -
  have "write_ring_header (default_ring_header cap) [] = encode_ring_header (the_header 2 cap 0 (length ([] :: bytes list))) @ concat []"
    by (simp add: write_ring_header_def write_at_def default_ring_header_def the_header_def rec_size_def)
  with assms show ?thesis
    unfolding ring_holds_def
    by (intro exI [of _ "[]"] exI [of _ "[] :: ring_record list"] exI [of _ "0 :: u32"]) simp
qed

section \<open>A ring is a log that keeps its newest records\<close>

definition ring_contents :: "env \<Rightarrow> path \<Rightarrow> files \<Rightarrow> ring_record list" where
  "ring_contents e p fs = (case snd (read_ring_records e p fs) of Inl _ \<Rightarrow> [] | Inr rs \<Rightarrow> rs)"

definition ring_inv :: "path \<Rightarrow> u32 \<Rightarrow> files \<Rightarrow> bool" where
  "ring_inv p cap fs =
     (0 < cap \<and> cap < - 1 \<and> (fs p = None \<or> (\<exists>fl rs. fs p = Some fl \<and> ring_holds 2 cap fl rs)))"

lemma read_holds:
  assumes "ring_holds v cap fl rs" and "fs p = Some fl"
  shows "read_ring_records e p fs = (fs, Inr rs)"
proof -
  have "length rs \<le> unat (- 1 :: u32)"
    using length_ring_holds [OF assms(1)] unat_le_max [of cap]
    by (simp add: unsigned_minus_1_eq_mask mask_eq_exp_minus_1)
  then show ?thesis
    using read_limited_holds [where fs = fs and p = p, OF assms, of e "- 1"] by (simp add: read_ring_records_def)
qed

lemma ring_contents_none: "fs p = None \<Longrightarrow> ring_contents e p fs = []"
  by (simp add: ring_contents_def read_ring_records_def read_ring_records_limited_def)

lemma append_inv:
  assumes "ring_inv p cap fs"
  obtains fl rs where "fst (append_ring_record_with_capacity e p r cap fs) = fs(p := Some fl)"
    and "snd (append_ring_record_with_capacity e p r cap fs) = Inr ()"
    and "ring_contents e' p fs = rs" and "length rs \<le> unat cap"
    and "ring_holds 2 cap fl (keep_last (unat cap) (rs @ [r]))"
proof -
  have cap: "0 < cap" "cap < - 1" using assms by (simp_all add: ring_inv_def)
  obtain file0 rs where o: "open_or_create_ring e p cap fs = (fs(p := Some file0), Inr ())"
    and h: "ring_holds 2 cap file0 rs" and c: "ring_contents e' p fs = rs"
  proof (cases "fs p")
    case None
    then have "open_or_create_ring e p cap fs
        = (fs(p := Some (write_ring_header (default_ring_header cap) [])), Inr ())"
      using cap by (simp add: open_or_create_ring.simps [of e p cap fs])
    moreover have "ring_contents e' p fs = []"
      using None by (rule ring_contents_none)
    ultimately show ?thesis using that default_ring_holds [OF cap(1)] by blast
  next
    case (Some file1)
    with assms obtain rs where h: "ring_holds 2 cap file1 rs" by (auto simp: ring_inv_def)
    then have "open_or_create_ring e p cap fs = (fs(p := Some file1), Inr ())"
      using open_holds [where fs = fs and p = p, OF h Some cap(1), of e] Some by (simp add: fun_upd_idem)
    moreover have "ring_contents e' p fs = rs"
      using read_holds [where fs = fs and p = p, OF h Some, of e'] by (simp add: ring_contents_def)
    ultimately show ?thesis using that h by blast
  qed
  from read_header_holds [OF h] obtain hd where hd: "read_ring_header file0 = Inr hd" by blast
  show ?thesis
    using that [of _ rs] append_step [OF h cap(2) hd, of r] c length_ring_holds [OF h]
    by (simp add: append_ring_record_with_capacity_def o hd Let_def)
qed

lemma append_keeps_inv: "ring_inv p cap fs \<Longrightarrow> ring_inv p cap (fst (append_ring_record_with_capacity e p r cap fs))"
proof -
  assume inv: "ring_inv p cap fs"
  obtain fl rs where a: "fst (append_ring_record_with_capacity e p r cap fs) = fs(p := Some fl)"
    and "ring_holds 2 cap fl (keep_last (unat cap) (rs @ [r]))"
    by (rule append_inv [OF inv, of e r e])
  with inv show ?thesis unfolding ring_inv_def a by (simp only: fun_upd_same option.inject) blast
qed

lemma append_contents:
  assumes "ring_inv p cap fs"
  shows "ring_contents e' p (fst (append_ring_record_with_capacity e p r cap fs))
       = keep_last (unat cap) (ring_contents e' p fs @ [r])"
proof -
  obtain fl rs where a: "fst (append_ring_record_with_capacity e p r cap fs) = fs(p := Some fl)"
    and c: "ring_contents e' p fs = rs" and h: "ring_holds 2 cap fl (keep_last (unat cap) (rs @ [r]))"
    by (rule append_inv [OF assms, of e r e'])
  have "read_ring_records e' p (fs(p := Some fl)) = (fs(p := Some fl), Inr (keep_last (unat cap) (rs @ [r])))"
    using h by (rule read_holds) simp
  then have "ring_contents e' p (fs(p := Some fl)) = keep_last (unat cap) (rs @ [r])"
    by (simp add: ring_contents_def)
  with c show ?thesis by (simp add: a)
qed

text \<open>Appends may happen at different times: the entries of the log carry their environment.\<close>

definition append_entry :: "path \<Rightarrow> u32 \<Rightarrow> ring_record \<Rightarrow> env \<times> files \<Rightarrow> env \<times> files" where
  "append_entry p cap r s =
     ((fst s)\<lparr>env_now_ms := env_now_ms (fst s) + 1\<rparr>,
      fst (append_ring_record_with_capacity (fst s) p r cap (snd s)))"

interpretation ring_log: bounded_log
  "append_entry p cap" "\<lambda>s. ring_contents e p (snd s)" "unat cap" "\<lambda>s. ring_inv p cap (snd s)" for p cap e
  by unfold_locales (simp_all add: append_entry_def append_contents append_keeps_inv)

text \<open>C5: a ring file is a bounded log: after any sequence of appends to a path where no file was,
  reading the file returns exactly the newest records, as many as the capacity allows, oldest
  first, and reading changes nothing on disk.\<close>

theorem ring_keeps_newest_records:
  assumes "fs p = None" and "0 < cap" and "cap < - 1" and "rs \<noteq> []"
  shows "let (e', fs') = fold (append_entry p cap) rs (e, fs)
     in read_ring_records e' p fs' = (fs', Inr (keep_last (unat cap) rs))"
proof -
  obtain e' fs' where f: "fold (append_entry p cap) rs (e, fs) = (e', fs')" by fastforce
  have inv: "ring_inv p cap fs" using assms by (simp add: ring_inv_def)
  have empty: "ring_contents e' p fs = []"
    using assms(1) by (rule ring_contents_none)
  have c: "ring_contents e' p fs' = keep_last (unat cap) rs"
    using ring_log.pushes_contents [of p cap "(e, fs)" e' rs] inv empty f by simp
  have inv': "ring_inv p cap fs'"
    using ring_log.pushes_inv [of p cap "(e, fs)" rs] inv f by simp
  have "keep_last (unat cap) rs \<noteq> []"
  proof -
    have "0 < unat cap" using assms(2) by (simp add: word_less_nat_alt)
    then have "0 < length (keep_last (unat cap) rs)" using assms(4) by (simp add: length_greater_0_conv)
    then show ?thesis by (rule length_greater_0_conv [THEN iffD1])
  qed
  with c have "fs' p \<noteq> None"
    using ring_contents_none [of fs' p e'] by metis
  with inv' obtain fl rs' where h: "fs' p = Some fl" "ring_holds 2 cap fl rs'"
    by (auto simp: ring_inv_def)
  with c have "rs' = keep_last (unat cap) rs"
    using read_holds [where fs = fs' and p = p, OF h(2) h(1), of e'] by (simp add: ring_contents_def)
  then have "read_ring_records e' p fs' = (fs', Inr (keep_last (unat cap) rs))"
    using read_holds [where fs = fs' and p = p, OF h(2) h(1), of e'] by simp
  then show ?thesis by (simp only: f Let_def prod.case)
qed

theorem ring_keeps_newest_records_witness:
  "let r1 = \<lparr>rr_bucket = empty_bucket 0 1\<rparr>; r2 = \<lparr>rr_bucket = empty_bucket 1 2\<rparr>; r3 = \<lparr>rr_bucket = empty_bucket 2 3\<rparr>;
       p = (''d'', ''a.ring'');
       (e, fs) = fold (append_entry p 2) [r1, r2, r3] (\<lparr>env_pid = 1, env_now_ms = 5\<rparr>, \<lambda>_. None)
   in read_ring_records e p fs = (fs, Inr [r2, r3])"
proof -
  let ?rs = "[\<lparr>rr_bucket = empty_bucket 0 1\<rparr>, \<lparr>rr_bucket = empty_bucket 1 2\<rparr>, \<lparr>rr_bucket = empty_bucket 2 3\<rparr>]"
  have k: "keep_last (unat (2 :: u32)) ?rs = [\<lparr>rr_bucket = empty_bucket 1 2\<rparr>, \<lparr>rr_bucket = empty_bucket 2 3\<rparr>]"
    by (simp add: keep_last_def)
  have "(\<lambda>_. None :: bytes option) (''d'', ''a.ring'') = None" and "(0 :: u32) < 2" and "(2 :: u32) < - 1"
    and "?rs \<noteq> []" by (simp_all add: word_less_nat_alt unsigned_minus_1_eq_mask mask_eq_exp_minus_1)
  from ring_keeps_newest_records [where fs = "\<lambda>_. None" and p = "(''d'', ''a.ring'')"
      and e = "\<lparr>env_pid = 1, env_now_ms = 5\<rparr>", OF this]
  show ?thesis unfolding Let_def k .
qed

section \<open>Migration\<close>

lemma list_all2_stored_encode: "list_all2 (stored 2) (map encode_ring_record rs) rs"
  by (simp add: list_all2_conv_all_nth stored_def rec_size_def decode_encode_ring_record)

lemma migrated_ring_holds:
  assumes "0 < slots" and "length rs \<le> unat slots"
  shows "ring_holds 2 slots (write_ring_header (migrated_header slots rs) [] @ concat (map encode_ring_record rs)) rs"
proof -
  have n: "unat (of_nat (length rs) :: u32) = length rs"
    using assms(2) unat_lt [of slots] by (simp add: unat_of_nat)
  let ?wp = "of_nat (length rs) mod slots"
  have wp: "unat ?wp = length rs mod unat slots" by (simp add: unat_mod n)
  have "?wp < slots" using assms(1) by (simp add: word_less_nat_alt wp)
  moreover have "migrated_header slots rs = the_header 2 slots ?wp (length rs)"
    by (simp add: migrated_header_def default_ring_header_def the_header_def rec_size_def)
  moreover have "rs = rotate (unat ?wp) rs"
    using assms(2) unfolding wp by (cases "length rs < unat slots") (auto intro!: rotate_id [symmetric])
  moreover have "length rs < unat slots \<longrightarrow> unat ?wp = length rs" by (simp add: wp)
  ultimately show ?thesis
    using assms(2) list_all2_stored_encode [of rs]
    unfolding ring_holds_def
    by (intro exI [of _ "map encode_ring_record rs"] exI [of _ rs] exI [of _ ?wp])
       (simp add: write_ring_header_def write_at_def)
qed

text \<open>C12: opening a ring of another capacity, or of the first format version, converts it in place: the
  file becomes a version 2 ring of the asked capacity that holds the newest of the old records,
  as many as fit, in their order, and no other file is left behind.\<close>

theorem migration_keeps_newest:
  assumes "ring_holds v cap content rs" and "fs p = Some content" and "0 < slots"
    and "v = 1 \<or> cap \<noteq> slots" and "fs (migrate_tmp_path e p) = None"
  shows "\<exists>content'. open_or_create_ring e p slots fs = (fs(p := Some content'), Inr ())
       \<and> ring_holds 2 slots content' (keep_last (unat slots) rs)
       \<and> read_ring_records e p (fs(p := Some content')) = (fs(p := Some content'), Inr (keep_last (unat slots) rs))"
proof -
  let ?rs = "keep_last (unat slots) rs"
  let ?f = "write_ring_header (migrated_header slots ?rs) [] @ concat (map encode_ring_record ?rs)"
  have h: "ring_holds 2 slots ?f ?rs"
    using assms(3) by (rule migrated_ring_holds) simp
  have "read_ring_records_limited e p slots fs = (fs, Inr ?rs)"
    using assms(1,2) by (rule read_limited_holds)
  then have "migrate_ring e p slots fs = (fs(migrate_tmp_path e p := None, p := Some ?f), Inr ())"
    by (simp add: migrate_ring_def assms(5) Let_def)
  moreover have "fs(migrate_tmp_path e p := None) = fs" using assms(5) by (simp add: fun_upd_idem)
  moreover have "open_or_create_ring e p slots fs = migrate_ring e p slots fs"
    using open_holds [where fs = fs and p = p, OF assms(1,2,3), of e] assms(4) by auto
  moreover have "read_ring_records e p (fs(p := Some ?f)) = (fs(p := Some ?f), Inr ?rs)"
    using h by (rule read_holds) simp
  ultimately show ?thesis using h by auto
qed

theorem migration_keeps_newest_witness:
  "let r1 = \<lparr>rr_bucket = empty_bucket 0 1\<rparr>; r2 = \<lparr>rr_bucket = empty_bucket 1 2\<rparr>;
       p = (''d'', ''a.ring''); e = \<lparr>env_pid = 1, env_now_ms = 5\<rparr>;
       old = write_ring_header (migrated_header 3 [r1, r2]) [] @ concat (map encode_ring_record [r1, r2])
   in \<exists>content. open_or_create_ring e p 1 [p \<mapsto> old] = ([p \<mapsto> old, p \<mapsto> content], Inr ())
        \<and> ring_holds 2 1 content [r2]"
proof -
  let ?r1 = "\<lparr>rr_bucket = empty_bucket 0 1\<rparr>" and ?r2 = "\<lparr>rr_bucket = empty_bucket 1 2\<rparr>"
  let ?p = "(''d'', ''a.ring'')" and ?e = "\<lparr>env_pid = 1, env_now_ms = 5\<rparr>"
  let ?old = "write_ring_header (migrated_header 3 [?r1, ?r2]) [] @ concat (map encode_ring_record [?r1, ?r2])"
  have h: "ring_holds 2 3 ?old [?r1, ?r2]" by (rule migrated_ring_holds) simp_all
  have "migrate_tmp_path ?e ?p \<noteq> ?p"
    by (simp add: migrate_tmp_path_def with_extension_def file_stem_def dec.simps digit_char_def)
  then have t: "[?p \<mapsto> ?old] (migrate_tmp_path ?e ?p) = None" by simp
  have k: "keep_last (unat (1 :: u32)) [?r1, ?r2] = [?r2]" by (simp add: keep_last_def)
  have "[?p \<mapsto> ?old] ?p = Some ?old" and "(0 :: u32) < 1" and "(2 :: u32) = 1 \<or> (3 :: u32) \<noteq> 1" by simp_all
  from migration_keeps_newest [where fs = "[?p \<mapsto> ?old]" and p = ?p and e = ?e, OF h this t]
  show ?thesis unfolding Let_def k by blast
qed

section \<open>Damaged files\<close>

lemma quarantine_keeps:
  assumes "fs p = Some c"
  shows "quarantine_bad_file e p fs p = None \<and> quarantine_bad_file e p fs (bad_path e p) = Some c
       \<and> (\<forall>q. q \<noteq> p \<longrightarrow> q \<noteq> bad_path e p \<longrightarrow> quarantine_bad_file e p fs q = fs q)"
  using quarantine_gone [of e p fs] assms by (simp add: quarantine_bad_file_def)



text \<open>
  A header whose checksum is right but whose positions do not fit a ring that is not full
  (\<open>write_pos\<close> differs from \<open>valid_count\<close>) is quarantined by the reader, but makes the opening of
  the ring, and with it every later append, fail and leaves the file in place.
\<close>

lemma inconsistent_header_blocks_append:
  assumes "header_ok h" and "0 < rh_valid_count h" and "rh_valid_count h < rh_slot_count h"
    and "rh_write_pos h \<noteq> rh_valid_count h" and "fs p = Some (encode_ring_header h @ rest)" and "0 < slots"
  shows "append_ring_record_with_capacity e p r slots fs
           = (fs, Inl (Inconsistent_nonfull (rh_write_pos h) (rh_valid_count h)))"
    and "read_ring_records e p fs = (quarantine_bad_file e p fs, Inr [])"
proof -
  have hd: "read_ring_header (encode_ring_header h @ rest) = Inr h"
    using header_codec.prefix_decodes [OF assms(1), of rest] by (simp add: read_ring_header_def)
  have b: "ring_size_bounds h = Inl (Inconsistent_nonfull (rh_write_pos h) (rh_valid_count h))"
    using assms(2-4) by (auto simp: ring_size_bounds_def ring_min_size_def)
  show "append_ring_record_with_capacity e p r slots fs
           = (fs, Inl (Inconsistent_nonfull (rh_write_pos h) (rh_valid_count h)))"
    using assms(5,6) hd b
    by (simp add: append_ring_record_with_capacity_def open_or_create_ring.simps [of e p slots fs])
  show "read_ring_records e p fs = (quarantine_bad_file e p fs, Inr [])"
    using assms(5) hd b by (simp add: read_ring_records_def read_ring_records_limited_def)
qed

end
