(* ===== verification/Histogram.thy ===== *)
theory Histogram
  imports Addresses Buckets
begin

text \<open>
  \<open>HistogramHistory\<close> of \<open>monitor.rs\<close>: per interface and per device, the bucket of the
  current hour and the completed hours (at most \<open>max_hours\<close> of them), fed by snapshots,
  restored from disk, queried by time range and merged into days.

  The local-time hour and day of a timestamp come from \<open>chrono\<close>; they are the parameters
  \<open>hour\<close> and \<open>day\<close>, functions from a timestamp to the (start, end) of its window.
  Hash maps are association lists whose order is the iteration order.
\<close>

section \<open>Snapshots\<close>

record iface_item =
  ii_ifindex :: u32
  ii_ifname :: string
  ii_zone :: string
  ii_metrics :: quad
  ii_cumulative :: quad
  ii_mcast_metrics :: quad
  ii_bcast_metrics :: quad
  ii_unresolved_metrics :: quad

record device_item =
  di_ifindex :: u32
  di_logical_iface :: string
  di_subnet :: string
  di_ipv4 :: "string list"
  di_ipv6 :: "string list"
  di_mac :: string
  di_hostname :: string
  di_metrics :: quad
  di_cumulative :: quad
  di_online :: bool
  di_last_seen_ms :: u64
  di_neighbor_state :: "string option"

record snapshot_data =
  sd_timestamp_ms :: u64
  sd_interfaces :: "iface_item list"
  sd_devices :: "device_item list"

datatype completed_aggregate =
    CompletedIface string bucket
  | CompletedDevice string string bucket

record series_key =
  sk_ifindex :: u32
  sk_mac :: string

section \<open>State\<close>

record histogram =
  max_hours :: nat
  current_hour_iface :: "(u32 \<times> bucket) list"
  current_hour_device :: "(series_key \<times> bucket) list"
  completed_iface :: "(u32 \<times> bucket list) list"
  completed_device :: "(series_key \<times> bucket list) list"

text \<open>\<open>assert!(max_hours > 0)\<close>: \<open>None\<close> is the panic.\<close>

definition with_capacity_hours :: "nat \<Rightarrow> histogram option" where
  "with_capacity_hours n =
     (if n > 0
      then Some \<lparr>max_hours = n, current_hour_iface = [], current_hour_device = [],
                 completed_iface = [], completed_device = []\<rparr>
      else None)"

text \<open>\<open>while queue.len() > max { pop_front }\<close>.\<close>

fun trim_front :: "nat \<Rightarrow> 'a list \<Rightarrow> 'a list" where
  "trim_front n [] = []"
| "trim_front n (x # xs) = (if length (x # xs) > n then trim_front n xs else x # xs)"

definition trim_histogram_completed :: "bucket list \<Rightarrow> nat \<Rightarrow> bucket list" where
  "trim_histogram_completed q n = trim_front n q"

definition push_completed :: "nat \<Rightarrow> bucket \<Rightarrow> bucket list \<Rightarrow> bucket list" where
  "push_completed n b q = trim_histogram_completed (q @ [b]) n"

section \<open>Operations\<close>

definition restore_iface_bucket :: "u32 \<Rightarrow> bucket \<Rightarrow> histogram \<Rightarrow> histogram" where
  "restore_iface_bucket i b h =
     h\<lparr>completed_iface := upd_entry i [] (push_completed (max_hours h) b) (completed_iface h)\<rparr>"

definition restore_device_bucket :: "u32 \<Rightarrow> string \<Rightarrow> bucket \<Rightarrow> histogram \<Rightarrow> histogram" where
  "restore_device_bucket i mac b h =
     h\<lparr>completed_device :=
        upd_entry \<lparr>sk_ifindex = i, sk_mac = mac\<rparr> [] (push_completed (max_hours h) b)
          (completed_device h)\<rparr>"

definition key_matches :: "u32 \<Rightarrow> string \<Rightarrow> series_key \<Rightarrow> bool" where
  "key_matches i mac k = (sk_ifindex k = i \<and> eq_ignore_ascii_case (sk_mac k) mac)"

definition hist_remove_device :: "u32 \<Rightarrow> string \<Rightarrow> histogram \<Rightarrow> histogram \<times> bool" where
  "hist_remove_device i mac h =
     (let keep = (\<lambda>(k, v). sk_ifindex k \<noteq> i \<or> \<not> eq_ignore_ascii_case (sk_mac k) mac);
          keep' = (\<lambda>(k, v). sk_ifindex k \<noteq> i \<or> \<not> eq_ignore_ascii_case (sk_mac k) mac);
          removed = ((\<exists>e \<in> set (current_hour_device h). \<not> keep e)
                   \<or> (\<exists>e \<in> set (completed_device h). \<not> keep' e))
      in (h\<lparr>current_hour_device := filter keep (current_hour_device h),
            completed_device := filter keep' (completed_device h)\<rparr>, removed))"

text \<open>
  One sample of one series: \<open>ingest_iface\<close> and \<open>ingest_device\<close> are this code on the
  interface and on the device maps.
\<close>

definition ingest_series ::
  "(u64 \<Rightarrow> u64 \<times> u64) \<Rightarrow> nat \<Rightarrow> 'k \<Rightarrow> u64 \<Rightarrow> quad \<Rightarrow> ('k \<times> bucket) list \<Rightarrow> ('k \<times> bucket list) list
   \<Rightarrow> ('k \<times> bucket) list \<times> ('k \<times> bucket list) list \<times> bucket option" where
  "ingest_series hour cap k ts m cur cpl =
     (let (new_start, new_end) = hour ts;
          entry = (case map_of cur k of None \<Rightarrow> empty_bucket new_start new_end | Some b \<Rightarrow> b)
      in if start_ts_ms entry \<noteq> new_start
         then (AList.update k (add_sample m (empty_bucket new_start new_end)) cur,
               upd_entry k [] (push_completed cap entry) cpl,
               Some (finalize entry))
         else (AList.update k (add_sample m entry) cur, cpl, None))"

definition ingest_iface ::
  "(u64 \<Rightarrow> u64 \<times> u64) \<Rightarrow> u32 \<Rightarrow> u64 \<Rightarrow> quad \<Rightarrow> histogram \<Rightarrow> histogram \<times> bucket option" where
  "ingest_iface hour i ts m h =
     (let (cur, cpl, old) =
        ingest_series hour (max_hours h) i ts m (current_hour_iface h) (completed_iface h)
      in (h\<lparr>current_hour_iface := cur, completed_iface := cpl\<rparr>, old))"

definition ingest_device ::
  "(u64 \<Rightarrow> u64 \<times> u64) \<Rightarrow> series_key \<Rightarrow> u64 \<Rightarrow> quad \<Rightarrow> histogram \<Rightarrow> histogram \<times> bucket option" where
  "ingest_device hour k ts m h =
     (let (cur, cpl, old) =
        ingest_series hour (max_hours h) k ts m (current_hour_device h) (completed_device h)
      in (h\<lparr>current_hour_device := cur, completed_device := cpl\<rparr>, old))"

definition ingest_snapshot_iface ::
  "(u64 \<Rightarrow> u64 \<times> u64) \<Rightarrow> u64 \<Rightarrow> iface_item \<Rightarrow> histogram \<times> completed_aggregate list
   \<Rightarrow> histogram \<times> completed_aggregate list" where
  "ingest_snapshot_iface hour ts it hc =
     (let (h', old) = ingest_iface hour (ii_ifindex it) ts (ii_metrics it) (fst hc)
      in (h', snd hc @ (case old of None \<Rightarrow> [] | Some b \<Rightarrow> [CompletedIface (ii_ifname it) b])))"

definition ingest_snapshot_device ::
  "(u64 \<Rightarrow> u64 \<times> u64) \<Rightarrow> u64 \<Rightarrow> device_item \<Rightarrow> histogram \<times> completed_aggregate list
   \<Rightarrow> histogram \<times> completed_aggregate list" where
  "ingest_snapshot_device hour ts dev hc =
     (let (h, completed) = hc;
          key = \<lparr>sk_ifindex = di_ifindex dev, sk_mac = di_mac dev\<rparr>
      in if \<not> di_online dev \<and> quad_is_empty (di_metrics dev)
         then (case map_of (current_hour_device h) key of
                 None \<Rightarrow> (h, completed)
               | Some b \<Rightarrow>
                   if end_ts_ms b < ts
                   then (let b' = finalize b;
                             h1 = h\<lparr>current_hour_device := AList.delete key (current_hour_device h)\<rparr>
                         in (restore_device_bucket (sk_ifindex key) (sk_mac key) b' h1,
                             completed @ [CompletedDevice (di_logical_iface dev) (di_mac dev) b']))
                   else (h, completed))
         else (let (h', old) = ingest_device hour key ts (di_metrics dev) h
               in (h', completed @ (case old of None \<Rightarrow> []
                     | Some b \<Rightarrow> [CompletedDevice (di_logical_iface dev) (di_mac dev) b]))))"

definition ingest_snapshot_collect_completed ::
  "(u64 \<Rightarrow> u64 \<times> u64) \<Rightarrow> snapshot_data \<Rightarrow> histogram \<Rightarrow> histogram \<times> completed_aggregate list" where
  "ingest_snapshot_collect_completed hour snap h =
     fold (ingest_snapshot_device hour (sd_timestamp_ms snap)) (sd_devices snap)
       (fold (ingest_snapshot_iface hour (sd_timestamp_ms snap)) (sd_interfaces snap) (h, []))"

section \<open>Queries\<close>

definition overlaps :: "u64 \<Rightarrow> u64 \<Rightarrow> bucket \<Rightarrow> bool" where
  "overlaps start_ms end_ms b = (start_ts_ms b \<le> end_ms \<and> end_ts_ms b \<ge> start_ms)"

definition series_buckets :: "('k \<times> bucket list) list \<Rightarrow> ('k \<times> bucket) list \<Rightarrow> 'k \<Rightarrow> bucket list" where
  "series_buckets cpl cur k =
     (case map_of cpl k of None \<Rightarrow> [] | Some q \<Rightarrow> q)
     @ (case map_of cur k of None \<Rightarrow> [] | Some b \<Rightarrow> [b])"

definition query_iface_hourly :: "histogram \<Rightarrow> u32 \<Rightarrow> u64 \<Rightarrow> u64 \<Rightarrow> bucket list" where
  "query_iface_hourly h i start_ms end_ms =
     sort_key start_ts_ms
       (filter (overlaps start_ms end_ms)
         (series_buckets (completed_iface h) (current_hour_iface h) i))"

definition query_device_hourly :: "histogram \<Rightarrow> series_key \<Rightarrow> u64 \<Rightarrow> u64 \<Rightarrow> bucket list" where
  "query_device_hourly h k start_ms end_ms =
     sort_key start_ts_ms
       (filter (overlaps start_ms end_ms)
         (series_buckets (completed_device h) (current_hour_device h) k))"

definition merge_hourly_step ::
  "(u64 \<Rightarrow> u64 \<times> u64) \<Rightarrow> (u64 \<times> bucket) list \<Rightarrow> bucket \<Rightarrow> (u64 \<times> bucket) list" where
  "merge_hourly_step day by_day b =
     (let (day_start, day_end) = day (start_ts_ms b)
      in upd_entry day_start (empty_bucket day_start day_end) (merge_bucket b) by_day)"

definition merge_hourly_to_daily :: "(u64 \<Rightarrow> u64 \<times> u64) \<Rightarrow> bucket list \<Rightarrow> bucket list" where
  "merge_hourly_to_daily day hourly =
     sort_key start_ts_ms (map snd (foldl (merge_hourly_step day) [] hourly))"

datatype aggregate_bucket = Hourly | Daily

definition query_aggregate ::
  "(u64 \<Rightarrow> u64 \<times> u64) \<Rightarrow> histogram \<Rightarrow> u32 \<Rightarrow> string option \<Rightarrow> u64 \<Rightarrow> u64 \<Rightarrow> aggregate_bucket
   \<Rightarrow> bucket list" where
  "query_aggregate day h i mac start_ms end_ms bk =
     (let hourly =
        (case (case mac of None \<Rightarrow> None | Some s \<Rightarrow> if trim s = [] then None else Some s) of
           Some m \<Rightarrow>
             (let key = (case List.find (key_matches i m) (map fst (completed_device h)) of
                           Some k \<Rightarrow> Some k
                         | None \<Rightarrow> List.find (key_matches i m) (map fst (current_hour_device h)))
              in (case key of Some k \<Rightarrow> query_device_hourly h k start_ms end_ms | None \<Rightarrow> []))
         | None \<Rightarrow> query_iface_hourly h i start_ms end_ms)
      in (case bk of Hourly \<Rightarrow> map finalize hourly
          | Daily \<Rightarrow> map finalize (merge_hourly_to_daily day hourly)))"

definition cumulative_from_completed ::
  "histogram \<Rightarrow> (u32 \<times> quad) list \<times> ((u32 \<times> mac) \<times> quad) list" where
  "cumulative_from_completed h =
     (foldl (\<lambda>m (i, bs). AList.update i (foldl add_bucket_bytes quad_default bs) m) []
        (completed_iface h),
      foldl (\<lambda>m (k, bs). (case mac_from_str (sk_mac k) of
               Inl _ \<Rightarrow> m
             | Inr mac \<Rightarrow> AList.update (sk_ifindex k, mac) (foldl add_bucket_bytes quad_default bs) m)) []
        (completed_device h))"

definition cumulative_from_all ::
  "histogram \<Rightarrow> (u32 \<times> quad) list \<times> ((u32 \<times> mac) \<times> quad) list" where
  "cumulative_from_all h =
     (let (iface, device) = cumulative_from_completed h in
      (foldl (\<lambda>m (i, b). upd_entry i quad_default (\<lambda>acc. add_bucket_bytes acc b) m) iface
         (current_hour_iface h),
       foldl (\<lambda>m (k, b). (case mac_from_str (sk_mac k) of
                Inl _ \<Rightarrow> m
              | Inr mac \<Rightarrow> upd_entry (sk_ifindex k, mac) quad_default (\<lambda>acc. add_bucket_bytes acc b) m))
         device (current_hour_device h)))"

text \<open>\<open>export_current_hour_state\<close>: both maps as sorted lists.\<close>

definition export_current_hour_state ::
  "histogram \<Rightarrow> (u32 \<times> bucket) list \<times> (series_key \<times> bucket) list" where
  "export_current_hour_state h =
     (sort_key fst (current_hour_iface h),
      sort_key (\<lambda>(k, b). (sk_ifindex k, sk_mac k)) (current_hour_device h))"

section \<open>Queues keep their newest hours\<close>

lemma trim_front_keep_last: "trim_front n q = keep_last n q"
  by (induction q) (auto simp: keep_last_def Suc_diff_le)

lemma push_completed_keep_last: "push_completed n b q = keep_last n (q @ [b])"
  by (simp add: push_completed_def trim_histogram_completed_def trim_front_keep_last)

interpretation hist_log: bounded_log "push_completed n" "\<lambda>q. q" n "\<lambda>_. True" for n
  by unfold_locales (simp_all add: push_completed_keep_last)

definition queue_of :: "('k \<times> bucket list) list \<Rightarrow> 'k \<Rightarrow> bucket list" where
  "queue_of cpl k = (case map_of cpl k of None \<Rightarrow> [] | Some q \<Rightarrow> q)"

lemma queue_of_upd_entry [simp]:
  "queue_of (upd_entry k [] f cpl) k' = (if k' = k then f (queue_of cpl k) else queue_of cpl k')"
  by (simp add: queue_of_def map_of_upd_entry)

section \<open>The invariant of the history\<close>

definition queues_ok :: "nat \<Rightarrow> ('k \<times> bucket list) list \<Rightarrow> bool" where
  "queues_ok n cpl = (distinct (map fst cpl) \<and> (\<forall>q \<in> set (map snd cpl). length q \<le> n))"

definition hist_ok :: "histogram \<Rightarrow> bool" where
  "hist_ok h =
     (max_hours h > 0
      \<and> distinct (map fst (current_hour_iface h)) \<and> distinct (map fst (current_hour_device h))
      \<and> queues_ok (max_hours h) (completed_iface h)
      \<and> queues_ok (max_hours h) (completed_device h))"

lemma set_alist_update: "set (AList.update k v m) \<subseteq> insert (k, v) (set m)"
  by (induction m) auto

lemma queues_ok_push:
  assumes "queues_ok n cpl"
  shows "queues_ok n (upd_entry k [] (push_completed n b) cpl)"
proof -
  let ?q = "push_completed n b (case map_of cpl k of None \<Rightarrow> [] | Some q \<Rightarrow> q)"
  have "length ?q \<le> n" by (simp add: push_completed_keep_last)
  moreover have "set (map snd (AList.update k ?q cpl)) \<subseteq> insert ?q (set (map snd cpl))"
    using set_alist_update [of k ?q cpl] by fastforce
  moreover have "\<forall>q \<in> set (map snd cpl). length q \<le> n"
    using assms by (simp add: queues_ok_def)
  ultimately have "\<forall>q \<in> set (map snd (AList.update k ?q cpl)). length q \<le> n"
    by blast
  then show ?thesis
    using assms unfolding queues_ok_def upd_entry_def by (simp add: distinct_update)
qed

lemma queues_ok_filter: "queues_ok n cpl \<Longrightarrow> queues_ok n (filter P cpl)"
  unfolding queues_ok_def by (auto simp: distinct_keys_filter)

lemma queues_ok_queue_of: "queues_ok n cpl \<Longrightarrow> length (queue_of cpl k) \<le> n"
  unfolding queues_ok_def queue_of_def by (auto split: option.splits dest!: map_of_SomeD)

lemma hist_ok_new: "with_capacity_hours n = Some h \<Longrightarrow> hist_ok h \<and> max_hours h = n"
  by (auto simp: with_capacity_hours_def hist_ok_def queues_ok_def split: if_splits)

lemma hist_ok_restore:
  "hist_ok h \<Longrightarrow> hist_ok (restore_iface_bucket i b h)"
  "hist_ok h \<Longrightarrow> hist_ok (restore_device_bucket i mac b h)"
  by (simp_all add: hist_ok_def restore_iface_bucket_def restore_device_bucket_def queues_ok_push)

lemma max_hours_restore [simp]:
  "max_hours (restore_iface_bucket i b h) = max_hours h"
  "max_hours (restore_device_bucket i mac b h) = max_hours h"
  by (simp_all add: restore_iface_bucket_def restore_device_bucket_def)

lemma hist_ok_remove: "hist_ok h \<Longrightarrow> hist_ok (fst (hist_remove_device i mac h))"
  by (simp add: hist_ok_def hist_remove_device_def Let_def queues_ok_filter distinct_keys_filter)

lemma ingest_series_ok:
  assumes "ingest_series hour n k ts m cur cpl = (cur', cpl', old)"
    and "distinct (map fst cur)" and "queues_ok n cpl"
  shows "distinct (map fst cur')" and "queues_ok n cpl'"
  using assms
  by (auto simp: ingest_series_def Let_def distinct_update queues_ok_push split: prod.splits if_splits)

lemma hist_ok_ingest_iface: "hist_ok h \<Longrightarrow> hist_ok (fst (ingest_iface hour i ts m h))"
  using ingest_series_ok [of hour "max_hours h" i ts m "current_hour_iface h" "completed_iface h"]
  by (auto simp: hist_ok_def ingest_iface_def split: prod.splits)

lemma hist_ok_ingest_device: "hist_ok h \<Longrightarrow> hist_ok (fst (ingest_device hour k ts m h))"
  using ingest_series_ok [of hour "max_hours h" k ts m "current_hour_device h" "completed_device h"]
  by (auto simp: hist_ok_def ingest_device_def split: prod.splits)

lemma max_hours_ingest [simp]:
  "max_hours (fst (ingest_iface hour i ts m h)) = max_hours h"
  "max_hours (fst (ingest_device hour k ts m h)) = max_hours h"
  by (auto simp: ingest_iface_def ingest_device_def split: prod.splits)

lemma hist_ok_delete_current:
  "hist_ok h \<Longrightarrow> hist_ok (h\<lparr>current_hour_device := AList.delete k (current_hour_device h)\<rparr>)"
  by (simp add: hist_ok_def distinct_delete)

lemma hist_ok_snapshot_iface:
  "hist_ok (fst hc) \<Longrightarrow> hist_ok (fst (ingest_snapshot_iface hour ts it hc))"
  "max_hours (fst (ingest_snapshot_iface hour ts it hc)) = max_hours (fst hc)"
  by (simp_all add: ingest_snapshot_iface_def hist_ok_ingest_iface case_prod_beta)

lemma hist_ok_snapshot_device:
  assumes "hist_ok (fst hc)"
  shows "hist_ok (fst (ingest_snapshot_device hour ts dev hc))
       \<and> max_hours (fst (ingest_snapshot_device hour ts dev hc)) = max_hours (fst hc)"
proof -
  obtain h cs where hc: "hc = (h, cs)" by (cases hc)
  let ?k = "\<lparr>sk_ifindex = di_ifindex dev, sk_mac = di_mac dev\<rparr>"
  obtain h' old where i: "ingest_device hour ?k ts (di_metrics dev) h = (h', old)"
    by (cases "ingest_device hour ?k ts (di_metrics dev) h")
  have "hist_ok h' \<and> max_hours h' = max_hours h"
    using hist_ok_ingest_device [of h hour ?k ts "di_metrics dev"]
      max_hours_ingest(2) [of hour ?k ts "di_metrics dev" h] assms hc i by simp
  then show ?thesis
    using assms by (simp add: ingest_snapshot_device_def hc i Let_def hist_ok_restore hist_ok_delete_current
        split: option.split)
qed

lemma hist_ok_ingest_snapshot:
  assumes "hist_ok h"
  shows "hist_ok (fst (ingest_snapshot_collect_completed hour snap h))
       \<and> max_hours (fst (ingest_snapshot_collect_completed hour snap h)) = max_hours h"
proof -
  have a: "hist_ok (fst hc) \<Longrightarrow>
      hist_ok (fst (fold (ingest_snapshot_iface hour ts) xs hc))
    \<and> max_hours (fst (fold (ingest_snapshot_iface hour ts) xs hc)) = max_hours (fst hc)" for ts xs hc
    by (induction xs arbitrary: hc) (auto simp: hist_ok_snapshot_iface)
  have b: "hist_ok (fst hc) \<Longrightarrow>
      hist_ok (fst (fold (ingest_snapshot_device hour ts) xs hc))
    \<and> max_hours (fst (fold (ingest_snapshot_device hour ts) xs hc)) = max_hours (fst hc)" for ts xs hc
    by (induction xs arbitrary: hc) (auto simp: hist_ok_snapshot_device)
  show ?thesis
    using a [of "(h, [])"] b assms unfolding ingest_snapshot_collect_completed_def by simp
qed

section \<open>Reachable histories\<close>

inductive hist_step :: "(u64 \<Rightarrow> u64 \<times> u64) \<Rightarrow> histogram \<Rightarrow> histogram \<Rightarrow> bool" for hour where
  Ingest: "ingest_snapshot_collect_completed hour snap h = (h', out) \<Longrightarrow> hist_step hour h h'"
| Restore_iface: "hist_step hour h (restore_iface_bucket i b h)"
| Restore_device: "hist_step hour h (restore_device_bucket i mac b h)"
| Remove: "hist_remove_device i mac h = (h', r) \<Longrightarrow> hist_step hour h h'"

inductive_cases hist_stepE: "hist_step hour h h'"

inductive hist_reachable :: "(u64 \<Rightarrow> u64 \<times> u64) \<Rightarrow> nat \<Rightarrow> histogram \<Rightarrow> bool" for hour n where
  Init: "with_capacity_hours n = Some h \<Longrightarrow> hist_reachable hour n h"
| Step: "hist_reachable hour n h \<Longrightarrow> hist_step hour h h' \<Longrightarrow> hist_reachable hour n h'"

lemma max_hours_remove [simp]: "max_hours (fst (hist_remove_device i mac h)) = max_hours h"
  by (simp add: hist_remove_device_def Let_def)

lemma hist_step_ok:
  assumes "hist_step hour h h'" and "hist_ok h"
  shows "hist_ok h' \<and> max_hours h' = max_hours h"
  using assms hist_ok_ingest_snapshot [OF assms(2)] hist_ok_remove [OF assms(2)]
  by (elim hist_stepE) (simp_all add: hist_ok_restore, (metis fst_conv max_hours_remove)+)

lemma hist_reachable_inv: "hist_reachable hour n h \<Longrightarrow> hist_ok h \<and> max_hours h = n"
  by (induction rule: hist_reachable.induct) (auto simp: hist_ok_new hist_step_ok)

text \<open>Whatever snapshots, restored buckets and device removals a history goes through, every
  series keeps at most the configured number of completed hours and each series has one
  entry per map.\<close>

theorem reachable_history_bounded:
  assumes "hist_reachable hour n h"
  shows "length (queue_of (completed_iface h) i) \<le> n
       \<and> length (queue_of (completed_device h) k) \<le> n
       \<and> distinct (map fst (current_hour_iface h)) \<and> distinct (map fst (completed_iface h))
       \<and> distinct (map fst (current_hour_device h)) \<and> distinct (map fst (completed_device h))"
proof -
  have "hist_ok h" and n: "max_hours h = n"
    using hist_reachable_inv [OF assms] by auto
  then have "queues_ok n (completed_iface h)" and "queues_ok n (completed_device h)"
    by (simp_all add: hist_ok_def)
  with \<open>hist_ok h\<close> show ?thesis
    by (simp add: queues_ok_queue_of) (simp add: hist_ok_def queues_ok_def)
qed

theorem reachable_history_bounded_witness:
  "length (queue_of (completed_iface
      (fst (ingest_snapshot_collect_completed (\<lambda>t. (t, t + 10)) 
         \<lparr>sd_timestamp_ms = 5, sd_interfaces = [], sd_devices = []\<rparr>
         (restore_iface_bucket 3 (empty_bucket 0 1)
           (the (with_capacity_hours 2)))))) 3) \<le> 2"
proof -
  let ?h = "the (with_capacity_hours 2)"
  have "hist_reachable (\<lambda>t. (t, t + 10)) 2 ?h"
    by (rule hist_reachable.Init) (simp add: with_capacity_hours_def)
  then have "hist_reachable (\<lambda>t. (t, t + 10)) 2 (restore_iface_bucket 3 (empty_bucket 0 1) ?h)"
    by (rule hist_reachable.Step) (rule hist_step.Restore_iface)
  then have "hist_reachable (\<lambda>t. (t, t + 10)) 2
      (fst (ingest_snapshot_collect_completed (\<lambda>t. (t, t + 10))
         \<lparr>sd_timestamp_ms = 5, sd_interfaces = [], sd_devices = []\<rparr>
         (restore_iface_bucket 3 (empty_bucket 0 1) ?h)))"
    by (rule hist_reachable.Step) (rule hist_step.Ingest, rule prod.collapse [symmetric])
  from reachable_history_bounded [OF this] show ?thesis by blast
qed

section \<open>The history of a series is its samples grouped by hour\<close>

type_synonym group = "u64 \<times> u64 \<times> quad list"

definition add_to_groups :: "(u64 \<Rightarrow> u64 \<times> u64) \<Rightarrow> group list \<Rightarrow> u64 \<times> quad \<Rightarrow> group list" where
  "add_to_groups hour gs x =
     (let (ts, m) = x; (s, e) = hour ts
      in if gs = [] then [(s, e, [m])]
         else let (s', e', ms) = last gs
              in if s' = s then butlast gs @ [(s', e', ms @ [m])] else gs @ [(s, e, [m])])"

definition hour_groups :: "(u64 \<Rightarrow> u64 \<times> u64) \<Rightarrow> (u64 \<times> quad) list \<Rightarrow> group list" where
  "hour_groups hour xs = foldl (add_to_groups hour) [] xs"

definition group_bucket :: "group \<Rightarrow> bucket" where
  "group_bucket g = (case g of (s, e, ms) \<Rightarrow> samples_bucket s e ms)"

lemma samples_bucket_window [simp]:
  "start_ts_ms (samples_bucket s e ms) = s" "end_ts_ms (samples_bucket s e ms) = e"
  by (induction ms rule: rev_induct)
     (auto simp: samples_bucket_snoc, simp_all add: samples_bucket_def)

lemma hour_groups_snoc:
  "hour_groups hour (xs @ [x]) = add_to_groups hour (hour_groups hour xs) x"
  by (simp add: hour_groups_def)

lemma add_to_groups_not_Nil: "add_to_groups hour gs x \<noteq> []"
  by (auto simp: add_to_groups_def Let_def split: prod.splits)

definition series_rep ::
  "nat \<Rightarrow> 'k \<Rightarrow> group list \<Rightarrow> ('k \<times> bucket) list \<Rightarrow> ('k \<times> bucket list) list \<Rightarrow> bool" where
  "series_rep n k gs cur cpl =
     (map_of cur k = (if gs = [] then None else Some (group_bucket (last gs)))
      \<and> queue_of cpl k = keep_last n (map group_bucket (butlast gs)))"

lemma samples_bucket_single: "add_sample m (empty_bucket s e) = samples_bucket s e [m]"
  by (simp add: samples_bucket_def)

lemma ingest_series_groups:
  assumes "series_rep n k gs cur cpl"
    and "ingest_series hour n k ts m cur cpl = (cur', cpl', old)"
  shows "series_rep n k (add_to_groups hour gs (ts, m)) cur' cpl'
       \<and> map (finalize \<circ> group_bucket) (butlast (add_to_groups hour gs (ts, m)))
         = map (finalize \<circ> group_bucket) (butlast gs) @ (case old of None \<Rightarrow> [] | Some b \<Rightarrow> [b])"
proof -
  obtain s e where h: "hour ts = (s, e)" by (cases "hour ts")
  show ?thesis
  proof (cases gs rule: rev_cases)
    case Nil
    with assms h show ?thesis
      by (auto simp: series_rep_def ingest_series_def add_to_groups_def group_bucket_def
          samples_bucket_single)
  next
    case (snoc gs' g)
    obtain s' e' ms where g: "g = (s', e', ms)" by (cases g) auto
    have cur: "map_of cur k = Some (samples_bucket s' e' ms)"
      and q: "queue_of cpl k = keep_last n (map group_bucket gs')"
      using assms(1) by (simp_all add: series_rep_def snoc g group_bucket_def)
    show ?thesis
    proof (cases "s' = s")
      case True
      with assms(2) cur h q show ?thesis
        by (auto simp: series_rep_def ingest_series_def add_to_groups_def group_bucket_def snoc g
            samples_bucket_snoc)
    next
      case False
      with assms(2) cur h have r:
        "cur' = AList.update k (samples_bucket s e [m]) cur"
        "cpl' = upd_entry k [] (push_completed n (samples_bucket s' e' ms)) cpl"
        "old = Some (finalize (samples_bucket s' e' ms))"
        by (auto simp: ingest_series_def samples_bucket_single Let_def)
      have "queue_of cpl' k = keep_last n (map group_bucket gs' @ [samples_bucket s' e' ms])"
        by (simp add: r q push_completed_keep_last keep_last_keep_last_append)
      with False h r show ?thesis
        by (simp add: series_rep_def add_to_groups_def group_bucket_def snoc g butlast_append)
    qed
  qed
qed

definition ingest_device_run ::
  "(u64 \<Rightarrow> u64 \<times> u64) \<Rightarrow> series_key \<Rightarrow> (u64 \<times> quad) list \<Rightarrow> histogram \<Rightarrow> histogram \<times> bucket list" where
  "ingest_device_run hour k xs h =
     foldl (\<lambda>(h, out) (ts, m). let (h', old) = ingest_device hour k ts m h
              in (h', out @ (case old of None \<Rightarrow> [] | Some b \<Rightarrow> [b]))) (h, []) xs"

lemma ingest_device_run_snoc:
  "ingest_device_run hour k (xs @ [(ts, m)]) h =
     (let (h1, out) = ingest_device_run hour k xs h; (h2, old) = ingest_device hour k ts m h1
      in (h2, out @ (case old of None \<Rightarrow> [] | Some b \<Rightarrow> [b])))"
  by (simp add: ingest_device_run_def case_prod_beta)

text \<open>C19: a device's stored history is its samples cut into runs of the same local hour: the
  current bucket holds the statistics of the last run, the completed queue those of the
  newest earlier runs, and every run that ends is reported exactly once, finalized, in order.\<close>

theorem device_history_is_hour_groups:
  assumes "with_capacity_hours n = Some h0"
  shows "let (h, out) = ingest_device_run hour k xs h0; gs = hour_groups hour xs
     in map_of (current_hour_device h) k = (if xs = [] then None else Some (group_bucket (last gs)))
      \<and> queue_of (completed_device h) k = keep_last n (map group_bucket (butlast gs))
      \<and> out = map (finalize \<circ> group_bucket) (butlast gs)"
proof -
  obtain h out where r: "ingest_device_run hour k xs h0 = (h, out)" by fastforce
  have "max_hours h = n \<and> (hour_groups hour xs = [] \<longleftrightarrow> xs = [])
      \<and> series_rep n k (hour_groups hour xs) (current_hour_device h) (completed_device h)
      \<and> out = map (finalize \<circ> group_bucket) (butlast (hour_groups hour xs))"
    using r
  proof (induction xs arbitrary: h out rule: rev_induct)
    case Nil
    with assms show ?case
      by (auto simp: ingest_device_run_def hour_groups_def series_rep_def queue_of_def
          with_capacity_hours_def split: if_splits)
  next
    case (snoc x xs)
    obtain ts m where x: "x = (ts, m)" by (cases x)
    obtain h1 out1 where r1: "ingest_device_run hour k xs h0 = (h1, out1)" by fastforce
    obtain cur cpl old where i: "ingest_series hour (max_hours h1) k ts m
        (current_hour_device h1) (completed_device h1) = (cur, cpl, old)"
      by (cases "ingest_series hour (max_hours h1) k ts m
        (current_hour_device h1) (completed_device h1)") auto
    have h: "h = h1\<lparr>current_hour_device := cur, completed_device := cpl\<rparr>"
      and o: "out = out1 @ (case old of None \<Rightarrow> [] | Some b \<Rightarrow> [b])"
      using snoc.prems by (auto simp: x ingest_device_run_snoc r1 ingest_device_def i)
    note IH = snoc.IH [OF r1]
    then have "series_rep (max_hours h1) k (hour_groups hour xs) (current_hour_device h1)
        (completed_device h1)" by simp
    from ingest_series_groups [OF this i] IH show ?case
      by (simp add: h o x hour_groups_snoc add_to_groups_not_Nil o_def)
  qed
  then show ?thesis by (simp add: r series_rep_def)
qed

theorem device_history_is_hour_groups_witness:
  "let k = \<lparr>sk_ifindex = 1, sk_mac = ''m''\<rparr>; hour = (\<lambda>t. (t div 10, t div 10 + 1));
       (h, out) = ingest_device_run hour k [(1, quad_default), (2, quad_default), (11, quad_default)]
         (the (with_capacity_hours 5))
   in queue_of (completed_device h) k = [samples_bucket 0 1 [quad_default, quad_default]]"
proof -
  have "with_capacity_hours 5 = Some (the (with_capacity_hours 5))"
    by (simp add: with_capacity_hours_def)
  from device_history_is_hour_groups [OF this, where hour = "\<lambda>t. (t div 10, t div 10 + 1)"
      and k = "\<lparr>sk_ifindex = 1, sk_mac = ''m''\<rparr>"
      and xs = "[(1, quad_default), (2, quad_default), (11, quad_default)]"]
  show ?thesis
    by (simp add: hour_groups_def add_to_groups_def group_bucket_def Let_def case_prod_beta)
qed

section \<open>Merging hours into days\<close>

lemma sat_sum_upd_entry:
  assumes "distinct (map fst m)" and "g d = 0" and "\<And>e. g (u e) = sat_add (g e) c"
  shows "sat_sum (map (\<lambda>x. g (snd x)) (upd_entry k d u m)) = sat_add (sat_sum (map (\<lambda>x. g (snd x)) m)) c"
  using assms(1)
proof (induction m)
  case Nil
  then show ?case by (simp add: upd_entry_def assms)
next
  case (Cons x m)
  obtain k' v' where x: "x = (k', v')" by (cases x)
  show ?case
  proof (cases "k' = k")
    case True
    then show ?thesis
      by (simp add: upd_entry_def x assms) (metis sat_add_assoc sat_add_commute)
  next
    case False
    with Cons show ?thesis by (simp add: upd_entry_def x sat_add_assoc)
  qed
qed

definition day_of :: "(u64 \<Rightarrow> u64 \<times> u64) \<Rightarrow> bucket \<Rightarrow> u64" where
  "day_of day b = fst (day (start_ts_ms b))"

lemma merge_hourly_step_alt:
  "merge_hourly_step day m b =
     upd_entry (day_of day b) (empty_bucket (day_of day b) (snd (day (start_ts_ms b)))) (merge_bucket b) m"
  by (simp add: merge_hourly_step_def day_of_def case_prod_beta)

definition day_rep :: "(u64 \<Rightarrow> u64 \<times> u64) \<Rightarrow> bucket list \<Rightarrow> (u64 \<times> bucket) list \<Rightarrow> bool" where
  "day_rep day bs m =
     (distinct (map fst m)
      \<and> (\<forall>d. (map_of m d = None) = (\<forall>b \<in> set bs. day_of day b \<noteq> d))
      \<and> (\<forall>d e. map_of m d = Some e \<longrightarrow> start_ts_ms e = d
            \<and> sample_count e = sat_sum (map sample_count (filter (\<lambda>b. day_of day b = d) bs))
            \<and> (\<forall>f. b_bytes f e = sat_sum (map (b_bytes f) (filter (\<lambda>b. day_of day b = d) bs)))))"

lemma day_rep_foldl: "day_rep day bs (foldl (merge_hourly_step day) [] bs)"
proof (induction bs rule: rev_induct)
  case Nil
  then show ?case by (simp add: day_rep_def)
next
  case (snoc b bs)
  let ?m = "foldl (merge_hourly_step day) [] bs"
  have IH: "day_rep day bs ?m" by (rule snoc.IH)
  have none: "filter (\<lambda>x. day_of day x = day_of day b) bs = []" if "map_of ?m (day_of day b) = None"
    using IH that by (auto simp: day_rep_def filter_empty_conv)
  from IH none show ?case
    unfolding day_rep_def
    by (auto simp: merge_hourly_step_alt distinct_upd_entry map_of_upd_entry sat_sum_append
        split: option.split)
qed

lemma daily_bytes:
  "sat_sum (map (\<lambda>x. b_bytes f (snd x)) (foldl (merge_hourly_step day) [] bs)) = sat_sum (map (b_bytes f) bs)"
proof (induction bs rule: rev_induct)
  case Nil
  then show ?case by simp
next
  case (snoc b bs)
  let ?m = "foldl (merge_hourly_step day) [] bs"
  have "distinct (map fst ?m)"
    using day_rep_foldl by (simp add: day_rep_def)
  then have "sat_sum (map (\<lambda>x. b_bytes f (snd x)) (merge_hourly_step day ?m b))
      = sat_add (sat_sum (map (\<lambda>x. b_bytes f (snd x)) ?m)) (b_bytes f b)"
    unfolding merge_hourly_step_alt by (rule sat_sum_upd_entry) simp_all
  with snoc show ?case by (simp add: sat_sum_append)
qed

text \<open>Merging hourly buckets into days neither loses nor invents traffic: the bytes of the
  result add up to those of the hours, in every counter family; the days come out in
  increasing order, one bucket per day that had an hour, each holding exactly the bytes and
  the sample count of its own hours.\<close>

theorem daily_merge_conserves:
  "let ds = merge_hourly_to_daily day bs
   in cumulative_from_buckets ds = cumulative_from_buckets bs
    \<and> sorted_wrt (<) (map start_ts_ms ds)
    \<and> set (map start_ts_ms ds) = day_of day ` set bs
    \<and> list_all (\<lambda>d. sample_count d = sat_sum (map sample_count (filter (\<lambda>b. day_of day b = start_ts_ms d) bs))
         \<and> b_bytes f d = sat_sum (map (b_bytes f) (filter (\<lambda>b. day_of day b = start_ts_ms d) bs))) ds"
proof -
  let ?m = "foldl (merge_hourly_step day) [] bs"
  let ?ds = "merge_hourly_to_daily day bs"
  have rep: "day_rep day bs ?m" by (rule day_rep_foldl)
  then have dist: "distinct (map fst ?m)" by (simp add: day_rep_def)
  have mem: "start_ts_ms e = d \<and> sample_count e = sat_sum (map sample_count (filter (\<lambda>b. day_of day b = d) bs))
      \<and> b_bytes f e = sat_sum (map (b_bytes f) (filter (\<lambda>b. day_of day b = d) bs))" if "(d, e) \<in> set ?m" for d e f
    using rep map_of_is_SomeI [OF dist that] by (simp add: day_rep_def)
  have starts: "map (start_ts_ms \<circ> snd) ?m = map fst ?m"
    by (rule map_cong) (auto dest: mem)
  have mset: "mset ?ds = mset (map snd ?m)" by (simp add: merge_hourly_to_daily_def)
  have mset_bytes: "mset (map (b_bytes f) ?ds) = mset (map (\<lambda>x. b_bytes f (snd x)) ?m)" for f
    using arg_cong [OF mset, of "image_mset (b_bytes f)"]
    by (simp add: multiset.map_comp o_def)
  have "cumulative_from_buckets ?ds = cumulative_from_buckets bs"
    by (simp add: quad_eq_iff sat_sum_mset_cong [OF mset_bytes] daily_bytes)
  moreover have "distinct (map start_ts_ms ?ds)"
  proof -
    have "mset (map start_ts_ms ?ds) = mset (map fst ?m)"
      using arg_cong [OF mset, of "image_mset start_ts_ms"] starts
      by (metis mset_map map_map)
    with dist show ?thesis by (metis mset_eq_imp_distinct_iff)
  qed
  then have "sorted_wrt (<) (map start_ts_ms ?ds)"
    by (simp add: strict_sorted_iff merge_hourly_to_daily_def)
  moreover have "set (map start_ts_ms ?ds) = day_of day ` set bs"
  proof -
    have "set (map start_ts_ms ?ds) = set (map (start_ts_ms \<circ> snd) ?m)"
      by (simp add: merge_hourly_to_daily_def image_comp)
    also have "\<dots> = {d. map_of ?m d \<noteq> None}" by (simp only: starts) (auto simp: map_of_eq_None_iff)
    also have "\<dots> = day_of day ` set bs" using rep by (auto simp: day_rep_def)
    finally show ?thesis .
  qed
  moreover have "list_all (\<lambda>d. sample_count d = sat_sum (map sample_count (filter (\<lambda>b. day_of day b = start_ts_ms d) bs))
      \<and> b_bytes f d = sat_sum (map (b_bytes f) (filter (\<lambda>b. day_of day b = start_ts_ms d) bs))) ?ds"
    by (auto simp: list_all_iff merge_hourly_to_daily_def dest: mem)
  ultimately show ?thesis by (simp add: Let_def)
qed

section \<open>Removing and flushing devices\<close>

text \<open>Removing a device drops both its current hour and its completed hours, whatever the
  case its MAC is written in, leaves every other series as it was, and reports whether
  there was anything to drop.\<close>

theorem hist_remove_device_exact:
  assumes "hist_ok h"
  shows "let (h', r) = hist_remove_device i mac h
     in (r = (\<exists>k. key_matches i mac k \<and> (map_of (current_hour_device h) k \<noteq> None
                                    \<or> map_of (completed_device h) k \<noteq> None)))
      \<and> series_buckets (completed_device h') (current_hour_device h') k
          = (if key_matches i mac k then [] else series_buckets (completed_device h) (current_hour_device h) k)
      \<and> current_hour_iface h' = current_hour_iface h \<and> completed_iface h' = completed_iface h"
proof -
  have d: "distinct (map fst (current_hour_device h))" "distinct (map fst (completed_device h))"
    using assms by (simp_all add: hist_ok_def queues_ok_def)
  have ex: "(\<exists>k. P k \<and> map_of m k \<noteq> None) = (\<exists>e \<in> set m. P (fst e))"
    for P and m :: "(series_key \<times> 'v) list"
    by (force simp: map_of_eq_None_iff)
  have "(\<exists>k. key_matches i mac k \<and> (map_of (current_hour_device h) k \<noteq> None
                                    \<or> map_of (completed_device h) k \<noteq> None)) =
      ((\<exists>e \<in> set (current_hour_device h). key_matches i mac (fst e))
       \<or> (\<exists>e \<in> set (completed_device h). key_matches i mac (fst e)))"
    by (simp only: ex [symmetric]) blast
  then show ?thesis
    by (simp add: hist_remove_device_def Let_def key_matches_def series_buckets_def case_prod_beta
        map_of_filter_key d split: option.split)
qed

lemma hist_ok_new_the: "0 < n \<Longrightarrow> hist_ok (the (with_capacity_hours n))"
  using hist_ok_new [of n] by (simp add: with_capacity_hours_def)

theorem hist_remove_device_exact_witness:
  "snd (hist_remove_device 1 ''AB'' (restore_device_bucket 1 ''ab'' (empty_bucket 0 1)
      (the (with_capacity_hours 2))))"
proof -
  let ?h = "restore_device_bucket 1 ''ab'' (empty_bucket 0 1) (the (with_capacity_hours 2))"
  have ok: "hist_ok ?h" by (intro hist_ok_restore hist_ok_new_the) simp
  have "key_matches 1 ''AB'' \<lparr>sk_ifindex = 1, sk_mac = ''ab''\<rparr>" by code_simp
  moreover have "map_of (completed_device ?h) \<lparr>sk_ifindex = 1, sk_mac = ''ab''\<rparr> \<noteq> None"
    by (simp add: restore_device_bucket_def map_of_upd_entry)
  ultimately show ?thesis
    using hist_remove_device_exact [OF ok, of 1 "''AB''"] by (auto simp: case_prod_beta Let_def)
qed

text \<open>A device that went offline without traffic gets its running hour closed once that hour
  has ended: the bucket moves, finalized, to the completed queue and is reported once; a second
  snapshot with the device still offline changes nothing and reports nothing, so an idle device is
  never flushed twice.\<close>

theorem offline_device_flushed_once:
  assumes "\<not> di_online dev" and "quad_is_empty (di_metrics dev)"
    and "key = \<lparr>sk_ifindex = di_ifindex dev, sk_mac = di_mac dev\<rparr>"
    and "distinct (map fst (current_hour_device h))"
    and "map_of (current_hour_device h) key = Some b" and "end_ts_ms b < ts"
    and "ingest_snapshot_device hour ts dev (h, cs) = (h', cs')"
  shows "map_of (current_hour_device h') key = None
       \<and> queue_of (completed_device h') key
           = keep_last (max_hours h) (queue_of (completed_device h) key @ [finalize b])
       \<and> cs' = cs @ [CompletedDevice (di_logical_iface dev) (di_mac dev) (finalize b)]
       \<and> ingest_snapshot_device hour ts' dev (h', cs') = (h', cs')"
proof -
  have h': "h' = restore_device_bucket (di_ifindex dev) (di_mac dev) (finalize b)
        (h\<lparr>current_hour_device := AList.delete key (current_hour_device h)\<rparr>)"
    and c: "cs' = cs @ [CompletedDevice (di_logical_iface dev) (di_mac dev) (finalize b)]"
    using assms by (auto simp: ingest_snapshot_device_def Let_def)
  have none: "map_of (current_hour_device h') key = None"
    by (simp add: h' restore_device_bucket_def delete_conv)
  then have "ingest_snapshot_device hour ts' dev (h', cs') = (h', cs')"
    using assms by (simp add: ingest_snapshot_device_def Let_def)
  with none c show ?thesis
    by (simp add: h' restore_device_bucket_def assms(3) push_completed_keep_last)
qed

theorem offline_device_flushed_once_witness:
  "let dev = \<lparr>di_ifindex = 1, di_logical_iface = ''lan'', di_subnet = [], di_ipv4 = [], di_ipv6 = [],
         di_mac = ''m'', di_hostname = [], di_metrics = quad_default, di_cumulative = quad_default,
         di_online = False, di_last_seen_ms = 0, di_neighbor_state = None\<rparr>;
       key = \<lparr>sk_ifindex = 1, sk_mac = ''m''\<rparr>;
       h = (the (with_capacity_hours 2))\<lparr>current_hour_device := [(key, empty_bucket 0 10)]\<rparr>;
       hc = ingest_snapshot_device (\<lambda>t. (t, t)) 20 dev (h, [])
   in snd hc = [CompletedDevice ''lan'' ''m'' (finalize (empty_bucket 0 10))]
    \<and> ingest_snapshot_device (\<lambda>t. (t, t)) 30 dev hc = hc"
proof -
  let ?dev = "\<lparr>di_ifindex = 1, di_logical_iface = ''lan'', di_subnet = [], di_ipv4 = [], di_ipv6 = [],
         di_mac = ''m'', di_hostname = [], di_metrics = quad_default, di_cumulative = quad_default,
         di_online = False, di_last_seen_ms = 0, di_neighbor_state = None\<rparr> :: device_item"
  let ?key = "\<lparr>sk_ifindex = 1, sk_mac = ''m''\<rparr> :: series_key"
  let ?h = "(the (with_capacity_hours 2))\<lparr>current_hour_device := [(?key, empty_bucket 0 10)]\<rparr>"
  obtain h' cs' where r: "ingest_snapshot_device (\<lambda>t. (t, t)) 20 ?dev (?h, []) = (h', cs')" by fastforce
  have e: "quad_is_empty (di_metrics ?dev)" by (simp add: quad_is_empty_iff)
  have "snd (h', cs') = [CompletedDevice ''lan'' ''m'' (finalize (empty_bucket 0 10))]
      \<and> ingest_snapshot_device (\<lambda>t. (t, t)) 30 ?dev (h', cs') = (h', cs')"
    using offline_device_flushed_once [OF _ e refl _ _ _ r, of "empty_bucket 0 10" 30]
    by auto
  then show ?thesis by (simp only: Let_def r simp_thms)
qed

end
