(* ===== verification/Persistence.thy ===== *)
theory Persistence
  imports Ring Histogram Topology
begin

text \<open>
  \<open>PersistenceManager\<close> of \<open>persistence.rs\<close>: which ring file an interface or a device writes
  to, loading all rings into the histogram at start-up, deleting a device's ring, and the
  state of the running hour. The JSON text of the current-hour file is not modelled; what is
  saved and loaded is the data it encodes. A directory listing is a list of paths, in any
  order. The result \<open>Fail\<close> is an \<open>Err\<close>, \<open>Panic\<close> a panic.
\<close>

section \<open>The manager and its files\<close>

record manager =
  pm_ring_slots :: u32
  pm_data_dir :: string
  pm_devices_path :: path
  pm_current_hour_path :: path
  pm_iface_dir :: string
  pm_device_dir :: string

definition manager_new :: "string \<Rightarrow> u32 \<Rightarrow> manager option" where
  "manager_new data_dir ring_days =
     (if 1 \<le> ring_days \<and> ring_days \<le> 90
      then Some \<lparr>pm_ring_slots = ring_days * 24, pm_data_dir = data_dir,
                 pm_devices_path = (data_dir, ''devices_state.json''),
                 pm_current_hour_path = (data_dir, ''current_hour_state.json''),
                 pm_iface_dir = data_dir @ ''/traffic/iface'',
                 pm_device_dir = data_dir @ ''/traffic/device''\<rparr>
      else None)"

definition iface_ring_path :: "manager \<Rightarrow> string \<Rightarrow> path" where
  "iface_ring_path m iface_name = (pm_iface_dir m, encode_component iface_name @ ''.ring'')"

definition device_ring_path :: "manager \<Rightarrow> string \<Rightarrow> string \<Rightarrow> path" where
  "device_ring_path m iface_name mac_hex =
     (pm_device_dir m, encode_component iface_name @ ''-'' @ mac_hex @ ''.ring'')"

definition append_iface_bucket :: "manager \<Rightarrow> env \<Rightarrow> string \<Rightarrow> bucket \<Rightarrow> files \<Rightarrow> files \<times> unit res" where
  "append_iface_bucket m e iface_name b fs =
     (case append_ring_record_with_capacity e (iface_ring_path m iface_name) \<lparr>rr_bucket = b\<rparr> (pm_ring_slots m) fs of
        (fs', Inl _) \<Rightarrow> (fs', Fail) | (fs', Inr _) \<Rightarrow> (fs', Ok ()))"

definition append_device_bucket ::
  "manager \<Rightarrow> env \<Rightarrow> string \<Rightarrow> string \<Rightarrow> bucket \<Rightarrow> files \<Rightarrow> files \<times> unit res" where
  "append_device_bucket m e iface_name mac b fs =
     (case normalize_mac_hex mac of None \<Rightarrow> (fs, Fail) | Some mac_hex \<Rightarrow>
        (case append_ring_record_with_capacity e (device_ring_path m iface_name mac_hex)
                \<lparr>rr_bucket = b\<rparr> (pm_ring_slots m) fs of
           (fs', Inl _) \<Rightarrow> (fs', Fail) | (fs', Inr _) \<Rightarrow> (fs', Ok ())))"

definition delete_device_traffic :: "manager \<Rightarrow> string \<Rightarrow> string \<Rightarrow> files \<Rightarrow> files \<times> bool res" where
  "delete_device_traffic m iface_name mac fs =
     (case normalize_mac_hex mac of None \<Rightarrow> (fs, Fail) | Some mac_hex \<Rightarrow>
        let p = device_ring_path m iface_name mac_hex
        in if fs p = None then (fs, Ok False) else (fs(p := None), Ok True))"

section \<open>Loading the rings\<close>

definition load_ring ::
  "manager \<Rightarrow> env \<Rightarrow> path \<Rightarrow> (bucket \<Rightarrow> histogram \<Rightarrow> histogram) \<Rightarrow> files \<times> histogram
   \<Rightarrow> (files \<times> histogram) \<times> unit res" where
  "load_ring m e p restore s =
     (case open_or_create_ring e p (pm_ring_slots m) (fst s) of
        (fs1, Inl _) \<Rightarrow> ((fs1, snd s), Fail)
      | (fs1, Inr _) \<Rightarrow>
          (case read_ring_records e p fs1 of
             (fs2, Inl _) \<Rightarrow> ((fs2, snd s), Fail)
           | (fs2, Inr rs) \<Rightarrow> ((fs2, fold (\<lambda>r. restore (rr_bucket r)) rs (snd s)), Ok ())))"

definition load_iface_entry ::
  "manager \<Rightarrow> env \<Rightarrow> topology \<Rightarrow> path \<Rightarrow> files \<times> histogram \<Rightarrow> (files \<times> histogram) \<times> unit res" where
  "load_iface_entry m e t p s =
     (if \<not> is_ring_file p then (s, Ok ()) else
      case decode_component (file_stem (snd p)) of
        Panic \<Rightarrow> (s, Panic)
      | Fail \<Rightarrow> ((quarantine_bad_file e p (fst s), snd s), Ok ())
      | Ok iface_name \<Rightarrow>
          (case ifindex_by_name t iface_name of
             None \<Rightarrow> (s, Ok ())
           | Some i \<Rightarrow> load_ring m e p (restore_iface_bucket i) s))"

definition load_device_entry ::
  "manager \<Rightarrow> env \<Rightarrow> topology \<Rightarrow> path \<Rightarrow> files \<times> histogram \<Rightarrow> (files \<times> histogram) \<times> unit res" where
  "load_device_entry m e t p s =
     (if \<not> is_ring_file p then (s, Ok ()) else
      case rsplit_once CHR ''-'' (file_stem (snd p)) of
        None \<Rightarrow> ((quarantine_bad_file e p (fst s), snd s), Ok ())
      | Some (iface_hex, mac_hex) \<Rightarrow>
          (case decode_component iface_hex of
             Panic \<Rightarrow> (s, Panic)
           | Fail \<Rightarrow> ((quarantine_bad_file e p (fst s), snd s), Ok ())
           | Ok iface_name \<Rightarrow>
               (case ifindex_by_name t iface_name of
                  None \<Rightarrow> (s, Ok ())
                | Some i \<Rightarrow>
                    (case mac_hex_to_colon mac_hex of
                       None \<Rightarrow> ((quarantine_bad_file e p (fst s), snd s), Ok ())
                     | Some mac \<Rightarrow> load_ring m e p (restore_device_bucket i mac) s))))"

fun load_entries ::
  "(path \<Rightarrow> files \<times> histogram \<Rightarrow> (files \<times> histogram) \<times> unit res) \<Rightarrow> path list
   \<Rightarrow> files \<times> histogram \<Rightarrow> (files \<times> histogram) \<times> unit res" where
  "load_entries step [] s = (s, Ok ())"
| "load_entries step (p # ps) s =
     (case step p s of (s', Ok _) \<Rightarrow> load_entries step ps s' | (s', r) \<Rightarrow> (s', r))"

definition load_histogram ::
  "manager \<Rightarrow> env \<Rightarrow> topology \<Rightarrow> path list \<Rightarrow> path list \<Rightarrow> files \<times> histogram
   \<Rightarrow> (files \<times> histogram) \<times> unit res" where
  "load_histogram m e t iface_entries device_entries s =
     (case load_entries (load_iface_entry m e t) iface_entries s of
        (s', Ok _) \<Rightarrow> load_entries (load_device_entry m e t) device_entries s'
      | (s', r) \<Rightarrow> (s', r))"

section \<open>The running hour\<close>

record persisted_iface =
  pi_logical_iface :: string
  pi_bucket :: bucket

record persisted_device =
  pd_logical_iface :: string
  pd_mac :: string
  pd_bucket :: bucket

record current_hour_file =
  ch_schema_version :: u32
  ch_iface :: "persisted_iface list"
  ch_device :: "persisted_device list"

abbreviation current_hour_schema_version :: u32 where "current_hour_schema_version \<equiv> 2"

definition save_current_hour_histogram :: "histogram \<Rightarrow> topology \<Rightarrow> current_hour_file" where
  "save_current_hour_histogram h t =
     (let (iface, device) = export_current_hour_state h
      in \<lparr>ch_schema_version = current_hour_schema_version,
          ch_iface = List.map_filter (\<lambda>(i, b). map_option
             (\<lambda>info. \<lparr>pi_logical_iface = if_name info, pi_bucket = b\<rparr>) (by_ifindex t i)) iface,
          ch_device = List.map_filter (\<lambda>(k, b). map_option
             (\<lambda>info. \<lparr>pd_logical_iface = if_name info, pd_mac = sk_mac k, pd_bucket = b\<rparr>)
               (by_ifindex t (sk_ifindex k))) device\<rparr>)"

definition load_current_iface :: "u64 \<Rightarrow> topology \<Rightarrow> persisted_iface \<Rightarrow> histogram \<Rightarrow> histogram" where
  "load_current_iface current_start t item h =
     (if start_ts_ms (pi_bucket item) \<noteq> current_start then h else
      case ifindex_by_name t (pi_logical_iface item) of
        None \<Rightarrow> h
      | Some i \<Rightarrow> h\<lparr>current_hour_iface := AList.update i (pi_bucket item) (current_hour_iface h)\<rparr>)"

definition load_current_device :: "u64 \<Rightarrow> topology \<Rightarrow> persisted_device \<Rightarrow> histogram \<Rightarrow> histogram" where
  "load_current_device current_start t item h =
     (if start_ts_ms (pd_bucket item) \<noteq> current_start then h else
      case ifindex_by_name t (pd_logical_iface item) of
        None \<Rightarrow> h
      | Some i \<Rightarrow> h\<lparr>current_hour_device :=
          AList.update \<lparr>sk_ifindex = i, sk_mac = pd_mac item\<rparr> (pd_bucket item) (current_hour_device h)\<rparr>)"

definition load_current_hour_histogram ::
  "(u64 \<Rightarrow> u64 \<times> u64) \<Rightarrow> u64 \<Rightarrow> current_hour_file option \<Rightarrow> topology \<Rightarrow> histogram \<Rightarrow> histogram" where
  "load_current_hour_histogram hour now_ms data t h =
     (case data of
        None \<Rightarrow> h
      | Some d \<Rightarrow>
          if ch_schema_version d \<noteq> current_hour_schema_version then h
          else (let current_start = fst (hour now_ms)
                in fold (load_current_device current_start t) (ch_device d)
                     (fold (load_current_iface current_start t) (ch_iface d) h)))"

section \<open>File names\<close>

lemma digit_char_not_dot [simp]: "CHR ''.'' \<notin> set (encode_component s)" "CHR ''-'' \<notin> set (encode_component s)"
proof -
  have "unat b div 16 < 16" for b :: u8 using unat_lt [of b] by auto
  then show "CHR ''.'' \<notin> set (encode_component s)" "CHR ''-'' \<notin> set (encode_component s)"
    by (auto simp: encode_component_def hex02_def dest: sym [where s = "CHR ''.''"] sym [where s = "CHR ''-''"])
qed

lemma rsplit_once_append: "c \<notin> set b \<Longrightarrow> rsplit_once c (a @ c # b) = Some (a, b)"
  using split_once_Some_append [of c "rev b" "rev a"] by simp

lemma ring_name:
  assumes "s \<noteq> []"
  shows "file_stem (s @ ''.ring'') = s" and "file_extension (s @ ''.ring'') = Some ''ring''"
proof -
  have "rsplit_once CHR ''.'' (s @ ''.ring'') = Some (s, ''ring'')"
    by (rule rsplit_once_append) simp
  with assms show "file_stem (s @ ''.ring'') = s" and "file_extension (s @ ''.ring'') = Some ''ring''"
    by (simp_all add: file_stem_def file_extension_def del: rsplit_once.simps)
qed

lemma iface_ring_name:
  assumes "s \<noteq> []" and "utf8_valid (bytes_of_string s)"
  shows "is_ring_file (iface_ring_path m s)"
    and "decode_component (file_stem (snd (iface_ring_path m s))) = Ok s"
proof -
  have "encode_component s \<noteq> []"
    using assms(1) by (cases s) (simp_all add: encode_component_def hex02_def)
  then show "is_ring_file (iface_ring_path m s)"
    and "decode_component (file_stem (snd (iface_ring_path m s))) = Ok s"
    using assms by (simp_all add: iface_ring_path_def is_ring_file_def ring_name decode_encode_component)
qed

lemma hex02_digits:
  obtains x y where "hex02 b = [digit_char x, digit_char y]" and "x < 16" and "y < 16"
proof -
  have "unat b < 256" using unat_lt [of b] by simp
  then have "unat b div 16 < 16" by auto
  then show thesis using that by (simp add: hex02_def)
qed

lemma lower_digit_char [simp]: "d < 16 \<Longrightarrow> ascii_lower (digit_char d) = digit_char d"
  by (simp add: ascii_lower_def digit_char_def)

lemma hexdigit_digit_char [simp]: "d < 16 \<Longrightarrow> is_ascii_hexdigit (digit_char d)"
  by (simp add: is_ascii_hexdigit_def)

lemma hex02_plain [simp]:
  "to_ascii_lowercase (hex02 b) = hex02 b" "list_all is_ascii_hexdigit (hex02 b)"
  "filter (\<lambda>c. c \<noteq> CHR '':'') (hex02 b) = hex02 b" "length (hex02 b) = 2" "CHR ''-'' \<notin> set (hex02 b)"
proof -
  obtain x y where h: "hex02 b = [digit_char x, digit_char y]" and d: "x < 16" "y < 16"
    by (rule hex02_digits)
  show "to_ascii_lowercase (hex02 b) = hex02 b" "list_all is_ascii_hexdigit (hex02 b)"
    "filter (\<lambda>c. c \<noteq> CHR '':'') (hex02 b) = hex02 b" "length (hex02 b) = 2"
    unfolding h using d by (simp_all add: to_ascii_lowercase_def)
  show "CHR ''-'' \<notin> set (hex02 b)"
    unfolding h using digit_char_neq(4) [OF d(1)] digit_char_neq(4) [OF d(2)] by auto
qed

lemma mac6_cases:
  assumes "length (m :: mac) = 6"
  obtains a b c d e f where "m = [a, b, c, d, e, f]"
  using assms by (auto simp: length_Suc_conv eval_nat_numeral)

lemma lower_append [simp]: "to_ascii_lowercase (a @ b) = to_ascii_lowercase a @ to_ascii_lowercase b"
  by (simp add: to_ascii_lowercase_def)

lemma ascii_lower_colon [simp]: "ascii_lower CHR '':'' = CHR '':''"
  by (simp add: ascii_lower_def)

lemma normalize_mac_to_string:
  assumes "length m = 6"
  shows "normalize_mac_hex (mac_to_string m) = Some (concat (map hex02 m))"
  by (rule mac6_cases [OF assms])
     (simp add: normalize_mac_hex_def mac_to_string_def Let_def)

lemma concat_hex02 [simp]:
  "length (concat (map hex02 m)) = 2 * length m" "list_all is_ascii_hexdigit (concat (map hex02 m))"
  by (induction m) simp_all

lemma colon_mac_hex:
  assumes "length m = 6"
  shows "mac_hex_to_colon (concat (map hex02 m)) = Some (mac_to_string m)"
proof -
  have "map (\<lambda>i. to_ascii_lowercase (slice (i * 2) 2 (concat (map hex02 m)))) [0..<6] = map hex02 m"
  proof (rule nth_equalityI)
    fix i assume "i < length (map (\<lambda>i. to_ascii_lowercase (slice (i * 2) 2 (concat (map hex02 m)))) [0..<6])"
    then have i: "i < 6" by simp
    have "slice (2 * i) 2 (concat (map hex02 m)) = map hex02 m ! i"
      using i assms by (intro slice_concat_uniform) auto
    with i assms show "map (\<lambda>i. to_ascii_lowercase (slice (i * 2) 2 (concat (map hex02 m)))) [0..<6] ! i = map hex02 m ! i"
      by (simp add: mult.commute)
  qed (simp add: assms)
  then show ?thesis
    using assms by (simp add: mac_hex_to_colon_def mac_to_string_def)
qed

text \<open>The name of a device's ring file determines the device: from the file written for an
  interface and a MAC the loader recovers exactly that interface name and that MAC, in the form
  the rest of the program prints it.\<close>

theorem device_ring_name_roundtrip:
  assumes "length mac = 6" and "iface \<noteq> []" and "utf8_valid (bytes_of_string iface)"
  shows "\<exists>hx. normalize_mac_hex (mac_to_string mac) = Some hx
     \<and> (let p = device_ring_path m iface hx
        in is_ring_file p
         \<and> (case rsplit_once CHR ''-'' (file_stem (snd p)) of None \<Rightarrow> False
              | Some (a, b) \<Rightarrow> decode_component a = Ok iface \<and> mac_hex_to_colon b = Some (mac_to_string mac)))"
proof -
  let ?hx = "concat (map hex02 mac)"
  have no_dash: "CHR ''-'' \<notin> set ?hx" by auto
  have name: "encode_component iface @ ''-'' @ ?hx @ ''.ring'' = (encode_component iface @ ''-'' @ ?hx) @ ''.ring''"
    by simp
  have "encode_component iface @ ''-'' @ ?hx \<noteq> []" by simp
  from ring_name [OF this] have "is_ring_file (device_ring_path m iface ?hx)"
    and "file_stem (snd (device_ring_path m iface ?hx)) = encode_component iface @ ''-'' @ ?hx"
    by (simp_all add: is_ring_file_def device_ring_path_def)
  moreover have "rsplit_once CHR ''-'' (encode_component iface @ ''-'' @ ?hx) = Some (encode_component iface, ?hx)"
    using rsplit_once_append [OF no_dash, of "encode_component iface"] by simp
  ultimately show ?thesis
    using decode_encode_component [OF assms(2,3)] colon_mac_hex [OF assms(1)] normalize_mac_to_string [OF assms(1)]
    by (simp del: rsplit_once.simps)
qed

theorem device_ring_name_roundtrip_witness:
  "normalize_mac_hex (mac_to_string [0xaa, 0xbb, 0xcc, 0xdd, 0xee, 0xff]) \<noteq> None"
proof -
  have "length [0xaa, 0xbb, 0xcc, 0xdd, 0xee, 0xff :: u8] = 6" and "''lan'' \<noteq> []"
    and "utf8_valid (bytes_of_string ''lan'')"
    by (simp_all add: bytes_of_string_def byte_of_def utf8_valid.simps)
  from device_ring_name_roundtrip [OF this] show ?thesis by auto
qed

section \<open>Histories survive a restart\<close>

lemma restore_iface_fold:
  "completed_iface (restore_iface_bucket i b h) = upd_entry i [] (push_completed (max_hours h) b) (completed_iface h)"
  "queue_of (completed_iface (fold (\<lambda>r. restore_iface_bucket i (rr_bucket r)) rs h)) j =
     (if j = i then fold (push_completed (max_hours h)) (map rr_bucket rs) (queue_of (completed_iface h) i)
      else queue_of (completed_iface h) j)"
  "max_hours (fold (\<lambda>r. restore_iface_bucket i (rr_bucket r)) rs h) = max_hours h"
  "hist_ok h \<Longrightarrow> hist_ok (fold (\<lambda>r. restore_iface_bucket i (rr_bucket r)) rs h)"
proof -
  show "completed_iface (restore_iface_bucket i b h) = upd_entry i [] (push_completed (max_hours h) b) (completed_iface h)" for b h
    by (simp add: restore_iface_bucket_def)
  then show "queue_of (completed_iface (fold (\<lambda>r. restore_iface_bucket i (rr_bucket r)) rs h)) j =
     (if j = i then fold (push_completed (max_hours h)) (map rr_bucket rs) (queue_of (completed_iface h) i)
      else queue_of (completed_iface h) j)"
    by (induction rs arbitrary: h) simp_all
  show "max_hours (fold (\<lambda>r. restore_iface_bucket i (rr_bucket r)) rs h) = max_hours h"
    by (induction rs arbitrary: h) simp_all
  show "hist_ok h \<Longrightarrow> hist_ok (fold (\<lambda>r. restore_iface_bucket i (rr_bucket r)) rs h)"
    by (induction rs arbitrary: h) (simp_all add: hist_ok_restore)
qed

lemma load_iface_entry_holds:
  assumes "n \<noteq> []" and "utf8_valid (bytes_of_string n)" and "ifindex_by_name t n = Some i"
    and "fs (iface_ring_path m n) = Some content" and "ring_holds 2 (pm_ring_slots m) content rs"
    and "0 < pm_ring_slots m"
  shows "load_iface_entry m e t (iface_ring_path m n) (fs, h)
       = ((fs, fold (\<lambda>r. restore_iface_bucket i (rr_bucket r)) rs h), Ok ())"
proof -
  let ?p = "iface_ring_path m n"
  have "open_or_create_ring e ?p (pm_ring_slots m) fs = (fs, Inr ())"
    using open_holds [where fs = fs and p = ?p, OF assms(5,4,6), of e] by simp
  moreover have "read_ring_records e ?p fs = (fs, Inr rs)"
    using assms(5,4) by (rule read_holds)
  ultimately show ?thesis
    using iface_ring_name [OF assms(1,2), of m] assms(3) by (simp add: load_iface_entry_def load_ring_def)
qed

definition restore_rings :: "(string \<Rightarrow> u32) \<Rightarrow> (string \<times> ring_record list) list \<Rightarrow> histogram \<Rightarrow> histogram" where
  "restore_rings ixof rings =
     fold (\<lambda>(n, rs). fold (\<lambda>r. restore_iface_bucket (ixof n) (rr_bucket r)) rs) rings"

lemma restore_rings_simps:
  "restore_rings ixof [] h = h"
  "restore_rings ixof ((n, rs) # rings) h
     = restore_rings ixof rings (fold (\<lambda>r. restore_iface_bucket (ixof n) (rr_bucket r)) rs h)"
  by (simp_all add: restore_rings_def)

lemma load_iface_entries_hold:
  assumes "\<forall>(n, rs) \<in> set rings. n \<noteq> [] \<and> utf8_valid (bytes_of_string n)
        \<and> ifindex_by_name t n = Some (ixof n)
        \<and> (\<exists>content. fs (iface_ring_path m n) = Some content \<and> ring_holds 2 (pm_ring_slots m) content rs)"
    and "0 < pm_ring_slots m"
  shows "load_entries (load_iface_entry m e t) (map (\<lambda>(n, _). iface_ring_path m n) rings) (fs, h)
       = ((fs, restore_rings ixof rings h), Ok ())"
  using assms(1)
proof (induction rings arbitrary: h)
  case Nil
  then show ?case by (simp add: restore_rings_simps)
next
  case (Cons x rings)
  obtain n rs where x: "x = (n, rs)" by (cases x)
  from Cons.prems x obtain content where r: "n \<noteq> []" "utf8_valid (bytes_of_string n)" "ifindex_by_name t n = Some (ixof n)"
    "fs (iface_ring_path m n) = Some content" "ring_holds 2 (pm_ring_slots m) content rs" by auto
  have "load_iface_entry m e t (iface_ring_path m n) (fs, h)
      = ((fs, fold (\<lambda>r. restore_iface_bucket (ixof n) (rr_bucket r)) rs h), Ok ())"
    using r(1-3) r(4,5) assms(2) by (rule load_iface_entry_holds)
  with Cons x show ?case by (simp add: restore_rings_simps)
qed

lemma restore_rings_other:
  "i \<notin> ixof ` fst ` set rings \<Longrightarrow>
    queue_of (completed_iface (restore_rings ixof rings h)) i = queue_of (completed_iface h) i"
proof (induction rings arbitrary: h)
  case Nil
  then show ?case by (simp add: restore_rings_simps)
next
  case (Cons x rings)
  then show ?case by (cases x) (simp add: restore_rings_simps restore_iface_fold(2))
qed

lemma restored_queue:
  assumes "inj_on ixof (fst ` set rings)" and "distinct (map fst rings)" and "(n, rs) \<in> set rings"
  shows "queue_of (completed_iface (restore_rings ixof rings h)) (ixof n)
       = fold (push_completed (max_hours h)) (map rr_bucket rs) (queue_of (completed_iface h) (ixof n))"
  using assms
proof (induction rings arbitrary: h)
  case Nil
  then show ?case by simp
next
  case (Cons x rings)
  obtain n' rs' where x: "x = (n', rs')" by (cases x)
  have n': "n' \<notin> fst ` set rings" using Cons.prems(2) x by simp
  have inj: "inj_on ixof (fst ` set rings)" using Cons.prems(1) by (rule inj_on_subset) auto
  show ?case
  proof (cases "(n, rs) = x")
    case True
    have "ixof n' \<notin> ixof ` fst ` set rings"
      using Cons.prems(1) n' x by (auto dest: inj_onD)
    with True x show ?thesis by (simp add: restore_rings_simps restore_rings_other restore_iface_fold(2))
  next
    case False
    with Cons.prems(3) have mem: "(n, rs) \<in> set rings" by simp
    then have "n \<in> fst ` set rings" by force
    then have "n \<noteq> n'" using n' by blast
    then have "ixof n \<noteq> ixof n'"
      using inj_onD [OF Cons.prems(1), of n n'] x \<open>n \<in> fst ` set rings\<close> by auto
    with Cons.IH [OF inj _ mem] Cons.prems(2) x show ?thesis
      by (simp add: restore_rings_simps restore_iface_fold(2,3))
  qed
qed

text \<open>C18: loading the data directory restores every interface's history: for any set of well-formed rings
  of distinct known interfaces, in any order, each interface gets back exactly the newest of the
  hours its ring holds, in their order, and no file is changed.\<close>

theorem iface_histories_restored:
  assumes "\<forall>(n, rs) \<in> set rings. n \<noteq> [] \<and> utf8_valid (bytes_of_string n)
        \<and> ifindex_by_name t n = Some (ixof n)
        \<and> (\<exists>content. fs (iface_ring_path m n) = Some content \<and> ring_holds 2 (pm_ring_slots m) content rs)"
    and "0 < pm_ring_slots m" and "with_capacity_hours hours = Some h"
    and "inj_on ixof (fst ` set rings)" and "distinct (map fst rings)"
  shows "\<exists>h'. load_histogram m e t (map (\<lambda>(n, _). iface_ring_path m n) rings) [] (fs, h) = ((fs, h'), Ok ())
       \<and> (\<forall>(n, rs) \<in> set rings. queue_of (completed_iface h') (ixof n) = keep_last hours (map rr_bucket rs))"
proof -
  let ?h' = "restore_rings ixof rings h"
  have h: "max_hours h = hours" "queue_of (completed_iface h) i = []" for i
    using assms(3) by (auto simp: with_capacity_hours_def queue_of_def split: if_splits)
  have "load_histogram m e t (map (\<lambda>(n, _). iface_ring_path m n) rings) [] (fs, h) = ((fs, ?h'), Ok ())"
    by (simp add: load_histogram_def load_iface_entries_hold [OF assms(1,2)])
  moreover have "queue_of (completed_iface ?h') (ixof n) = keep_last hours (map rr_bucket rs)"
    if "(n, rs) \<in> set rings" for n rs
    using restored_queue [OF assms(4,5) that, of h] by (simp add: h hist_log.pushes_contents)
  ultimately show ?thesis by blast
qed

section \<open>The running hour survives a restart\<close>

lemma fold_guarded_update:
  assumes "distinct (map fst xs)"
  shows "map_of (fold (\<lambda>(k, b) m. if P k b then AList.update k b m else m) xs m0) k =
    (case map_of xs k of None \<Rightarrow> map_of m0 k | Some b \<Rightarrow> if P k b then Some b else map_of m0 k)"
  using assms
proof (induction xs arbitrary: m0)
  case Nil
  then show ?case by simp
next
  case (Cons x xs)
  obtain k' b' where x: "x = (k', b')" by (cases x)
  have "map_of xs k' = None" using Cons.prems x by (simp add: map_of_eq_None_iff)
  with Cons x show ?case by (auto split: option.split)
qed

lemma map_of_sort_key:
  assumes "distinct (map fst xs)"
  shows "map_of (sort_key f xs) = map_of xs" and "distinct (map fst (sort_key f xs))"
proof -
  show d: "distinct (map fst (sort_key f xs))"
    using assms by (metis mset_map mset_sort mset_eq_imp_distinct_iff)
  show "map_of (sort_key f xs) = map_of xs"
    using map_of_inject_set [OF d assms] by simp
qed

definition names_resolve :: "topology \<Rightarrow> bool" where
  "names_resolve t = (\<forall>(i, f) \<in> set t. ifindex_by_name t (if_name f) = Some i)"

definition hour_kept :: "topology \<Rightarrow> u64 \<Rightarrow> u32 \<Rightarrow> bucket \<Rightarrow> bool" where
  "hour_kept t current_start i b = (by_ifindex t i \<noteq> None \<and> start_ts_ms b = current_start)"

lemma names_resolveD: "names_resolve t \<Longrightarrow> by_ifindex t i = Some f \<Longrightarrow> ifindex_by_name t (if_name f) = Some i"
  unfolding names_resolve_def by_ifindex_def by (fast dest: map_of_SomeD)

lemma load_saved_iface:
  assumes "names_resolve t"
  shows "current_hour_iface (fold (load_current_iface cs t)
      (List.map_filter (\<lambda>(i, b). map_option
         (\<lambda>info. \<lparr>pi_logical_iface = if_name info, pi_bucket = b\<rparr>) (by_ifindex t i)) xs) h)
    = fold (\<lambda>(i, b) m. if hour_kept t cs i b then AList.update i b m else m) xs (current_hour_iface h)"
  by (induction xs arbitrary: h)
     (auto simp: List.map_filter_simps hour_kept_def load_current_iface_def names_resolveD [OF assms] split: option.split)

lemma series_key_eta: "(\<lparr>sk_ifindex = sk_ifindex k, sk_mac = sk_mac k\<rparr> :: series_key) = k"
  by (cases k) simp

lemma load_saved_device:
  assumes "names_resolve t"
  shows "current_hour_device (fold (load_current_device cs t)
      (List.map_filter (\<lambda>(k, b). map_option
         (\<lambda>info. \<lparr>pd_logical_iface = if_name info, pd_mac = sk_mac k, pd_bucket = b\<rparr>)
           (by_ifindex t (sk_ifindex k))) xs) h)
    = fold (\<lambda>(k, b) m. if hour_kept t cs (sk_ifindex k) b then AList.update k b m else m) xs (current_hour_device h)"
  by (induction xs arbitrary: h)
     (auto simp: List.map_filter_simps hour_kept_def load_current_device_def series_key_eta names_resolveD [OF assms] split: option.split)

lemma load_current_other:
  "current_hour_device (fold (load_current_iface cs t) xs h) = current_hour_device h"
  "current_hour_iface (fold (load_current_device cs t) ys h) = current_hour_iface h"
proof -
  show "current_hour_device (fold (load_current_iface cs t) xs h) = current_hour_device h"
    by (induction xs arbitrary: h) (auto simp: load_current_iface_def split: option.split)
  show "current_hour_iface (fold (load_current_device cs t) ys h) = current_hour_iface h"
    by (induction ys arbitrary: h) (auto simp: load_current_device_def split: option.split)
qed

text \<open>C37: the running hour survives a restart within that hour and is dropped after it: what is loaded
  back is, for every known interface, exactly the saved bucket if it belongs to the hour of the
  restart, and nothing otherwise.\<close>

theorem current_hour_roundtrip:
  assumes "names_resolve t" and "hist_ok h" and "with_capacity_hours n = Some h0"
  shows "let h' = load_current_hour_histogram hour now_ms (Some (save_current_hour_histogram h t)) t h0;
             current = fst (hour now_ms)
     in map_of (current_hour_iface h') i =
          (case map_of (current_hour_iface h) i of None \<Rightarrow> None
             | Some b \<Rightarrow> if hour_kept t current i b then Some b else None)
      \<and> map_of (current_hour_device h') k =
          (case map_of (current_hour_device h) k of None \<Rightarrow> None
             | Some b \<Rightarrow> if hour_kept t current (sk_ifindex k) b then Some b else None)"
proof -
  have d: "distinct (map fst (current_hour_iface h))" "distinct (map fst (current_hour_device h))"
    using assms(2) by (simp_all add: hist_ok_def)
  have e: "current_hour_iface h0 = []" "current_hour_device h0 = []"
    using assms(3) by (auto simp: with_capacity_hours_def split: if_splits)
  let ?k = "\<lambda>(k, b). (sk_ifindex k, sk_mac k)"
  show ?thesis
    using fold_guarded_update [OF map_of_sort_key(2) [OF d(1), of fst], of "hour_kept t (fst (hour now_ms))" "[]" i]
      fold_guarded_update [OF map_of_sort_key(2) [OF d(2), of ?k], of "\<lambda>k. hour_kept t (fst (hour now_ms)) (sk_ifindex k)" "[]" k]
    by (simp add: load_current_hour_histogram_def save_current_hour_histogram_def export_current_hour_state_def
        load_saved_iface [OF assms(1)] load_saved_device [OF assms(1)] load_current_other e
        map_of_sort_key(1) [OF d(1)] map_of_sort_key(1) [OF d(2)] Let_def split: option.split)
qed

lemma capacity_the: "0 < n \<Longrightarrow> with_capacity_hours n = Some (the (with_capacity_hours n))"
  by (simp add: with_capacity_hours_def)

theorem current_hour_roundtrip_witness:
  "let f = \<lparr>if_ifindex = 3, if_name = ''lan'', if_role = RoleBridge, if_zone = ''lan'', if_parent_ifindex = None,
            if_ipv4_cidrs = [], if_ipv6_cidrs = []\<rparr>;
       t = [(3, f)]; h0 = the (with_capacity_hours 2);
       h = h0\<lparr>current_hour_iface := [(3, empty_bucket 0 10)]\<rparr>;
       h' = load_current_hour_histogram (\<lambda>_. (0, 10)) 5 (Some (save_current_hour_histogram h t)) t h0
   in map_of (current_hour_iface h') 3 = Some (empty_bucket 0 10)"
proof -
  let ?f = "\<lparr>if_ifindex = 3, if_name = ''lan'', if_role = RoleBridge, if_zone = ''lan'', if_parent_ifindex = None,
            if_ipv4_cidrs = [], if_ipv6_cidrs = []\<rparr>"
  let ?start = "the (with_capacity_hours 2)"
  let ?h = "?start\<lparr>current_hour_iface := [(3, empty_bucket 0 10)]\<rparr>"
  have "trim ''lan'' = ''lan''" by (rule trim_no_ws) (simp add: no_ws_def ws_suffix_def)
  then have "names_resolve [(3, ?f)]" by (simp add: names_resolve_def ifindex_by_name_def)
  moreover have "hist_ok ?h" using hist_ok_new_the [of 2] by (simp add: hist_ok_def)
  moreover have "with_capacity_hours 2 = Some ?start" by (rule capacity_the) simp
  ultimately show ?thesis
    using current_hour_roundtrip [of "[(3, ?f)]" ?h 2 ?start "\<lambda>_. (0, 10)" 5 3]
    by (simp add: Let_def hour_kept_def by_ifindex_def)
qed

theorem iface_histories_restored_witness:
  "let f = \<lparr>if_ifindex = 3, if_name = ''lan'', if_role = RoleBridge, if_zone = ''lan'', if_parent_ifindex = None,
            if_ipv4_cidrs = [], if_ipv6_cidrs = []\<rparr>;
       m = \<lparr>pm_ring_slots = 24, pm_data_dir = ''s'', pm_devices_path = (''s'', ''d''), pm_current_hour_path = (''s'', ''c''), pm_iface_dir = ''i'', pm_device_dir = ''d''\<rparr>;
       e = \<lparr>env_pid = 1, env_now_ms = 5\<rparr>; p = iface_ring_path m ''lan'';
       ring = write_ring_header (migrated_header 24 [\<lparr>rr_bucket = empty_bucket 0 1\<rparr>]) []
                @ concat (map encode_ring_record [\<lparr>rr_bucket = empty_bucket 0 1\<rparr>])
   in \<exists>h'. load_histogram m e [(3, f)] [p] [] ([p \<mapsto> ring], the (with_capacity_hours 9)) = (([p \<mapsto> ring], h'), Ok ())
         \<and> queue_of (completed_iface h') 3 = [empty_bucket 0 1]"
proof -
  let ?f = "\<lparr>if_ifindex = 3, if_name = ''lan'', if_role = RoleBridge, if_zone = ''lan'', if_parent_ifindex = None,
            if_ipv4_cidrs = [], if_ipv6_cidrs = []\<rparr>"
  let ?m = "\<lparr>pm_ring_slots = 24, pm_data_dir = ''s'', pm_devices_path = (''s'', ''d''), pm_current_hour_path = (''s'', ''c''), pm_iface_dir = ''i'', pm_device_dir = ''d''\<rparr>"
  let ?e = "\<lparr>env_pid = 1, env_now_ms = 5\<rparr>" and ?p = "iface_ring_path ?m ''lan''"
  let ?rs = "[\<lparr>rr_bucket = empty_bucket 0 1\<rparr>]"
  let ?ring = "write_ring_header (migrated_header 24 ?rs) [] @ concat (map encode_ring_record ?rs)"
  have "trim ''lan'' = ''lan''" by (rule trim_no_ws) (simp add: no_ws_def ws_suffix_def)
  then have n: "ifindex_by_name [(3, ?f)] ''lan'' = Some 3" by (simp add: ifindex_by_name_def)
  have u: "utf8_valid (bytes_of_string ''lan'')" by (simp add: bytes_of_string_def byte_of_def utf8_valid.simps)
  have r: "ring_holds 2 24 ?ring ?rs" by (rule migrated_ring_holds) simp_all
  have "\<forall>(n, rs) \<in> set [(''lan'', ?rs)]. n \<noteq> [] \<and> utf8_valid (bytes_of_string n)
        \<and> ifindex_by_name [(3, ?f)] n = Some ((\<lambda>_. 3) n)
        \<and> (\<exists>content. [?p \<mapsto> ?ring] (iface_ring_path ?m n) = Some content \<and> ring_holds 2 (pm_ring_slots ?m) content rs)"
    using n u r by simp
  moreover have "0 < pm_ring_slots ?m" by simp
  moreover have "with_capacity_hours 9 = Some (the (with_capacity_hours 9))" by (rule capacity_the) simp
  moreover have "inj_on (\<lambda>_. 3 :: u32) (fst ` set [(''lan'', ?rs)])" by simp
  moreover have "distinct (map fst [(''lan'', ?rs)])" by simp
  ultimately have "\<exists>h'. load_histogram ?m ?e [(3, ?f)] (map (\<lambda>(n, _). iface_ring_path ?m n) [(''lan'', ?rs)]) []
        ([?p \<mapsto> ?ring], the (with_capacity_hours 9)) = (([?p \<mapsto> ?ring], h'), Ok ())
      \<and> (\<forall>(n, rs) \<in> set [(''lan'', ?rs)]. queue_of (completed_iface h') ((\<lambda>_. 3) n) = keep_last 9 (map rr_bucket rs))"
    by (rule iface_histories_restored)
  then show ?thesis unfolding Let_def by (simp del: concat.simps)
qed

text \<open>Deleting a device's ring leaves no file under its name and touches no other.\<close>

lemma delete_device_traffic_effect:
  "delete_device_traffic m iface mac fs = (fs', Ok removed) \<Longrightarrow>
    \<exists>hx. normalize_mac_hex mac = Some hx \<and> fs' = fs(device_ring_path m iface hx := None)
       \<and> removed = (fs (device_ring_path m iface hx) \<noteq> None)"
  by (auto simp: delete_device_traffic_def Let_def fun_upd_idem split: option.splits if_splits)

end
