(* ===== verification/Runtime.thy ===== *)
theory Runtime
  imports Accounting Persistence
begin

text \<open>
  The state the collector keeps between snapshots (\<open>MonitorRuntime\<close> of \<open>monitor.rs\<close>), the operations
  on it that are not the snapshot itself, the parts of the snapshot that are functions of their own
  in the code (reading the kernel's maps, activating a known device, booking the breakdowns), its
  saved form and the snapshot shown after a restart.

  The scratch buffers of the code (\<open>buf_iface_stats\<close> and its two companions) are emptied before
  every use and carry nothing from one snapshot to the next; they are not fields here.
\<close>

section \<open>State\<close>

record ipv6_neighbor_diagnostic =
  nd_state :: string
  nd_dev :: string
  nd_mac :: string

record monitor_runtime =
  rt_neighbor_ownership :: ownership_cache
  rt_prev_iface_bytes :: "iface_traffic_key \<rightharpoonup> u64"
  rt_prev_device_bytes :: "device_traffic_key \<rightharpoonup> u64"
  rt_device_last_active_ms :: "device_traffic_key \<rightharpoonup> u64"
  rt_prev_ecm_bytes :: "ecm_traffic_key \<rightharpoonup> u64"
  rt_ecm_device_grace_ticks :: "device_key \<rightharpoonup> u8"
  rt_cumulative_iface :: "(u32 \<times> quad) list"
  rt_cumulative_device :: "(device_key \<times> quad) list"
  rt_cumulative_mcast :: "(u32 \<times> quad) list"
  rt_cumulative_bcast :: "(u32 \<times> quad) list"
  rt_cumulative_unresolved :: "(u32 \<times> quad) list"
  rt_smoothed_rates :: "device_key \<rightharpoonup> quad"
  rt_smoothed_iface_rates :: "u32 \<rightharpoonup> quad"
  rt_smoothed_wan_ecm_rates :: "quad option"
  rt_smoothed_lan_ecm_rates :: "(u32 \<times> quad) list"
  rt_smoothed_unresolved_ecm_rates :: "(u32 \<times> quad) list"
  rt_last_snapshot_ms :: "u64 option"
  rt_last_ecm_snapshot_ms :: "u64 option"
  rt_last_sync_tracking_ms :: u64
  rt_registry :: registry
  rt_last_hostname_fetch_ms :: u64
  rt_cached_hostnames :: "mac \<rightharpoonup> string"
  rt_last_ipv6_neigh_fetch_ms :: u64
  rt_cached_ipv6_neighbors_raw :: string
  rt_ipv6_neighbor_diagnostics :: "u32 list \<rightharpoonup> ipv6_neighbor_diagnostic"
  rt_ipv6_neighbor_refresh_pending :: bool
  rt_last_ecm_capacity_warn_ms :: u64
  rt_last_device_capacity_warn_ms :: u64
  rt_last_device_insert_failure_warn_ms :: u64
  rt_last_device_insert_failure_count :: u64
  rt_last_device_prune_ms :: u64
  rt_ecm_last_active_ms :: "ecm_traffic_key \<rightharpoonup> u64"

definition runtime_default :: monitor_runtime where
  "runtime_default =
     \<lparr>rt_neighbor_ownership = Map.empty, rt_prev_iface_bytes = Map.empty, rt_prev_device_bytes = Map.empty,
      rt_device_last_active_ms = Map.empty, rt_prev_ecm_bytes = Map.empty, rt_ecm_device_grace_ticks = Map.empty,
      rt_cumulative_iface = [], rt_cumulative_device = [], rt_cumulative_mcast = [], rt_cumulative_bcast = [],
      rt_cumulative_unresolved = [], rt_smoothed_rates = Map.empty, rt_smoothed_iface_rates = Map.empty,
      rt_smoothed_wan_ecm_rates = None, rt_smoothed_lan_ecm_rates = [], rt_smoothed_unresolved_ecm_rates = [],
      rt_last_snapshot_ms = None, rt_last_ecm_snapshot_ms = None, rt_last_sync_tracking_ms = 0, rt_registry = [],
      rt_last_hostname_fetch_ms = 0, rt_cached_hostnames = Map.empty, rt_last_ipv6_neigh_fetch_ms = 0,
      rt_cached_ipv6_neighbors_raw = [], rt_ipv6_neighbor_diagnostics = Map.empty,
      rt_ipv6_neighbor_refresh_pending = False, rt_last_ecm_capacity_warn_ms = 0,
      rt_last_device_capacity_warn_ms = 0, rt_last_device_insert_failure_warn_ms = 0,
      rt_last_device_insert_failure_count = 0, rt_last_device_prune_ms = 0, rt_ecm_last_active_ms = Map.empty\<rparr>"

section \<open>Operations\<close>

text \<open>The seconds since the last complete reading of the ECM map.\<close>

definition ecm_interval_seconds :: "u64 \<Rightarrow> rat \<Rightarrow> bool \<Rightarrow> monitor_runtime \<Rightarrow> rat \<times> monitor_runtime" where
  "ecm_interval_seconds now fallback read_ok rt =
     (let previous = (case rt_last_ecm_snapshot_ms rt of Some p \<Rightarrow> p
                      | None \<Rightarrow> sat_sub now (f64_to_u64 (f64 (fallback * 1000))));
          seconds = max (f64 (f64_of_u64 (sat_sub now previous) / 1000)) (f64 (1 / 1000))
      in (seconds, rt\<lparr>rt_last_ecm_snapshot_ms := Some (if read_ok then now else previous)\<rparr>))"

definition ecm_delta :: "ecm_traffic_key \<Rightarrow> u64 \<Rightarrow> u64 \<Rightarrow> monitor_runtime \<Rightarrow> u64 \<times> monitor_runtime" where
  "ecm_delta key n now rt =
     (let prev = (case rt_prev_ecm_bytes rt key of None \<Rightarrow> 0 | Some p \<Rightarrow> p);
          delta = delta_bytes n prev;
          last_active = (case rt_ecm_last_active_ms rt key of None \<Rightarrow> now | Some t \<Rightarrow> t)
      in (delta, rt\<lparr>rt_prev_ecm_bytes := (rt_prev_ecm_bytes rt)(key \<mapsto> n),
                    rt_ecm_last_active_ms := (rt_ecm_last_active_ms rt)(key \<mapsto> (if delta > 0 then now else last_active))\<rparr>))"

definition retain :: "('k \<Rightarrow> 'v \<Rightarrow> bool) \<Rightarrow> ('k \<rightharpoonup> 'v) \<Rightarrow> ('k \<rightharpoonup> 'v)" where
  "retain P m = (\<lambda>k. case m k of None \<Rightarrow> None | Some v \<Rightarrow> if P k v then Some v else None)"

definition remove_device :: "u32 \<Rightarrow> mac \<Rightarrow> monitor_runtime \<Rightarrow> bool \<times> monitor_runtime" where
  "remove_device i m rt =
     (map_of (rt_registry rt) (i, m) \<noteq> None \<or> map_of (rt_cumulative_device rt) (i, m) \<noteq> None
        \<or> rt_smoothed_rates rt (i, m) \<noteq> None,
      rt\<lparr>rt_registry := AList.delete (i, m) (rt_registry rt),
         rt_cumulative_device := AList.delete (i, m) (rt_cumulative_device rt),
         rt_smoothed_rates := (rt_smoothed_rates rt)((i, m) := None),
         rt_ecm_device_grace_ticks := (rt_ecm_device_grace_ticks rt)((i, m) := None),
         rt_neighbor_ownership := retain (\<lambda>_ ow. ow_device ow \<noteq> Some (i, m)) (rt_neighbor_ownership rt)\<rparr>)"

section \<open>Reading the kernel's maps\<close>

text \<open>
  A reading of a map is \<open>None\<close> when the map is missing, and otherwise its entries in iteration
  order, \<open>None\<close> for an entry that could not be read. A missing map or a failed entry is an error of
  the whole reading (\<open>None\<close>); for the ECM map the entries already read are kept in the buffer.
\<close>

fun collect_entries :: "('k \<times> 'v) option list \<Rightarrow> ('k \<times> 'v) list \<Rightarrow> ('k \<times> 'v) list option" where
  "collect_entries [] acc = Some acc"
| "collect_entries (None # es) acc = None"
| "collect_entries (Some (k, v) # es) acc = collect_entries es (AList.update k v acc)"

definition read_iface_stats ::
  "(iface_traffic_key \<times> traffic_value) option list option \<Rightarrow> (iface_traffic_key \<times> traffic_value) list option" where
  "read_iface_stats m = (case m of None \<Rightarrow> None | Some es \<Rightarrow> collect_entries es [])"

definition read_device_stats ::
  "(device_traffic_key \<times> traffic_value) option list option \<Rightarrow> (device_traffic_key \<times> traffic_value) list option" where
  "read_device_stats m = (case m of None \<Rightarrow> None | Some es \<Rightarrow> collect_entries es [])"

text \<open>The failure counters are per CPU; only key 0 exists.\<close>

fun sum_failures :: "(u32 \<times> u64 list) option list \<Rightarrow> u64 \<Rightarrow> u64 option" where
  "sum_failures [] acc = Some acc"
| "sum_failures (None # es) acc = None"
| "sum_failures (Some (k, vs) # es) acc = sum_failures es (if k = 0 then foldl sat_add acc vs else acc)"

definition read_device_insert_failures :: "(u32 \<times> u64 list) option list option \<Rightarrow> u64 option" where
  "read_device_insert_failures m = (case m of None \<Rightarrow> None | Some es \<Rightarrow> sum_failures es 0)"

definition sum_percpu :: "traffic_value list \<Rightarrow> traffic_value" where
  "sum_percpu vs =
     \<lparr>tv_packets = foldl (\<lambda>s v. sat_add s (tv_packets v)) 0 vs, tv_bytes = foldl (\<lambda>s v. sat_add s (tv_bytes v)) 0 vs\<rparr>"

text \<open>The entries read, the number of read errors, and whether a new unmapped key asks for a neighbour poll.\<close>

fun collect_ecm ::
  "(ecm_traffic_key \<Rightarrow> bool) \<Rightarrow> (ecm_traffic_key \<times> traffic_value list) option list
   \<Rightarrow> (ecm_traffic_key \<times> traffic_value) list \<times> nat \<times> bool \<Rightarrow> (ecm_traffic_key \<times> traffic_value) list \<times> nat \<times> bool" where
  "collect_ecm is_new [] acc = acc"
| "collect_ecm is_new (None # es) (m, errs, refresh) = collect_ecm is_new es (m, errs + 1, refresh)"
| "collect_ecm is_new (Some (k, vs) # es) (m, errs, refresh) =
     collect_ecm is_new es (AList.update k (sum_percpu vs) m, errs, refresh \<or> is_new k)"

definition read_ecm_stats ::
  "(ecm_traffic_key \<times> traffic_value list) option list option \<Rightarrow> (ecm_traffic_key \<rightharpoonup> u64) \<Rightarrow> ownership_cache
   \<Rightarrow> (u32 \<times> 128 word \<times> 128 word) list \<Rightarrow> u64 \<Rightarrow> ((ecm_traffic_key \<times> traffic_value) list \<times> bool) option" where
  "read_ecm_stats m previous owners lan_subnets now =
     (case m of None \<Rightarrow> None
      | Some es \<Rightarrow>
         (let (stats, errs, refresh) =
                collect_ecm (\<lambda>k. is_new_unmapped_lan_ipv6_ecm k previous owners lan_subnets now) es ([], 0, False)
          in if errs > 0 then None else Some (stats, refresh)))"

text \<open>The interfaces whose devices the packet program counts; a failed insertion is ignored.\<close>

definition sync_device_tracking ::
  "(u32 \<Rightarrow> bool) \<Rightarrow> topology \<Rightarrow> string list \<Rightarrow> (u32 \<rightharpoonup> u8) \<Rightarrow> (u32 \<rightharpoonup> u8)" where
  "sync_device_tracking insert_ok t monitor_ifaces m =
     fold (\<lambda>i m. if monitor_ifaces = [] \<or> if_name i \<in> set monitor_ifaces
                 then (if insert_ok (if_ifindex i)
                       then m(if_ifindex i \<mapsto> (if starts_with ''wan'' (if_zone i) then 0 else 1)) else m)
                 else m) (topology_interfaces t) m"


section \<open>Devices and breakdowns of a snapshot\<close>

type_synonym device_group = "(device_key \<times> device_item) list"

text \<open>A device seen in the traffic but not among the neighbours is taken from the registry.\<close>

definition activate_known_device :: "registry \<Rightarrow> device_key \<Rightarrow> u64 \<Rightarrow> device_group \<Rightarrow> device_group" where
  "activate_known_device reg key now devices =
     (case map_of devices key of
        Some _ \<Rightarrow> devices
      | None \<Rightarrow> (case map_of reg key of
          None \<Rightarrow> devices
        | Some kd \<Rightarrow> AList.update key
            \<lparr>di_ifindex = kd_ifindex kd, di_logical_iface = kd_logical_iface kd, di_subnet = kd_subnet kd,
             di_ipv4 = kd_ipv4 kd, di_ipv6 = kd_ipv6 kd, di_mac = mac_to_string (kd_mac kd),
             di_hostname = (if trim (kd_hostname kd) = [] then ''-'' else kd_hostname kd),
             di_metrics = quad_default, di_cumulative = quad_default, di_online = True,
             di_last_seen_ms = now, di_neighbor_state = None\<rparr> devices))"

text \<open>One breakdown of one interface: its running total, and the metrics shown with the total's bytes.\<close>

definition breakdown_total :: "(u32 \<times> quad) list \<Rightarrow> u32 \<Rightarrow> (u32 \<times> quad) list \<Rightarrow> quad" where
  "breakdown_total totals i ms =
     (let cum = (case map_of totals i of None \<Rightarrow> quad_default | Some q \<Rightarrow> q)
      in (case map_of ms i of None \<Rightarrow> cum | Some m \<Rightarrow> add_bytes_quad cum m))"

definition breakdown_shown :: "quad \<Rightarrow> u32 \<Rightarrow> (u32 \<times> quad) list \<Rightarrow> quad \<Rightarrow> quad" where
  "breakdown_shown tot i ms q = take_bytes tot (case map_of ms i of None \<Rightarrow> q | Some m \<Rightarrow> m)"

definition tc_breakdown_step ::
  "(u32 \<times> quad) list \<Rightarrow> (u32 \<times> quad) list \<Rightarrow> (u32 \<times> quad) list \<Rightarrow> iface_item \<Rightarrow> monitor_runtime
   \<Rightarrow> iface_item \<times> monitor_runtime" where
  "tc_breakdown_step mcast bcast unresolved it rt =
     (let i = ii_ifindex it;
          cm = breakdown_total (rt_cumulative_mcast rt) i mcast;
          cb = breakdown_total (rt_cumulative_bcast rt) i bcast;
          cu = breakdown_total (rt_cumulative_unresolved rt) i unresolved
      in (it\<lparr>ii_mcast_metrics := breakdown_shown cm i mcast (ii_mcast_metrics it),
             ii_bcast_metrics := breakdown_shown cb i bcast (ii_bcast_metrics it),
             ii_unresolved_metrics := breakdown_shown cu i unresolved (ii_unresolved_metrics it)\<rparr>,
          rt\<lparr>rt_cumulative_mcast := AList.update i cm (rt_cumulative_mcast rt),
             rt_cumulative_bcast := AList.update i cb (rt_cumulative_bcast rt),
             rt_cumulative_unresolved := AList.update i cu (rt_cumulative_unresolved rt)\<rparr>))"

fun apply_tc_breakdowns ::
  "(u32 \<times> quad) list \<Rightarrow> (u32 \<times> quad) list \<Rightarrow> (u32 \<times> quad) list \<Rightarrow> iface_item list \<Rightarrow> monitor_runtime
   \<Rightarrow> iface_item list \<times> monitor_runtime" where
  "apply_tc_breakdowns mcast bcast unresolved [] rt = ([], rt)"
| "apply_tc_breakdowns mcast bcast unresolved (it # its) rt =
     (let (it', rt1) = tc_breakdown_step mcast bcast unresolved it rt;
          (its', rt2) = apply_tc_breakdowns mcast bcast unresolved its rt1
      in (it' # its', rt2))"

section \<open>The snapshot after a restart\<close>

definition quad_of :: "(u32 \<times> quad) list \<Rightarrow> u32 \<Rightarrow> quad" where
  "quad_of m i = (case map_of m i of None \<Rightarrow> quad_default | Some q \<Rightarrow> bytes_only q)"

definition recovered_iface :: "monitor_runtime \<Rightarrow> topology \<Rightarrow> u32 \<times> quad \<Rightarrow> iface_item option" where
  "recovered_iface rt t e =
     (case by_ifindex t (fst e) of
        None \<Rightarrow> None
      | Some f \<Rightarrow> Some \<lparr>ii_ifindex = fst e, ii_ifname = if_name f, ii_zone = if_zone f, ii_metrics = quad_default,
          ii_cumulative = snd e, ii_mcast_metrics = quad_of (rt_cumulative_mcast rt) (fst e),
          ii_bcast_metrics = quad_of (rt_cumulative_bcast rt) (fst e),
          ii_unresolved_metrics = quad_of (rt_cumulative_unresolved rt) (fst e)\<rparr>)"

text \<open>A device that is not in the traffic: offline, without rates, with its total so far.\<close>

definition offline_device :: "(device_key \<times> quad) list \<Rightarrow> string \<Rightarrow> u32 \<Rightarrow> device_key \<Rightarrow> known_device \<Rightarrow> device_item" where
  "offline_device totals mac_text i key kd =
     \<lparr>di_ifindex = i, di_logical_iface = kd_logical_iface kd, di_subnet = kd_subnet kd,
      di_ipv4 = kd_ipv4 kd, di_ipv6 = kd_ipv6 kd, di_mac = mac_text, di_hostname = kd_hostname kd,
      di_metrics = quad_default,
      di_cumulative = (case map_of totals key of None \<Rightarrow> quad_default | Some q \<Rightarrow> q),
      di_online = False, di_last_seen_ms = kd_last_seen_ms kd, di_neighbor_state = None\<rparr>"

definition device_order :: "device_item \<Rightarrow> string \<times> string list \<times> string list" where
  "device_order d = (di_logical_iface d, di_ipv4 d, di_ipv6 d)"

definition build_recovered_snapshot :: "monitor_runtime \<Rightarrow> topology \<Rightarrow> u64 \<Rightarrow> snapshot_data" where
  "build_recovered_snapshot rt t now =
     \<lparr>sd_timestamp_ms = now,
      sd_interfaces = sort_key ii_ifindex (List.map_filter (recovered_iface rt t) (rt_cumulative_iface rt)),
      sd_devices = sort_key (\<lambda>d. (device_order d, di_mac d))
        (map (\<lambda>(key, kd). offline_device (rt_cumulative_device rt) (mac_to_string (snd key)) (fst key) key kd)
          (rt_registry rt))\<rparr>"

section \<open>The saved state\<close>

record persisted_breakdown =
  pb_logical_iface :: string
  pb_cumulative :: quad

record persisted_known_device =
  pk_logical_iface :: string
  pk_mac :: string
  pk_ipv4 :: "string list"
  pk_ipv6 :: "string list"
  pk_hostname :: string
  pk_subnet :: string
  pk_last_seen_ms :: u64

record monitor_runtime_state =
  ms_known_devices :: "persisted_known_device list"
  ms_iface_mcast :: "persisted_breakdown list"
  ms_iface_bcast :: "persisted_breakdown list"
  ms_iface_unresolved :: "persisted_breakdown list"

definition export_device :: "topology \<Rightarrow> device_key \<times> known_device \<Rightarrow> persisted_known_device" where
  "export_device t e =
     (let (key, kd) = e in
      \<lparr>pk_logical_iface = (case by_ifindex t (fst key) of None \<Rightarrow> kd_logical_iface kd | Some f \<Rightarrow> if_name f),
       pk_mac = mac_to_string (snd key), pk_ipv4 = kd_ipv4 kd, pk_ipv6 = kd_ipv6 kd, pk_hostname = kd_hostname kd,
       pk_subnet = kd_subnet kd, pk_last_seen_ms = kd_last_seen_ms kd\<rparr>)"

definition export_breakdown :: "topology \<Rightarrow> (u32 \<times> quad) list \<Rightarrow> persisted_breakdown list" where
  "export_breakdown t m =
     sort_key pb_logical_iface
       (List.map_filter (\<lambda>(i, q). case by_ifindex t i of
            None \<Rightarrow> None
          | Some f \<Rightarrow> if quad_is_empty q then None
                      else Some \<lparr>pb_logical_iface = if_name f, pb_cumulative = bytes_only q\<rparr>) m)"

definition export_runtime_state :: "monitor_runtime \<Rightarrow> topology \<Rightarrow> monitor_runtime_state" where
  "export_runtime_state rt t =
     \<lparr>ms_known_devices = sort_key (\<lambda>p. (pk_logical_iface p, pk_mac p)) (map (export_device t) (rt_registry rt)),
      ms_iface_mcast = export_breakdown t (rt_cumulative_mcast rt),
      ms_iface_bcast = export_breakdown t (rt_cumulative_bcast rt),
      ms_iface_unresolved = export_breakdown t (rt_cumulative_unresolved rt)\<rparr>"

definition import_device :: "topology \<Rightarrow> persisted_known_device \<Rightarrow> registry \<Rightarrow> registry" where
  "import_device t p reg =
     (case ifindex_by_name t (pk_logical_iface p) of
        None \<Rightarrow> reg
      | Some i \<Rightarrow> (case mac_from_str (pk_mac p) of
          Inl _ \<Rightarrow> reg
        | Inr m \<Rightarrow> AList.update (i, m)
            \<lparr>kd_ifindex = i, kd_mac = m, kd_ipv4 = pk_ipv4 p, kd_ipv6 = pk_ipv6 p, kd_hostname = pk_hostname p,
             kd_logical_iface = pk_logical_iface p, kd_subnet = pk_subnet p, kd_last_seen_ms = pk_last_seen_ms p\<rparr> reg))"

definition import_breakdown :: "topology \<Rightarrow> persisted_breakdown list \<Rightarrow> (u32 \<times> quad) list" where
  "import_breakdown t ps =
     fold (\<lambda>p m. case ifindex_by_name t (pb_logical_iface p) of
                   None \<Rightarrow> m | Some i \<Rightarrow> AList.update i (bytes_only (pb_cumulative p)) m) ps []"

definition import_runtime_state :: "monitor_runtime_state \<Rightarrow> topology \<Rightarrow> monitor_runtime \<Rightarrow> monitor_runtime" where
  "import_runtime_state st t rt =
     rt\<lparr>rt_registry := fold (import_device t) (ms_known_devices st) [],
        rt_cumulative_mcast := import_breakdown t (ms_iface_mcast st),
        rt_cumulative_bcast := import_breakdown t (ms_iface_bcast st),
        rt_cumulative_unresolved := import_breakdown t (ms_iface_unresolved st)\<rparr>"


section \<open>The state survives a restart\<close>

text \<open>Importing is a fold of insertions; when the inserted keys are distinct, the order does not matter.\<close>

lemma fold_insertions:
  assumes "distinct (map fst (List.map_filter g xs))"
  shows "map_of (fold (\<lambda>x m. case g x of None \<Rightarrow> m | Some (k, v) \<Rightarrow> AList.update k v m) xs m0) k =
    (case map_of (List.map_filter g xs) k of None \<Rightarrow> map_of m0 k | Some v \<Rightarrow> Some v)"
  using assms
proof (induction xs arbitrary: m0)
  case Nil
  then show ?case by (simp add: List.map_filter_simps)
next
  case (Cons x xs)
  show ?case
  proof (cases "g x")
    case None
    then show ?thesis using Cons by (simp add: List.map_filter_simps)
  next
    case (Some e)
    obtain a b where e: "e = (a, b)" by (cases e)
    have "map_of (List.map_filter g xs) a = None"
      using Cons.prems Some e by (simp add: List.map_filter_simps map_of_eq_None_iff)
    then show ?thesis using Cons Some e by (auto simp: List.map_filter_simps split: option.split)
  qed
qed

lemma mset_map_filter: "mset xs = mset ys \<Longrightarrow> mset (List.map_filter g xs) = mset (List.map_filter g ys)"
  by (simp add: List.map_filter_def)

lemma distinct_keys_perm: "mset xs = mset ys \<Longrightarrow> distinct (map fst xs) \<longleftrightarrow> distinct (map fst ys)"
  by (rule mset_eq_imp_distinct_iff) (simp only: mset_map)

lemma map_of_perm:
  assumes "mset xs = mset ys" and "distinct (map fst xs)"
  shows "map_of xs = map_of ys"
proof -
  have "mset (map fst xs) = mset (map fst ys)" using assms(1) by simp
  then have "distinct (map fst ys)" using assms(2) by (metis mset_eq_imp_distinct_iff)
  then show ?thesis using map_of_inject_set [of xs ys] assms mset_eq_setD [OF assms(1)] by blast
qed

definition device_insertion :: "topology \<Rightarrow> persisted_known_device \<Rightarrow> (device_key \<times> known_device) option" where
  "device_insertion t p =
     (case (ifindex_by_name t (pk_logical_iface p), mac_from_str (pk_mac p)) of
        (Some i, Inr m) \<Rightarrow> Some ((i, m),
            \<lparr>kd_ifindex = i, kd_mac = m, kd_ipv4 = pk_ipv4 p, kd_ipv6 = pk_ipv6 p, kd_hostname = pk_hostname p,
             kd_logical_iface = pk_logical_iface p, kd_subnet = pk_subnet p, kd_last_seen_ms = pk_last_seen_ms p\<rparr>)
      | _ \<Rightarrow> None)"

lemma import_device_insertion:
  "import_device t = (\<lambda>p reg. case device_insertion t p of None \<Rightarrow> reg | Some (k, v) \<Rightarrow> AList.update k v reg)"
  by (intro ext) (simp add: import_device_def device_insertion_def split: option.split sum.split)

definition breakdown_insertion :: "topology \<Rightarrow> persisted_breakdown \<Rightarrow> (u32 \<times> quad) option" where
  "breakdown_insertion t p = map_option (\<lambda>i. (i, bytes_only (pb_cumulative p))) (ifindex_by_name t (pb_logical_iface p))"

lemma import_breakdown_insertion:
  "import_breakdown t ps = fold (\<lambda>p m. case breakdown_insertion t p of None \<Rightarrow> m | Some (k, v) \<Rightarrow> AList.update k v m) ps []"
proof -
  have "(\<lambda>p m. case ifindex_by_name t (pb_logical_iface p) of None \<Rightarrow> m | Some i \<Rightarrow> AList.update i (bytes_only (pb_cumulative p)) m)
      = (\<lambda>p m. case breakdown_insertion t p of None \<Rightarrow> m | Some (k, v) \<Rightarrow> AList.update k v m)"
    by (intro ext) (simp add: breakdown_insertion_def split: option.split)
  then show ?thesis by (simp only: import_breakdown_def)
qed

text \<open>Where the interface of an index of the old topology is in the new one.\<close>

definition moved :: "topology \<Rightarrow> topology \<Rightarrow> u32 \<Rightarrow> u32 option" where
  "moved t t' i = (case by_ifindex t i of None \<Rightarrow> None | Some f \<Rightarrow> ifindex_by_name t' (if_name f))"

lemma names_trimmed:
  assumes "topology_ok t" and "names_resolve t" and "by_ifindex t i = Some f"
  shows "trim (if_name f) = if_name f"
  using ifindex_by_name_sound [OF assms(1) names_resolveD [OF assms(2,3)]] assms(3) by auto

lemma moved_inj:
  assumes "topology_ok t" and "names_resolve t" and "topology_ok t'"
    and "moved t t' i = Some k" and "moved t t' j = Some k"
  shows "i = j"
proof -
  obtain f g where f: "by_ifindex t i = Some f" "ifindex_by_name t' (if_name f) = Some k"
    and g: "by_ifindex t j = Some g" "ifindex_by_name t' (if_name g) = Some k"
    using assms(4,5) by (auto simp: moved_def split: option.splits)
  have "trim (if_name f) = trim (if_name g)"
    using ifindex_by_name_sound [OF assms(3) f(2)] ifindex_by_name_sound [OF assms(3) g(2)] by auto
  then have "if_name f = if_name g"
    using names_trimmed [OF assms(1,2) f(1)] names_trimmed [OF assms(1,2) g(1)] by simp
  then show ?thesis using names_resolveD [OF assms(2) f(1)] names_resolveD [OF assms(2) g(1)] by simp
qed


lemma distinct_map_filter_keys:
  assumes "distinct (map fst xs)"
    and "\<And>x y k v w. x \<in> set xs \<Longrightarrow> y \<in> set xs \<Longrightarrow> g x = Some (k, v) \<Longrightarrow> g y = Some (k, w) \<Longrightarrow> fst x = fst y"
  shows "distinct (map fst (List.map_filter g xs))"
  using assms
proof (induction xs)
  case (Cons x xs)
  have IH: "distinct (map fst (List.map_filter g xs))"
  proof (rule Cons.IH)
    show "distinct (map fst xs)" using Cons.prems(1) by simp
    show "fst x' = fst y" if "x' \<in> set xs" "y \<in> set xs" "g x' = Some (k, v)" "g y = Some (k, w)" for x' y k v w
      using Cons.prems(2) [of x' y k v w] that by simp
  qed
  show ?case
  proof (cases "g x")
    case None
    then show ?thesis using IH by (simp add: List.map_filter_simps)
  next
    case (Some e)
    have "fst e \<notin> fst ` set (List.map_filter g xs)"
    proof
      assume "fst e \<in> fst ` set (List.map_filter g xs)"
      then obtain y where y: "y \<in> set xs" "g y \<noteq> None" "fst (the (g y)) = fst e"
        by (auto simp: List.map_filter_def)
      then have "fst x = fst y"
        using Cons.prems(2) [of x y "fst e" "snd e" "snd (the (g y))"] Some by auto
      then show False using Cons.prems(1) y(1) by (auto simp: image_iff)
    qed
    then show ?thesis using IH Some by (simp add: List.map_filter_simps)
  qed
qed (simp add: List.map_filter_simps)

lemma mem_map_filter_iff: "y \<in> set (List.map_filter g xs) \<longleftrightarrow> (\<exists>x \<in> set xs. g x = Some y)"
  by (auto simp: List.map_filter_def image_iff)

lemma map_filter_map_filter:
  "List.map_filter g (List.map_filter h xs) = List.map_filter (\<lambda>x. case h x of None \<Rightarrow> None | Some y \<Rightarrow> g y) xs"
  by (induction xs) (auto simp: List.map_filter_simps split: option.split)

lemma export_device_insertion:
  assumes "by_ifindex t (fst key) = Some f" and "length (snd key) = 6"
  shows "device_insertion t' (export_device t (key, kd)) =
    map_option (\<lambda>i'. ((i', snd key), kd\<lparr>kd_ifindex := i', kd_mac := snd key, kd_logical_iface := if_name f\<rparr>))
      (moved t t' (fst key))"
  using assms by (cases kd) (simp add: device_insertion_def export_device_def moved_def mac_from_to_string split: option.split)

definition carried :: "topology \<Rightarrow> topology \<Rightarrow> u32 \<times> quad \<Rightarrow> (u32 \<times> quad) option" where
  "carried t t' e =
     (if quad_is_empty (snd e) then None else map_option (\<lambda>i'. (i', bytes_only (snd e))) (moved t t' (fst e)))"

lemma carried_iff:
  "carried t t' e = Some (k, v) \<longleftrightarrow> \<not> quad_is_empty (snd e) \<and> moved t t' (fst e) = Some k \<and> v = bytes_only (snd e)"
  by (cases "moved t t' (fst e)") (auto simp: carried_def)

lemma distinct_carried:
  assumes "topology_ok t" and "names_resolve t" and "topology_ok t'" and "distinct (map fst m)"
  shows "distinct (map fst (List.map_filter (carried t t') m))"
proof (rule distinct_map_filter_keys [OF assms(4)])
  fix x y k v w assume "carried t t' x = Some (k, v)" and "carried t t' y = Some (k, w)"
  then show "fst x = fst y" unfolding carried_iff using moved_inj [OF assms(1,2,3)] by blast
qed

lemma export_breakdown_insertion:
  assumes "topology_ok t" and "names_resolve t" and "topology_ok t'" and "distinct (map fst m)"
  shows "map_of (import_breakdown t' (export_breakdown t m)) = map_of (List.map_filter (carried t t') m)"
proof -
  let ?h = "\<lambda>(i, q). case by_ifindex t i of None \<Rightarrow> None
      | Some f \<Rightarrow> if quad_is_empty q then None else Some \<lparr>pb_logical_iface = if_name f, pb_cumulative = bytes_only q\<rparr>"
  have idem: "bytes_only (bytes_only q) = bytes_only q" for q by (simp add: quad_eq_iff)
  have comp: "List.map_filter (breakdown_insertion t') (List.map_filter ?h xs) = List.map_filter (carried t t') xs" for xs
  proof -
    have "(case ?h e of None \<Rightarrow> None | Some p \<Rightarrow> breakdown_insertion t' p) = carried t t' e" for e
      by (cases e) (simp add: breakdown_insertion_def carried_def moved_def idem split: option.split)
    then show ?thesis by (simp only: map_filter_map_filter)
  qed
  note dist = distinct_carried [OF assms]
  have eq: "mset (List.map_filter (breakdown_insertion t') (export_breakdown t m)) = mset (List.map_filter (carried t t') m)"
    unfolding export_breakdown_def comp [symmetric] by (rule mset_map_filter) simp
  have d2: "distinct (map fst (List.map_filter (breakdown_insertion t') (export_breakdown t m)))"
    using dist distinct_keys_perm [OF eq] by blast
  show ?thesis unfolding import_breakdown_insertion
    by (intro ext) (simp add: fold_insertions [OF d2] map_of_perm [OF eq d2] split: option.split)
qed

lemma registry_restored:
  assumes "topology_ok t" and "names_resolve t" and "topology_ok t'"
    and "distinct (map fst (rt_registry rt))" and "\<forall>(i, m) \<in> fst ` set (rt_registry rt). by_ifindex t i \<noteq> None \<and> length m = 6"
    and "rt' = import_runtime_state (export_runtime_state rt t) t' rt0"
  shows "map_of (rt_registry rt') (i', m) = Some kd' \<longleftrightarrow>
            (\<exists>i kd f. map_of (rt_registry rt) (i, m) = Some kd \<and> by_ifindex t i = Some f \<and> moved t t' i = Some i'
               \<and> kd' = kd\<lparr>kd_ifindex := i', kd_mac := m, kd_logical_iface := if_name f\<rparr>)"
proof -
  let ?reg = "rt_registry rt" and ?ins = "device_insertion t'"
  let ?g = "\<lambda>e. ?ins (export_device t e)"
  have g: "?g ((i, m), kd) = Some (k, v) \<longleftrightarrow>
      (\<exists>f i'. by_ifindex t i = Some f \<and> moved t t' i = Some i' \<and> k = (i', m)
         \<and> v = kd\<lparr>kd_ifindex := i', kd_mac := m, kd_logical_iface := if_name f\<rparr>)"
    if "((i, m), kd) \<in> set ?reg" for i m kd k v
  proof -
    have "(i, m) \<in> fst ` set ?reg" using that by force
    then obtain f where f: "by_ifindex t i = Some f" "length m = 6" using assms(5) by fastforce
    then show ?thesis using export_device_insertion [of t "(i, m)" f t' kd] by (cases "moved t t' i") auto
  qed
  have dist: "distinct (map fst (List.map_filter ?g ?reg))"
  proof (rule distinct_map_filter_keys [OF assms(4)])
    fix x y k v w assume x: "x \<in> set ?reg" and y: "y \<in> set ?reg" and gx: "?g x = Some (k, v)" and gy: "?g y = Some (k, w)"
    obtain i m kd where xe: "x = ((i, m), kd)" by (metis prod.collapse)
    obtain j n kd2 where ye: "y = ((j, n), kd2)" by (metis prod.collapse)
    show "fst x = fst y" using g [OF x [unfolded xe]] g [OF y [unfolded ye]] gx gy moved_inj [OF assms(1,2,3)]
      by (auto simp: xe ye)
  qed
  have eq: "mset (List.map_filter ?ins (ms_known_devices (export_runtime_state rt t))) = mset (List.map_filter ?g ?reg)"
  proof -
    have "mset (List.map_filter ?ins (sort_key h (map (export_device t) ?reg))) = mset (List.map_filter ?ins (map (export_device t) ?reg))"
      for h :: "persisted_known_device \<Rightarrow> string \<times> string" by (rule mset_map_filter) simp
    moreover have "List.map_filter ?ins (map (export_device t) xs) = List.map_filter ?g xs" for xs
      by (simp add: List.map_filter_def comp_def filter_map)
    ultimately show ?thesis by (simp add: export_runtime_state_def)
  qed
  have d2: "distinct (map fst (List.map_filter ?ins (ms_known_devices (export_runtime_state rt t))))"
    using dist distinct_keys_perm [OF eq] by blast
  have reg: "map_of (rt_registry rt') = map_of (List.map_filter ?g ?reg)"
    unfolding assms(6) import_runtime_state_def
    by (intro ext) (simp add: import_device_insertion fold_insertions [OF d2] map_of_perm [OF eq d2] split: option.split)
  show "map_of (rt_registry rt') (i', m) = Some kd' \<longleftrightarrow>
      (\<exists>i kd f. map_of ?reg (i, m) = Some kd \<and> by_ifindex t i = Some f \<and> moved t t' i = Some i'
         \<and> kd' = kd\<lparr>kd_ifindex := i', kd_mac := m, kd_logical_iface := if_name f\<rparr>)"
    unfolding reg map_of_eq_Some_iff [OF dist] mem_map_filter_iff map_of_eq_Some_iff [OF assms(4)]
  proof
    assume "\<exists>x \<in> set ?reg. ?g x = Some ((i', m), kd')"
    then obtain j n kd where x: "((j, n), kd) \<in> set ?reg" "?g ((j, n), kd) = Some ((i', m), kd')" by (metis prod.collapse)
    then show "\<exists>i kd f. ((i, m), kd) \<in> set ?reg \<and> by_ifindex t i = Some f \<and> moved t t' i = Some i'
         \<and> kd' = kd\<lparr>kd_ifindex := i', kd_mac := m, kd_logical_iface := if_name f\<rparr>"
      using g [OF x(1), of "(i', m)" kd'] by auto
  next
    assume "\<exists>i kd f. ((i, m), kd) \<in> set ?reg \<and> by_ifindex t i = Some f \<and> moved t t' i = Some i'
         \<and> kd' = kd\<lparr>kd_ifindex := i', kd_mac := m, kd_logical_iface := if_name f\<rparr>"
    then obtain i kd f where x: "((i, m), kd) \<in> set ?reg" "by_ifindex t i = Some f" "moved t t' i = Some i'"
        "kd' = kd\<lparr>kd_ifindex := i', kd_mac := m, kd_logical_iface := if_name f\<rparr>" by blast
    then have "?g ((i, m), kd) = Some ((i', m), kd')" using g [OF x(1), of "(i', m)" kd'] by blast
    then show "\<exists>x \<in> set ?reg. ?g x = Some ((i', m), kd')" using x(1) by blast
  qed
qed

lemma breakdowns_restored:
  assumes "topology_ok t" and "names_resolve t" and "topology_ok t'"
    and "rt' = import_runtime_state (export_runtime_state rt t) t' rt0"
    and "(get, src) \<in> {(rt_cumulative_mcast rt', rt_cumulative_mcast rt), (rt_cumulative_bcast rt', rt_cumulative_bcast rt),
      (rt_cumulative_unresolved rt', rt_cumulative_unresolved rt)}" and "distinct (map fst src)"
  shows "map_of get i' = Some q' \<longleftrightarrow>
      (\<exists>i q. map_of src i = Some q \<and> moved t t' i = Some i' \<and> \<not> quad_is_empty q \<and> q' = bytes_only q)"
proof -
  have "map_of get = map_of (List.map_filter (carried t t') src)"
    using assms(4,5) export_breakdown_insertion [OF assms(1,2,3,6)]
    by (auto simp: import_runtime_state_def export_runtime_state_def)
  then show ?thesis
    unfolding map_of_eq_Some_iff [OF assms(6)]
    by (simp add: map_of_eq_Some_iff [OF distinct_carried [OF assms(1,2,3,6)]] mem_map_filter_iff carried_iff Bex_def) blast
qed

text \<open>The known devices and the breakdown totals survive a restart: whatever was saved for an
  interface is restored for the interface of that name, even when it has a new index, with the
  same addresses, host name, subnet, time and bytes; and nothing else is in the restored maps.\<close>

theorem runtime_state_roundtrip:
  assumes "topology_ok t" and "names_resolve t" and "topology_ok t'"
    and "distinct (map fst (rt_registry rt))" and "\<forall>(i, m) \<in> fst ` set (rt_registry rt). by_ifindex t i \<noteq> None \<and> length m = 6"
    and "distinct (map fst (rt_cumulative_mcast rt))"
    and "rt' = import_runtime_state (export_runtime_state rt t) t' rt0"
  shows "(map_of (rt_registry rt') (i', m) = Some kd' \<longleftrightarrow>
            (\<exists>i kd f. map_of (rt_registry rt) (i, m) = Some kd \<and> by_ifindex t i = Some f \<and> moved t t' i = Some i'
               \<and> kd' = kd\<lparr>kd_ifindex := i', kd_mac := m, kd_logical_iface := if_name f\<rparr>))
       \<and> (map_of (rt_cumulative_mcast rt') i' = Some q' \<longleftrightarrow>
            (\<exists>i q. map_of (rt_cumulative_mcast rt) i = Some q \<and> moved t t' i = Some i' \<and> \<not> quad_is_empty q \<and> q' = bytes_only q))"
  using registry_restored [OF assms(1-5,7), of i' m kd'] breakdowns_restored [OF assms(1-3,7), of _ _ i' q'] assms(6) by simp


definition sample_iface :: "u32 \<Rightarrow> interface" where
  "sample_iface i = \<lparr>if_ifindex = i, if_name = ''br-lan'', if_role = RoleBridge, if_zone = ''lan'',
     if_parent_ifindex = None, if_ipv4_cidrs = [''10.0.0.1/24''], if_ipv6_cidrs = []\<rparr>"

definition sample_device :: "u32 \<Rightarrow> known_device" where
  "sample_device i = \<lparr>kd_ifindex = i, kd_mac = [2, 0, 0, 0, 0, 9], kd_ipv4 = [''10.0.0.9''], kd_ipv6 = [],
     kd_hostname = ''tv'', kd_logical_iface = ''br-lan'', kd_subnet = ''10.0.0.1/24'', kd_last_seen_ms = 5\<rparr>"

lemma sample_topology:
  "topology_ok [(i, sample_iface i)]" "names_resolve [(i, sample_iface i)]"
  "by_ifindex [(i, sample_iface i)] i = Some (sample_iface i)"
  "moved [(i, sample_iface i)] [(j, sample_iface j)] i = Some j"
proof -
  have t: "trim ''br-lan'' = ''br-lan''" by code_simp
  show "topology_ok [(i, sample_iface i)]" by (simp add: topology_ok_def entry_ok_def sample_iface_def)
  show "names_resolve [(i, sample_iface i)]" by (simp add: names_resolve_def ifindex_by_name_def sample_iface_def t)
  show "by_ifindex [(i, sample_iface i)] i = Some (sample_iface i)" by (simp add: by_ifindex_def)
  show "moved [(i, sample_iface i)] [(j, sample_iface j)] i = Some j"
    by (simp add: moved_def by_ifindex_def ifindex_by_name_def sample_iface_def t)
qed

theorem runtime_state_roundtrip_witness:
  "map_of (rt_registry (import_runtime_state
      (export_runtime_state (runtime_default\<lparr>rt_registry := [((3, [2, 0, 0, 0, 0, 9]), sample_device 3)]\<rparr>) [(3, sample_iface 3)])
      [(7, sample_iface 7)] runtime_default)) (7, [2, 0, 0, 0, 0, 9]) = Some (sample_device 7)"
proof -
  let ?rt = "runtime_default\<lparr>rt_registry := [((3, [2, 0, 0, 0, 0, 9]), sample_device 3)]\<rparr>"
  have reg: "rt_registry ?rt = [((3, [2, 0, 0, 0, 0, 9]), sample_device 3)]" by simp
  have a4: "distinct (map fst (rt_registry ?rt))"
    and a5: "\<forall>(i, m) \<in> fst ` set (rt_registry ?rt). by_ifindex [(3, sample_iface 3)] i \<noteq> None \<and> length m = 6"
    and a6: "distinct (map fst (rt_cumulative_mcast ?rt))"
    by (simp_all add: by_ifindex_def runtime_default_def)
  have "sample_device 7 = (sample_device 3)\<lparr>kd_ifindex := 7, kd_mac := [2, 0, 0, 0, 0, 9], kd_logical_iface := if_name (sample_iface 3)\<rparr>"
    by (simp add: sample_device_def sample_iface_def)
  moreover have "map_of (rt_registry ?rt) (3, [2, 0, 0, 0, 0, 9]) = Some (sample_device 3)" by simp
  ultimately show ?thesis
    using runtime_state_roundtrip [OF sample_topology(1,2) sample_topology(1) a4 a5 a6 refl] sample_topology(3,4) by blast
qed

section \<open>Removing a device\<close>

lemma retain_Some: "retain P m k = Some v \<longleftrightarrow> m k = Some v \<and> P k v"
  by (auto simp: retain_def split: option.split)

text \<open>Removal forgets the device everywhere except in the baselines of the kernel counters, which stay:
  the device does not replay its history when it comes back.\<close>

lemma remove_device_exact:
  assumes "distinct (map fst (rt_registry rt))" and "remove_device i m rt = (r, rt')"
  shows "map_of (rt_registry rt') = (map_of (rt_registry rt))((i, m) := None)"
    and "map_of (rt_cumulative_device rt') = (map_of (rt_cumulative_device rt))((i, m) := None)"
    and "\<And>a ow. rt_neighbor_ownership rt' a = Some ow \<Longrightarrow> ow_device ow \<noteq> Some (i, m)"
    and "rt_prev_device_bytes rt' = rt_prev_device_bytes rt" and "rt_prev_ecm_bytes rt' = rt_prev_ecm_bytes rt"
    and "r \<longleftrightarrow> map_of (rt_registry rt) (i, m) \<noteq> None \<or> map_of (rt_cumulative_device rt) (i, m) \<noteq> None \<or> rt_smoothed_rates rt (i, m) \<noteq> None"
  using assms by (auto simp: remove_device_def delete_conv' retain_Some)

section \<open>Reading complete maps\<close>

lemma collect_entries_distinct:
  assumes "distinct (map fst es)" and "fst ` set es \<inter> fst ` set acc = {}"
  shows "collect_entries (map Some es) acc = Some (acc @ es)"
  using assms
proof (induction es arbitrary: acc)
  case (Cons e es)
  obtain k v where e: "e = (k, v)" by (cases e)
  have "AList.update k v acc = acc @ [(k, v)]" using Cons.prems(2) e by (induction acc) auto
  then show ?case using Cons e by (auto simp: e)
qed simp

lemma read_complete:
  assumes "distinct (map fst es)"
  shows "read_iface_stats (Some (map Some es)) = Some es" and "read_device_stats (Some (map Some ds)) = collect_entries (map Some ds) []"
  using collect_entries_distinct [OF assms, of "[]"] by (simp_all add: read_iface_stats_def read_device_stats_def)

end
