(* ===== verification/Neighbors.thy ===== *)
theory Neighbors
  imports Runtime
begin

text \<open>
  The neighbour tables (\<open>utils.rs\<close>): IPv4 neighbours from the text of \<open>/proc/net/arp\<close>, IPv6
  neighbours from the output of \<open>ip -6 neigh show\<close>, polled at most every ten seconds (two when a
  new offloaded flow asks for it), and the host names from the lease file and the DHCP
  configuration. File contents and command outputs are inputs, \<open>None\<close> when they cannot be had.
\<close>

section \<open>Neighbour entries\<close>

record neighbor_entry =
  nb_dev :: string
  nb_mac :: mac
  nb_ip :: string
  nb_state :: string

text \<open>What both tables are filtered by: a monitored interface and an ordinary MAC address.\<close>

definition usable_mac :: "string list \<Rightarrow> string \<Rightarrow> string \<Rightarrow> mac option" where
  "usable_mac monitor_devs dev mac_str =
     (if dev \<notin> set monitor_devs then None
      else (case mac_from_str mac_str of
              Inl _ \<Rightarrow> None
            | Inr m \<Rightarrow> if is_special_mac_address m then None else Some m))"

definition arp_entry :: "string list \<Rightarrow> (string \<rightharpoonup> string list) \<Rightarrow> string \<Rightarrow> neighbor_entry option" where
  "arp_entry monitor_devs subnet_map line =
     (let parts = split_whitespace line in
      if length parts < 6 then None
      else (let ip = parts ! 0; flags = parts ! 2; mac_str = parts ! 3; dev = parts ! 5 in
        if \<not> arp_confirms_ownership flags \<or> mac_str = ''00:00:00:00:00:00'' then None
        else (case usable_mac monitor_devs dev mac_str of
            None \<Rightarrow> None
          | Some m \<Rightarrow>
              if (case subnet_map dev of
                    None \<Rightarrow> False
                  | Some cidrs \<Rightarrow> \<not> list_ex (ipv4_in_cidr ip) (filter (\<lambda>c. CHR '':'' \<notin> set c) cidrs))
              then None
              else Some \<lparr>nb_dev = dev, nb_mac = m, nb_ip = ip, nb_state = ''REACHABLE''\<rparr>)))"

fun position :: "string \<Rightarrow> string list \<Rightarrow> nat option" where
  "position x [] = None"
| "position x (y # ys) = (if y = x then Some 0 else map_option Suc (position x ys))"

definition ipv6_entry :: "string list \<Rightarrow> string \<Rightarrow> neighbor_entry option" where
  "ipv6_entry monitor_devs line =
     (let parts = split_whitespace line in
      if length parts < 5 then None
      else (case extract_neighbor_state parts of
          None \<Rightarrow> None
        | Some state \<Rightarrow>
            if \<not> neighbor_confirms_ownership state then None
            else (case (position ''dev'' parts, position ''lladdr'' parts) of
                (Some dev_pos, Some lladdr_pos) \<Rightarrow>
                  if dev_pos + 1 \<ge> length parts \<or> lladdr_pos + 1 \<ge> length parts then None
                  else (let ip = parts ! 0; dev = parts ! (dev_pos + 1); mac_str = parts ! (lladdr_pos + 1) in
                    map_option (\<lambda>m. \<lparr>nb_dev = dev, nb_mac = m, nb_ip = ip, nb_state = state\<rparr>)
                      (usable_mac monitor_devs dev mac_str))
              | _ \<Rightarrow> None)))"

section \<open>Diagnostics\<close>

definition field_after :: "string \<Rightarrow> string list \<Rightarrow> string" where
  "field_after name parts =
     (case position name parts of None \<Rightarrow> ''-''
      | Some p \<Rightarrow> if p + 1 < length parts then parts ! (p + 1) else ''-'')"

definition diagnostic_of_line :: "string \<Rightarrow> (u32 list \<times> ipv6_neighbor_diagnostic) option" where
  "diagnostic_of_line line =
     (let parts = split_whitespace line in
      case parts of [] \<Rightarrow> None
      | p # _ \<Rightarrow> (case parse_ipv6 p of
           None \<Rightarrow> None
         | Some ip \<Rightarrow> Some (ipv6_words ip,
             \<lparr>nd_state = (case extract_neighbor_state parts of None \<Rightarrow> ''UNKNOWN'' | Some s \<Rightarrow> s),
              nd_dev = field_after ''dev'' parts, nd_mac = field_after ''lladdr'' parts\<rparr>)))"

definition parse_ipv6_neighbor_diagnostics :: "string \<Rightarrow> (u32 list \<rightharpoonup> ipv6_neighbor_diagnostic)" where
  "parse_ipv6_neighbor_diagnostics raw =
     fold (\<lambda>line m. case diagnostic_of_line line of None \<Rightarrow> m | Some (k, d) \<Rightarrow> m(k \<mapsto> d)) (lines raw) Map.empty"

section \<open>The neighbour list\<close>

definition poll_ipv6_neighbors :: "bytes option \<Rightarrow> u64 \<Rightarrow> bool \<Rightarrow> monitor_runtime \<Rightarrow> monitor_runtime" where
  "poll_ipv6_neighbors output now force rt =
     (if ipv6_neighbor_poll_due now (rt_last_ipv6_neigh_fetch_ms rt) force
      then (case output of
          Some stdout \<Rightarrow>
            let raw = string_of_bytes (from_utf8_lossy stdout) in
            rt\<lparr>rt_last_ipv6_neigh_fetch_ms := now, rt_cached_ipv6_neighbors_raw := raw,
               rt_ipv6_neighbor_diagnostics := parse_ipv6_neighbor_diagnostics raw\<rparr>
        | None \<Rightarrow>
            rt\<lparr>rt_last_ipv6_neigh_fetch_ms := now, rt_cached_ipv6_neighbors_raw := [],
               rt_ipv6_neighbor_diagnostics := Map.empty\<rparr>)
      else rt)"

definition list_neighbors_filtered ::
  "string option \<Rightarrow> bytes option \<Rightarrow> string list \<Rightarrow> (string \<rightharpoonup> string list) \<Rightarrow> u64 \<Rightarrow> bool \<Rightarrow> monitor_runtime
   \<Rightarrow> neighbor_entry list \<times> monitor_runtime" where
  "list_neighbors_filtered arp_content ip_output monitor_devs subnet_map now force rt =
     (let arp = (case arp_content of None \<Rightarrow> []
                 | Some c \<Rightarrow> List.map_filter (arp_entry monitor_devs subnet_map) (drop 1 (lines c)));
          rt' = poll_ipv6_neighbors ip_output now force rt;
          content = rt_cached_ipv6_neighbors_raw rt'
      in (arp @ (if content = [] then [] else List.map_filter (ipv6_entry monitor_devs) (lines content)), rt'))"

section \<open>Host names\<close>

definition lease_entry :: "string \<Rightarrow> (mac \<times> string) option" where
  "lease_entry l =
     (let line = trim l in
      if line = [] \<or> starts_with ''#'' line then None
      else (let parts = split_whitespace line in
        if length parts < 4 then None
        else (let m = parts ! 1; hostname = parts ! 3 in
          if hostname = [] \<or> hostname = ''*'' then None
          else (case mac_from_str m of Inl _ \<Rightarrow> None | Inr a \<Rightarrow> Some (a, hostname)))))"

definition parse_dnsmasq_lease_file :: "string option \<Rightarrow> (mac \<rightharpoonup> string) option" where
  "parse_dnsmasq_lease_file content =
     map_option (\<lambda>c. fold (\<lambda>l m. case lease_entry l of None \<Rightarrow> m | Some (a, h) \<Rightarrow> m(a \<mapsto> h)) (lines c) Map.empty) content"

text \<open>The scan of \<open>/etc/config/dhcp\<close>: whether a host section is open, its MACs and its name so far.\<close>

record dhcp_scan =
  ds_result :: "mac \<rightharpoonup> string"
  ds_in_host :: bool
  ds_macs :: "mac list"
  ds_name :: "string option"

text \<open>Closing a section takes the name; the MACs are only drained when there is one.\<close>

definition close_host :: "dhcp_scan \<Rightarrow> dhcp_scan" where
  "close_host s =
     (if ds_in_host s
      then (case ds_name s of
              None \<Rightarrow> s
            | Some n \<Rightarrow> s\<lparr>ds_result := fold (\<lambda>a m. m(a \<mapsto> n)) (ds_macs s) (ds_result s), ds_macs := [], ds_name := None\<rparr>)
      else s)"

definition unquote :: "string \<Rightarrow> string" where
  "unquote v =
     (if starts_with [CHR 0x27] v \<and> last v = CHR 0x27 \<and> length v \<ge> 2 then butlast (tl v)
      else if starts_with [CHR 0x22] v \<and> last v = CHR 0x22 \<and> length v \<ge> 2 then butlast (tl v)
      else v)"

definition dhcp_line :: "string \<Rightarrow> dhcp_scan \<Rightarrow> dhcp_scan" where
  "dhcp_line l s =
     (let line = trim l in
      if starts_with ''config host'' line then (close_host s)\<lparr>ds_in_host := True, ds_macs := [], ds_name := None\<rparr>
      else if starts_with ''config '' line \<or> starts_with ''package '' line then (close_host s)\<lparr>ds_in_host := False\<rparr>
      else if ds_in_host s \<and> (starts_with ''option '' line \<or> starts_with ''list '' line)
      then (let parts = split_whitespace line in
        if length parts \<ge> 3
        then (let key = parts ! 1; val = unquote (join '' '' (drop 2 parts)) in
          if key = ''mac''
          then s\<lparr>ds_macs := ds_macs s @ List.map_filter
                   (\<lambda>p. case mac_from_str p of Inl _ \<Rightarrow> None | Inr a \<Rightarrow> Some a) (split_whitespace val)\<rparr>
          else if key = ''name'' then s\<lparr>ds_name := Some val\<rparr>
          else s)
        else s)
      else s)"

definition parse_hostname_from_ubus_uci_dhcp :: "string option \<Rightarrow> (mac \<rightharpoonup> string) option" where
  "parse_hostname_from_ubus_uci_dhcp content =
     map_option (\<lambda>c. ds_result (close_host (fold dhcp_line (lines c)
         \<lparr>ds_result = Map.empty, ds_in_host = False, ds_macs = [], ds_name = None\<rparr>))) content"

definition list_hostname_by_mac :: "string option \<Rightarrow> string option \<Rightarrow> (mac \<rightharpoonup> string)" where
  "list_hostname_by_mac leases dhcp =
     (let result = (case parse_dnsmasq_lease_file leases of None \<Rightarrow> Map.empty | Some m \<Rightarrow> m)
      in (case parse_hostname_from_ubus_uci_dhcp dhcp of None \<Rightarrow> result | Some m \<Rightarrow> result ++ m))"


section \<open>What the neighbour list holds\<close>

lemma usable_macD:
  "usable_mac devs dev s = Some m \<Longrightarrow> dev \<in> set devs \<and> length m = 6 \<and> \<not> is_special_mac_address m"
  by (auto simp: usable_mac_def dest: mac_from_str_length split: if_splits sum.splits)

lemma arp_entryD:
  assumes "arp_entry devs sn line = Some n"
  shows "nb_dev n \<in> set devs \<and> length (nb_mac n) = 6 \<and> \<not> is_special_mac_address (nb_mac n) \<and> nb_state n = ''REACHABLE''"
    and "sn (nb_dev n) = Some cidrs \<Longrightarrow> list_ex (ipv4_in_cidr (nb_ip n)) (filter (\<lambda>c. CHR '':'' \<notin> set c) cidrs)"
  using assms by (auto simp: arp_entry_def Let_def dest: usable_macD split: if_splits option.splits)

lemma ipv6_entryD:
  assumes "ipv6_entry devs line = Some n"
  shows "nb_dev n \<in> set devs \<and> length (nb_mac n) = 6 \<and> \<not> is_special_mac_address (nb_mac n)
      \<and> nb_state n \<in> {''REACHABLE'', ''STALE'', ''DELAY'', ''PROBE''}"
proof -
  obtain state where "extract_neighbor_state (split_whitespace line) = Some state" "neighbor_confirms_ownership state"
      "nb_state n = state"
    and m: "nb_dev n \<in> set devs \<and> length (nb_mac n) = 6 \<and> \<not> is_special_mac_address (nb_mac n)"
    using assms by (auto simp: ipv6_entry_def Let_def dest: usable_macD split: if_splits option.splits)
  moreover have "state \<in> set known_neighbor_states"
    using first_known_state_mem calculation(1) by (simp add: extract_neighbor_state_def)
  ultimately show ?thesis by (auto simp: neighbor_confirms_ownership_def known_neighbor_states_def)
qed

lemma mem_listed: "y \<in> set (List.map_filter g xs) \<Longrightarrow> \<exists>x \<in> set xs. g x = Some y"
  by (auto simp: List.map_filter_def)

text \<open>Whatever the two tables contain, every listed neighbour is on a monitored interface, has the
  address of one station (six bytes, not multicast, not broadcast, not zero) and a state that
  confirms ownership; an IPv4 neighbour lies in a subnet configured on its interface; and a table
  that cannot be read contributes nothing.\<close>

theorem listed_neighbours_confirmed:
  assumes "list_neighbors_filtered arp ip6 devs sn now force rt = (ns, rt')" and "n \<in> set ns"
  shows "nb_dev n \<in> set devs \<and> length (nb_mac n) = 6 \<and> \<not> is_multicast_mac (nb_mac n) \<and> \<not> is_broadcast_mac (nb_mac n)
       \<and> nb_state n \<in> {''REACHABLE'', ''STALE'', ''DELAY'', ''PROBE''}
       \<and> (n \<in> set (List.map_filter (ipv6_entry devs) (lines (rt_cached_ipv6_neighbors_raw rt')))
            \<or> (\<forall>cidrs. sn (nb_dev n) = Some cidrs \<longrightarrow>
              list_ex (ipv4_in_cidr (nb_ip n)) (filter (\<lambda>c. CHR '':'' \<notin> set c) cidrs)))"
proof -
  have "n \<in> set (case arp of None \<Rightarrow> [] | Some c \<Rightarrow> List.map_filter (arp_entry devs sn) (drop 1 (lines c)))
      \<or> (rt_cached_ipv6_neighbors_raw rt' \<noteq> [] \<and> n \<in> set (List.map_filter (ipv6_entry devs) (lines (rt_cached_ipv6_neighbors_raw rt'))))"
    using assms by (auto simp: list_neighbors_filtered_def Let_def split: if_splits)
  then show ?thesis
  proof
    assume "n \<in> set (case arp of None \<Rightarrow> [] | Some c \<Rightarrow> List.map_filter (arp_entry devs sn) (drop 1 (lines c)))"
    then obtain l where "arp_entry devs sn l = Some n" by (auto split: option.splits dest: mem_listed)
    from arp_entryD [OF this] show ?thesis using not_special_unicast by auto
  next
    assume r: "rt_cached_ipv6_neighbors_raw rt' \<noteq> [] \<and> n \<in> set (List.map_filter (ipv6_entry devs) (lines (rt_cached_ipv6_neighbors_raw rt')))"
    then obtain l where "ipv6_entry devs l = Some n" by (auto dest: mem_listed)
    from ipv6_entryD [OF this] show ?thesis using r not_special_unicast by auto
  qed
qed

definition sample_arp :: string where
  "sample_arp = ''IP address HW type Flags HW address Mask Device'' @ [char_of (10 :: nat)]
     @ ''10.0.0.9 0x1 0x2 02:00:00:00:00:09 * br-lan'' @ [char_of (10 :: nat)]"

theorem listed_neighbours_confirmed_witness:
  "\<not> is_multicast_mac [2, 0, 0, 0, 0, 9]
   \<and> fst (list_neighbors_filtered (Some sample_arp) None [''br-lan''] Map.empty 5 False runtime_default)
     = [\<lparr>nb_dev = ''br-lan'', nb_mac = [2, 0, 0, 0, 0, 9], nb_ip = ''10.0.0.9'', nb_state = ''REACHABLE''\<rparr>]"
proof
  let ?n = "\<lparr>nb_dev = ''br-lan'', nb_mac = [2, 0, 0, 0, 0, 9], nb_ip = ''10.0.0.9'', nb_state = ''REACHABLE''\<rparr>"
  let ?r = "list_neighbors_filtered (Some sample_arp) None [''br-lan''] Map.empty 5 False runtime_default"
  have l: "drop 1 (lines sample_arp) = [''10.0.0.9 0x1 0x2 02:00:00:00:00:09 * br-lan'']" by code_simp
  have w: "split_whitespace ''10.0.0.9 0x1 0x2 02:00:00:00:00:09 * br-lan'' =
      [''10.0.0.9'', ''0x1'', ''0x2'', ''02:00:00:00:00:09'', ''*'', ''br-lan'']" by code_simp
  have "trim_start_matches ''0x'' ''0x2'' = ''2''" by code_simp
  then have c: "arp_confirms_ownership ''0x2''"
    by (simp add: arp_confirms_ownership_def parse_hex_u32_def from_str_radix_def to_digit_def)
  have "mac_to_string [2, 0, 0, 0, 0, 9] = ''02:00:00:00:00:09''"
    by (simp add: mac_to_string_def hex02_def digit_char_def char_of_def bit_0)
  then have m: "mac_from_str ''02:00:00:00:00:09'' = Inr [2, 0, 0, 0, 0, 9]"
    using mac_from_to_string [of "[2, 0, 0, 0, 0, 9]"] by simp
  have a: "arp_entry [''br-lan''] Map.empty ''10.0.0.9 0x1 0x2 02:00:00:00:00:09 * br-lan'' = Some ?n"
    by (simp add: arp_entry_def w c m usable_mac_def is_special_mac_address_def)
  have p: "poll_ipv6_neighbors None 5 False runtime_default = runtime_default"
    by (simp add: poll_ipv6_neighbors_def ipv6_neighbor_poll_due_def sat_sub_def runtime_default_def)
  show f: "fst ?r = [?n]"
  proof -
    have "List.map_filter (arp_entry [''br-lan''] Map.empty) (drop 1 (lines sample_arp)) = [?n]"
      unfolding l by (simp only: List.map_filter_simps a option.simps)
    then show ?thesis by (simp add: list_neighbors_filtered_def p Let_def) (simp add: runtime_default_def)
  qed
  have "?r = (fst ?r, snd ?r)" by simp
  from listed_neighbours_confirmed [OF this, of ?n] f show "\<not> is_multicast_mac [2, 0, 0, 0, 0, 9]" by simp
qed

section \<open>Lines in the documented formats\<close>

definition plain :: "string \<Rightarrow> bool" where
  "plain w = (w \<noteq> [] \<and> list_all (\<lambda>c. 32 < (of_char c :: nat) \<and> (of_char c :: nat) < 128) w)"

lemma split_ws_word:
  "list_all (\<lambda>c. 32 < (of_char c :: nat) \<and> (of_char c :: nat) < 128) w \<Longrightarrow> split_ws acc (w @ s) = split_ws (rev w @ acc) s"
  by (induction w arbitrary: acc) (simp_all add: ws_len_plain split_ws.simps del: ws_len.simps)

lemma split_ws_space: "acc \<noteq> [] \<Longrightarrow> split_ws acc (CHR '' '' # s) = rev acc # split_ws [] s"
  by (subst split_ws.simps) simp

lemma split_whitespace_join: "list_all plain ws \<Longrightarrow> split_whitespace (join '' '' ws) = ws"
proof (induction ws rule: induct_list012)
  case 1
  then show ?case by (simp add: split_whitespace_def split_ws.simps)
next
  case (2 w)
  then have "split_ws [] (w @ []) = split_ws (rev w @ []) []" by (intro split_ws_word) (simp add: plain_def)
  then show ?case using 2 by (simp add: split_whitespace_def split_ws.simps [of _ "[]"] plain_def)
next
  case (3 w v ws)
  have "split_ws [] (w @ CHR '' '' # join '' '' (v # ws)) = split_ws (rev w @ []) (CHR '' '' # join '' '' (v # ws))"
    using 3 by (intro split_ws_word) (simp add: plain_def)
  then have "split_whitespace (join '' '' (w # v # ws)) = w # split_whitespace (join '' '' (v # ws))"
    using 3 by (simp add: split_whitespace_def split_ws_space plain_def)
  then show ?case using 3 by simp
qed

lemma plain_mac: "length m = 6 \<Longrightarrow> plain (mac_to_string m)"
proof -
  have hex: "list_all (\<lambda>c. 32 < (of_char c :: nat) \<and> (of_char c :: nat) < 128) (hex02 b)" for b
  proof -
    have "unat b < 256" using unat_lt [of b] by simp
    then have "unat b div 16 < 16" "unat b mod 16 < 16" by auto
    then show ?thesis by (auto simp: hex02_def)
  qed
  have joined: "list_all (\<lambda>c. 32 < (of_char c :: nat) \<and> (of_char c :: nat) < 128) (join '':'' (map hex02 bs))" for bs
    by (induction bs rule: induct_list012) (simp_all add: hex)
  assume "length m = 6"
  then obtain b bs where "m = b # bs" by (cases m) auto
  then have "mac_to_string m \<noteq> []" by (cases bs) (simp_all add: mac_to_string_def hex02_def)
  then show ?thesis using joined by (simp add: plain_def mac_to_string_def)
qed

lemma confirmed_state_word:
  assumes "st \<in> {''REACHABLE'', ''STALE'', ''DELAY'', ''PROBE''}"
  shows "extract_neighbor_state (ws @ [st]) = Some st" and "plain st" and "neighbor_confirms_ownership st"
proof -
  have "strip_nonalpha st = st \<and> to_ascii_uppercase st = st" using assms by (elim insertE emptyE; simp only:; code_simp)
  then show "extract_neighbor_state (ws @ [st]) = Some st"
    using assms by (auto simp: extract_neighbor_state_def Let_def known_neighbor_states_def)
  show "plain st" using assms by (auto simp: plain_def)
  show "neighbor_confirms_ownership st" using assms by (auto simp: neighbor_confirms_ownership_def)
qed

text \<open>A neighbour in the format of \<open>ip -6 neigh show\<close> with a confirming state is listed with exactly
  its address, interface, MAC address and state.\<close>

theorem ipv6_neighbour_line_roundtrip:
  assumes "plain ip" and "plain dev" and "length m = 6" and "\<not> is_special_mac_address m"
    and "dev \<in> set devs" and "st \<in> {''REACHABLE'', ''STALE'', ''DELAY'', ''PROBE''}"
    and "ip \<noteq> ''dev''" and "ip \<noteq> ''lladdr''" and "dev \<noteq> ''lladdr''"
  shows "ipv6_entry devs (join '' '' [ip, ''dev'', dev, ''lladdr'', mac_to_string m, st])
     = Some \<lparr>nb_dev = dev, nb_mac = m, nb_ip = ip, nb_state = st\<rparr>"
proof -
  let ?ws = "[ip, ''dev'', dev, ''lladdr'', mac_to_string m, st]"
  have "plain ''dev''" "plain ''lladdr''" by (simp_all add: plain_def)
  then have w: "split_whitespace (join '' '' ?ws) = ?ws"
    using assms(1,2) plain_mac [OF assms(3)] confirmed_state_word(2) [OF assms(6)]
    by (intro split_whitespace_join) simp
  have e: "extract_neighbor_state ?ws = Some st"
    using confirmed_state_word(1) [OF assms(6), of "[ip, ''dev'', dev, ''lladdr'', mac_to_string m]"] by simp
  have p: "position ''dev'' ?ws = Some 1" "position ''lladdr'' ?ws = Some 3" using assms(7-9) by simp_all
  have "usable_mac devs dev (mac_to_string m) = Some m" using assms(3-5) by (simp add: usable_mac_def mac_from_to_string)
  then show ?thesis
    unfolding ipv6_entry_def w Let_def e p by (simp add: confirmed_state_word(3) [OF assms(6)])
qed

theorem ipv6_neighbour_line_roundtrip_witness:
  "ipv6_entry [''br-lan''] (join '' '' [''fd00::5'', ''dev'', ''br-lan'', ''lladdr'', mac_to_string [2, 0, 0, 0, 0, 5], ''STALE''])
     = Some \<lparr>nb_dev = ''br-lan'', nb_mac = [2, 0, 0, 0, 0, 5], nb_ip = ''fd00::5'', nb_state = ''STALE''\<rparr>"
  by (rule ipv6_neighbour_line_roundtrip) (simp_all add: plain_def is_special_mac_address_def)

text \<open>A static entry is not recognised: its state is none of the states the scan knows, although
  \<open>neighbor_confirms_ownership\<close> would accept it.\<close>

lemma permanent_neighbour_ignored:
  "ipv6_entry [''br-lan''] ''fd00::5 dev br-lan lladdr 02:00:00:00:00:05 PERMANENT'' = None"
  "neighbor_confirms_ownership ''PERMANENT''"
  "''PERMANENT'' \<notin> set known_neighbor_states"
  by code_simp+

end
