(* ===== verification/Snapshot.thy ===== *)
theory Snapshot
  imports Neighbors
begin

text \<open>
  One collection tick (\<open>collect_snapshot\<close> of \<open>monitor.rs\<close>): read the kernel's counters, book their
  increments to interfaces, devices and breakdowns, find the online devices from the neighbour
  tables and the traffic, attribute offloaded (ECM) traffic, and return the snapshot. The blocks of
  the function are definitions of their own here, in its order; \<open>collect_snapshot\<close> at the end
  composes them. Logging is left out, the state that throttles it is not.
\<close>

section \<open>Inputs\<close>

text \<open>What the system answers during the tick, and what the service was started with.\<close>

record snap_input =
  si_now :: u64
  si_iface_map :: "(iface_traffic_key \<times> traffic_value) option list option"
  si_device_map :: "(device_traffic_key \<times> traffic_value) option list option"
  si_failures :: "(u32 \<times> u64 list) option list option"
  si_ecm_map :: "(ecm_traffic_key \<times> traffic_value list) option list option"
  si_arp :: "string option"
  si_ip6_neigh :: "bytes option"
  si_leases :: "string option"
  si_dhcp :: "string option"
  si_device_map_writable :: bool
  si_device_remove :: "device_traffic_key \<Rightarrow> bool"
  si_ecm_map_writable :: bool
  si_ecm_now :: "ecm_traffic_key \<Rightarrow> traffic_value list option"
  si_ecm_remove :: "ecm_traffic_key \<Rightarrow> bool"

record snap_options =
  so_interval :: "u64 \<times> u32"
  so_monitor_ifaces :: "string list"
  so_enable_ecm :: bool

text \<open>What the tick changes in the kernel's maps.\<close>

record snap_effects =
  se_removed_devices :: "device_traffic_key list"
  se_removed_ecm :: "ecm_traffic_key list"
  se_sync_filters :: bool

section \<open>Bookkeeping of the device map\<close>

definition note_device_capacity :: "u64 \<Rightarrow> nat \<Rightarrow> monitor_runtime \<Rightarrow> monitor_runtime" where
  "note_device_capacity now entries rt =
     (if entries \<ge> device_traffic_max_entries * 90 div 100
         \<and> sat_sub now (rt_last_device_capacity_warn_ms rt) \<ge> 300000
      then rt\<lparr>rt_last_device_capacity_warn_ms := now\<rparr> else rt)"

definition note_insert_failures :: "u64 \<Rightarrow> u64 \<Rightarrow> monitor_runtime \<Rightarrow> monitor_runtime" where
  "note_insert_failures now failures rt =
     (let new_failures = sat_sub failures (rt_last_device_insert_failure_count rt);
          rt1 = (if new_failures > 0 \<and> sat_sub now (rt_last_device_insert_failure_warn_ms rt) \<ge> 60000
                 then rt\<lparr>rt_last_device_insert_failure_warn_ms := now\<rparr> else rt)
      in rt1\<lparr>rt_last_device_insert_failure_count := failures\<rparr>)"

definition device_prune_due :: "u64 \<Rightarrow> monitor_runtime \<Rightarrow> bool \<times> monitor_runtime" where
  "device_prune_due now rt =
     (let due = (sat_sub now (rt_last_device_prune_ms rt) \<ge> 60000)
      in (due, if due then rt\<lparr>rt_last_device_prune_ms := now\<rparr> else rt))"

section \<open>Subnets and names of the topology\<close>

definition is_wan_zone :: "string \<Rightarrow> bool" where
  "is_wan_zone z = starts_with ''wan'' z"

definition subnet_map_of :: "topology \<Rightarrow> (string \<rightharpoonup> string list)" where
  "subnet_map_of t = fold (\<lambda>i m. m(if_name i \<mapsto> if_ipv4_cidrs i @ if_ipv6_cidrs i)) (topology_interfaces t) Map.empty"

definition local_v6_subnets :: "bool \<Rightarrow> topology \<Rightarrow> (u32 \<times> 128 word \<times> 128 word) list" where
  "local_v6_subnets enable_ecm t =
     concat (map (\<lambda>i. if enable_ecm \<and> \<not> is_wan_zone (if_zone i)
                      then List.map_filter (\<lambda>c. map_option (\<lambda>(net, m). (if_ifindex i, net, m)) (parse_cidr_to_u128 c))
                             (if_ipv6_cidrs i)
                      else []) (topology_interfaces t))"

text \<open>The last interface of a name wins.\<close>

definition names_of :: "topology \<Rightarrow> (string \<rightharpoonup> u32)" where
  "names_of t = fold (\<lambda>i m. m(if_name i \<mapsto> if_ifindex i)) (topology_interfaces t) Map.empty"

definition wan_index :: "topology \<Rightarrow> u32 option" where
  "wan_index t = map_option if_ifindex (List.find (\<lambda>i. if_zone i = ''wan'') (topology_interfaces t))"

section \<open>Reading the ECM map and the intervals\<close>

text \<open>The entries, whether the reading is complete, and whether a neighbour poll is asked for. With ECM
  off, everything that belongs to it is reset.\<close>

definition ecm_reading ::
  "bool \<Rightarrow> snap_input \<Rightarrow> topology \<Rightarrow> monitor_runtime
   \<Rightarrow> (ecm_traffic_key \<times> traffic_value) list \<times> bool \<times> bool \<times> monitor_runtime" where
  "ecm_reading enable_ecm inp t rt =
     (if enable_ecm
      then (case read_ecm_stats (si_ecm_map inp) (rt_prev_ecm_bytes rt) (rt_neighbor_ownership rt)
                   (local_v6_subnets enable_ecm t) (si_now inp) of
              Some (stats, refresh) \<Rightarrow> (stats, True, refresh, rt)
            | None \<Rightarrow> ([], False, False, rt))
      else ([], False, False,
            rt\<lparr>rt_neighbor_ownership := Map.empty, rt_ipv6_neighbor_refresh_pending := False,
               rt_last_ecm_snapshot_ms := None, rt_prev_ecm_bytes := Map.empty, rt_ecm_last_active_ms := Map.empty,
               rt_ecm_device_grace_ticks := Map.empty, rt_smoothed_lan_ecm_rates := [],
               rt_smoothed_unresolved_ecm_rates := [], rt_smoothed_wan_ecm_rates := None\<rparr>))"

definition duration_secs :: "u64 \<times> u32 \<Rightarrow> rat" where
  "duration_secs d = f64 (f64_of_u64 (fst d) + f64 (of_nat (unat (snd d)) / 1000000000))"

definition snapshot_seconds :: "u64 \<times> u32 \<Rightarrow> u64 \<Rightarrow> u64 option \<Rightarrow> rat" where
  "snapshot_seconds interval now last_ms =
     (case last_ms of
        Some prev \<Rightarrow> max (f64 (f64_of_u64 (sat_sub now prev) / 1000)) (f64 (1 / 1000))
      | None \<Rightarrow> max (duration_secs interval) 1)"

section \<open>Interface counters\<close>

fun iface_traffic_step ::
  "u32 \<Rightarrow> bool \<Rightarrow> rat \<Rightarrow> iface_traffic_key \<times> traffic_value \<Rightarrow> quad \<times> (iface_traffic_key \<rightharpoonup> u64)
   \<Rightarrow> quad \<times> (iface_traffic_key \<rightharpoonup> u64)" where
  "iface_traffic_step i is_wan sec (k, v) (q, prevs) =
     (if ik_ifindex k \<noteq> i then (q, prevs)
      else (let prev = (case prevs k of None \<Rightarrow> 0 | Some p \<Rightarrow> p);
                delta = delta_bytes (tv_bytes v) prev
            in (if is_wan then fill_quad_wan (ik_ip_version k) (ik_direction k) delta sec q
                else fill_quad (ik_ip_version k) (ik_direction k) delta sec q,
                prevs(k \<mapsto> tv_bytes v))))"

record iface_state =
  is_items :: "iface_item list"
  is_wan_metrics :: quad
  is_rt :: monitor_runtime

definition account_iface ::
  "topology \<Rightarrow> (iface_traffic_key \<times> traffic_value) list \<Rightarrow> rat \<Rightarrow> string \<Rightarrow> iface_state \<Rightarrow> iface_state" where
  "account_iface t stats sec name s =
     (case names_of t name of
        None \<Rightarrow> s
      | Some i \<Rightarrow>
         (let rt = is_rt s;
              is_wan = (case by_ifindex t i of None \<Rightarrow> False | Some f \<Rightarrow> if_zone f = ''wan'');
              (metrics, prevs) = fold (iface_traffic_step i is_wan sec) stats (quad_default, rt_prev_iface_bytes rt);
              cum = add_quad (case map_of (rt_cumulative_iface rt) i of None \<Rightarrow> quad_default | Some c \<Rightarrow> c) metrics;
              smoothed = smooth_rates metrics
                (case rt_smoothed_iface_rates rt i of None \<Rightarrow> quad_default | Some q \<Rightarrow> q)
          in \<lparr>is_items = is_items s @ [
                \<lparr>ii_ifindex = i, ii_ifname = name,
                 ii_zone = (case by_ifindex t i of None \<Rightarrow> ''unknown'' | Some f \<Rightarrow> if_zone f),
                 ii_metrics = take_rates smoothed metrics, ii_cumulative = cum, ii_mcast_metrics = quad_default,
                 ii_bcast_metrics = quad_default, ii_unresolved_metrics = quad_default\<rparr>],
              is_wan_metrics = (if wan_index t = Some i then metrics else is_wan_metrics s),
              is_rt = rt\<lparr>rt_prev_iface_bytes := prevs,
                         rt_cumulative_iface := AList.update i cum (rt_cumulative_iface rt),
                         rt_smoothed_iface_rates := (rt_smoothed_iface_rates rt)(i \<mapsto> smoothed)\<rparr>\<rparr>))"

text \<open>A name given twice is accounted once.\<close>

fun first_names :: "string list \<Rightarrow> string list \<Rightarrow> string list" where
  "first_names seen [] = []"
| "first_names seen (n # ns) = (if n \<in> set seen then first_names seen ns else n # first_names (n # seen) ns)"

definition account_ifaces ::
  "topology \<Rightarrow> string list \<Rightarrow> (iface_traffic_key \<times> traffic_value) list \<Rightarrow> rat \<Rightarrow> monitor_runtime \<Rightarrow> iface_state" where
  "account_ifaces t monitor_ifaces stats sec rt =
     fold (account_iface t stats sec) (first_names [] monitor_ifaces)
       \<lparr>is_items = [], is_wan_metrics = quad_default, is_rt = rt\<rparr>"


section \<open>Neighbours and host names\<close>

text \<open>Poll and filter the neighbour tables; a forced poll that was due answers the request.\<close>

definition refresh_neighbors ::
  "snap_input \<Rightarrow> snap_options \<Rightarrow> topology \<Rightarrow> bool \<Rightarrow> monitor_runtime \<Rightarrow> neighbor_entry list \<times> monitor_runtime" where
  "refresh_neighbors inp opts t refresh rt =
     (let force = (rt_ipv6_neighbor_refresh_pending rt \<or> refresh);
          forced_due = (force \<and> ipv6_neighbor_poll_due (si_now inp) (rt_last_ipv6_neigh_fetch_ms rt) True);
          (ns, rt1) = list_neighbors_filtered (si_arp inp) (si_ip6_neigh inp) (so_monitor_ifaces opts)
                        (subnet_map_of t) (si_now inp) force (rt\<lparr>rt_ipv6_neighbor_refresh_pending := force\<rparr>)
      in (ns, if forced_due then rt1\<lparr>rt_ipv6_neighbor_refresh_pending := False\<rparr> else rt1))"

definition refresh_hostnames :: "snap_input \<Rightarrow> monitor_runtime \<Rightarrow> monitor_runtime" where
  "refresh_hostnames inp rt =
     (if sat_sub (si_now inp) (rt_last_hostname_fetch_ms rt) \<ge> 60000
      then rt\<lparr>rt_cached_hostnames := list_hostname_by_mac (si_leases inp) (si_dhcp inp),
              rt_last_hostname_fetch_ms := si_now inp\<rparr>
      else rt)"

text \<open>Ownership that expired, or whose interface is gone, is dropped.\<close>

definition expire_ownership :: "u64 \<Rightarrow> topology \<Rightarrow> monitor_runtime \<Rightarrow> monitor_runtime" where
  "expire_ownership now t rt =
     rt\<lparr>rt_neighbor_ownership :=
          retain (\<lambda>_ ow. sat_sub now (ow_observed_ms ow) < ecm_history_fallback_ms
                       \<and> (case ow_device ow of None \<Rightarrow> True | Some d \<Rightarrow> by_ifindex t (fst d) \<noteq> None))
            (rt_neighbor_ownership rt)\<rparr>"

type_synonym device_ips = "string list \<times> string list \<times> string"

definition add_ip :: "neighbor_entry \<Rightarrow> device_ips \<Rightarrow> device_ips" where
  "add_ip n e =
     (let (v4, v6, st) = e; ip = nb_ip n;
          v6' = (if CHR '':'' \<in> set ip \<and> ip \<notin> set v6 then v6 @ [ip] else v6);
          v4' = (if CHR '':'' \<notin> set ip \<and> ip \<notin> set v4 then v4 @ [ip] else v4)
      in (v4', v6', pick_best_neighbor_state st (nb_state n)))"

definition note_owner :: "bool \<Rightarrow> topology \<Rightarrow> u64 \<Rightarrow> neighbor_entry \<Rightarrow> monitor_runtime \<Rightarrow> monitor_runtime" where
  "note_owner enable_ecm t now n rt =
     (case names_of t (nb_dev n) of
        None \<Rightarrow> rt
      | Some i \<Rightarrow>
         if enable_ecm \<and> (case by_ifindex t i of None \<Rightarrow> False | Some f \<Rightarrow> \<not> is_wan_zone (if_zone f))
         then (case ecm_address (nb_ip n) of
                 None \<Rightarrow> rt
               | Some a \<Rightarrow> rt\<lparr>rt_neighbor_ownership :=
                   observe_neighbor a (i, nb_mac n)
                     (if snd a = 6 then rt_last_ipv6_neigh_fetch_ms rt else now) now (rt_neighbor_ownership rt)\<rparr>)
         else rt)"

definition group_neighbor ::
  "bool \<Rightarrow> topology \<Rightarrow> u64 \<Rightarrow> neighbor_entry \<Rightarrow> ((string \<times> mac) \<times> device_ips) list \<times> monitor_runtime
   \<Rightarrow> ((string \<times> mac) \<times> device_ips) list \<times> monitor_runtime" where
  "group_neighbor enable_ecm t now n s =
     (if is_multicast_mac (nb_mac n) \<or> is_broadcast_mac (nb_mac n) then s
      else (upd_entry (nb_dev n, nb_mac n) ([], [], []) (add_ip n) (fst s), note_owner enable_ecm t now n (snd s)))"

section \<open>The devices the neighbours name\<close>

definition sort_ipv6 :: "string list \<Rightarrow> string list" where
  "sort_ipv6 ips =
     sort (filter (\<lambda>ip. \<not> starts_with ''fe80'' ip) ips) @ sort (filter (\<lambda>ip. starts_with ''fe80'' ip) ips)"

definition device_subnet :: "interface \<Rightarrow> string list \<Rightarrow> string" where
  "device_subnet f v4 =
     (case (case v4 of [] \<Rightarrow> None | ip # _ \<Rightarrow> List.find (ipv4_in_cidr ip) (if_ipv4_cidrs f)) of
        Some c \<Rightarrow> c
      | None \<Rightarrow> (case if_ipv4_cidrs f of c # _ \<Rightarrow> c
                 | [] \<Rightarrow> (case if_ipv6_cidrs f of c # _ \<Rightarrow> c | [] \<Rightarrow> ''-'')))"

definition device_hostname :: "monitor_runtime \<Rightarrow> device_key \<Rightarrow> string" where
  "device_hostname rt key =
     (case (case map_of (rt_registry rt) key of
              None \<Rightarrow> None
            | Some kd \<Rightarrow> let h = trim (kd_hostname kd) in if h = [] \<or> h = ''-'' then None else Some (kd_hostname kd)) of
        Some h \<Rightarrow> h
      | None \<Rightarrow> (case rt_cached_hostnames rt (snd key) of Some h \<Rightarrow> h | None \<Rightarrow> ''-''))"

definition neighbor_device ::
  "topology \<Rightarrow> string list \<Rightarrow> u64 \<Rightarrow> monitor_runtime \<Rightarrow> (string \<times> mac) \<times> device_ips \<Rightarrow> device_group \<Rightarrow> device_group" where
  "neighbor_device t monitor_ifaces now rt e devices =
     (let ((dev, m), (v4, v6, st)) = e in
      case names_of t dev of
        None \<Rightarrow> devices
      | Some i \<Rightarrow> (case by_ifindex t i of
          None \<Rightarrow> devices
        | Some f \<Rightarrow>
            if is_wan_zone (if_zone f) then devices
            else if monitor_ifaces \<noteq> [] \<and> if_name f \<notin> set monitor_ifaces then devices
            else if v4 = [] \<and> v6 = [] then devices
            else AList.update (i, m)
              \<lparr>di_ifindex = i, di_logical_iface = if_name f, di_subnet = device_subnet f v4, di_ipv4 = v4,
               di_ipv6 = sort_ipv6 v6, di_mac = mac_to_string m, di_hostname = device_hostname rt (i, m),
               di_metrics = quad_default, di_cumulative = quad_default, di_online = True, di_last_seen_ms = now,
               di_neighbor_state = Some st\<rparr> devices))"

text \<open>Neighbours, host names, ownership and the devices they name, in the order of the code.\<close>

definition neighbor_devices ::
  "snap_input \<Rightarrow> snap_options \<Rightarrow> topology \<Rightarrow> bool \<Rightarrow> monitor_runtime \<Rightarrow> device_group \<times> monitor_runtime" where
  "neighbor_devices inp opts t refresh rt =
     (let now = si_now inp;
          (ns, rt1) = refresh_neighbors inp opts t refresh rt;
          rt2 = expire_ownership now t (refresh_hostnames inp rt1);
          (groups, rt3) = fold (group_neighbor (so_enable_ecm opts) t now) ns ([], rt2)
      in (fold (neighbor_device t (so_monitor_ifaces opts) now rt3) groups [], rt3))"

section \<open>Device counters\<close>

record tc_state =
  tc_devices :: device_group
  tc_mcast :: "(u32 \<times> quad) list"
  tc_bcast :: "(u32 \<times> quad) list"
  tc_unresolved :: "(u32 \<times> quad) list"
  tc_inactive :: "device_traffic_key list"
  tc_rt :: monitor_runtime

definition add_device_metrics :: "device_key \<Rightarrow> (quad \<Rightarrow> quad) \<Rightarrow> device_group \<Rightarrow> device_group" where
  "add_device_metrics key f devices =
     (case map_of devices key of
        None \<Rightarrow> devices
      | Some d \<Rightarrow> AList.update key (d\<lparr>di_metrics := f (di_metrics d)\<rparr>) devices)"

fun device_traffic_step ::
  "u64 \<Rightarrow> bool \<Rightarrow> rat \<Rightarrow> u32 option \<Rightarrow> device_traffic_key \<times> traffic_value \<Rightarrow> tc_state \<Rightarrow> tc_state" where
  "device_traffic_step now prune sec wan (k, v) s =
     (let rt = tc_rt s;
          prev = (case rt_prev_device_bytes rt k of None \<Rightarrow> 0 | Some p \<Rightarrow> p);
          delta = delta_bytes (tv_bytes v) prev;
          rt1 = rt\<lparr>rt_prev_device_bytes := (rt_prev_device_bytes rt)(k \<mapsto> tv_bytes v)\<rparr>
      in if delta = 0
         then (let last_active = (case rt_device_last_active_ms rt1 k of None \<Rightarrow> now | Some a \<Rightarrow> a)
               in s\<lparr>tc_inactive := (if prune \<and> sat_sub now last_active \<ge> 86400000 then tc_inactive s @ [k] else tc_inactive s),
                    tc_rt := rt1\<lparr>rt_device_last_active_ms := (rt_device_last_active_ms rt1)(k \<mapsto> last_active)\<rparr>\<rparr>)
         else (let rt2 = rt1\<lparr>rt_device_last_active_ms := (rt_device_last_active_ms rt1)(k \<mapsto> now)\<rparr>;
                   is_wan = (wan = Some (dk_ifindex k));
                   fill = (if is_wan then fill_quad_wan else fill_quad) (dk_ip_version k) (dk_direction k) delta sec;
                   devices = (if \<not> is_wan \<and> \<not> is_multicast_mac (dk_mac k)
                              then activate_known_device (rt_registry rt2) (dk_ifindex k, dk_mac k) now (tc_devices s)
                              else tc_devices s);
                   s1 = s\<lparr>tc_devices := devices, tc_rt := rt2\<rparr>
               in if is_broadcast_mac (dk_mac k) then s1\<lparr>tc_bcast := upd_entry (dk_ifindex k) quad_default fill (tc_bcast s1)\<rparr>
                  else if is_multicast_mac (dk_mac k) then s1\<lparr>tc_mcast := upd_entry (dk_ifindex k) quad_default fill (tc_mcast s1)\<rparr>
                  else if map_of devices (dk_ifindex k, dk_mac k) \<noteq> None
                  then s1\<lparr>tc_devices := add_device_metrics (dk_ifindex k, dk_mac k)
                            (fill_quad (dk_ip_version k) (dk_direction k) delta sec) devices\<rparr>
                  else if is_wan then s1
                  else s1\<lparr>tc_unresolved := upd_entry (dk_ifindex k) quad_default
                            (fill_quad (dk_ip_version k) (dk_direction k) delta sec) (tc_unresolved s1)\<rparr>))"

definition account_devices ::
  "u64 \<Rightarrow> bool \<Rightarrow> rat \<Rightarrow> u32 option \<Rightarrow> (device_traffic_key \<times> traffic_value) list \<Rightarrow> device_group \<Rightarrow> monitor_runtime \<Rightarrow> tc_state" where
  "account_devices now prune sec wan stats devices rt =
     fold (device_traffic_step now prune sec wan) stats
       \<lparr>tc_devices = devices, tc_mcast = [], tc_bcast = [], tc_unresolved = [], tc_inactive = [], tc_rt = rt\<rparr>"

text \<open>A counter leaves the kernel's map and the baselines together; without the map the tick fails.\<close>

definition prune_device_counters ::
  "bool \<Rightarrow> (device_traffic_key \<Rightarrow> bool) \<Rightarrow> device_traffic_key list \<Rightarrow> monitor_runtime
   \<Rightarrow> (device_traffic_key list \<times> monitor_runtime) option" where
  "prune_device_counters writable remove_ok inactive rt =
     (if inactive = [] then Some ([], rt)
      else if \<not> writable then None
      else Some (fold (\<lambda>k (removed, rt).
             if remove_ok k
             then (removed @ [k],
                   rt\<lparr>rt_prev_device_bytes := (rt_prev_device_bytes rt)(k := None),
                      rt_device_last_active_ms := (rt_device_last_active_ms rt)(k := None)\<rparr>)
             else (removed, rt)) inactive ([], rt)))"


section \<open>Offloaded traffic\<close>

abbreviation ecm_unresolved_global_key :: u32 where "ecm_unresolved_global_key \<equiv> 0xFFFFFFFF"

definition mac_wan :: mac where "mac_wan = [2, 0, 0, 0, 0, 0]"

record ecm_subnets =
  es_local_v4 :: "(u32 \<times> u32 \<times> u32) list"
  es_wan_v4 :: "(u32 \<times> u32) list"
  es_wan_v4_ips :: "u32 list"
  es_wan_v6_ips :: "u32 list list"
  es_local_v6 :: "(u32 \<times> 128 word \<times> 128 word) list"

definition wan_ipv6_words :: "string \<Rightarrow> u32 list option" where
  "wan_ipv6_words cidr =
     map_option ipv6_words (parse_ipv6 (hd (split_on (CHR ''/'') (hd (split_on (CHR ''%'') cidr)))))"

definition add_subnets :: "interface \<Rightarrow> ecm_subnets \<Rightarrow> ecm_subnets" where
  "add_subnets f s =
     (if if_zone f = ''wan''
      then s\<lparr>es_wan_v4 := es_wan_v4 s @ List.map_filter parse_cidr_to_u32 (if_ipv4_cidrs f),
             es_wan_v4_ips := es_wan_v4_ips s
               @ List.map_filter (\<lambda>c. parse_ipv4 (hd (split_on (CHR ''/'') c))) (if_ipv4_cidrs f),
             es_wan_v6_ips := es_wan_v6_ips s @ List.map_filter wan_ipv6_words (if_ipv6_cidrs f)\<rparr>
      else s\<lparr>es_local_v4 := es_local_v4 s
               @ List.map_filter (\<lambda>c. map_option (\<lambda>(net, m). (if_ifindex f, net, m)) (parse_cidr_to_u32 c)) (if_ipv4_cidrs f)\<rparr>)"

definition ecm_subnets_of :: "topology \<Rightarrow> (u32 \<times> 128 word \<times> 128 word) list \<Rightarrow> ecm_subnets" where
  "ecm_subnets_of t v6 =
     fold add_subnets (topology_interfaces t)
       \<lparr>es_local_v4 = [], es_wan_v4 = [], es_wan_v4_ips = [], es_wan_v6_ips = [], es_local_v6 = v6\<rparr>"

definition match_v4 :: "ecm_subnets \<Rightarrow> u32 \<Rightarrow> subnet_match" where
  "match_v4 s ip = unique_subnet_iface (map fst (filter (\<lambda>(_, net, m). ip AND m = net AND m) (es_local_v4 s)))"

definition match_v6 :: "ecm_subnets \<Rightarrow> 128 word \<Rightarrow> subnet_match" where
  "match_v6 s ip = unique_subnet_iface (map fst (filter (\<lambda>(_, net, m). ip AND m = net AND m) (es_local_v6 s)))"

text \<open>Where the traffic of an address without a known owner goes: nowhere (the router's own WAN address),
  to the one interface whose subnet holds it, to the global unresolved counter, or to the internet.\<close>

datatype ecm_class = EcmSkip | EcmIface u32 | EcmUnresolved | EcmExternal

definition classify_ecm :: "ecm_subnets \<Rightarrow> ecm_traffic_key \<Rightarrow> ecm_class" where
  "classify_ecm s k =
     (if ek_ip_version k = 4
      then (let ip = ek_ip k ! 0 in
        if ip \<in> set (es_wan_v4_ips s) then EcmSkip
        else (let is_wan_subnet = list_ex (\<lambda>(net, m). ip AND m = net AND m) (es_wan_v4 s) in
          case match_v4 s ip of
            MatchUnique i \<Rightarrow> EcmIface i
          | r \<Rightarrow> if r = MatchAmbiguous \<or> (\<not> is_wan_subnet \<and> is_private_or_local_ipv4 ip) then EcmUnresolved
                 else EcmExternal))
      else if ek_ip_version k = 6
      then (if ek_ip k \<in> set (es_wan_v6_ips s) then EcmSkip
        else (case match_v6 s (u128_of_words (ek_ip k)) of
            MatchUnique i \<Rightarrow> EcmIface i
          | r \<Rightarrow> if r = MatchAmbiguous \<or> is_local_ipv6_word (ek_ip k ! 0) then EcmUnresolved else EcmExternal))
      else EcmExternal)"

record ecm_state =
  ec_devices :: device_group
  ec_wan :: quad
  ec_unresolved :: "(u32 \<times> quad) list"
  ec_lan :: "(u32 \<times> quad) list"
  ec_active :: "device_key set"
  ec_prune :: "ecm_traffic_key list"
  ec_rt :: monitor_runtime

fun ecm_traffic_step :: "u64 \<Rightarrow> rat \<Rightarrow> ecm_subnets \<Rightarrow> ecm_traffic_key \<times> traffic_value \<Rightarrow> ecm_state \<Rightarrow> ecm_state" where
  "ecm_traffic_step now sec sn (k, v) s =
     (let (delta, rt) = ecm_delta k (tv_bytes v) now (ec_rt s);
          s1 = s\<lparr>ec_rt := rt\<rparr>;
          fill = fill_quad (ek_ip_version k) (ek_direction k) delta sec
      in if delta = 0
         then (let last_active = (case rt_ecm_last_active_ms rt k of None \<Rightarrow> now | Some a \<Rightarrow> a)
               in if sat_sub now last_active \<ge> ecm_idle_timeout_ms then s1\<lparr>ec_prune := ec_prune s1 @ [k]\<rparr> else s1)
         else (case (case rt_neighbor_ownership rt (ek_ip k, ek_ip_version k) of None \<Rightarrow> None | Some ow \<Rightarrow> valid_owner now ow) of
             Some key \<Rightarrow>
               (let devices = activate_known_device (rt_registry rt) key now (ec_devices s1);
                    s2 = s1\<lparr>ec_devices := devices\<rparr>
                in if map_of devices key \<noteq> None
                   then s2\<lparr>ec_devices := add_device_metrics key fill devices, ec_active := insert key (ec_active s2),
                           ec_lan := upd_entry (fst key) quad_default fill (ec_lan s2)\<rparr>
                   else s2)
           | None \<Rightarrow>
               (case classify_ecm sn k of
                  EcmSkip \<Rightarrow> s1
                | EcmIface i \<Rightarrow> s1\<lparr>ec_lan := upd_entry i quad_default fill (ec_lan s1),
                                   ec_unresolved := upd_entry i quad_default fill (ec_unresolved s1)\<rparr>
                | EcmUnresolved \<Rightarrow> s1\<lparr>ec_unresolved := upd_entry ecm_unresolved_global_key quad_default fill (ec_unresolved s1)\<rparr>
                | EcmExternal \<Rightarrow> s1\<lparr>ec_wan := fill_quad_wan (ek_ip_version k) (ek_direction k) delta sec (ec_wan s1)\<rparr>)))"

text \<open>An idle key is deleted only if its counter is still what the baseline says.\<close>

definition prune_ecm_key ::
  "snap_input \<Rightarrow> ecm_traffic_key \<Rightarrow> ecm_traffic_key list \<times> (ecm_traffic_key \<times> traffic_value) list \<times> monitor_runtime
   \<Rightarrow> ecm_traffic_key list \<times> (ecm_traffic_key \<times> traffic_value) list \<times> monitor_runtime" where
  "prune_ecm_key inp k s =
     (let (removed, stats, rt) = s in
      case si_ecm_now inp k of
        None \<Rightarrow> s
      | Some vs \<Rightarrow>
          if rt_prev_ecm_bytes rt k \<noteq> Some (foldl (\<lambda>a v. sat_add a (tv_bytes v)) 0 vs) then s
          else if si_ecm_remove inp k
          then (removed @ [k], AList.delete k stats,
                rt\<lparr>rt_prev_ecm_bytes := (rt_prev_ecm_bytes rt)(k := None),
                   rt_ecm_last_active_ms := (rt_ecm_last_active_ms rt)(k := None)\<rparr>)
          else s)"

definition note_ecm_capacity :: "u64 \<Rightarrow> nat \<Rightarrow> monitor_runtime \<Rightarrow> monitor_runtime" where
  "note_ecm_capacity now entries rt =
     (if entries > 16384 * 90 div 100 \<and> sat_sub now (rt_last_ecm_capacity_warn_ms rt) \<ge> 60000
      then rt\<lparr>rt_last_ecm_capacity_warn_ms := now\<rparr> else rt)"

definition account_ecm ::
  "snap_input \<Rightarrow> bool \<Rightarrow> rat \<Rightarrow> topology \<Rightarrow> (u32 \<times> 128 word \<times> 128 word) list \<Rightarrow> (ecm_traffic_key \<times> traffic_value) list
   \<Rightarrow> device_group \<Rightarrow> monitor_runtime \<Rightarrow> ecm_state \<times> ecm_traffic_key list" where
  "account_ecm inp run sec t v6 stats devices rt =
     (let s0 = \<lparr>ec_devices = devices, ec_wan = quad_default, ec_unresolved = [], ec_lan = [], ec_active = {},
                ec_prune = [], ec_rt = rt\<rparr>
      in if run \<and> stats \<noteq> []
         then (let s = fold (ecm_traffic_step (si_now inp) sec (ecm_subnets_of t v6)) stats s0;
                   (removed, stats', rt1) =
                     (if si_ecm_map_writable inp then fold (prune_ecm_key inp) (ec_prune s) ([], stats, ec_rt s)
                      else ([], stats, ec_rt s));
                   rt2 = note_ecm_capacity (si_now inp) (length stats') rt1
               in (s\<lparr>ec_rt := rt2\<lparr>rt_prev_ecm_bytes := retain (\<lambda>k _. k \<in> fst ` set stats') (rt_prev_ecm_bytes rt2),
                                  rt_ecm_last_active_ms := retain (\<lambda>k _. k \<in> fst ` set stats') (rt_ecm_last_active_ms rt2)\<rparr>\<rparr>,
                   removed))
         else if run
         then (s0\<lparr>ec_rt := rt\<lparr>rt_prev_ecm_bytes := Map.empty, rt_ecm_last_active_ms := Map.empty\<rparr>\<rparr>, [])
         else (s0, []))"


section \<open>Totals and rates of the devices\<close>

text \<open>The internet as a device of the WAN interface. \<open>Panic\<close> is the \<open>unwrap\<close> of the interface's name.\<close>

definition add_wan_device ::
  "topology \<Rightarrow> u64 \<Rightarrow> quad \<Rightarrow> ecm_state \<Rightarrow> ecm_state res" where
  "add_wan_device t now wan_tc s =
     (case wan_index t of
        None \<Rightarrow> Ok s
      | Some i \<Rightarrow>
         bindr (case map_of (ec_devices s) (i, mac_wan) of
                  Some d \<Rightarrow> Ok d
                | None \<Rightarrow> (case by_ifindex t i of
                    None \<Rightarrow> Panic
                  | Some f \<Rightarrow> Ok \<lparr>di_ifindex = i, di_logical_iface = if_name f, di_subnet = [], di_ipv4 = [], di_ipv6 = [],
                      di_mac = mac_to_string mac_wan, di_hostname = ''WAN (External)'', di_metrics = quad_default,
                      di_cumulative = quad_default, di_online = True, di_last_seen_ms = now, di_neighbor_state = None\<rparr>))
           (\<lambda>d. let m1 = (if quad_is_empty wan_tc then di_metrics d else add_quad (di_metrics d) wan_tc);
                    m2 = (if quad_is_empty (ec_wan s) then m1 else add_quad m1 (ec_wan s))
                in Ok (s\<lparr>ec_devices := AList.update (i, mac_wan)
                             (d\<lparr>di_online := True, di_last_seen_ms := now, di_metrics := m2\<rparr>) (ec_devices s),
                         ec_active := (if quad_is_empty (ec_wan s) then ec_active s else insert (i, mac_wan) (ec_active s))\<rparr>)))"

text \<open>Devices with offloaded traffic are smoothed, and for two more ticks after it stopped.\<close>

definition total_device ::
  "device_key set \<Rightarrow> device_key \<times> device_item \<Rightarrow> device_group \<times> monitor_runtime \<Rightarrow> device_group \<times> monitor_runtime" where
  "total_device active e s =
     (let (key, d) = e; (done', rt) = s;
          cum = add_quad (case map_of (rt_cumulative_device rt) key of None \<Rightarrow> quad_default | Some c \<Rightarrow> c) (di_metrics d);
          rt1 = rt\<lparr>rt_cumulative_device := AList.update key cum (rt_cumulative_device rt)\<rparr>;
          d1 = d\<lparr>di_cumulative := cum\<rparr>
      in case rt_ecm_device_grace_ticks rt1 key of
           Some grace \<Rightarrow>
             (let smoothed = smooth_rates (di_metrics d)
                    (case rt_smoothed_rates rt1 key of None \<Rightarrow> quad_default | Some q \<Rightarrow> q)
              in (done' @ [(key, d1\<lparr>di_metrics := take_rates smoothed (di_metrics d)\<rparr>)],
                  rt1\<lparr>rt_smoothed_rates := (rt_smoothed_rates rt1)(key \<mapsto> smoothed),
                      rt_ecm_device_grace_ticks := (rt_ecm_device_grace_ticks rt1)
                        (key \<mapsto> (if key \<in> active then grace else sat_sub grace 1))\<rparr>))
         | None \<Rightarrow> (done' @ [(key, d1)], rt1\<lparr>rt_smoothed_rates := (rt_smoothed_rates rt1)(key \<mapsto> di_metrics d)\<rparr>))"

definition total_devices :: "device_key set \<Rightarrow> device_group \<Rightarrow> monitor_runtime \<Rightarrow> device_group \<times> monitor_runtime" where
  "total_devices active devices rt =
     (let rt0 = rt\<lparr>rt_ecm_device_grace_ticks :=
                    (\<lambda>k. if k \<in> active then Some 2 else rt_ecm_device_grace_ticks rt k)\<rparr>;
          (devices', rt1) = fold (total_device active) devices ([], rt0);
          known = (\<lambda>k. k \<in> fst ` set devices')
      in (devices',
          rt1\<lparr>rt_ecm_device_grace_ticks := retain (\<lambda>k g. known k \<and> (g > 0 \<or> k \<in> active)) (rt_ecm_device_grace_ticks rt1),
              rt_smoothed_rates := retain (\<lambda>k _. known k) (rt_smoothed_rates rt1)\<rparr>))"

section \<open>The registry and the device list\<close>

definition register_device :: "u64 \<Rightarrow> device_key \<times> device_item \<Rightarrow> registry \<Rightarrow> registry" where
  "register_device now e reg =
     (let (key, d) = e in
      AList.update key
        \<lparr>kd_ifindex = di_ifindex d, kd_mac = snd key, kd_ipv4 = di_ipv4 d, kd_ipv6 = di_ipv6 d,
         kd_hostname = di_hostname d, kd_logical_iface = di_logical_iface d, kd_subnet = di_subnet d,
         kd_last_seen_ms = now\<rparr> reg)"

definition offline_listed :: "topology \<Rightarrow> string list \<Rightarrow> known_device \<Rightarrow> bool" where
  "offline_listed t monitor_ifaces kd =
     (monitor_ifaces = [] \<or> (case by_ifindex t (kd_ifindex kd) of None \<Rightarrow> False | Some f \<Rightarrow> if_name f \<in> set monitor_ifaces))"

definition list_devices :: "topology \<Rightarrow> string list \<Rightarrow> device_group \<Rightarrow> monitor_runtime \<Rightarrow> device_item list" where
  "list_devices t monitor_ifaces devices rt =
     sort_key device_order
       (map snd devices
        @ map (\<lambda>(key, kd). offline_device (rt_cumulative_device rt) (mac_to_string (kd_mac kd)) (kd_ifindex kd) key kd)
            (filter (\<lambda>(key, kd). key \<notin> fst ` set devices \<and> offline_listed t monitor_ifaces kd) (rt_registry rt)))"

definition add_wan_iface :: "topology \<Rightarrow> monitor_runtime \<Rightarrow> iface_item list \<Rightarrow> iface_item list" where
  "add_wan_iface t rt items =
     (if list_ex (\<lambda>i. ii_zone i = ''wan'') items then items
      else (case List.find (\<lambda>i. if_zone i = ''wan'') (topology_interfaces t) of
              None \<Rightarrow> items
            | Some f \<Rightarrow> items @ [\<lparr>ii_ifindex = if_ifindex f, ii_ifname = if_name f, ii_zone = ''wan'', ii_metrics = quad_default,
                ii_cumulative = (case map_of (rt_cumulative_iface rt) (if_ifindex f) of None \<Rightarrow> quad_default | Some c \<Rightarrow> c),
                ii_mcast_metrics = quad_default, ii_bcast_metrics = quad_default, ii_unresolved_metrics = quad_default\<rparr>]))"

section \<open>Offloaded traffic of the interfaces\<close>

text \<open>Smoothed rates without traffic decay until they vanish; the others are smoothed with the new traffic.
  The result is the new smoothed map; what it holds is also what the interfaces are shown.\<close>

definition decay_absent :: "(u32 \<times> quad) list \<Rightarrow> (u32 \<times> quad) list \<Rightarrow> (u32 \<times> quad) list" where
  "decay_absent metrics smoothed =
     filter (\<lambda>(i, s). map_of metrics i \<noteq> None \<or> \<not> rates_zero s)
       (map (\<lambda>(i, s). if map_of metrics i = None then (i, decay_rates s) else (i, s)) smoothed)"

definition smooth_present :: "(u32 \<times> quad) list \<Rightarrow> (u32 \<times> quad) list \<Rightarrow> (u32 \<times> quad) list" where
  "smooth_present metrics smoothed =
     fold (\<lambda>(i, m). upd_entry i quad_default (\<lambda>s. take_bytes m (smooth_rates m s))) metrics smoothed"

definition smooth_ecm_map :: "(u32 \<times> quad) list \<Rightarrow> (u32 \<times> quad) list \<Rightarrow> (u32 \<times> quad) list" where
  "smooth_ecm_map metrics smoothed = smooth_present metrics (decay_absent metrics smoothed)"

definition smooth_wan :: "quad \<Rightarrow> quad option \<Rightarrow> quad" where
  "smooth_wan m old =
     (let s = (case old of None \<Rightarrow> quad_default | Some s \<Rightarrow> s)
      in if quad_is_empty m then decay_rates s else take_bytes m (smooth_rates m s))"

definition add_rates_wrapping :: "quad \<Rightarrow> quad \<Rightarrow> quad" where
  "add_rates_wrapping s q =
     q\<lparr>q_up_v4_bps := q_up_v4_bps q + q_up_v4_bps s, q_down_v4_bps := q_down_v4_bps q + q_down_v4_bps s,
       q_up_v6_bps := q_up_v6_bps q + q_up_v6_bps s, q_down_v6_bps := q_down_v6_bps q + q_down_v6_bps s\<rparr>"

record ecm_rates =
  er_lan_raw :: "(u32 \<times> quad) list"
  er_lan :: "(u32 \<times> quad) list"
  er_unresolved_raw :: "(u32 \<times> quad) list"
  er_unresolved :: "(u32 \<times> quad) list"
  er_wan_raw :: quad
  er_wan :: quad

definition inject_ecm :: "u32 option \<Rightarrow> ecm_rates \<Rightarrow> iface_item \<Rightarrow> monitor_runtime \<Rightarrow> iface_item \<times> monitor_runtime" where
  "inject_ecm wan r it rt =
     (let i = ii_ifindex it;
          cum_unres = (case map_of (rt_cumulative_unresolved rt) i of None \<Rightarrow> quad_default | Some q \<Rightarrow> q);
          (it1, ci1) = (case map_of (er_lan r) i of
             None \<Rightarrow> (it, rt_cumulative_iface rt)
           | Some lan \<Rightarrow>
              (let cum = (case map_of (rt_cumulative_iface rt) i of None \<Rightarrow> quad_default | Some c \<Rightarrow> c);
                   cum' = (case map_of (er_lan_raw r) i of None \<Rightarrow> cum | Some raw \<Rightarrow> add_quad cum raw)
               in (it\<lparr>ii_cumulative := cum', ii_metrics := add_quad (ii_metrics it) lan\<rparr>,
                   AList.update i cum' (rt_cumulative_iface rt))));
          (unres, cum_unres') = (case map_of (er_unresolved r) i of
             None \<Rightarrow> (ii_unresolved_metrics it1, cum_unres)
           | Some u \<Rightarrow> (add_rates_wrapping u (ii_unresolved_metrics it1),
                       case map_of (er_unresolved_raw r) i of None \<Rightarrow> cum_unres | Some raw \<Rightarrow> add_bytes_quad cum_unres raw));
          it2 = it1\<lparr>ii_unresolved_metrics := take_bytes cum_unres' unres\<rparr>;
          (it3, ci2) = (if wan = Some i
             then (let cum = add_quad (case map_of ci1 i of None \<Rightarrow> quad_default | Some c \<Rightarrow> c) (er_wan_raw r)
                   in (it2\<lparr>ii_cumulative := cum, ii_metrics := add_quad (ii_metrics it2) (er_wan r)\<rparr>, AList.update i cum ci1))
             else (it2, ci1))
      in (it3, rt\<lparr>rt_cumulative_iface := ci2,
                  rt_cumulative_unresolved := AList.update i cum_unres' (rt_cumulative_unresolved rt)\<rparr>))"

fun inject_ecm_all :: "u32 option \<Rightarrow> ecm_rates \<Rightarrow> iface_item list \<Rightarrow> monitor_runtime \<Rightarrow> iface_item list \<times> monitor_runtime" where
  "inject_ecm_all wan r [] rt = ([], rt)"
| "inject_ecm_all wan r (it # its) rt =
     (let (it', rt1) = inject_ecm wan r it rt; (its', rt2) = inject_ecm_all wan r its rt1 in (it' # its', rt2))"

definition ecm_on_ifaces :: "topology \<Rightarrow> ecm_state \<Rightarrow> iface_item list \<Rightarrow> monitor_runtime \<Rightarrow> iface_item list \<times> monitor_runtime" where
  "ecm_on_ifaces t s items rt =
     (let lan = smooth_ecm_map (ec_lan s) (rt_smoothed_lan_ecm_rates rt);
          unres = smooth_ecm_map (ec_unresolved s) (rt_smoothed_unresolved_ecm_rates rt);
          wan = smooth_wan (ec_wan s) (rt_smoothed_wan_ecm_rates rt)
      in inject_ecm_all (wan_index t)
           \<lparr>er_lan_raw = ec_lan s, er_lan = lan, er_unresolved_raw = ec_unresolved s, er_unresolved = unres,
            er_wan_raw = ec_wan s, er_wan = wan\<rparr> items
           (rt\<lparr>rt_smoothed_lan_ecm_rates := lan, rt_smoothed_unresolved_ecm_rates := unres,
               rt_smoothed_wan_ecm_rates := Some wan\<rparr>))"


section \<open>The tick\<close>

datatype snap_outcome =
    SnapPanic
  | SnapErr monitor_runtime
  | SnapOk snapshot_data snap_effects monitor_runtime

definition finish_snapshot ::
  "snap_input \<Rightarrow> snap_options \<Rightarrow> topology \<Rightarrow> bool \<Rightarrow> iface_state \<Rightarrow> tc_state \<Rightarrow> snap_effects \<Rightarrow> ecm_state \<Rightarrow> snap_outcome" where
  "finish_snapshot inp opts t ecm_ok ifs tc eff ecm =
     (let now = si_now inp;
          (devices, rt1) = total_devices (ec_active ecm) (ec_devices ecm) (ec_rt ecm);
          rt2 = rt1\<lparr>rt_registry := fold (register_device now) devices (rt_registry rt1)\<rparr>;
          listed = list_devices t (so_monitor_ifaces opts) devices rt2;
          (items, rt3) = apply_tc_breakdowns (tc_mcast tc) (tc_bcast tc) (tc_unresolved tc)
                           (add_wan_iface t rt2 (is_items ifs)) rt2;
          (items', rt4) = (if ecm_ok then ecm_on_ifaces t ecm items rt3 else (items, rt3))
      in SnapOk \<lparr>sd_timestamp_ms = now, sd_interfaces = items', sd_devices = listed\<rparr> eff rt4)"

text \<open>The readings and counters up to the pruning of idle device counters.\<close>

record tick_state =
  tk_ifs :: iface_state
  tk_tc :: tc_state
  tk_ecm_stats :: "(ecm_traffic_key \<times> traffic_value) list"
  tk_ecm_ok :: bool
  tk_ecm_sec :: rat
  tk_sync :: bool

definition book_counters ::
  "snap_input \<Rightarrow> snap_options \<Rightarrow> topology \<Rightarrow> (iface_traffic_key \<times> traffic_value) list
   \<Rightarrow> (device_traffic_key \<times> traffic_value) list \<Rightarrow> u64 \<Rightarrow> monitor_runtime \<Rightarrow> tick_state" where
  "book_counters inp opts t iface_stats device_stats failures rt =
     (let now = si_now inp; enable_ecm = so_enable_ecm opts;
          (prune, rt1) = device_prune_due now (note_insert_failures now failures rt);
          (ecm_stats, ecm_ok, refresh, rt2) = ecm_reading enable_ecm inp t rt1;
          sec = snapshot_seconds (so_interval opts) now (rt_last_snapshot_ms rt2);
          rt3 = rt2\<lparr>rt_last_snapshot_ms := Some now\<rparr>;
          (ecm_sec, rt4) = (if enable_ecm then ecm_interval_seconds now sec ecm_ok rt3 else (sec, rt3));
          sync = (sat_sub now (rt_last_sync_tracking_ms rt4) \<ge> 60000);
          rt5 = (if sync then rt4\<lparr>rt_last_sync_tracking_ms := now\<rparr> else rt4);
          ifs = account_ifaces t (so_monitor_ifaces opts) iface_stats sec rt5;
          (devices, rt6) = neighbor_devices inp opts t refresh (is_rt ifs)
      in \<lparr>tk_ifs = ifs, tk_tc = account_devices now prune sec (wan_index t) device_stats devices rt6,
          tk_ecm_stats = ecm_stats, tk_ecm_ok = ecm_ok, tk_ecm_sec = ecm_sec, tk_sync = sync\<rparr>)"

definition collect_snapshot :: "snap_input \<Rightarrow> snap_options \<Rightarrow> topology \<Rightarrow> monitor_runtime \<Rightarrow> snap_outcome" where
  "collect_snapshot inp opts t rt =
     (case (read_iface_stats (si_iface_map inp), read_device_stats (si_device_map inp)) of
        (Some iface_stats, Some device_stats) \<Rightarrow>
          (let rt1 = note_device_capacity (si_now inp) (length device_stats) rt in
           case read_device_insert_failures (si_failures inp) of
             None \<Rightarrow> SnapErr rt1
           | Some failures \<Rightarrow>
              (let tk = book_counters inp opts t iface_stats device_stats failures rt1 in
               case prune_device_counters (si_device_map_writable inp) (si_device_remove inp) (tc_inactive (tk_tc tk)) (tc_rt (tk_tc tk)) of
                 None \<Rightarrow> SnapErr (tc_rt (tk_tc tk))
               | Some (removed, rt2) \<Rightarrow>
                   (let (ecm, removed_ecm) = account_ecm inp (so_enable_ecm opts \<and> tk_ecm_ok tk) (tk_ecm_sec tk) t
                          (local_v6_subnets (so_enable_ecm opts) t) (tk_ecm_stats tk) (tc_devices (tk_tc tk)) rt2;
                        eff = \<lparr>se_removed_devices = removed, se_removed_ecm = removed_ecm, se_sync_filters = tk_sync tk\<rparr>
                    in case add_wan_device t (si_now inp) (is_wan_metrics (tk_ifs tk)) ecm of
                         Ok ecm' \<Rightarrow> finish_snapshot inp opts t (so_enable_ecm opts \<and> tk_ecm_ok tk) (tk_ifs tk) (tk_tc tk) eff ecm'
                       | _ \<Rightarrow> SnapPanic)))
      | _ \<Rightarrow> SnapErr rt)"

end
