(* ===== verification/Ledger.thy ===== *)
theory Ledger
  imports Snapshot
begin

text \<open>
  The accounting of a tick is exact: every increment of a kernel counter is booked to one place, and
  the balance of a place after the tick is what it was plus all increments booked to it, up to the
  largest 64 bit number. The three loops over counters (interfaces, devices, offloaded addresses)
  share one contract, the locale \<open>saturating_ledger\<close>.
\<close>

section \<open>Saturating ledgers\<close>

text \<open>
  A step books the entry \<open>x\<close>: it adds \<open>amount x d\<close> to the balance of every place \<open>d\<close>, with
  saturation. \<open>inv xs s\<close> is what the remaining entries \<open>xs\<close> need of the state.
\<close>

locale saturating_ledger =
  fixes step :: "'x \<Rightarrow> 's \<Rightarrow> 's"
    and balance :: "'s \<Rightarrow> 'd \<Rightarrow> u64"
    and amount :: "'x \<Rightarrow> 'd \<Rightarrow> u64"
    and inv :: "'x list \<Rightarrow> 's \<Rightarrow> bool"
  assumes step_inv: "inv (x # xs) s \<Longrightarrow> inv xs (step x s)"
    and step_balance: "inv (x # xs) s \<Longrightarrow> balance (step x s) d = sat_add (balance s d) (amount x d)"
begin

lemma fold_inv: "inv xs s \<Longrightarrow> inv [] (fold step xs s)"
  by (induction xs arbitrary: s) (auto dest: step_inv)

lemma fold_balance:
  "inv xs s \<Longrightarrow> unat (balance (fold step xs s) d)
     = min (unat (balance s d) + (\<Sum>x\<leftarrow>xs. unat (amount x d))) (2 ^ 64 - 1)"
proof (induction xs arbitrary: s)
  case Nil
  then show ?case using unat_lt [of "balance s d"] by simp
next
  case (Cons x xs)
  have "unat (balance (fold step xs (step x s)) d)
      = min (unat (balance (step x s) d) + (\<Sum>x\<leftarrow>xs. unat (amount x d))) (2 ^ 64 - 1)"
    by (rule Cons.IH [OF step_inv [OF Cons.prems]])
  moreover have "unat (balance (step x s) d) = min (unat (balance s d) + unat (amount x d)) (2 ^ 64 - 1)"
    by (simp add: step_balance [OF Cons.prems] unat_sat_add)
  ultimately show ?case by simp
qed

text \<open>Below the limit nothing is lost.\<close>

lemma fold_balance_exact:
  assumes "inv xs s" and "unat (balance s d) + (\<Sum>x\<leftarrow>xs. unat (amount x d)) < 2 ^ 64"
  shows "unat (balance (fold step xs s) d) = unat (balance s d) + (\<Sum>x\<leftarrow>xs. unat (amount x d))"
  using fold_balance [OF assms(1), of d] assms(2) by simp

end

definition quad_at :: "('k \<times> quad) list \<Rightarrow> 'k \<Rightarrow> quad" where
  "quad_at m k = (case map_of m k of None \<Rightarrow> quad_default | Some q \<Rightarrow> q)"

lemma quad_at_upd_entry: "quad_at (upd_entry k quad_default f m) j = (if j = k then f (quad_at m k) else quad_at m j)"
  by (simp add: quad_at_def map_of_upd_entry)

lemma quad_at_update: "quad_at (AList.update k q m) j = (if j = k then q else quad_at m j)"
  by (simp add: quad_at_def)

lemma quad_at_Nil [simp]: "quad_at [] k = quad_default"
  by (simp add: quad_at_def)

definition baseline :: "('k \<rightharpoonup> u64) \<Rightarrow> 'k \<Rightarrow> u64" where
  "baseline prevs k = (case prevs k of None \<Rightarrow> 0 | Some p \<Rightarrow> p)"

section \<open>Interface counters\<close>

definition dir_for :: "bool \<Rightarrow> u8 \<Rightarrow> u8" where
  "dir_for is_wan d = (if is_wan then opposite d else d)"

definition iface_amount ::
  "(iface_traffic_key \<rightharpoonup> u64) \<Rightarrow> u32 \<Rightarrow> bool \<Rightarrow> iface_traffic_key \<times> traffic_value \<Rightarrow> family \<Rightarrow> u64" where
  "iface_amount prevs i is_wan e f =
     (if ik_ifindex (fst e) = i
      then book (ik_ip_version (fst e)) (dir_for is_wan (ik_direction (fst e))) f
             (delta_bytes (tv_bytes (snd e)) (baseline prevs (fst e)))
      else 0)"

definition iface_inv ::
  "(iface_traffic_key \<rightharpoonup> u64) \<Rightarrow> (iface_traffic_key \<times> traffic_value) list \<Rightarrow> quad \<times> (iface_traffic_key \<rightharpoonup> u64) \<Rightarrow> bool" where
  "iface_inv prevs es s = (distinct (map fst es) \<and> (\<forall>e \<in> set es. snd s (fst e) = prevs (fst e)))"

interpretation iface_ledger: saturating_ledger
  "iface_traffic_step i is_wan sec" "\<lambda>s f. q_bytes f (fst s)" "iface_amount prevs i is_wan" "iface_inv prevs"
  for i is_wan sec prevs
proof unfold_locales
  fix x xs and s :: "quad \<times> (iface_traffic_key \<rightharpoonup> u64)" and f
  assume inv: "iface_inv prevs (x # xs) s"
  obtain k v where x: "x = (k, v)" by (cases x)
  obtain q p where s: "s = (q, p)" by (cases s)
  show "iface_inv prevs xs (iface_traffic_step i is_wan sec x s)"
    using inv by (auto simp: iface_inv_def x s Let_def)
  have "p k = prevs k" using inv by (simp add: iface_inv_def x s)
  then show "q_bytes f (fst (iface_traffic_step i is_wan sec x s)) = sat_add (q_bytes f (fst s)) (iface_amount prevs i is_wan x f)"
    by (simp add: x s Let_def iface_amount_def dir_for_def baseline_def fill_quad_wan_eq fill_quad_bytes)
qed

lemma iface_steps_baseline:
  "snd (fold (iface_traffic_step i is_wan sec) es (q, prevs)) k =
     (if ik_ifindex k = i \<and> k \<in> fst ` set es then map_option tv_bytes (map_of (rev es) k) else prevs k)"
proof (induction es arbitrary: q prevs)
  case (Cons e es)
  obtain k' v where e: "e = (k', v)" by (cases e)
  have m: "map_of (rev es) k \<noteq> None \<longleftrightarrow> k \<in> fst ` set es"
    by (simp add: map_of_eq_None_iff rev_map [symmetric] image_iff)
  show ?case
  proof (cases "ik_ifindex k' = i")
    case False
    then show ?thesis using Cons m by (auto simp: e map_add_def split: option.split)
  next
    case True
    then show ?thesis using Cons m by (auto simp: e Let_def map_add_def split: option.split)
  qed
qed simp


section \<open>Device counters\<close>

text \<open>Where the increment of a device counter goes. \<open>known\<close> says for which keys there is a device: one
  from the neighbour tables, or, outside the WAN interface, one of the registry.\<close>

datatype tc_place = AtDevice device_key | AtMcast u32 | AtBcast u32 | AtUnresolved u32

definition tc_place_of :: "(device_key \<Rightarrow> bool) \<Rightarrow> u32 option \<Rightarrow> device_traffic_key \<Rightarrow> tc_place option" where
  "tc_place_of known wan k =
     (if is_broadcast_mac (dk_mac k) then Some (AtBcast (dk_ifindex k))
      else if is_multicast_mac (dk_mac k) then Some (AtMcast (dk_ifindex k))
      else if known (dk_ifindex k, dk_mac k) then Some (AtDevice (dk_ifindex k, dk_mac k))
      else if wan = Some (dk_ifindex k) then None
      else Some (AtUnresolved (dk_ifindex k)))"

definition known_device_key :: "device_group \<Rightarrow> registry \<Rightarrow> u32 option \<Rightarrow> device_key \<Rightarrow> bool" where
  "known_device_key devices reg wan key =
     (map_of devices key \<noteq> None \<or> (wan \<noteq> Some (fst key) \<and> map_of reg key \<noteq> None))"

definition device_quad :: "device_group \<Rightarrow> device_key \<Rightarrow> quad" where
  "device_quad devices key = (case map_of devices key of None \<Rightarrow> quad_default | Some d \<Rightarrow> di_metrics d)"

fun tc_balance :: "tc_state \<Rightarrow> tc_place \<times> family \<Rightarrow> u64" where
  "tc_balance s (AtDevice key, f) = q_bytes f (device_quad (tc_devices s) key)"
| "tc_balance s (AtMcast i, f) = q_bytes f (quad_at (tc_mcast s) i)"
| "tc_balance s (AtBcast i, f) = q_bytes f (quad_at (tc_bcast s) i)"
| "tc_balance s (AtUnresolved i, f) = q_bytes f (quad_at (tc_unresolved s) i)"

text \<open>On the WAN interface the direction of group traffic is turned round.\<close>

definition tc_direction :: "u32 option \<Rightarrow> device_traffic_key \<Rightarrow> u8" where
  "tc_direction wan k = dir_for (wan = Some (dk_ifindex k) \<and> is_multicast_mac (dk_mac k)) (dk_direction k)"

definition tc_amount ::
  "(device_traffic_key \<rightharpoonup> u64) \<Rightarrow> (device_key \<Rightarrow> bool) \<Rightarrow> u32 option \<Rightarrow> device_traffic_key \<times> traffic_value
   \<Rightarrow> tc_place \<times> family \<Rightarrow> u64" where
  "tc_amount prevs known wan e d =
     (if tc_place_of known wan (fst e) = Some (fst d)
      then book (dk_ip_version (fst e)) (tc_direction wan (fst e)) (snd d)
             (delta_bytes (tv_bytes (snd e)) (baseline prevs (fst e)))
      else 0)"

definition tc_inv ::
  "(device_traffic_key \<rightharpoonup> u64) \<Rightarrow> device_group \<Rightarrow> registry \<Rightarrow> u32 option \<Rightarrow> (device_traffic_key \<times> traffic_value) list
   \<Rightarrow> tc_state \<Rightarrow> bool" where
  "tc_inv prevs devices0 reg wan es s =
     (distinct (map fst es) \<and> (\<forall>e \<in> set es. rt_prev_device_bytes (tc_rt s) (fst e) = prevs (fst e))
      \<and> rt_registry (tc_rt s) = reg
      \<and> (\<forall>key. map_of devices0 key \<noteq> None \<longrightarrow> map_of (tc_devices s) key \<noteq> None)
      \<and> (\<forall>key. map_of (tc_devices s) key \<noteq> None \<longrightarrow> known_device_key devices0 reg wan key))"

lemma activate_dom:
  "map_of (activate_known_device reg key now devices) k \<noteq> None \<longleftrightarrow>
     map_of devices k \<noteq> None \<or> (k = key \<and> map_of reg key \<noteq> None)"
  by (auto simp: activate_known_device_def split: option.split)

lemma activate_quad [simp]: "device_quad (activate_known_device reg key now devices) k = device_quad devices k"
  by (auto simp: activate_known_device_def device_quad_def split: option.split)

lemma add_metrics_dom [simp]: "map_of (add_device_metrics key g devices) k = None \<longleftrightarrow> map_of devices k = None"
  by (auto simp: add_device_metrics_def split: option.split)

lemma add_metrics_quad:
  "device_quad (add_device_metrics key g devices) k =
     (if k = key \<and> map_of devices key \<noteq> None then g (device_quad devices key) else device_quad devices k)"
  by (auto simp: add_device_metrics_def device_quad_def split: option.split)

lemma not_known_unresolved: "\<not> known_device_key devices0 reg wan key \<Longrightarrow> map_of devices0 key = None"
  by (simp add: known_device_key_def)

lemma tc_step_dom:
  assumes "tc_inv prevs devices0 reg wan ((k, v) # es) s" and "delta_bytes (tv_bytes v) (baseline prevs k) \<noteq> 0"
    and "\<not> is_multicast_mac (dk_mac k)"
    and "devices = (if wan \<noteq> Some (dk_ifindex k)
      then activate_known_device reg (dk_ifindex k, dk_mac k) now (tc_devices s) else tc_devices s)"
  shows "map_of devices (dk_ifindex k, dk_mac k) \<noteq> None \<longleftrightarrow> known_device_key devices0 reg wan (dk_ifindex k, dk_mac k)"
proof -
  have d: "map_of devices0 (dk_ifindex k, dk_mac k) \<noteq> None \<longrightarrow> map_of (tc_devices s) (dk_ifindex k, dk_mac k) \<noteq> None"
    and u: "map_of (tc_devices s) (dk_ifindex k, dk_mac k) \<noteq> None \<longrightarrow> known_device_key devices0 reg wan (dk_ifindex k, dk_mac k)"
    using assms(1) unfolding tc_inv_def by blast+
  show ?thesis
  proof (cases "wan = Some (dk_ifindex k)")
    case True
    then show ?thesis using d u assms(4) by (auto simp: known_device_key_def)
  next
    case False
    then show ?thesis using d u assms(4) activate_dom [of reg "(dk_ifindex k, dk_mac k)" now "tc_devices s"]
      by (auto simp: known_device_key_def)
  qed
qed


lemma tc_step_idle:
  assumes "delta_bytes (tv_bytes v) (baseline (rt_prev_device_bytes (tc_rt s)) k) = 0"
  shows "tc_devices (device_traffic_step now prune sec wan (k, v) s) = tc_devices s"
    and "tc_mcast (device_traffic_step now prune sec wan (k, v) s) = tc_mcast s"
    and "tc_bcast (device_traffic_step now prune sec wan (k, v) s) = tc_bcast s"
    and "tc_unresolved (device_traffic_step now prune sec wan (k, v) s) = tc_unresolved s"
  using assms by (simp_all add: baseline_def Let_def)

lemma tc_step_rt:
  "rt_prev_device_bytes (tc_rt (device_traffic_step now prune sec wan (k, v) s)) = (rt_prev_device_bytes (tc_rt s))(k \<mapsto> tv_bytes v)"
  "rt_registry (tc_rt (device_traffic_step now prune sec wan (k, v) s)) = rt_registry (tc_rt s)"
  by (simp_all add: Let_def)

definition step_devices :: "u64 \<Rightarrow> u32 option \<Rightarrow> device_traffic_key \<Rightarrow> tc_state \<Rightarrow> device_group" where
  "step_devices now wan k s =
     (if wan \<noteq> Some (dk_ifindex k) \<and> \<not> is_multicast_mac (dk_mac k)
      then activate_known_device (rt_registry (tc_rt s)) (dk_ifindex k, dk_mac k) now (tc_devices s) else tc_devices s)"

lemma step_devices_quad [simp]: "device_quad (step_devices now wan k s) key = device_quad (tc_devices s) key"
  by (simp add: step_devices_def)

lemma tc_step_busy:
  assumes "delta_bytes (tv_bytes v) (baseline (rt_prev_device_bytes (tc_rt s)) k) = n" and "n \<noteq> 0"
    and "known \<longleftrightarrow> map_of (step_devices now wan k s) (dk_ifindex k, dk_mac k) \<noteq> None"
    and "s' = device_traffic_step now prune sec wan (k, v) s"
    and "fill = fill_quad (dk_ip_version k) (tc_direction wan k) n sec"
  shows "tc_devices s' = (if \<not> is_multicast_mac (dk_mac k) \<and> known
            then add_device_metrics (dk_ifindex k, dk_mac k) fill (step_devices now wan k s) else step_devices now wan k s)"
    and "tc_bcast s' = (if is_broadcast_mac (dk_mac k) then upd_entry (dk_ifindex k) quad_default fill (tc_bcast s) else tc_bcast s)"
    and "tc_mcast s' = (if is_multicast_mac (dk_mac k) \<and> \<not> is_broadcast_mac (dk_mac k)
            then upd_entry (dk_ifindex k) quad_default fill (tc_mcast s) else tc_mcast s)"
    and "tc_unresolved s' = (if \<not> is_multicast_mac (dk_mac k) \<and> \<not> known \<and> wan \<noteq> Some (dk_ifindex k)
            then upd_entry (dk_ifindex k) quad_default fill (tc_unresolved s) else tc_unresolved s)"
proof -
  have n: "delta_bytes (tv_bytes v) (case rt_prev_device_bytes (tc_rt s) k of None \<Rightarrow> 0 | Some p \<Rightarrow> p) = n"
    using assms(1) by (simp add: baseline_def)
  have wanfill: "fill_quad_wan (dk_ip_version k) (dk_direction k) n sec = fill_quad (dk_ip_version k) (opposite (dk_direction k)) n sec"
    by (intro ext) (rule fill_quad_wan_eq)
  have bm: "is_multicast_mac (dk_mac k)" if "is_broadcast_mac (dk_mac k)" using that by (rule broadcast_is_multicast)
  show "tc_devices s' = (if \<not> is_multicast_mac (dk_mac k) \<and> known
            then add_device_metrics (dk_ifindex k, dk_mac k) fill (step_devices now wan k s) else step_devices now wan k s)"
    and "tc_bcast s' = (if is_broadcast_mac (dk_mac k) then upd_entry (dk_ifindex k) quad_default fill (tc_bcast s) else tc_bcast s)"
    and "tc_mcast s' = (if is_multicast_mac (dk_mac k) \<and> \<not> is_broadcast_mac (dk_mac k)
            then upd_entry (dk_ifindex k) quad_default fill (tc_mcast s) else tc_mcast s)"
    and "tc_unresolved s' = (if \<not> is_multicast_mac (dk_mac k) \<and> \<not> known \<and> wan \<noteq> Some (dk_ifindex k)
            then upd_entry (dk_ifindex k) quad_default fill (tc_unresolved s) else tc_unresolved s)"
    using assms(2,3) bm
    by (auto simp: assms(4,5) Let_def n wanfill tc_direction_def dir_for_def step_devices_def)
qed

lemma tc_step_ledger:
  assumes inv: "tc_inv prevs devices0 reg wan ((k, v) # es) s"
  shows "tc_inv prevs devices0 reg wan es (device_traffic_step now prune sec wan (k, v) s)"
    and "tc_balance (device_traffic_step now prune sec wan (k, v) s) d =
      sat_add (tc_balance s d) (tc_amount prevs (known_device_key devices0 reg wan) wan (k, v) d)"
proof -
  let ?s' = "device_traffic_step now prune sec wan (k, v) s" and ?key = "(dk_ifindex k, dk_mac k)"
  let ?known = "known_device_key devices0 reg wan"
  have base: "rt_prev_device_bytes (tc_rt s) k = prevs k" and reg: "rt_registry (tc_rt s) = reg"
    and lo: "\<And>key. map_of devices0 key \<noteq> None \<Longrightarrow> map_of (tc_devices s) key \<noteq> None"
    and hi: "\<And>key. map_of (tc_devices s) key \<noteq> None \<Longrightarrow> ?known key"
    and dist: "distinct (map fst es)" "k \<notin> fst ` set es"
    and prev: "\<forall>e \<in> set es. rt_prev_device_bytes (tc_rt s) (fst e) = prevs (fst e)"
    using inv by (auto simp: tc_inv_def)
  define n where "n = delta_bytes (tv_bytes v) (baseline prevs k)"
  have b: "baseline (rt_prev_device_bytes (tc_rt s)) k = baseline prevs k" by (simp add: baseline_def base)
  have sd: "map_of (step_devices now wan k s) key \<noteq> None \<Longrightarrow> ?known key" for key
  proof -
    assume "map_of (step_devices now wan k s) key \<noteq> None"
    then have "map_of (tc_devices s) key \<noteq> None \<or> (key = ?key \<and> map_of reg key \<noteq> None \<and> wan \<noteq> Some (fst key))"
      using activate_dom [of reg ?key now "tc_devices s" key] by (auto simp: step_devices_def reg split: if_splits)
    then show ?thesis using hi [of key] by (auto simp: known_device_key_def)
  qed
  have sl: "map_of devices0 key \<noteq> None \<Longrightarrow> map_of (step_devices now wan k s) key \<noteq> None" for key
    using lo activate_dom [of reg ?key now "tc_devices s" key] by (auto simp: step_devices_def reg)
  have kn: "map_of (step_devices now wan k s) ?key \<noteq> None \<longleftrightarrow> ?known ?key" if "\<not> is_multicast_mac (dk_mac k)" "n \<noteq> 0"
    by (rule tc_step_dom [OF inv, of _ now]) (use that in \<open>simp_all add: n_def step_devices_def reg\<close>)
  show "tc_inv prevs devices0 reg wan es ?s'"
  proof -
    have dom: "(map_of devices0 key \<noteq> None \<longrightarrow> map_of (tc_devices ?s') key \<noteq> None)
        \<and> (map_of (tc_devices ?s') key \<noteq> None \<longrightarrow> ?known key)" for key
    proof (cases "n = 0")
      case True
      then show ?thesis using lo hi tc_step_idle(1) [of v s k] by (simp add: b n_def del: device_traffic_step.simps)
    next
      case False
      have "map_of (tc_devices ?s') key = None \<longleftrightarrow> map_of (step_devices now wan k s) key = None"
        unfolding tc_step_busy(1) [OF b [THEN arg_cong, of "delta_bytes (tv_bytes v)", folded n_def] False refl refl refl] by simp
      then show ?thesis using sd [of key] sl [of key] by (simp only: not_False_eq_True simp_thms) (metis (no_types))
    qed
    show ?thesis
      unfolding tc_inv_def tc_step_rt using dist prev reg dom by (auto simp del: device_traffic_step.simps)
  qed
  show "tc_balance ?s' d = sat_add (tc_balance s d) (tc_amount prevs ?known wan (k, v) d)"
  proof (cases "n = 0")
    case True
    then have "tc_amount prevs ?known wan (k, v) d = 0" by (simp add: tc_amount_def n_def [symmetric] book_def)
    moreover have "tc_balance ?s' d = tc_balance s d"
      using True tc_step_idle [of v s k now prune sec wan] by (cases d; cases "fst d") (simp_all add: b n_def del: device_traffic_step.simps)
    ultimately show ?thesis by simp
  next
    case False
    note st = tc_step_busy [OF b [THEN arg_cong, of "delta_bytes (tv_bytes v)", folded n_def] False refl refl refl, where now = now and wan = wan and prune = prune and sec = sec]
    have bm: "is_multicast_mac (dk_mac k)" if "is_broadcast_mac (dk_mac k)" using that by (rule broadcast_is_multicast)
    obtain p f where d: "d = (p, f)" by (cases d)
    show ?thesis
      using kn False bm
      by (cases p) (auto simp: d st tc_amount_def tc_place_of_def n_def [symmetric] fill_quad_bytes add_metrics_quad quad_at_upd_entry
          simp del: device_traffic_step.simps)
  qed
qed

interpretation tc_ledger: saturating_ledger
  "device_traffic_step now prune sec wan" tc_balance "tc_amount prevs (known_device_key devices0 reg wan) wan"
  "tc_inv prevs devices0 reg wan" for now prune sec wan prevs devices0 reg
proof unfold_locales
  fix x xs s d assume inv: "tc_inv prevs devices0 reg wan (x # xs) s"
  obtain k v where x: "x = (k, v)" by (cases x)
  show "tc_inv prevs devices0 reg wan xs (device_traffic_step now prune sec wan x s)"
    unfolding x by (rule tc_step_ledger(1)) (use inv x in simp)
  show "tc_balance (device_traffic_step now prune sec wan x s) d
      = sat_add (tc_balance s d) (tc_amount prevs (known_device_key devices0 reg wan) wan x d)"
    unfolding x by (rule tc_step_ledger(2)) (use inv x in simp)
qed


section \<open>Offloaded counters\<close>

text \<open>The increment of an ECM counter is booked to the device that owns the address and to its interface,
  or to the interface whose subnet holds it (also as unresolved), or to one of the two global places.\<close>

datatype ec_place = EcDevice device_key | EcLan u32 | EcUnres u32 | EcWan

definition owner_of :: "ownership_cache \<Rightarrow> u64 \<Rightarrow> ecm_traffic_key \<Rightarrow> device_key option" where
  "owner_of own now k =
     (case own (ek_ip k, ek_ip_version k) of None \<Rightarrow> None | Some ow \<Rightarrow> valid_owner now ow)"

definition ec_known :: "device_group \<Rightarrow> registry \<Rightarrow> device_key \<Rightarrow> bool" where
  "ec_known devices reg key = (map_of devices key \<noteq> None \<or> map_of reg key \<noteq> None)"

definition ec_places :: "(ecm_traffic_key \<Rightarrow> device_key option) \<Rightarrow> (device_key \<Rightarrow> bool) \<Rightarrow> ecm_subnets \<Rightarrow> ecm_traffic_key \<Rightarrow> ec_place set" where
  "ec_places owner known sn k =
     (case owner k of
        Some key \<Rightarrow> if known key then {EcDevice key, EcLan (fst key)} else {}
      | None \<Rightarrow> (case classify_ecm sn k of
          EcmSkip \<Rightarrow> {}
        | EcmIface i \<Rightarrow> {EcLan i, EcUnres i}
        | EcmUnresolved \<Rightarrow> {EcUnres ecm_unresolved_global_key}
        | EcmExternal \<Rightarrow> {EcWan}))"

fun ec_balance :: "ecm_state \<Rightarrow> ec_place \<times> family \<Rightarrow> u64" where
  "ec_balance s (EcDevice key, f) = q_bytes f (device_quad (ec_devices s) key)"
| "ec_balance s (EcLan i, f) = q_bytes f (quad_at (ec_lan s) i)"
| "ec_balance s (EcUnres i, f) = q_bytes f (quad_at (ec_unresolved s) i)"
| "ec_balance s (EcWan, f) = q_bytes f (ec_wan s)"

definition ec_amount ::
  "(ecm_traffic_key \<rightharpoonup> u64) \<Rightarrow> (ecm_traffic_key \<Rightarrow> device_key option) \<Rightarrow> (device_key \<Rightarrow> bool) \<Rightarrow> ecm_subnets
   \<Rightarrow> ecm_traffic_key \<times> traffic_value \<Rightarrow> ec_place \<times> family \<Rightarrow> u64" where
  "ec_amount prevs owner known sn e d =
     (if fst d \<in> ec_places owner known sn (fst e)
      then book (ek_ip_version (fst e)) (dir_for (fst d = EcWan) (ek_direction (fst e))) (snd d)
             (delta_bytes (tv_bytes (snd e)) (baseline prevs (fst e)))
      else 0)"

definition ec_inv ::
  "(ecm_traffic_key \<rightharpoonup> u64) \<Rightarrow> ownership_cache \<Rightarrow> device_group \<Rightarrow> registry \<Rightarrow> (ecm_traffic_key \<times> traffic_value) list
   \<Rightarrow> ecm_state \<Rightarrow> bool" where
  "ec_inv prevs own devices0 reg es s =
     (distinct (map fst es) \<and> (\<forall>e \<in> set es. rt_prev_ecm_bytes (ec_rt s) (fst e) = prevs (fst e))
      \<and> rt_registry (ec_rt s) = reg \<and> rt_neighbor_ownership (ec_rt s) = own
      \<and> (\<forall>key. ec_known (ec_devices s) reg key = ec_known devices0 reg key))"

lemma ecm_delta_fields:
  "fst (ecm_delta k n now rt) = delta_bytes n (baseline (rt_prev_ecm_bytes rt) k)"
  "rt_prev_ecm_bytes (snd (ecm_delta k n now rt)) = (rt_prev_ecm_bytes rt)(k \<mapsto> n)"
  "rt_registry (snd (ecm_delta k n now rt)) = rt_registry rt"
  "rt_neighbor_ownership (snd (ecm_delta k n now rt)) = rt_neighbor_ownership rt"
  by (simp_all add: ecm_delta_def baseline_def Let_def)

lemma ec_known_activate [simp]: "ec_known (activate_known_device reg key now devices) reg k = ec_known devices reg k"
  using activate_dom [of reg key now devices k] by (auto simp: ec_known_def)

lemma ec_known_add_metrics [simp]: "ec_known (add_device_metrics key g devices) reg k = ec_known devices reg k"
  by (simp add: ec_known_def)

lemma ec_step_rt:
  "rt_prev_ecm_bytes (ec_rt (ecm_traffic_step now sec sn (k, v) s)) = (rt_prev_ecm_bytes (ec_rt s))(k \<mapsto> tv_bytes v)"
  "rt_registry (ec_rt (ecm_traffic_step now sec sn (k, v) s)) = rt_registry (ec_rt s)"
  "rt_neighbor_ownership (ec_rt (ecm_traffic_step now sec sn (k, v) s)) = rt_neighbor_ownership (ec_rt s)"
  by (simp_all add: Let_def case_prod_beta ecm_delta_fields split: option.split ecm_class.split)

lemma ec_step_known:
  "ec_known (ec_devices (ecm_traffic_step now sec sn (k, v) s)) (rt_registry (ec_rt s)) key
     = ec_known (ec_devices s) (rt_registry (ec_rt s)) key"
  by (simp add: Let_def case_prod_beta ecm_delta_fields split: option.split ecm_class.split)

lemma ec_step_balance:
  assumes "owner = owner_of (rt_neighbor_ownership (ec_rt s)) now" and "known = ec_known (ec_devices s) (rt_registry (ec_rt s))"
    and "prevs k = rt_prev_ecm_bytes (ec_rt s) k"
  shows "ec_balance (ecm_traffic_step now sec sn (k, v) s) d = sat_add (ec_balance s d) (ec_amount prevs owner known sn (k, v) d)"
proof -
  obtain p f where d: "d = (p, f)" by (cases d)
  define n where "n = delta_bytes (tv_bytes v) (baseline (rt_prev_ecm_bytes (ec_rt s)) k)"
  have b: "baseline prevs k = baseline (rt_prev_ecm_bytes (ec_rt s)) k" by (simp add: baseline_def assms(3))
  note simps = Let_def case_prod_beta ecm_delta_fields n_def [symmetric] ec_amount_def ec_places_def b d
    quad_at_upd_entry fill_quad_bytes add_metrics_quad fill_quad_wan_eq dir_for_def
  show ?thesis
  proof (cases "n = 0")
    case True
    then show ?thesis by (cases p) (simp_all add: simps book_def)
  next
    case False
    show ?thesis
    proof (cases "owner k")
      case None
      then have o: "(case rt_neighbor_ownership (ec_rt s) (ek_ip k, ek_ip_version k) of None \<Rightarrow> None | Some ow \<Rightarrow> valid_owner now ow) = None"
        by (simp add: assms(1) owner_of_def)
      show ?thesis using False None
        by (cases "classify_ecm sn k"; cases p) (simp_all add: simps o)
    next
      case (Some key)
      then have o: "(case rt_neighbor_ownership (ec_rt s) (ek_ip k, ek_ip_version k) of None \<Rightarrow> None | Some ow \<Rightarrow> valid_owner now ow) = Some key"
        by (simp add: assms(1) owner_of_def)
      have kn: "map_of (activate_known_device (rt_registry (ec_rt s)) key now (ec_devices s)) key \<noteq> None \<longleftrightarrow> known key"
        using activate_dom [of "rt_registry (ec_rt s)" key now "ec_devices s" key] by (simp add: assms(2) ec_known_def)
      show ?thesis
      proof (cases "known key")
        case True
        then show ?thesis using False Some kn by (cases p) (auto simp: simps o)
      next
        case unknown: False
        then show ?thesis using False Some kn by (cases p) (simp_all add: simps o)
      qed
    qed
  qed
qed

interpretation ec_ledger: saturating_ledger
  "ecm_traffic_step now sec sn" ec_balance "ec_amount prevs (owner_of own now) (ec_known devices0 reg) sn"
  "ec_inv prevs own devices0 reg" for now sec sn prevs own devices0 reg
proof unfold_locales
  fix x xs s d assume inv: "ec_inv prevs own devices0 reg (x # xs) s"
  obtain k v where x: "x = (k, v)" by (cases x)
  have k: "rt_prev_ecm_bytes (ec_rt s) k = prevs k" and reg: "rt_registry (ec_rt s) = reg"
    and own: "rt_neighbor_ownership (ec_rt s) = own" and fresh: "k \<notin> fst ` set xs"
    and known: "ec_known (ec_devices s) reg = ec_known devices0 reg"
    using inv by (auto simp: ec_inv_def x)
  show "ec_inv prevs own devices0 reg xs (ecm_traffic_step now sec sn x s)"
    using inv fresh ec_step_known [of now sec sn k v s, unfolded reg]
    by (auto simp: ec_inv_def x ec_step_rt simp del: ecm_traffic_step.simps)
  show "ec_balance (ecm_traffic_step now sec sn x s) d
      = sat_add (ec_balance s d) (ec_amount prevs (owner_of own now) (ec_known devices0 reg) sn x d)"
    unfolding x by (rule ec_step_balance) (simp_all add: own reg known k)
qed


section \<open>Every increment is booked once\<close>

lemma tc_baselines:
  assumes "distinct (map fst stats)"
  shows "rt_prev_device_bytes (tc_rt (fold (device_traffic_step now prune sec wan) stats s)) k =
    (case map_of stats k of None \<Rightarrow> rt_prev_device_bytes (tc_rt s) k | Some v \<Rightarrow> Some (tv_bytes v))"
  using assms
proof (induction stats arbitrary: s)
  case (Cons e stats)
  obtain k' v where e: "e = (k', v)" by (cases e)
  have "map_of stats k' = None" using Cons.prems by (simp add: e map_of_eq_None_iff)
  then show ?case using Cons by (auto simp: e tc_step_rt simp del: device_traffic_step.simps split: option.split)
qed simp

lemma ec_baselines:
  assumes "distinct (map fst stats)"
  shows "rt_prev_ecm_bytes (ec_rt (fold (ecm_traffic_step now sec sn) stats s)) k =
    (case map_of stats k of None \<Rightarrow> rt_prev_ecm_bytes (ec_rt s) k | Some v \<Rightarrow> Some (tv_bytes v))"
  using assms
proof (induction stats arbitrary: s)
  case (Cons e stats)
  obtain k' v where e: "e = (k', v)" by (cases e)
  have "map_of stats k' = None" using Cons.prems by (simp add: e map_of_eq_None_iff)
  then show ?case using Cons by (auto simp: e ec_step_rt simp del: ecm_traffic_step.simps split: option.split)
qed simp

text \<open>C3: device traffic is booked exactly: in every tick each increment of a kernel device counter is
  added to one place at most (its device when it is known, else the broadcast, multicast or
  unresolved breakdown of its interface; nothing for stations behind the WAN interface), each place
  holds exactly the sum of the increments booked to it, up to the largest 64 bit number, whatever
  order the map is read in; and the reading becomes the baseline of the next tick.\<close>

theorem device_traffic_exact:
  assumes "distinct (map fst stats)" and "s = account_devices now prune sec wan stats devices rt"
  shows "unat (tc_balance s (place, f)) =
      min (unat (case place of AtDevice key \<Rightarrow> q_bytes f (device_quad devices key) | _ \<Rightarrow> 0)
           + (\<Sum>(k, v)\<leftarrow>filter (\<lambda>e. tc_place_of (known_device_key devices (rt_registry rt) wan) wan (fst e) = Some place) stats.
                unat (book (dk_ip_version k) (tc_direction wan k) f
                        (delta_bytes (tv_bytes v) (baseline (rt_prev_device_bytes rt) k)))))
          (2 ^ 64 - 1)
     \<and> (\<forall>(k, v) \<in> set stats. rt_prev_device_bytes (tc_rt s) k = Some (tv_bytes v))"
proof
  let ?s0 = "\<lparr>tc_devices = devices, tc_mcast = [], tc_bcast = [], tc_unresolved = [], tc_inactive = [], tc_rt = rt\<rparr>"
  let ?known = "known_device_key devices (rt_registry rt) wan"
  have inv: "tc_inv (rt_prev_device_bytes rt) devices (rt_registry rt) wan stats ?s0"
    using assms(1) by (simp add: tc_inv_def known_device_key_def)
  have s: "s = fold (device_traffic_step now prune sec wan) stats ?s0" by (simp add: assms(2) account_devices_def)
  have start: "tc_balance ?s0 (place, f) = (case place of AtDevice key \<Rightarrow> q_bytes f (device_quad devices key) | _ \<Rightarrow> 0)"
    by (cases place) simp_all
  have amounts: "(\<Sum>e\<leftarrow>stats. unat (tc_amount (rt_prev_device_bytes rt) ?known wan e (place, f)))
      = (\<Sum>(k, v)\<leftarrow>filter (\<lambda>e. tc_place_of ?known wan (fst e) = Some place) stats.
           unat (book (dk_ip_version k) (tc_direction wan k) f (delta_bytes (tv_bytes v) (baseline (rt_prev_device_bytes rt) k))))"
    by (induction stats) (auto simp: tc_amount_def case_prod_beta)
  show "unat (tc_balance s (place, f)) =
      min (unat (case place of AtDevice key \<Rightarrow> q_bytes f (device_quad devices key) | _ \<Rightarrow> 0)
           + (\<Sum>(k, v)\<leftarrow>filter (\<lambda>e. tc_place_of ?known wan (fst e) = Some place) stats.
                unat (book (dk_ip_version k) (tc_direction wan k) f
                        (delta_bytes (tv_bytes v) (baseline (rt_prev_device_bytes rt) k)))))
          (2 ^ 64 - 1)"
    unfolding s by (subst tc_ledger.fold_balance [OF inv]) (simp only: start amounts)
  show "\<forall>(k, v) \<in> set stats. rt_prev_device_bytes (tc_rt s) k = Some (tv_bytes v)"
    using tc_baselines [OF assms(1), of now prune sec wan ?s0] assms(1) by (auto simp: s)
qed

theorem device_traffic_exact_witness:
  "unat (tc_balance (account_devices 5000 False 1 (Some 9)
      [(\<lparr>dk_ifindex = 3, dk_mac = [2, 0, 0, 0, 0, 9], dk_ip_version = 4, dk_direction = 2\<rparr>, \<lparr>tv_packets = 4, tv_bytes = 900\<rparr>),
       (\<lparr>dk_ifindex = 3, dk_mac = [2, 0, 0, 0, 0, 7], dk_ip_version = 4, dk_direction = 2\<rparr>, \<lparr>tv_packets = 1, tv_bytes = 60\<rparr>)] []
      (runtime_default\<lparr>rt_registry := [((3, [2, 0, 0, 0, 0, 9]), sample_device 3)],
         rt_prev_device_bytes := [\<lparr>dk_ifindex = 3, dk_mac = [2, 0, 0, 0, 0, 9], dk_ip_version = 4, dk_direction = 2\<rparr> \<mapsto> 400]\<rparr>))
    (AtDevice (3, [2, 0, 0, 0, 0, 9]), DownV4)) = 500"
proof -
  let ?stats = "[(\<lparr>dk_ifindex = 3, dk_mac = [2, 0, 0, 0, 0, 9], dk_ip_version = 4, dk_direction = 2\<rparr>, \<lparr>tv_packets = 4, tv_bytes = 900\<rparr>),
       (\<lparr>dk_ifindex = 3, dk_mac = [2, 0, 0, 0, 0, 7], dk_ip_version = 4, dk_direction = 2\<rparr>, \<lparr>tv_packets = 1, tv_bytes = 60\<rparr>)]
     :: (device_traffic_key \<times> traffic_value) list"
  have "distinct (map fst ?stats)" by simp
  then show ?thesis
    by (subst device_traffic_exact [OF _ refl, THEN conjunct1]) (simp_all add: tc_place_of_def known_device_key_def is_broadcast_mac_def is_multicast_mac_def replicate_6 device_quad_def
        book_def family_of_def tc_direction_def dir_for_def baseline_def delta_bytes_def quad_default_def)
qed



definition sample_subnets :: ecm_subnets where
  "sample_subnets = \<lparr>es_local_v4 = [(3, 0x0A000000, 0xFFFFFF00)], es_wan_v4 = [], es_wan_v4_ips = [], es_wan_v6_ips = [], es_local_v6 = []\<rparr>"



section \<open>Interface totals\<close>

lemma fold_frame: "(\<And>x s. x \<in> set xs \<Longrightarrow> g (f x s) = g s) \<Longrightarrow> g (fold f xs s) = g s"
  by (induction xs arbitrary: s) simp_all

lemma names_ofD:
  assumes "topology_ok t" and "names_of t name = Some i"
  shows "\<exists>f. by_ifindex t i = Some f \<and> if_name f = name \<and> if_ifindex f = i"
proof -
  have ex: "fold (\<lambda>i m. m(if_name i \<mapsto> if_ifindex i)) fs m name = Some i \<Longrightarrow>
      m name = Some i \<or> (\<exists>f \<in> set fs. if_name f = name \<and> if_ifindex f = i)" for fs m
  proof (induction fs arbitrary: m)
    case (Cons a fs)
    from Cons.IH [of "m(if_name a \<mapsto> if_ifindex a)"] Cons.prems show ?case by (auto split: if_splits)
  qed simp
  then obtain f where f: "f \<in> set (topology_interfaces t)" "if_name f = name" "if_ifindex f = i"
    using assms(2) ex [of "topology_interfaces t" Map.empty] by (auto simp: names_of_def)
  then obtain j where j: "(j, f) \<in> set t" by (auto simp: topology_interfaces_def)
  then have "j = i" using assms(1) f(3) by (auto simp: topology_ok_def list_all_iff entry_ok_def)
  with j assms(1) f show ?thesis by (auto simp: by_ifindex_def topology_ok_def intro: map_of_is_SomeI)
qed

lemma names_of_inj:
  "topology_ok t \<Longrightarrow> names_of t a = Some i \<Longrightarrow> names_of t b = Some i \<Longrightarrow> a = b"
  using names_ofD [of t a i] names_ofD [of t b i] by auto

lemma set_first_names: "set (first_names seen ns) = set ns - set seen"
  by (induction ns arbitrary: seen) auto

lemma distinct_first_names: "distinct (first_names seen ns)"
  by (induction ns arbitrary: seen) (auto simp: set_first_names)

definition is_wan_iface :: "topology \<Rightarrow> u32 \<Rightarrow> bool" where
  "is_wan_iface t i = (case by_ifindex t i of None \<Rightarrow> False | Some f \<Rightarrow> if_zone f = ''wan'')"

definition new_baselines ::
  "(iface_traffic_key \<times> traffic_value) list \<Rightarrow> (iface_traffic_key \<Rightarrow> bool) \<Rightarrow> (iface_traffic_key \<rightharpoonup> u64) \<Rightarrow> (iface_traffic_key \<rightharpoonup> u64)" where
  "new_baselines stats counted prevs =
     (\<lambda>k. if counted k then (case map_of stats k of None \<Rightarrow> prevs k | Some v \<Rightarrow> Some (tv_bytes v)) else prevs k)"

lemma min_add_min: "min (a + min b c) c = min (a + b) c" for a b c :: nat
  by simp

lemma account_iface_fields:
  assumes "distinct (map fst stats)" and "names_of t name = Some i"
  shows "rt_prev_iface_bytes (is_rt (account_iface t stats sec name s))
      = new_baselines stats (\<lambda>k. ik_ifindex k = i) (rt_prev_iface_bytes (is_rt s))"
    and "\<exists>total. rt_cumulative_iface (is_rt (account_iface t stats sec name s)) = AList.update i total (rt_cumulative_iface (is_rt s))
      \<and> (\<forall>f. unat (q_bytes f total) = min (unat (q_bytes f (quad_at (rt_cumulative_iface (is_rt s)) i))
          + (\<Sum>e\<leftarrow>stats. unat (iface_amount (rt_prev_iface_bytes (is_rt s)) i (is_wan_iface t i) e f))) (2 ^ 64 - 1))"
proof -
  let ?p = "rt_prev_iface_bytes (is_rt s)" and ?w = "is_wan_iface t i"
  let ?r = "fold (iface_traffic_step i ?w sec) stats (quad_default, ?p)"
  let ?cum = "rt_cumulative_iface (is_rt s)"
  have inv: "iface_inv ?p stats (quad_default, ?p)" using assms(1) by (simp add: iface_inv_def)
  have rev: "map_of (rev stats) = map_of stats" by (rule map_of_perm) (use assms(1) in \<open>simp_all add: rev_map [symmetric]\<close>)
  have mem: "k \<in> fst ` set stats \<longleftrightarrow> map_of stats k \<noteq> None" for k by (simp only: map_of_eq_None_iff not_not)
  have snd: "snd ?r k = new_baselines stats (\<lambda>k. ik_ifindex k = i) ?p k" for k
    unfolding iface_steps_baseline rev new_baselines_def mem by (cases "map_of stats k") simp_all
  have r: "account_iface t stats sec name s = account_iface t stats sec name s" by simp
  have flds: "rt_prev_iface_bytes (is_rt (account_iface t stats sec name s)) = snd ?r"
    "rt_cumulative_iface (is_rt (account_iface t stats sec name s)) = AList.update i (add_quad (quad_at ?cum i) (fst ?r)) ?cum"
    by (simp_all add: account_iface_def assms(2) Let_def case_prod_beta is_wan_iface_def quad_at_def)
  show "rt_prev_iface_bytes (is_rt (account_iface t stats sec name s)) = new_baselines stats (\<lambda>k. ik_ifindex k = i) ?p"
    unfolding flds using snd by blast
  have "unat (q_bytes f (fst ?r)) = min (\<Sum>e\<leftarrow>stats. unat (iface_amount ?p i ?w e f)) (2 ^ 64 - 1)" for f
    using iface_ledger.fold_balance [OF inv, where i = i and is_wan = ?w and sec = sec and d = f] by simp
  then show "\<exists>total. rt_cumulative_iface (is_rt (account_iface t stats sec name s)) = AList.update i total ?cum
      \<and> (\<forall>f. unat (q_bytes f total) = min (unat (q_bytes f (quad_at ?cum i))
          + (\<Sum>e\<leftarrow>stats. unat (iface_amount ?p i ?w e f))) (2 ^ 64 - 1))"
    unfolding flds by (intro exI [of _ "add_quad (quad_at ?cum i) (fst ?r)"]) (simp add: unat_sat_add min_add_min)
qed

lemma account_iface_unknown: "names_of t name = None \<Longrightarrow> account_iface t stats sec name s = s"
  by (simp add: account_iface_def)


text \<open>All monitored interfaces: each one's baselines are replaced by the reading, its total grows.\<close>

definition monitored_index :: "topology \<Rightarrow> string list \<Rightarrow> u32 \<Rightarrow> bool" where
  "monitored_index t names i = (\<exists>n \<in> set names. names_of t n = Some i)"

definition total_grows ::
  "topology \<Rightarrow> (u32 \<Rightarrow> bool) \<Rightarrow> (iface_traffic_key \<times> traffic_value) list \<Rightarrow> monitor_runtime \<Rightarrow> monitor_runtime \<Rightarrow> bool" where
  "total_grows t counted stats rt rt' =
     (rt_prev_iface_bytes rt' = new_baselines stats (\<lambda>k. counted (ik_ifindex k)) (rt_prev_iface_bytes rt)
      \<and> (\<forall>i f. unat (q_bytes f (quad_at (rt_cumulative_iface rt') i)) =
           (if counted i
            then min (unat (q_bytes f (quad_at (rt_cumulative_iface rt) i))
                   + (\<Sum>e\<leftarrow>stats. unat (iface_amount (rt_prev_iface_bytes rt) i (is_wan_iface t i) e f))) (2 ^ 64 - 1)
            else unat (q_bytes f (quad_at (rt_cumulative_iface rt) i)))))"

lemma iface_amount_cong:
  "(\<And>k. ik_ifindex k = i \<Longrightarrow> p k = p' k) \<Longrightarrow> iface_amount p i w e f = iface_amount p' i w e f"
  by (auto simp: iface_amount_def baseline_def)

lemma account_names:
  assumes "distinct (map fst stats)" and "topology_ok t" and "distinct names"
  shows "total_grows t (monitored_index t names) stats (is_rt s) (is_rt (fold (account_iface t stats sec) names s))"
  using assms(3)
proof (induction names rule: rev_induct)
  case Nil
  then show ?case by (auto simp: total_grows_def monitored_index_def new_baselines_def)
next
  case (snoc n names)
  let ?s1 = "fold (account_iface t stats sec) names s"
  have IH: "total_grows t (monitored_index t names) stats (is_rt s) (is_rt ?s1)" using snoc by simp
  have run: "fold (account_iface t stats sec) (names @ [n]) s = account_iface t stats sec n ?s1" by simp
  show ?case
  proof (cases "names_of t n")
    case None
    then have "monitored_index t (names @ [n]) = monitored_index t names" by (auto simp: monitored_index_def)
    then show ?thesis using IH by (simp add: run account_iface_unknown [OF None])
  next
    case (Some i)
    have fresh: "\<not> monitored_index t names i"
      using snoc.prems names_of_inj [OF assms(2) Some] by (auto simp: monitored_index_def)
    have mi: "monitored_index t (names @ [n]) j \<longleftrightarrow> j = i \<or> monitored_index t names j" for j
      using Some by (auto simp: monitored_index_def)
    have same: "rt_prev_iface_bytes (is_rt ?s1) k = rt_prev_iface_bytes (is_rt s) k" if "ik_ifindex k = i" for k
      using IH fresh that by (simp add: total_grows_def new_baselines_def)
    have qsame: "unat (q_bytes f (quad_at (rt_cumulative_iface (is_rt ?s1)) i)) = unat (q_bytes f (quad_at (rt_cumulative_iface (is_rt s)) i))" for f
      using IH fresh by (simp add: total_grows_def)
    have am: "iface_amount (rt_prev_iface_bytes (is_rt ?s1)) i w e f = iface_amount (rt_prev_iface_bytes (is_rt s)) i w e f" for w e f
      by (rule iface_amount_cong) (rule same)
    obtain tot where tot: "rt_cumulative_iface (is_rt (account_iface t stats sec n ?s1)) = AList.update i tot (rt_cumulative_iface (is_rt ?s1))"
      "\<And>f. unat (q_bytes f tot) = min (unat (q_bytes f (quad_at (rt_cumulative_iface (is_rt s)) i))
          + (\<Sum>e\<leftarrow>stats. unat (iface_amount (rt_prev_iface_bytes (is_rt s)) i (is_wan_iface t i) e f))) (2 ^ 64 - 1)"
      using account_iface_fields(2) [OF assms(1) Some, of sec ?s1] unfolding am qsame by blast
    have base: "rt_prev_iface_bytes (is_rt (account_iface t stats sec n ?s1))
        = new_baselines stats (\<lambda>k. monitored_index t (names @ [n]) (ik_ifindex k)) (rt_prev_iface_bytes (is_rt s))"
    proof
      fix k
      show "rt_prev_iface_bytes (is_rt (account_iface t stats sec n ?s1)) k
        = new_baselines stats (\<lambda>k. monitored_index t (names @ [n]) (ik_ifindex k)) (rt_prev_iface_bytes (is_rt s)) k"
        using IH same unfolding account_iface_fields(1) [OF assms(1) Some]
        by (simp add: new_baselines_def mi total_grows_def split: option.split)
    qed
    show ?thesis
      unfolding total_grows_def run base tot(1) using IH fresh tot(2)
      by (auto simp: mi quad_at_update total_grows_def)
  qed
qed


text \<open>The other steps of a tick leave the interface baselines and totals alone (with ECM off).\<close>

definition iface_part :: "monitor_runtime \<Rightarrow> (iface_traffic_key \<rightharpoonup> u64) \<times> (u32 \<times> quad) list" where
  "iface_part rt = (rt_prev_iface_bytes rt, rt_cumulative_iface rt)"

lemma iface_part_simps:
  "iface_part (note_device_capacity now n rt) = iface_part rt"
  "iface_part (note_insert_failures now fs rt) = iface_part rt"
  "iface_part (snd (device_prune_due now rt)) = iface_part rt"
  "iface_part (snd (snd (snd (ecm_reading enable inp t rt)))) = iface_part rt"
  "iface_part (snd (ecm_interval_seconds now fb ok rt)) = iface_part rt"
  "iface_part (poll_ipv6_neighbors out now force rt) = iface_part rt"
  "iface_part (refresh_hostnames inp rt) = iface_part rt"
  "iface_part (expire_ownership now t rt) = iface_part rt"
  "iface_part (note_owner enable t now nb rt) = iface_part rt"
  "iface_part (note_ecm_capacity now m rt) = iface_part rt"
  by (simp_all add: iface_part_def note_device_capacity_def note_insert_failures_def device_prune_due_def ecm_reading_def
      ecm_interval_seconds_def poll_ipv6_neighbors_def refresh_hostnames_def expire_ownership_def note_owner_def
      note_ecm_capacity_def Let_def split: option.split)

lemma iface_part_refresh: "iface_part (snd (refresh_neighbors inp opts t refresh rt)) = iface_part rt"
proof -
  have "iface_part (rt\<lparr>rt_ipv6_neighbor_refresh_pending := b\<rparr>) = iface_part rt" for b rt by (simp add: iface_part_def)
  then show ?thesis
    by (simp add: refresh_neighbors_def list_neighbors_filtered_def Let_def iface_part_simps)
qed

lemma iface_part_group: "iface_part (snd (fold (group_neighbor enable t now) ns s)) = iface_part (snd s)"
  by (rule fold_frame [where g = "\<lambda>s. iface_part (snd s)"]) (simp add: group_neighbor_def iface_part_simps)

lemma iface_part_neighbor_devices: "iface_part (snd (neighbor_devices inp opts t refresh rt)) = iface_part rt"
  by (simp add: neighbor_devices_def Let_def case_prod_beta iface_part_group iface_part_refresh iface_part_simps)

lemma iface_part_account_devices: "iface_part (tc_rt (account_devices now prune sec wan stats devices rt)) = iface_part rt"
proof -
  have "iface_part (tc_rt (device_traffic_step now prune sec wan x s)) = iface_part (tc_rt s)" for x s
    by (cases x) (simp add: Let_def iface_part_def)
  then show ?thesis unfolding account_devices_def
    by (subst fold_frame [where g = "\<lambda>s. iface_part (tc_rt s)"]) simp_all
qed

lemma iface_part_prune:
  "prune_device_counters w ok ks rt = Some (removed, rt') \<Longrightarrow> iface_part rt' = iface_part rt"
proof -
  assume "prune_device_counters w ok ks rt = Some (removed, rt')"
  moreover have "iface_part (snd (fold (\<lambda>k (removed, rt).
             if ok k
             then (removed @ [k],
                   rt\<lparr>rt_prev_device_bytes := (rt_prev_device_bytes rt)(k := None),
                      rt_device_last_active_ms := (rt_device_last_active_ms rt)(k := None)\<rparr>)
             else (removed, rt)) ks s)) = iface_part (snd s)" for s
    by (rule fold_frame [where g = "\<lambda>s. iface_part (snd s)"]) (simp add: case_prod_beta iface_part_def)
  from this [of "([], rt)"] calculation show ?thesis by (auto simp: prune_device_counters_def split: if_splits)
qed

lemma iface_part_total_devices: "iface_part (snd (total_devices active devices rt)) = iface_part rt"
proof -
  have "iface_part (snd (total_device active e s)) = iface_part (snd s)" for e s
    by (simp add: total_device_def Let_def case_prod_beta iface_part_def split: option.split)
  then have "iface_part (snd (fold (total_device active) devices s)) = iface_part (snd s)" for s
    by (intro fold_frame [where g = "\<lambda>s. iface_part (snd s)"])
  then show ?thesis by (simp add: total_devices_def Let_def case_prod_beta iface_part_def)
qed

lemma iface_part_breakdowns: "iface_part (snd (apply_tc_breakdowns m b u its rt)) = iface_part rt"
proof (induction its arbitrary: rt)
  case (Cons it its)
  have "iface_part (snd (tc_breakdown_step m b u it rt)) = iface_part rt"
    by (simp add: tc_breakdown_step_def Let_def iface_part_def)
  with Cons show ?case by (simp add: Let_def case_prod_beta)
qed simp

lemma add_wan_device_rt: "add_wan_device t now q s = Ok s' \<Longrightarrow> ec_rt s' = ec_rt s"
  by (auto simp: add_wan_device_def Let_def split: option.splits elim!: bindr.elims)

fun after_tick :: "monitor_runtime \<Rightarrow> snap_outcome \<Rightarrow> monitor_runtime" where
  "after_tick rt SnapPanic = rt"
| "after_tick rt (SnapErr rt') = rt'"
| "after_tick rt (SnapOk d e rt') = rt'"

lemma total_grows_part:
  "iface_part rt1 = iface_part rt \<Longrightarrow> iface_part rt2 = iface_part rt' \<Longrightarrow> total_grows t c stats rt1 rt2 = total_grows t c stats rt rt'"
  by (simp add: iface_part_def total_grows_def)

lemma account_ifaces_grow:
  assumes "distinct (map fst stats)" and "topology_ok t"
  shows "total_grows t (monitored_index t ifaces) stats rt (is_rt (account_ifaces t ifaces stats sec rt))"
proof -
  have "monitored_index t (first_names [] ifaces) = monitored_index t ifaces"
    by (intro ext) (simp add: monitored_index_def set_first_names)
  with account_names [OF assms distinct_first_names, of "[]" ifaces "\<lparr>is_items = [], is_wan_metrics = quad_default, is_rt = rt\<rparr>" sec]
  show ?thesis by (simp add: account_ifaces_def)
qed

lemma collect_entries_keys: "collect_entries es acc = Some m \<Longrightarrow> distinct (map fst acc) \<Longrightarrow> distinct (map fst m)"
  by (induction es acc rule: collect_entries.induct) (simp_all add: distinct_update)

lemma read_iface_keys: "read_iface_stats m = Some stats \<Longrightarrow> distinct (map fst stats)"
  by (auto simp: read_iface_stats_def split: option.splits dest: collect_entries_keys)

lemma read_device_keys: "read_device_stats m = Some stats \<Longrightarrow> distinct (map fst stats)"
  by (auto simp: read_device_stats_def split: option.splits dest: collect_entries_keys)


lemma book_counters_grow:
  assumes "distinct (map fst stats)" and "topology_ok t"
  shows "total_grows t (monitored_index t (so_monitor_ifaces opts)) stats rt
    (tc_rt (tk_tc (book_counters inp opts t stats dstats failures rt)))"
proof -
  obtain p rt1 where 1: "device_prune_due (si_now inp) (note_insert_failures (si_now inp) failures rt) = (p, rt1)" by fastforce
  obtain es ok refresh rt2 where 2: "ecm_reading (so_enable_ecm opts) inp t rt1 = (es, ok, refresh, rt2)" by (metis prod.collapse)
  let ?sec = "snapshot_seconds (so_interval opts) (si_now inp) (rt_last_snapshot_ms rt2)"
  let ?rt3 = "rt2\<lparr>rt_last_snapshot_ms := Some (si_now inp)\<rparr>"
  obtain esec rt4 where 4: "(if so_enable_ecm opts then ecm_interval_seconds (si_now inp) ?sec ok ?rt3 else (?sec, ?rt3)) = (esec, rt4)"
    by (metis prod.collapse)
  let ?rt5 = "if sat_sub (si_now inp) (rt_last_sync_tracking_ms rt4) \<ge> 60000 then rt4\<lparr>rt_last_sync_tracking_ms := si_now inp\<rparr> else rt4"
  let ?ifs = "account_ifaces t (so_monitor_ifaces opts) stats ?sec ?rt5"
  have "iface_part rt1 = iface_part rt" using iface_part_simps(3) [of "si_now inp" "note_insert_failures (si_now inp) failures rt"] 1
    by (simp add: iface_part_simps)
  moreover have "iface_part rt2 = iface_part rt1" using iface_part_simps(4) [of "so_enable_ecm opts" inp t rt1] 2 by simp
  moreover have "iface_part ?rt3 = iface_part rt2" by (simp add: iface_part_def)
  moreover have "iface_part rt4 = iface_part ?rt3"
    using 4 iface_part_simps(5) [of "si_now inp" ?sec ok ?rt3] by (auto split: if_splits)
  moreover have "iface_part ?rt5 = iface_part rt4" by (simp add: iface_part_def)
  ultimately have i5: "iface_part ?rt5 = iface_part rt" by simp
  have tk: "tc_rt (tk_tc (book_counters inp opts t stats dstats failures rt))
      = tc_rt (account_devices (si_now inp) p ?sec (wan_index t) dstats
          (fst (neighbor_devices inp opts t refresh (is_rt ?ifs))) (snd (neighbor_devices inp opts t refresh (is_rt ?ifs))))"
    by (simp only: book_counters_def Let_def 1 2 4 prod.case case_prod_beta fst_conv snd_conv tick_state.simps)
  have i6: "iface_part (is_rt ?ifs) = iface_part (tc_rt (tk_tc (book_counters inp opts t stats dstats failures rt)))"
    unfolding tk iface_part_account_devices iface_part_neighbor_devices by (rule refl)
  show ?thesis
    using account_ifaces_grow [OF assms, of "so_monitor_ifaces opts" ?rt5 ?sec] unfolding total_grows_part [OF i5 i6] .
qed

lemma finish_snapshot_part:
  assumes "finish_snapshot inp opts t False ifs tc eff ecm = SnapOk d e rt'"
  shows "iface_part rt' = iface_part (ec_rt ecm)"
proof -
  have "iface_part (rt\<lparr>rt_registry := r\<rparr>) = iface_part rt" for r rt by (simp add: iface_part_def)
  then show ?thesis using assms
    by (auto simp: finish_snapshot_def Let_def case_prod_beta iface_part_breakdowns iface_part_total_devices)
qed

lemma tick_totals:
  assumes "topology_ok t" and "\<not> so_enable_ecm opts" and "rt' = after_tick rt (collect_snapshot inp opts t rt)"
  shows "iface_part rt' = iface_part rt \<and> (\<forall>d e rt''. collect_snapshot inp opts t rt \<noteq> SnapOk d e rt'')
    \<or> (\<exists>stats. read_iface_stats (si_iface_map inp) = Some stats
        \<and> total_grows t (monitored_index t (so_monitor_ifaces opts)) stats rt rt')"
proof (cases "read_iface_stats (si_iface_map inp)")
  case None
  then show ?thesis using assms(3) by (simp add: collect_snapshot_def)
next
  case stats: (Some stats)
  note ds = read_iface_keys [OF stats]
  show ?thesis
  proof (cases "read_device_stats (si_device_map inp)")
    case None
    then show ?thesis using assms(3) stats by (simp add: collect_snapshot_def)
  next
    case dst: (Some dstats)
    let ?rt1 = "note_device_capacity (si_now inp) (length dstats) rt"
    have i1: "iface_part ?rt1 = iface_part rt" by (simp add: iface_part_simps)
    show ?thesis
    proof (cases "read_device_insert_failures (si_failures inp)")
      case None
      then show ?thesis using assms(3) stats dst i1 by (simp add: collect_snapshot_def Let_def)
    next
      case fl: (Some failures)
      let ?tk = "book_counters inp opts t stats dstats failures ?rt1"
      have g: "total_grows t (monitored_index t (so_monitor_ifaces opts)) stats rt (tc_rt (tk_tc ?tk))"
        using book_counters_grow [OF ds assms(1), of opts ?rt1 inp dstats failures] total_grows_part [OF i1] by blast
      show ?thesis
      proof (cases "prune_device_counters (si_device_map_writable inp) (si_device_remove inp) (tc_inactive (tk_tc ?tk)) (tc_rt (tk_tc ?tk))")
        case None
        then show ?thesis using assms(3) stats dst fl g by (simp add: collect_snapshot_def Let_def)
      next
        case (Some rr)
        obtain removed rt2 where rr: "rr = (removed, rt2)" by (cases rr)
        have i2: "iface_part rt2 = iface_part (tc_rt (tk_tc ?tk))" using iface_part_prune Some rr by blast
        let ?ecm = "account_ecm inp False (tk_ecm_sec ?tk) t (local_v6_subnets False t) (tk_ecm_stats ?tk) (tc_devices (tk_tc ?tk)) rt2"
        have e: "ec_rt (fst ?ecm) = rt2" by (simp add: account_ecm_def)
        show ?thesis
        proof (cases "add_wan_device t (si_now inp) (is_wan_metrics (tk_ifs ?tk)) (fst ?ecm)")
          case (Ok ecm')
          let ?eff = "\<lparr>se_removed_devices = removed, se_removed_ecm = snd ?ecm, se_sync_filters = tk_sync ?tk\<rparr>"
          let ?out = "finish_snapshot inp opts t False (tk_ifs ?tk) (tk_tc ?tk) ?eff ecm'"
          have out: "collect_snapshot inp opts t rt = ?out"
            using stats dst fl Some rr Ok assms(2) by (simp add: collect_snapshot_def case_prod_beta Let_def)
          obtain d e rt3 where o: "?out = SnapOk d e rt3" by (simp add: finish_snapshot_def Let_def case_prod_beta)
          have "iface_part rt3 = iface_part (tc_rt (tk_tc ?tk))"
            using finish_snapshot_part [OF o] add_wan_device_rt [OF Ok] e i2 by simp
          then show ?thesis using g out o stats assms(3) total_grows_part [OF refl, of rt3 "tc_rt (tk_tc ?tk)" t _ stats rt] by simp
        qed (use stats dst fl Some rr assms(2,3) in \<open>simp_all add: collect_snapshot_def case_prod_beta Let_def\<close>)
      qed
    qed
  qed
qed

end
