(* ===== verification/Tick_Outcome.thy ===== *)
theory Tick_Outcome
  imports Snapshot
begin

text \<open>How a tick can end: with a snapshot whenever the kernel's maps can be read, with an error otherwise,
  and never with a panic.\<close>

lemma wan_index_listed:
  assumes "topology_ok t" and "wan_index t = Some i"
  shows "\<exists>f. by_ifindex t i = Some f \<and> if_zone f = ''wan''"
proof -
  obtain f where f: "List.find (\<lambda>i. if_zone i = ''wan'') (topology_interfaces t) = Some f" "if_ifindex f = i"
    using assms(2) by (auto simp: wan_index_def)
  then have "f \<in> set (topology_interfaces t)" and z: "if_zone f = ''wan''" by (auto simp: find_Some_iff)
  then obtain j where j: "(j, f) \<in> set t" by (auto simp: topology_interfaces_def)
  then have "j = i" using assms(1) f(2) by (auto simp: topology_ok_def list_all_iff entry_ok_def)
  with j z assms(1) show ?thesis by (auto simp: by_ifindex_def topology_ok_def intro: map_of_is_SomeI)
qed

lemma add_wan_device_ok:
  assumes "topology_ok t"
  shows "\<exists>s'. add_wan_device t now q s = Ok s'"
proof (cases "wan_index t")
  case (Some i)
  obtain f where "by_ifindex t i = Some f" using wan_index_listed [OF assms Some] by blast
  then show ?thesis by (simp add: add_wan_device_def Some Let_def split: option.split)
qed (simp add: add_wan_device_def)

text \<open>Which keys of the device map a tick wants to remove.\<close>

definition tick_inactive :: "snap_input \<Rightarrow> snap_options \<Rightarrow> topology \<Rightarrow> monitor_runtime \<Rightarrow> device_traffic_key list" where
  "tick_inactive inp opts t rt =
     (case (read_iface_stats (si_iface_map inp), read_device_stats (si_device_map inp), read_device_insert_failures (si_failures inp)) of
        (Some ifs, Some devs, Some failures) \<Rightarrow>
          tc_inactive (tk_tc (book_counters inp opts t ifs devs failures (note_device_capacity (si_now inp) (length devs) rt)))
      | _ \<Rightarrow> [])"

lemma tick_ends:
  assumes "topology_ok t"
  shows "collect_snapshot inp opts t rt \<noteq> SnapPanic
    \<and> ((\<exists>d e rt'. collect_snapshot inp opts t rt = SnapOk d e rt') \<longleftrightarrow>
         read_iface_stats (si_iface_map inp) \<noteq> None \<and> read_device_stats (si_device_map inp) \<noteq> None
         \<and> read_device_insert_failures (si_failures inp) \<noteq> None
         \<and> (tick_inactive inp opts t rt = [] \<or> si_device_map_writable inp))"
proof (cases "read_iface_stats (si_iface_map inp) = None \<or> read_device_stats (si_device_map inp) = None
    \<or> read_device_insert_failures (si_failures inp) = None")
  case True
  then show ?thesis by (auto simp: collect_snapshot_def Let_def split: option.split)
next
  case False
  then obtain ifs devs failures where r: "read_iface_stats (si_iface_map inp) = Some ifs"
    "read_device_stats (si_device_map inp) = Some devs" "read_device_insert_failures (si_failures inp) = Some failures" by auto
  let ?tk = "book_counters inp opts t ifs devs failures (note_device_capacity (si_now inp) (length devs) rt)"
  have inactive: "tick_inactive inp opts t rt = tc_inactive (tk_tc ?tk)" by (simp add: tick_inactive_def r)
  show ?thesis
  proof (cases "prune_device_counters (si_device_map_writable inp) (si_device_remove inp) (tc_inactive (tk_tc ?tk)) (tc_rt (tk_tc ?tk))")
    case None
    then have "tc_inactive (tk_tc ?tk) \<noteq> [] \<and> \<not> si_device_map_writable inp"
      by (auto simp: prune_device_counters_def split: if_splits)
    then show ?thesis using None by (simp add: collect_snapshot_def r Let_def inactive)
  next
    case (Some rr)
    then have w: "tc_inactive (tk_tc ?tk) = [] \<or> si_device_map_writable inp"
      by (auto simp: prune_device_counters_def split: if_splits)
    obtain removed rt2 where rr: "rr = (removed, rt2)" by (cases rr)
    let ?ecm = "account_ecm inp (so_enable_ecm opts \<and> tk_ecm_ok ?tk) (tk_ecm_sec ?tk) t (local_v6_subnets (so_enable_ecm opts) t)
        (tk_ecm_stats ?tk) (tc_devices (tk_tc ?tk)) rt2"
    obtain ecm' where "add_wan_device t (si_now inp) (is_wan_metrics (tk_ifs ?tk)) (fst ?ecm) = Ok ecm'"
      using add_wan_device_ok [OF assms] by blast
    then show ?thesis
      using w by (simp add: collect_snapshot_def r Let_def inactive Some rr case_prod_beta finish_snapshot_def)
  qed
qed

definition sample_tick :: "u64 \<Rightarrow> (iface_traffic_key \<times> traffic_value) option list option \<Rightarrow> snap_input" where
  "sample_tick now ifaces =
     \<lparr>si_now = now, si_iface_map = ifaces, si_device_map = Some [], si_failures = Some [], si_ecm_map = None, si_arp = None,
      si_ip6_neigh = None, si_leases = None, si_dhcp = None, si_device_map_writable = True,
      si_device_remove = (\<lambda>_. True), si_ecm_map_writable = True, si_ecm_now = (\<lambda>_. None), si_ecm_remove = (\<lambda>_. True)\<rparr>"

definition sample_options :: snap_options where
  "sample_options = \<lparr>so_interval = (1, 0), so_monitor_ifaces = [''br-lan''], so_enable_ecm = False\<rparr>"

text \<open>C7: the collector never panics, and a tick fails only when it has to. For every topology whose
  entries carry their own index (every discovered one does) and whatever the maps, the files, the
  options and the state hold, a tick ends with a snapshot exactly when the interface map, the device map and the
  failure counters can be read completely and the device map is writable if idle counters have to
  be removed; otherwise it ends with an error. The ECM map is not needed.\<close>

theorem tick_outcome:
  assumes "topology_ok t"
  shows "collect_snapshot inp opts t rt \<noteq> SnapPanic
    \<and> ((\<exists>d e rt'. collect_snapshot inp opts t rt = SnapOk d e rt') \<longleftrightarrow>
         read_iface_stats (si_iface_map inp) \<noteq> None \<and> read_device_stats (si_device_map inp) \<noteq> None
         \<and> read_device_insert_failures (si_failures inp) \<noteq> None
         \<and> (tick_inactive inp opts t rt = [] \<or> si_device_map_writable inp))"
  by (rule tick_ends [OF assms])

theorem tick_outcome_witness:
  "\<exists>d e rt'. collect_snapshot (sample_tick 1000 (Some [Some (\<lparr>ik_ifindex = 3, ik_ip_version = 4, ik_direction = 2\<rparr>, \<lparr>tv_packets = 4, tv_bytes = 900\<rparr>)]))
     sample_options [(3, sample_iface 3)] runtime_default = SnapOk d e rt'"
  using tick_outcome [OF sample_topology(1), of _ sample_options 3 runtime_default]
  by (simp add: sample_tick_def read_iface_stats_def read_device_stats_def read_device_insert_failures_def)

end
