(* ===== verification/Totals.thy ===== *)
theory Totals
  imports Ledger Tick_Outcome
begin

text \<open>
  Interface totals over any number of ticks. A tick that reads the interface map books, for every
  monitored interface and every family, what its kernel counter grew by since the baseline; a tick that
  fails to read it books nothing and keeps the baseline. So the total telescopes: it is the first total
  plus the growth of the counter, whatever ticks failed in between and however long they were apart.
\<close>

section \<open>The counter behind a family\<close>

fun family_version :: "family \<Rightarrow> u8" where
  "family_version UpV4 = 4" | "family_version DownV4 = 4" | "family_version UpV6 = 6" | "family_version DownV6 = 6"

fun family_direction :: "family \<Rightarrow> u8" where
  "family_direction UpV4 = 1" | "family_direction DownV4 = 2" | "family_direction UpV6 = 1" | "family_direction DownV6 = 2"

text \<open>The WAN side counts the other way round: what enters there is download.\<close>

definition counter_key :: "topology \<Rightarrow> u32 \<Rightarrow> family \<Rightarrow> iface_traffic_key" where
  "counter_key t i f =
     \<lparr>ik_ifindex = i, ik_ip_version = family_version f, ik_direction = dir_for (is_wan_iface t i) (family_direction f)\<rparr>"

lemma booked_key:
  "ik_ifindex k = i \<and> family_of (ik_ip_version k) (dir_for (is_wan_iface t i) (ik_direction k)) = Some f
   \<longleftrightarrow> k = counter_key t i f"
  by (cases k; cases f) (auto simp: counter_key_def family_of_def dir_for_def opposite_def split: if_splits)

lemma iface_amount_counter:
  "iface_amount prevs i (is_wan_iface t i) e f =
     (if fst e = counter_key t i f then delta_bytes (tv_bytes (snd e)) (baseline prevs (fst e)) else 0)"
  using booked_key [of "fst e" i t f] by (auto simp: iface_amount_def book_def)

lemma sum_single_key:
  "distinct (map fst xs) \<Longrightarrow> (\<Sum>e\<leftarrow>xs. if fst e = k then g e else 0)
     = (case map_of xs k of None \<Rightarrow> 0 | Some v \<Rightarrow> g (k, v))" for g :: "'a \<times> 'b \<Rightarrow> nat"
proof (induction xs)
  case (Cons e xs)
  have "fst e = k \<Longrightarrow> map_of xs k = None" using Cons.prems by (auto simp: map_of_eq_None_iff)
  with Cons show ?case by (cases e) auto
qed simp

lemma counted_growth:
  assumes "distinct (map fst stats)"
  shows "(\<Sum>e\<leftarrow>stats. unat (iface_amount prevs i (is_wan_iface t i) e f)) =
    (case map_of stats (counter_key t i f) of
       None \<Rightarrow> 0
     | Some v \<Rightarrow> unat (delta_bytes (tv_bytes v) (baseline prevs (counter_key t i f))))"
proof -
  have "(\<Sum>e\<leftarrow>stats. unat (iface_amount prevs i (is_wan_iface t i) e f))
      = (\<Sum>e\<leftarrow>stats. if fst e = counter_key t i f then unat (delta_bytes (tv_bytes (snd e)) (baseline prevs (fst e))) else 0)"
    by (intro arg_cong [where f = sum_list] map_cong refl) (simp add: iface_amount_counter)
  then show ?thesis by (auto simp: sum_single_key [OF assms] split: option.split)
qed

lemma min_steps:
  fixes b0 b1 b2 c t0 t1 t2 :: nat
  assumes "b0 \<le> b1 \<and> t1 = min (t0 + (b1 - b0)) c" and "t2 = min (t1 + (b2 - b1)) c \<and> b1 \<le> b2"
  shows "t2 = min (t0 + (b2 - b0)) c \<and> b0 \<le> b2"
  using assms by (auto simp: min_def)

section \<open>Runs\<close>

fun ticks :: "snap_options \<Rightarrow> topology \<Rightarrow> snap_input list \<Rightarrow> monitor_runtime \<Rightarrow> monitor_runtime" where
  "ticks opts t [] rt = rt"
| "ticks opts t (inp # inps) rt = ticks opts t inps (after_tick rt (collect_snapshot inp opts t rt))"

text \<open>The counter of a key never reads less than the baseline the service holds.\<close>

fun forward_run :: "snap_options \<Rightarrow> topology \<Rightarrow> iface_traffic_key \<Rightarrow> snap_input list \<Rightarrow> monitor_runtime \<Rightarrow> bool" where
  "forward_run opts t k [] rt = True"
| "forward_run opts t k (inp # inps) rt =
     ((case read_iface_stats (si_iface_map inp) of
         None \<Rightarrow> True
       | Some stats \<Rightarrow> (case map_of stats k of None \<Rightarrow> True | Some v \<Rightarrow> baseline (rt_prev_iface_bytes rt) k \<le> tv_bytes v))
      \<and> forward_run opts t k inps (after_tick rt (collect_snapshot inp opts t rt)))"

text \<open>One tick moves the total and the baseline of a counter together.\<close>

lemma tick_moves_total:
  assumes "topology_ok t" and "\<not> so_enable_ecm opts" and "monitored_index t (so_monitor_ifaces opts) i"
    and "forward_run opts t (counter_key t i f) (inp # inps) rt"
  defines "rt' \<equiv> after_tick rt (collect_snapshot inp opts t rt)"
    and "b \<equiv> \<lambda>rt. unat (baseline (rt_prev_iface_bytes rt) (counter_key t i f))"
    and "tot \<equiv> \<lambda>rt. unat (q_bytes f (quad_at (rt_cumulative_iface rt) i))"
  shows "b rt \<le> b rt' \<and> tot rt' = min (tot rt + (b rt' - b rt)) (2 ^ 64 - 1)"
proof -
  consider (same) "iface_part rt' = iface_part rt"
    | (grows) stats where "read_iface_stats (si_iface_map inp) = Some stats"
        "total_grows t (monitored_index t (so_monitor_ifaces opts)) stats rt rt'"
    using tick_totals [OF assms(1,2)] unfolding rt'_def by blast
  then show ?thesis
  proof cases
    case same
    then have "rt_prev_iface_bytes rt' = rt_prev_iface_bytes rt" "rt_cumulative_iface rt' = rt_cumulative_iface rt"
      by (simp_all add: iface_part_def)
    then show ?thesis using unat_lt [of "q_bytes f (quad_at (rt_cumulative_iface rt) i)"] by (simp add: b_def tot_def)
  next
    case (grows stats)
    let ?k = "counter_key t i f"
    have ik: "ik_ifindex ?k = i" by (simp add: counter_key_def)
    have prev: "rt_prev_iface_bytes rt' ?k = (case map_of stats ?k of None \<Rightarrow> rt_prev_iface_bytes rt ?k | Some v \<Rightarrow> Some (tv_bytes v))"
      using grows(2) assms(3) ik by (simp add: total_grows_def new_baselines_def)
    have sum: "tot rt' = min (tot rt + (case map_of stats ?k of None \<Rightarrow> 0
        | Some v \<Rightarrow> unat (delta_bytes (tv_bytes v) (baseline (rt_prev_iface_bytes rt) ?k)))) (2 ^ 64 - 1)"
      using grows(2) assms(3) unfolding total_grows_def tot_def
      by (simp add: counted_growth [OF read_iface_keys [OF grows(1)]])
    show ?thesis
    proof (cases "map_of stats ?k")
      case None
      then show ?thesis using prev sum by (simp add: b_def baseline_def)
    next
      case (Some v)
      then have le: "baseline (rt_prev_iface_bytes rt) ?k \<le> tv_bytes v" using assms(4) grows(1) by simp
      then have "unat (delta_bytes (tv_bytes v) (baseline (rt_prev_iface_bytes rt) ?k)) = unat (tv_bytes v) - b rt"
        by (simp add: delta_bytes_def b_def unat_sub)
      moreover have "b rt' = unat (tv_bytes v)" using prev Some by (simp add: b_def baseline_def)
      ultimately show ?thesis using sum Some le by (simp add: b_def word_le_nat_alt)
    qed
  qed
qed

text \<open>Interface totals telescope. Over any sequence of ticks, successful or not, with hardware
  offload off, the total of a monitored interface grows, for each family, by exactly what the kernel
  counter behind it grew by between the first and the last baseline, up to the largest 64 bit number,
  as long as the counter never runs backwards. Nothing is counted twice and no tick that failed loses
  traffic.\<close>

theorem interface_totals_telescope:
  assumes "topology_ok t" and "\<not> so_enable_ecm opts" and "name \<in> set (so_monitor_ifaces opts)" and "names_of t name = Some i"
    and "forward_run opts t (counter_key t i f) inps rt"
  shows "unat (q_bytes f (quad_at (rt_cumulative_iface (ticks opts t inps rt)) i)) =
      min (unat (q_bytes f (quad_at (rt_cumulative_iface rt) i))
           + (unat (baseline (rt_prev_iface_bytes (ticks opts t inps rt)) (counter_key t i f))
              - unat (baseline (rt_prev_iface_bytes rt) (counter_key t i f)))) (2 ^ 64 - 1)
    \<and> baseline (rt_prev_iface_bytes rt) (counter_key t i f)
        \<le> baseline (rt_prev_iface_bytes (ticks opts t inps rt)) (counter_key t i f)"
  using assms(5)
proof (induction inps arbitrary: rt)
  case Nil
  then show ?case using unat_lt [of "q_bytes f (quad_at (rt_cumulative_iface rt) i)"] by simp
next
  case (Cons inp inps)
  let ?rt' = "after_tick rt (collect_snapshot inp opts t rt)"
  have m: "monitored_index t (so_monitor_ifaces opts) i" using assms(3,4) by (auto simp: monitored_index_def)
  have "forward_run opts t (counter_key t i f) inps ?rt'" using Cons.prems by simp
  note later = Cons.IH [OF this]
  note first = tick_moves_total [OF assms(1,2) m Cons.prems]
  show ?case unfolding ticks.simps word_le_nat_alt by (rule min_steps [OF first later [unfolded word_le_nat_alt]])
qed

text \<open>A reading of 900 bytes, then a tick that cannot open the map.\<close>

theorem interface_totals_telescope_witness:
  "let rt = ticks sample_options [(3, sample_iface 3)]
              [sample_tick 1000 (Some [Some (\<lparr>ik_ifindex = 3, ik_ip_version = 4, ik_direction = 2\<rparr>, \<lparr>tv_packets = 4, tv_bytes = 900\<rparr>)]),
               sample_tick 2000 None] runtime_default
   in unat (q_bytes DownV4 (quad_at (rt_cumulative_iface rt) 3))
      = min (unat (baseline (rt_prev_iface_bytes rt) (counter_key [(3, sample_iface 3)] 3 DownV4))) (2 ^ 64 - 1)"
proof -
  have "topology_ok [(3, sample_iface 3)]" by (rule sample_topology)
  moreover have "names_of [(3, sample_iface 3)] ''br-lan'' = Some 3"
    by (simp add: names_of_def topology_interfaces_def sample_iface_def)
  ultimately show ?thesis
    unfolding Let_def
    by (subst interface_totals_telescope [where name = "''br-lan''", THEN conjunct1])
      (simp_all add: sample_options_def sample_tick_def read_iface_stats_def runtime_default_def baseline_def quad_at_def quad_default_def
        split: option.split)
qed

end
