(* ===== verification/Dns_Wire.thy ===== *)
theory Dns_Wire
  imports Ip_Text
begin

text \<open>
  The packet parser of \<open>dns.rs\<close>: IPv4 and IPv6 headers (with extension headers), UDP and
  TCP framing, and the DNS message with its compressed names. Every index and every slice
  of the code is a possible panic here (\<open>Panic\<close>); \<open>Fail\<close> is a \<open>None\<close>. \<open>usize\<close> has
  64 bits; \<open>checked_add\<close> fails beyond it.
\<close>

section \<open>Reading buffers\<close>

definition checked_add :: "nat \<Rightarrow> nat \<Rightarrow> nat res" where
  "checked_add a b = (if a + b < 2 ^ 64 then Ok (a + b) else Fail)"

text \<open>\<open>packet.get(a..b)?\<close>.\<close>

definition get_slice :: "nat \<Rightarrow> nat \<Rightarrow> 'a list \<Rightarrow> 'a list res" where
  "get_slice a b xs = (if a \<le> b \<and> b \<le> length xs then Ok (slice a (b - a) xs) else Fail)"

definition get_byte :: "'a list \<Rightarrow> nat \<Rightarrow> 'a res" where
  "get_byte xs i = (if i < length xs then Ok (xs ! i) else Fail)"

definition read_u16 :: "bytes \<Rightarrow> nat \<Rightarrow> u16 res" where
  "read_u16 packet offset =
     bindr (checked_add offset 2) (\<lambda>e. bindr (get_slice offset e packet) (\<lambda>bs. Ok (of_be16 bs)))"

definition guard :: "bool \<Rightarrow> unit res" where
  "guard b = (if b then Ok () else Fail)"

lemma no_panic_basic [simp, res_simps]:
  "checked_add a b \<noteq> Panic" "get_slice a b xs \<noteq> Panic" "get_byte xs i \<noteq> Panic"
  "guard c \<noteq> Panic"
  by (simp_all add: checked_add_def get_slice_def get_byte_def guard_def)

lemma guard_Ok [simp, res_simps]: "guard c = Ok u \<longleftrightarrow> c"
  by (simp add: guard_def)

lemma checked_add_Ok [simp, res_simps]: "checked_add a b = Ok c \<longleftrightarrow> c = a + b \<and> a + b < 2 ^ 64"
  by (auto simp: checked_add_def)

lemma get_slice_Ok [res_simps]: "get_slice a b xs = Ok ys \<longleftrightarrow> a \<le> b \<and> b \<le> length xs \<and> ys = slice a (b - a) xs"
  by (auto simp: get_slice_def)

lemma get_byte_Ok [res_simps]: "get_byte xs i = Ok b \<longleftrightarrow> i < length xs \<and> b = xs ! i"
  by (auto simp: get_byte_def)

lemma read_u16_not_Panic [simp, res_simps]: "read_u16 p off \<noteq> Panic"
  unfolding read_u16_def by (intro bindr_not_Panic) simp_all

lemma read_u16_Ok [res_simps]:
  "read_u16 p off = Ok w \<Longrightarrow> off + 2 \<le> length p"
  by (auto simp: read_u16_def bindr_Ok_iff get_slice_Ok)

section \<open>Text of codes\<close>

definition dns_type_name :: "u16 \<Rightarrow> string" where
  "dns_type_name v =
     (if v = 1 then ''A'' else if v = 2 then ''NS'' else if v = 5 then ''CNAME'' else if v = 6 then ''SOA''
      else if v = 12 then ''PTR'' else if v = 15 then ''MX'' else if v = 16 then ''TXT''
      else if v = 28 then ''AAAA'' else if v = 33 then ''SRV'' else if v = 64 then ''SVCB''
      else if v = 65 then ''HTTPS'' else ''TYPE'' @ dec (unat v))"

definition dns_response_code :: "u8 \<Rightarrow> string" where
  "dns_response_code v =
     (if v = 0 then ''NOERROR'' else if v = 1 then ''FORMERR'' else if v = 2 then ''SERVFAIL''
      else if v = 3 then ''NXDOMAIN'' else if v = 4 then ''NOTIMP'' else if v = 5 then ''REFUSED''
      else ''RCODE'' @ dec (unat v))"

definition lossy_string :: "bytes \<Rightarrow> string" where
  "lossy_string bs = string_of_bytes (from_utf8_lossy bs)"

section \<open>Names\<close>

text \<open>
  The loop of \<open>read_dns_name\<close>; its state is the position, the position after the first
  compression pointer, the labels so far, the number of jumps and the expanded length.
\<close>

function read_name_loop ::
  "bytes \<Rightarrow> nat \<Rightarrow> nat option \<Rightarrow> string list \<Rightarrow> nat \<Rightarrow> nat \<Rightarrow> (string \<times> nat) res" where
  "read_name_loop packet position consumed labels jumps expanded =
     (if position \<ge> length packet \<or> jumps > 16 \<or> length labels > 127 then Fail
      else
        let len = packet ! position in
        if len AND 192 = 192 then
          (case get_byte packet (position + 1) of
             Panic \<Rightarrow> Panic | Fail \<Rightarrow> Fail
           | Ok second \<Rightarrow>
               let pointer = unat (len AND 63) * 256 + unat second in
               if pointer \<ge> length packet then Fail
               else read_name_loop packet pointer
                      (case consumed of None \<Rightarrow> Some (position + 2) | Some c \<Rightarrow> Some c) labels (jumps + 1) expanded)
        else if len AND 192 \<noteq> 0 then Fail
        else if len = 0 then
          Ok (join ''.'' labels, case consumed of None \<Rightarrow> position + 1 | Some c \<Rightarrow> c)
        else
          let end_pos = position + 1 + unat len in
          if \<not> end_pos < 2 ^ 64 then Fail
          else if \<not> end_pos \<le> length packet then Fail
          else if expanded + unat len + 1 > 255 then Fail
          else read_name_loop packet end_pos consumed
                 (labels @ [lossy_string (slice (position + 1) (unat len) packet)]) jumps (expanded + unat len + 1))"
  by pat_completeness auto
termination
  by (relation "measure (\<lambda>(_, _, _, labels, jumps, _). (17 - jumps) + (128 - length labels))")
     (auto simp: get_byte_def split: if_splits)

declare read_name_loop.simps [simp del]

definition read_dns_name :: "bytes \<Rightarrow> nat \<Rightarrow> (string \<times> nat) res" where
  "read_dns_name packet offset = read_name_loop packet offset None [] 0 0"

section \<open>Network headers\<close>

type_synonym ip_header = "ip_addr \<times> ip_addr \<times> u8 \<times> nat \<times> nat"

definition parse_ipv4_header :: "bytes \<Rightarrow> nat \<Rightarrow> ip_header res" where
  "parse_ipv4_header packet offset =
     bindr (checked_add offset 20) (\<lambda>e. bindr (get_slice offset e packet) (\<lambda>header.
     bindr (idx header 0) (\<lambda>b0. bindr (guard (drop_bit 4 b0 = 4)) (\<lambda>_.
     let ihl = unat (b0 AND 15) * 4 in
     bindr (guard (ihl \<ge> 20)) (\<lambda>_.
     bindr (read_u16 packet (offset + 2)) (\<lambda>tl.
     let total_len = unat tl in
     bindr (guard (\<not> total_len < ihl)) (\<lambda>_.
     bindr (checked_add offset total_len) (\<lambda>e2.
     bindr (guard (\<not> e2 > length packet)) (\<lambda>_.
     bindr (read_u16 packet (offset + 6)) (\<lambda>fragment.
     bindr (guard (fragment AND 16383 = 0)) (\<lambda>_.
     bindr (idx header 9) (\<lambda>protocol.
     Ok (V4 (ipv4_of_octets (slice 12 4 header)), V4 (ipv4_of_octets (slice 16 4 header)),
         protocol, offset + ihl, offset + total_len)))))))))))))"

text \<open>One extension header of the given unit: at most the end of the packet is reached.\<close>

definition skip_extension :: "bytes \<Rightarrow> nat \<Rightarrow> nat \<Rightarrow> nat \<Rightarrow> nat \<Rightarrow> (u8 \<times> nat) res" where
  "skip_extension packet packet_end cursor add unit_len =
     (if cursor + 2 > packet_end then Fail else
      bindr (idx packet cursor) (\<lambda>nx. bindr (idx packet (cursor + 1)) (\<lambda>l.
      let extension_len = (unat l + add) * unit_len in
      if cursor + extension_len > packet_end then Fail else Ok (nx, cursor + extension_len))))"

fun skip_extensions :: "nat \<Rightarrow> bytes \<Rightarrow> nat \<Rightarrow> u8 \<Rightarrow> nat \<Rightarrow> (u8 \<times> nat) res" where
  "skip_extensions 0 packet packet_end nh cursor = Ok (nh, cursor)"
| "skip_extensions (Suc n) packet packet_end nh cursor =
     (if nh \<in> {0, 43, 60, 135, 139, 140}
      then bindr (skip_extension packet packet_end cursor 1 8)
             (\<lambda>(nh', cursor'). skip_extensions n packet packet_end nh' cursor')
      else if nh = 51
      then bindr (skip_extension packet packet_end cursor 2 4)
             (\<lambda>(nh', cursor'). skip_extensions n packet packet_end nh' cursor')
      else if nh = 44 \<or> nh = 50 then Fail
      else Ok (nh, cursor))"

definition parse_ipv6_header :: "bytes \<Rightarrow> nat \<Rightarrow> ip_header res" where
  "parse_ipv6_header packet offset =
     bindr (checked_add offset 40) (\<lambda>e. bindr (get_slice offset e packet) (\<lambda>header.
     bindr (idx header 0) (\<lambda>b0. bindr (guard (drop_bit 4 b0 = 6)) (\<lambda>_.
     bindr (read_u16 packet (offset + 4)) (\<lambda>pl.
     bindr (checked_add e (unat pl)) (\<lambda>e2.
     let packet_end = min e2 (length packet) in
     bindr (idx header 6) (\<lambda>nh.
     bindr (skip_extensions 8 packet packet_end nh (offset + 40)) (\<lambda>(next_header, cursor).
     Ok (V6 (ipv6_of_octets (slice 8 16 header)), V6 (ipv6_of_octets (slice 24 16 header)),
         next_header, cursor, packet_end)))))))))"

section \<open>Messages\<close>

record dns_message =
  dm_is_query :: bool
  dm_source_ip :: ip_addr
  dm_destination_ip :: ip_addr
  dm_source_port :: u16
  dm_destination_port :: u16
  dm_transaction_id :: u16
  dm_domain :: string
  dm_query_type :: string
  dm_protocol :: string
  dm_response_code :: "string option"
  dm_response_ips :: "string list"
  dm_response_records :: "string list"

fun skip_questions :: "nat \<Rightarrow> bytes \<Rightarrow> nat \<Rightarrow> nat res" where
  "skip_questions 0 dns cursor = Ok cursor"
| "skip_questions (Suc n) dns cursor =
     bindr (read_dns_name dns cursor) (\<lambda>(_, nx).
     bindr (checked_add nx 4) (\<lambda>c.
     if c > length dns then Fail else skip_questions n dns c))"

text \<open>The character strings of a TXT record; a string that overruns the data ends the loop.\<close>

function txt_parts :: "bytes \<Rightarrow> nat \<Rightarrow> string list \<Rightarrow> string list" where
  "txt_parts data pos acc =
     (if \<not> pos < length data then acc
      else let len = unat (data ! pos) in
           if pos + 1 + len > length data then acc
           else txt_parts data (pos + 1 + len) (acc @ [lossy_string (slice (pos + 1) len data)]))"
  by pat_completeness auto
termination
  by (relation "measure (\<lambda>(data, pos, _). length data - pos)") auto

declare txt_parts.simps [simp del]

text \<open>What one answer adds: an address and a record line.\<close>

definition answer_data ::
  "bytes \<Rightarrow> u16 \<Rightarrow> nat \<Rightarrow> bytes \<Rightarrow> (string list \<times> string list) res" where
  "answer_data dns rr_type data_start data =
     (let data_len = length data in
      if rr_type = 1 \<and> data_len = 4 then
        (let ip = ipv4_to_string (ipv4_of_octets data) in Ok ([ip], [''A:'' @ ip]))
      else if rr_type = 28 \<and> data_len = 16 then
        (let ip = ipv6_to_string (ipv6_of_octets data) in Ok ([ip], [''AAAA:'' @ ip]))
      else if rr_type = 5 \<or> rr_type = 2 \<or> rr_type = 12 then
        (case read_dns_name dns data_start of
           Panic \<Rightarrow> Panic
         | Fail \<Rightarrow> Ok ([], [])
         | Ok (name, _) \<Rightarrow> Ok ([], [dns_type_name rr_type @ '':'' @ name]))
      else if rr_type = 15 \<and> data_len \<ge> 3 then
        (case read_dns_name dns (data_start + 2) of
           Panic \<Rightarrow> Panic
         | Fail \<Rightarrow> Ok ([], [])
         | Ok (exchange, _) \<Rightarrow>
             bindr (idx data 0) (\<lambda>d0. bindr (idx data 1) (\<lambda>d1.
             Ok ([], [''MX:'' @ exchange @ '' priority='' @ dec (unat (of_be16 [d0, d1]))]))))
      else if rr_type = 16 then Ok ([], [''TXT:'' @ join '' '' (txt_parts data 0 [])])
      else Ok ([], [dns_type_name rr_type @ '': '' @ dec data_len @ '' bytes'']))"

fun read_answers ::
  "nat \<Rightarrow> bytes \<Rightarrow> nat \<Rightarrow> string list \<Rightarrow> string list \<Rightarrow> (string list \<times> string list) res" where
  "read_answers 0 dns cursor ips records = Ok (ips, records)"
| "read_answers (Suc n) dns cursor ips records =
     bindr (read_dns_name dns cursor) (\<lambda>(_, nx).
     if nx + 10 > length dns then Fail else
     bindr (read_u16 dns nx) (\<lambda>rr_type.
     bindr (read_u16 dns (nx + 8)) (\<lambda>dl.
     bindr (checked_add (nx + 10) (unat dl)) (\<lambda>data_end.
     bindr (get_slice (nx + 10) data_end dns) (\<lambda>data.
     bindr (answer_data dns rr_type (nx + 10) data) (\<lambda>(ips', records').
     read_answers n dns data_end (ips @ ips') (records @ records')))))))"

abbreviation max_dns_answers :: nat where "max_dns_answers \<equiv> 64"

definition parse_dns_message ::
  "bytes \<Rightarrow> ip_addr \<Rightarrow> ip_addr \<Rightarrow> u16 \<Rightarrow> u16 \<Rightarrow> string \<Rightarrow> dns_message res" where
  "parse_dns_message dns src dst sport dport protocol =
     (if length dns < 12 then Fail else
      bindr (read_u16 dns 0) (\<lambda>transaction_id.
      bindr (read_u16 dns 2) (\<lambda>flags.
      let is_query = (flags AND 32768 = 0) in
      bindr (read_u16 dns 4) (\<lambda>qc.
      let question_count = unat qc in
      if question_count = 0 \<or> question_count > 16 then Fail else
      bindr (read_u16 dns 6) (\<lambda>ac.
      bindr (read_dns_name dns 12) (\<lambda>(domain, cursor).
      if cursor + 4 > length dns then Fail else
      bindr (read_u16 dns cursor) (\<lambda>qt.
      bindr (skip_questions (question_count - 1) dns (cursor + 4)) (\<lambda>cursor.
      bindr (if is_query then Ok ([], []) else read_answers (min (unat ac) max_dns_answers) dns cursor [] [])
        (\<lambda>(ips, records).
      Ok \<lparr>dm_is_query = is_query, dm_source_ip = src, dm_destination_ip = dst,
          dm_source_port = sport, dm_destination_port = dport, dm_transaction_id = transaction_id,
          dm_domain = to_ascii_lowercase domain, dm_query_type = dns_type_name qt, dm_protocol = protocol,
          dm_response_code = (if is_query then None else Some (dns_response_code (ucast (flags AND 15)))),
          dm_response_ips = ips, dm_response_records = records\<rparr>)))))))))"

text \<open>The transport header: ports, offset and length of the DNS message.\<close>

definition parse_transport :: "bytes \<Rightarrow> u8 \<Rightarrow> nat \<Rightarrow> nat \<Rightarrow> (u16 \<times> u16 \<times> nat \<times> nat) res" where
  "parse_transport packet protocol off packet_end =
     (if protocol = 17 then
        (if off + 8 > packet_end then Fail else
         bindr (read_u16 packet off) (\<lambda>sport.
         bindr (read_u16 packet (off + 2)) (\<lambda>dport.
         bindr (read_u16 packet (off + 4)) (\<lambda>ul.
         let udp_len = unat ul in
         if udp_len < 8 + 12 \<or> off + udp_len > packet_end then Fail
         else Ok (sport, dport, off + 8, udp_len - 8)))))
      else if protocol = 6 then
        (if off + 20 > packet_end then Fail else
         bindr (read_u16 packet off) (\<lambda>sport.
         bindr (read_u16 packet (off + 2)) (\<lambda>dport.
         bindr (idx packet (off + 12)) (\<lambda>b.
         let tcp_header_len = unat (drop_bit 4 b) * 4 in
         if tcp_header_len < 20 \<or> off + tcp_header_len + 2 > packet_end then Fail else
         let prefix_offset = off + tcp_header_len in
         bindr (read_u16 packet prefix_offset) (\<lambda>dl.
         let dns_len = unat dl in
         if dns_len < 12 \<or> prefix_offset + 2 + dns_len > packet_end then Fail
         else Ok (sport, dport, prefix_offset + 2, dns_len))))))
      else Fail)"

definition parse_dns_packet :: "bytes \<Rightarrow> nat \<Rightarrow> u8 \<Rightarrow> dns_message res" where
  "parse_dns_packet packet ip_offset ip_version =
     bindr (if ip_version = 4 then parse_ipv4_header packet ip_offset
            else if ip_version = 6 then parse_ipv6_header packet ip_offset else Fail)
       (\<lambda>(src, dst, protocol, transport_offset, packet_end).
     bindr (parse_transport packet protocol transport_offset packet_end)
       (\<lambda>(sport, dport, dns_offset, dns_len).
     if sport \<noteq> 53 \<and> dport \<noteq> 53 then Fail else
     bindr (checked_add dns_offset dns_len) (\<lambda>e.
     bindr (get_slice dns_offset e packet) (\<lambda>dns.
     parse_dns_message dns src dst sport dport (if protocol = 17 then ''UDP'' else ''TCP'')))))"

section \<open>No input makes the parser panic\<close>

lemma read_name_loop_not_Panic: "read_name_loop p pos c ls j x \<noteq> Panic"
proof (induction p pos c ls j x rule: read_name_loop.induct)
  case (1 packet position consumed labels jumps expanded)
  show ?case
  proof (cases "position \<ge> length packet \<or> jumps > 16 \<or> length labels > 127")
    case True
    then show ?thesis by (simp add: read_name_loop.simps [of packet position])
  next
    case False
    show ?thesis
    proof (cases "get_byte packet (position + 1)")
      case Panic
      then show ?thesis by simp
    next
      case Fail
      then show ?thesis
        using False 1(2) [OF False refl] by (simp add: read_name_loop.simps [of packet position] Let_def)
    next
      case (Ok second)
      then show ?thesis
        using False 1(1) [OF False refl _ Ok refl] 1(2) [OF False refl]
        by (simp add: read_name_loop.simps [of packet position] Let_def)
    qed
  qed
qed

lemma read_dns_name_not_Panic [simp, res_simps]: "read_dns_name p off \<noteq> Panic"
  by (simp add: read_dns_name_def read_name_loop_not_Panic)

lemma skip_extension_not_Panic [simp, res_simps]:
  "packet_end \<le> length packet \<Longrightarrow> skip_extension packet packet_end cursor a u \<noteq> Panic"
  by (simp add: skip_extension_def Let_def)

lemma skip_extensions_not_Panic [simp, res_simps]:
  "packet_end \<le> length packet \<Longrightarrow> skip_extensions n packet packet_end nh cursor \<noteq> Panic"
proof (induction n arbitrary: nh cursor)
  case 0
  then show ?case by simp
next
  case (Suc n)
  then show ?case by (auto simp: bindr_Panic_iff)
qed

lemma parse_ipv4_header_not_Panic [simp, res_simps]: "parse_ipv4_header packet off \<noteq> Panic"
  unfolding parse_ipv4_header_def Let_def by (auto simp: bindr_Panic_iff get_slice_Ok)

lemma parse_ipv6_header_not_Panic [simp, res_simps]: "parse_ipv6_header packet off \<noteq> Panic"
  unfolding parse_ipv6_header_def Let_def
  by (auto simp: bindr_Panic_iff get_slice_Ok)

lemma packet_end_ipv4: "parse_ipv4_header packet off = Ok (s, d, p, t, e) \<Longrightarrow> e \<le> length packet"
  by (auto simp: parse_ipv4_header_def bindr_Ok_iff Let_def)

lemma packet_end_ipv6: "parse_ipv6_header packet off = Ok (s, d, p, t, e) \<Longrightarrow> e \<le> length packet"
  by (auto simp: parse_ipv6_header_def bindr_Ok_iff Let_def)

lemma parse_transport_not_Panic [simp, res_simps]:
  "packet_end \<le> length packet \<Longrightarrow> parse_transport packet protocol off packet_end \<noteq> Panic"
  unfolding parse_transport_def Let_def by (auto simp: bindr_Panic_iff)

lemma skip_questions_not_Panic [simp, res_simps]: "skip_questions n dns cursor \<noteq> Panic"
  by (induction n arbitrary: cursor) (auto simp: bindr_Panic_iff)

lemma answer_data_not_Panic [simp, res_simps]: "answer_data dns ty st data \<noteq> Panic"
  unfolding answer_data_def Let_def by (auto simp: bindr_Panic_iff idx_def split: res.splits if_splits)

lemma read_answers_not_Panic [simp, res_simps]: "read_answers n dns cursor ips recs \<noteq> Panic"
  by (induction n arbitrary: cursor ips recs) (auto simp: bindr_Panic_iff)

lemma parse_dns_message_not_Panic [simp, res_simps]: "parse_dns_message dns s d sp dp pr \<noteq> Panic"
  unfolding parse_dns_message_def Let_def by (auto simp: bindr_Panic_iff)


section \<open>What an accepted message looks like\<close>

lemma answer_data_counts:
  "answer_data dns ty st data = Ok (ips, recs) \<Longrightarrow> length ips \<le> 1 \<and> length recs \<le> 1"
  by (auto simp: answer_data_def Let_def bindr_Ok_iff split: if_splits res.splits prod.splits)

lemma read_answers_counts:
  "read_answers n dns cursor ips recs = Ok (ips', recs') \<Longrightarrow>
    length ips' \<le> length ips + n \<and> length recs' \<le> length recs + n"
proof (induction n arbitrary: cursor ips recs)
  case 0
  then show ?case by simp
next
  case (Suc n)
  then obtain c i r where a: "length i \<le> 1 \<and> length r \<le> 1"
    and b: "read_answers n dns c (ips @ i) (recs @ r) = Ok (ips', recs')"
    by (auto simp: bindr_Ok_iff split: prod.splits if_splits dest!: answer_data_counts)
  from Suc.IH [OF b] a show ?case by auto
qed

text \<open>A message the parser accepts went to or came from port 53, and answers and a response code
  come only with responses, at most 64 answers of each kind, whatever count the packet claims.\<close>

theorem accepted_message_shape:
  assumes "parse_dns_packet packet ip_offset ip_version = Ok m"
  shows "(dm_source_port m = 53 \<or> dm_destination_port m = 53)
       \<and> (dm_protocol m = ''UDP'' \<or> dm_protocol m = ''TCP'')
       \<and> length (dm_response_ips m) \<le> 64 \<and> length (dm_response_records m) \<le> 64
       \<and> (dm_is_query m \<longrightarrow> dm_response_code m = None \<and> dm_response_ips m = [] \<and> dm_response_records m = [])
       \<and> (\<not> dm_is_query m \<longrightarrow> dm_response_code m \<noteq> None)"
proof -
  have shape: "dm_source_port m = sp \<and> dm_destination_port m = dp \<and> dm_protocol m = pr
       \<and> length (dm_response_ips m) \<le> 64 \<and> length (dm_response_records m) \<le> 64
       \<and> (dm_is_query m \<longrightarrow> dm_response_code m = None \<and> dm_response_ips m = [] \<and> dm_response_records m = [])
       \<and> (\<not> dm_is_query m \<longrightarrow> dm_response_code m \<noteq> None)"
    if "parse_dns_message dns s d sp dp pr = Ok m" for dns s d sp dp pr
    using that
    by (auto simp: parse_dns_message_def bindr_Ok_iff Let_def split: if_splits prod.splits
        dest!: read_answers_counts)
  obtain dns s d sp dp pr where m: "parse_dns_message dns s d sp dp pr = Ok m"
    and port: "sp = 53 \<or> dp = 53" and pr: "pr = ''UDP'' \<or> pr = ''TCP''"
    using assms unfolding parse_dns_packet_def
    by (auto simp: bindr_Ok_iff split: if_splits prod.splits)
  show ?thesis using shape [OF m] port pr by auto
qed

section \<open>Names\<close>


lemma from_utf8_lossy_length: "length (from_utf8_lossy bs) \<le> 3 * length bs"
proof (induction bs rule: from_utf8_lossy.induct)
  case (1 bs)
  show ?case
  proof (cases "bs = []")
    case True
    then show ?thesis by (simp add: from_utf8_lossy.simps)
  next
    case False
    let ?n = "fst (utf8_step bs)"
    have n: "0 < ?n" "?n \<le> length bs" using utf8_step_pos [OF False] utf8_step_len [of bs] by auto
    have "length (from_utf8_lossy (drop ?n bs)) \<le> 3 * (length bs - ?n)"
      using 1 False by (simp split: if_splits)
    moreover have "length (if snd (utf8_step bs) then take ?n bs else [239, 191, 189]) \<le> 3 * ?n"
      using n by simp
    moreover have "from_utf8_lossy bs = (if snd (utf8_step bs) then take ?n bs else [239, 191, 189])
        @ from_utf8_lossy (drop ?n bs)"
      using False by (simp add: from_utf8_lossy.simps [of bs])
    ultimately show ?thesis using n by (simp split: if_splits)
  qed
qed

lemma length_lossy_string: "length (lossy_string bs) \<le> 3 * length bs"
  using from_utf8_lossy_length [of bs] by (simp add: lossy_string_def string_of_bytes_def)

lemma length_join_snoc: "length (join sep (xs @ [x])) \<le> length (join sep xs) + length sep + length x"
  by (induction sep xs rule: join.induct) auto

definition consumed_ok :: "bytes \<Rightarrow> nat \<Rightarrow> nat option \<Rightarrow> bool" where
  "consumed_ok p pos c = (case c of None \<Rightarrow> True | Some k \<Rightarrow> k \<le> length p)"

lemma read_name_loop_bounds:
  assumes "read_name_loop p pos c ls j x = Ok (name, nx)"
    and "x \<le> 255" and "length (join ''.'' ls) \<le> 3 * x" and "consumed_ok p pos c"
  shows "nx \<le> length p \<and> length name \<le> 765 \<and> (case c of None \<Rightarrow> pos < nx | Some k \<Rightarrow> nx = k)"
  using assms
proof (induction p pos c ls j x rule: read_name_loop.induct)
  case (1 packet position consumed labels jumps expanded)
  note step = 1(3) [unfolded read_name_loop.simps [of packet position]]
  have ok: "\<not> (position \<ge> length packet \<or> jumps > 16 \<or> length labels > 127)"
    using step by (auto split: if_splits)
  let ?len = "packet ! position"
  consider (jump) "?len AND 192 = 192" | (last) "?len = 0" "?len AND 192 \<noteq> 192"
    | (label) "?len AND 192 = 0" "?len \<noteq> 0"
    using step ok by (auto simp: Let_def split: if_splits)
  then show ?case
  proof cases
    case jump
    from step ok jump obtain second where s: "get_byte packet (position + 1) = Ok second"
      and p: "\<not> unat (?len AND 63) * 256 + unat second \<ge> length packet"
      and r: "read_name_loop packet (unat (?len AND 63) * 256 + unat second)
          (case consumed of None \<Rightarrow> Some (position + 2) | Some c \<Rightarrow> Some c) labels (jumps + 1) expanded = Ok (name, nx)"
      by (auto simp: Let_def split: res.splits if_splits)
    have "consumed_ok packet (unat (?len AND 63) * 256 + unat second)
        (case consumed of None \<Rightarrow> Some (position + 2) | Some c \<Rightarrow> Some c)"
      using 1(6) s by (auto simp: consumed_ok_def get_byte_Ok split: option.splits)
    from 1(1) [OF ok refl jump s refl p r 1(4) 1(5) this] show ?thesis
      by (auto split: option.splits)
  next
    case last
    with step ok 1(4-6) show ?thesis
      by (auto simp: consumed_ok_def split: option.splits)
  next
    case label
    let ?e = "position + 1 + unat ?len" and ?x = "expanded + unat ?len + 1"
    let ?l = "lossy_string (slice (position + 1) (unat ?len) packet)"
    have n: "?len AND 192 \<noteq> 192" using label by simp
    from step ok label n have g: "\<not> \<not> ?e < 2 ^ 64" "\<not> \<not> ?e \<le> length packet" "\<not> ?x > 255"
      and r: "read_name_loop packet ?e consumed (labels @ [?l]) jumps ?x = Ok (name, nx)"
      by (auto simp: Let_def split: if_splits)
    have "length ?l \<le> 3 * unat ?len"
      using length_lossy_string [of "slice (position + 1) (unat ?len) packet"] by simp
    with length_join_snoc [of "''.''" labels ?l] 1(5) have j: "length (join ''.'' (labels @ [?l])) \<le> 3 * ?x"
      by simp
    have c: "consumed_ok packet ?e consumed" using 1(6) by (simp add: consumed_ok_def)
    have "?x \<le> 255" using g(3) by simp
    from 1(2) [OF ok refl n _ label(2) refl g r this j c] label(1) show ?thesis
      by (auto split: option.splits)
  qed
qed

text \<open>Reading a name consumes at least one byte and never runs past the packet, and whatever
  pointers the packet chains, the expanded name stays within 765 bytes (255 bytes on the wire,
  each of which a lossy decoding may replace by three).\<close>

theorem read_dns_name_bounds:
  assumes "read_dns_name packet offset = Ok (name, nx)"
  shows "offset < nx \<and> nx \<le> length packet \<and> length name \<le> 765"
  using read_name_loop_bounds [of packet offset None "[]" 0 0 name nx] assms
  by (simp add: read_dns_name_def consumed_ok_def)

theorem read_dns_name_bounds_witness:
  "let packet = [1, 97, 0, 192, 0] in
   case read_dns_name packet 3 of Ok (name, nx) \<Rightarrow> nx \<le> 5 | _ \<Rightarrow> False"
proof -
  have "read_dns_name [1, 97, 0, 192, 0] 3 = Ok (string_of_bytes [97], 5)"
    by (simp add: read_dns_name_def read_name_loop.simps get_byte_def lossy_string_def slice_def
        from_utf8_lossy.simps)
  from read_dns_name_bounds [OF this] this show ?thesis by (simp add: Let_def)
qed

text \<open>The wire form of a name: its labels, each after its length, and a zero byte.\<close>

definition encode_labels :: "bytes list \<Rightarrow> bytes" where
  "encode_labels ls = concat (map (\<lambda>l. word_of_nat (length l) # l) ls)"

definition labels_ok :: "bytes list \<Rightarrow> bool" where
  "labels_ok ls =
     (list_all (\<lambda>l. l \<noteq> [] \<and> length l < 64 \<and> utf8_valid l) ls \<and> length (encode_labels ls) \<le> 255)"

lemma length_encode_labels: "list_all (\<lambda>l. l \<noteq> []) ls \<Longrightarrow> 2 * length ls \<le> length (encode_labels ls)"
proof (induction ls)
  case Nil
  then show ?case by simp
next
  case (Cons l ls)
  then show ?case by (cases l) (auto simp: encode_labels_def)
qed

lemma length_byte_plain:
  assumes "0 < n" and "n < 64"
  shows "(word_of_nat n :: u8) AND 192 \<noteq> 192" and "(word_of_nat n :: u8) AND 192 = 0"
    and "(word_of_nat n :: u8) \<noteq> 0" and "unat (word_of_nat n :: u8) = n"
proof -
  show u: "unat (word_of_nat n :: u8) = n" using assms by (simp add: unat_of_nat)
  show "(word_of_nat n :: u8) \<noteq> 0" using u assms by (metis less_irrefl unsigned_0)
  have n: "n = take_bit 6 n" using assms by (simp add: take_bit_nat_eq_self)
  show z: "(word_of_nat n :: u8) AND 192 = 0"
  proof (rule bit_word_eqI)
    fix i assume "i < LENGTH(8)"
    have "bit (192 :: u8) i \<Longrightarrow> 6 \<le> i" using \<open>i < LENGTH(8)\<close> by (auto simp: less_Suc_eq eval_nat_numeral)
    moreover have "bit (word_of_nat n :: u8) i \<Longrightarrow> i < 6"
      by (subst (asm) n) (simp add: bit_simps)
    ultimately show "bit ((word_of_nat n :: u8) AND 192) i = bit (0 :: u8) i"
      by (auto simp: bit_and_iff)
  qed
  then show "(word_of_nat n :: u8) AND 192 \<noteq> 192" by simp
qed

lemma lossy_string_valid: "utf8_valid l \<Longrightarrow> lossy_string l = string_of_bytes l"
  by (simp add: lossy_string_def from_utf8_lossy_valid)

lemma read_name_loop_labels:
  assumes "list_all (\<lambda>l. l \<noteq> [] \<and> length l < 64 \<and> utf8_valid l) ls"
    and "expanded + length (encode_labels ls) \<le> 255" and "2 * length acc \<le> expanded" and "jumps \<le> 16"
    and "length (pre @ encode_labels ls @ 0 # post) < 2 ^ 64"
  shows "read_name_loop (pre @ encode_labels ls @ 0 # post) (length pre) c acc jumps expanded
       = Ok (join ''.'' (acc @ map string_of_bytes ls),
             case c of None \<Rightarrow> length pre + length (encode_labels ls) + 1 | Some k \<Rightarrow> k)"
  using assms
proof (induction ls arbitrary: pre acc expanded)
  case Nil
  then show ?case
    by (subst read_name_loop.simps) (simp add: encode_labels_def split: option.split)
next
  case (Cons l ls)
  let ?n = "length l"
  let ?packet = "pre @ encode_labels (l # ls) @ 0 # post"
  have enc: "encode_labels (l # ls) = word_of_nat ?n # l @ encode_labels ls"
    by (simp add: encode_labels_def)
  have l: "0 < ?n" "?n < 64" "utf8_valid l" using Cons.prems(1) by auto
  note b = length_byte_plain [OF l(1,2)]
  have packet: "?packet = (pre @ word_of_nat ?n # l) @ encode_labels ls @ 0 # post" by (simp add: enc)
  have at: "?packet ! length pre = word_of_nat ?n" by (simp add: enc)
  have sl: "slice (length pre + 1) ?n ?packet = l" by (simp add: enc slice_def)
  have sl': "slice (Suc (length pre)) ?n (pre @ word_of_nat ?n # l @ encode_labels ls @ 0 # post) = l"
    by (simp add: slice_def)
  have acc: "length acc \<le> 127" using Cons.prems(2,3) by simp
  have lenp: "length pre + 1 + ?n \<le> length ?packet" by (simp add: enc)
  have "read_name_loop ?packet (length pre) c acc jumps expanded
      = read_name_loop ?packet (length pre + 1 + ?n) c (acc @ [string_of_bytes l]) jumps (expanded + ?n + 1)"
    using acc Cons.prems(2,4,5) lenp
    by (subst read_name_loop.simps) (simp add: at b sl' lossy_string_valid [OF l(3)] enc Let_def)
  also have "\<dots> = Ok (join ''.'' ((acc @ [string_of_bytes l]) @ map string_of_bytes ls),
      case c of None \<Rightarrow> length (pre @ word_of_nat ?n # l) + length (encode_labels ls) + 1 | Some k \<Rightarrow> k)"
  proof -
    have pos: "length pre + 1 + ?n = length (pre @ (word_of_nat ?n :: u8) # l)" by simp
    show ?thesis
      unfolding packet pos
    proof (rule Cons.IH)
      show "length ((pre @ word_of_nat ?n # l) @ encode_labels ls @ 0 # post) < 2 ^ 64"
        using Cons.prems(5) unfolding packet .
      show "2 * length (acc @ [string_of_bytes l]) \<le> expanded + ?n + 1"
        using Cons.prems(3) l(1) by (cases l) simp_all
    qed (use Cons.prems enc in auto)
  qed
  finally show ?case by (simp add: enc add.assoc split: option.split)
qed

text \<open>A name written in wire form is read back, label by label, from wherever it stands, directly
  or through a compression pointer; the position returned is just after the name, or just after the
  pointer.\<close>

theorem dns_name_read_back:
  assumes "labels_ok ls" and "length packet < 2 ^ 64"
    and "packet = pre @ encode_labels ls @ 0 # post"
  shows "read_dns_name packet (length pre)
           = Ok (join ''.'' (map string_of_bytes ls), length pre + length (encode_labels ls) + 1)
       \<and> (q + 1 < length packet \<longrightarrow> packet ! q AND 192 = 192 \<longrightarrow>
            unat (packet ! q AND 63) * 256 + unat (packet ! (q + 1)) = length pre \<longrightarrow>
            read_dns_name packet q = Ok (join ''.'' (map string_of_bytes ls), q + 2))"
proof -
  have ls: "list_all (\<lambda>l. l \<noteq> [] \<and> length l < 64 \<and> utf8_valid l) ls" "length (encode_labels ls) \<le> 255"
    using assms(1) by (simp_all add: labels_ok_def)
  have direct: "read_name_loop packet (length pre) c [] j 0 = Ok (join ''.'' (map string_of_bytes ls),
      case c of None \<Rightarrow> length pre + length (encode_labels ls) + 1 | Some k \<Rightarrow> k)" if "j \<le> 16" for c j
    using read_name_loop_labels [OF ls(1), of 0 "[]" j pre post c] ls(2) that assms(2)
    by (simp add: assms(3))
  have "read_dns_name packet q = Ok (join ''.'' (map string_of_bytes ls), q + 2)"
    if "q + 1 < length packet" and "packet ! q AND 192 = 192"
      and "unat (packet ! q AND 63) * 256 + unat (packet ! (q + 1)) = length pre"
  proof -
    have "read_name_loop packet q None [] 0 0 = read_name_loop packet (length pre) (Some (q + 2)) [] 1 0"
      using that assms(3) by (subst read_name_loop.simps) (simp add: get_byte_def Let_def)
    with direct [of 1 "Some (q + 2)"] show ?thesis by (simp add: read_dns_name_def)
  qed
  with direct [of 0 None] show ?thesis by (simp add: read_dns_name_def)
qed

theorem dns_name_read_back_witness:
  "read_dns_name ([9] @ encode_labels [[97], [98, 99]] @ 0 # [192, 1]) 7 = Ok (join ''.'' [string_of_bytes [97], string_of_bytes [98, 99]], 9)"
proof -
  let ?packet = "[9] @ encode_labels [[97], [98, 99]] @ 0 # [192, 1 :: u8]"
  have ok: "labels_ok [[97], [98, 99]]" by (simp add: labels_ok_def encode_labels_def utf8_valid.simps)
  have len: "length ?packet < 2 ^ 64" by (simp add: encode_labels_def)
  have at: "?packet ! 7 = 192" "?packet ! (7 + 1) = 1" "7 + 1 < length ?packet"
    by (simp_all add: encode_labels_def)
  have "unat ((192 :: u8) AND 63) * 256 + unat (1 :: u8) = length [9 :: u8]" by simp
  with dns_name_read_back [OF ok len refl, of 7] at show ?thesis by simp
qed

definition sample_query :: bytes where
  "sample_query =
     [0x45, 0, 0, 45, 0, 0, 0, 0, 64, 17, 0, 0, 10, 0, 0, 1, 10, 0, 0, 2,
      0x30, 0x39, 0, 53, 0, 25, 0, 0,
      0, 7, 1, 0, 0, 1, 0, 0, 0, 0, 0, 0, 0, 0, 1, 0, 1]"

theorem accepted_message_shape_witness:
  "case parse_dns_packet sample_query 0 4 of
     Ok m \<Rightarrow> dm_destination_port m = 53 \<and> length (dm_response_ips m) \<le> 64 | _ \<Rightarrow> False"
proof -
  have "case parse_dns_packet sample_query 0 4 of Ok m \<Rightarrow> dm_destination_port m = 53 | _ \<Rightarrow> False"
  proof -
    have h: "parse_ipv4_header sample_query 0
        = Ok (V4 (ipv4_of_octets [10, 0, 0, 1]), V4 (ipv4_of_octets [10, 0, 0, 2]), 17, 20, 45)"
      by (simp add: parse_ipv4_header_def sample_query_def checked_add_def get_slice_def guard_def
          read_u16_def of_be16_def slice_def idx_def)
    have t: "parse_transport sample_query 17 20 45 = Ok (12345, 53, 28, 17)"
      by (simp add: parse_transport_def sample_query_def checked_add_def get_slice_def guard_def
          read_u16_def of_be16_def slice_def idx_def)
    have sl: "slice 28 17 sample_query = [0, 7, 1, 0, 0, 1, 0, 0, 0, 0, 0, 0, 0, 0, 1, 0, 1]"
      and len: "length sample_query = 45"
      by (simp_all add: sample_query_def slice_def)
    have n: "read_dns_name [0, 7, 1, 0, 0, 1, 0, 0, 0, 0, 0, 0, 0, 0, 1, 0, 1] 12 = Ok ([], 13)"
      by (simp add: read_dns_name_def read_name_loop.simps)
    have "parse_dns_packet sample_query 0 4 = parse_dns_message [0, 7, 1, 0, 0, 1, 0, 0, 0, 0, 0, 0, 0, 0, 1, 0, 1]
        (V4 (ipv4_of_octets [10, 0, 0, 1])) (V4 (ipv4_of_octets [10, 0, 0, 2])) 12345 53 ''UDP''"
      by (simp add: parse_dns_packet_def h t sl len checked_add_def get_slice_def)
    then show ?thesis
      by (simp add: parse_dns_message_def n read_u16_def of_be16_def slice_def checked_add_def get_slice_def)
  qed
  then obtain m where m: "parse_dns_packet sample_query 0 4 = Ok m" and "dm_destination_port m = 53"
    by (auto split: res.splits)
  with accepted_message_shape [OF m] show ?thesis by simp
qed

end
