(* ===== verification/Dns_Monitor.thy ===== *)
theory Dns_Monitor
  imports Complex_Main Dns_Wire Common Topology Buckets
begin

text \<open>
  \<open>DnsMonitor\<close> of \<open>dns.rs\<close>: the bounded history of DNS queries, the matching of responses to
  pending queries, the duplicate suppression, the paged query and the statistics, the
  restoration of saved records, the device a query is attributed to, and the decoding of the
  ring buffer items. The \<open>BTreeMap\<close> of records and the counting hash maps are association
  lists; the \<open>f64\<close> statistics are exact fractions (\<open>rat\<close>).
\<close>

section \<open>Constants and records\<close>

abbreviation query_dedup_window_ns :: u64 where "query_dedup_window_ns \<equiv> 500000000"
abbreviation response_dedup_window_ns :: u64 where "response_dedup_window_ns \<equiv> 500000000"
abbreviation max_query_match_age_ns :: u64 where "max_query_match_age_ns \<equiv> 30000000000"
abbreviation unanswered_after_ms :: u64 where "unanswered_after_ms \<equiv> 5000"

record dns_query_record =
  qr_timestamp :: u64
  qr_domain :: string
  qr_query_type :: string
  qr_response_code :: "string option"
  qr_response_time_ms :: "u64 option"
  qr_source_ip :: string
  qr_destination_ip :: string
  qr_source_port :: u16
  qr_destination_port :: u16
  qr_transaction_id :: u16
  qr_is_query :: bool
  qr_protocol :: string
  qr_response_ips :: "string list"
  qr_response_records :: "string list"
  qr_device_mac :: string
  qr_device_name :: string
  qr_iface :: string

record dns_match_key =
  mk_client_ip :: ip_addr
  mk_client_port :: u16
  mk_transaction_id :: u16
  mk_domain :: string
  mk_query_type :: string
  mk_protocol :: string

record tracked_query =
  tq_observed_ns :: u64
  tq_match_key :: dns_match_key
  tq_record :: dns_query_record

record device_identity =
  id_mac :: string
  id_name :: string
  id_iface :: string

record dns_monitor =
  dns_enabled :: bool
  persistence_enabled :: bool
  monitored_interfaces :: "string list"
  max_records :: nat
  records :: "(u64 \<times> tracked_query) list"
  order :: "u64 list"
  pending :: "dns_match_key \<Rightarrow> u64 list option"
  recent_queries :: "(dns_match_key \<times> u64) list"
  recent_responses :: "(dns_match_key \<times> u64) list"
  next_id :: u64
  capture_parse_errors :: u64

definition is_blocked_answer :: "string \<Rightarrow> bool" where
  "is_blocked_answer value =
     (let answer = trim value in
      if answer = ''0.0.0.0'' \<or> answer = ''::'' then True
      else (case split_once CHR '':'' answer of
              None \<Rightarrow> False
            | Some (kind, data) \<Rightarrow>
                eq_ignore_ascii_case kind ''A'' \<and> trim data = ''0.0.0.0''
                \<or> eq_ignore_ascii_case kind ''AAAA'' \<and> trim data = ''::''))"

definition result_matches :: "dns_query_record \<Rightarrow> string \<Rightarrow> bool" where
  "result_matches r needle =
     (if needle = ''blocked''
      then list_ex is_blocked_answer (qr_response_ips r) \<or> list_ex is_blocked_answer (qr_response_records r)
      else (case qr_response_code r of None \<Rightarrow> False | Some c \<Rightarrow> contains_str needle (to_ascii_lowercase c))
         \<or> list_ex (\<lambda>a. contains_str needle (to_ascii_lowercase a)) (qr_response_ips r)
         \<or> list_ex (\<lambda>a. contains_str needle (to_ascii_lowercase a)) (qr_response_records r))"

definition match_key :: "dns_message \<Rightarrow> dns_match_key" where
  "match_key m =
     \<lparr>mk_client_ip = (if dm_is_query m then dm_source_ip m else dm_destination_ip m),
      mk_client_port = (if dm_is_query m then dm_source_port m else dm_destination_port m),
      mk_transaction_id = dm_transaction_id m,
      mk_domain = to_ascii_lowercase (dm_domain m),
      mk_query_type = to_ascii_uppercase (dm_query_type m),
      mk_protocol = dm_protocol m\<rparr>"

section \<open>The monitor\<close>

definition dns_new :: "bool \<Rightarrow> bool \<Rightarrow> nat \<Rightarrow> string list \<Rightarrow> dns_monitor" where
  "dns_new enabled persist n ifs =
     \<lparr>dns_enabled = enabled, persistence_enabled = persist, monitored_interfaces = ifs,
      max_records = max n 1, records = [], order = [], pending = (\<lambda>_. None),
      recent_queries = [], recent_responses = [], next_id = 1, capture_parse_errors = 0\<rparr>"

record dns_config =
  dc_enabled :: bool
  dc_monitored_interfaces :: "string list"
  dc_max_records :: nat
  dc_records_in_memory :: nat
  dc_persistence_enabled :: bool

definition config :: "dns_monitor \<Rightarrow> dns_config" where
  "config d = \<lparr>dc_enabled = dns_enabled d, dc_monitored_interfaces = monitored_interfaces d,
     dc_max_records = max_records d, dc_records_in_memory = length (records d),
     dc_persistence_enabled = persistence_enabled d\<rparr>"

definition note_parse_errors :: "u64 \<Rightarrow> dns_monitor \<Rightarrow> dns_monitor" where
  "note_parse_errors n d = d\<lparr>capture_parse_errors := sat_add (capture_parse_errors d) n\<rparr>"

text \<open>
  Which of the fresh entries \<open>retain\<close> keeps when too many are left depends on the hash map's
  iteration order; here it is the order of the association list.
\<close>

definition prune_dedupe_cache :: "(dns_match_key \<times> u64) list \<Rightarrow> u64 \<Rightarrow> u64 \<Rightarrow> nat \<Rightarrow> (dns_match_key \<times> u64) list" where
  "prune_dedupe_cache cache now window max_entries =
     (if length cache \<le> max_entries then cache
      else (let cutoff = sat_sub now window;
                kept = filter (\<lambda>(_, seen). seen \<ge> cutoff) cache
            in if length kept > max_entries then take max_entries kept else kept))"

definition recently_seen :: "(dns_match_key \<times> u64) list \<Rightarrow> dns_match_key \<Rightarrow> u64 \<Rightarrow> u64 \<Rightarrow> bool" where
  "recently_seen cache key now window =
     (case map_of cache key of None \<Rightarrow> False | Some seen \<Rightarrow> sat_sub now seen < window)"

definition fresh_id :: "u64 \<Rightarrow> u64" where
  "fresh_id i = max (i + 1) 1"

text \<open>A queue left empty is removed with its key.\<close>

definition set_queue :: "dns_match_key \<Rightarrow> u64 list \<Rightarrow> (dns_match_key \<Rightarrow> u64 list option) \<Rightarrow> dns_match_key \<Rightarrow> u64 list option" where
  "set_queue k q p = p(k := if q = [] then None else Some q)"

definition evict_oldest :: "dns_monitor \<Rightarrow> dns_monitor" where
  "evict_oldest d =
     (case order d of
        [] \<Rightarrow> d
      | qid # rest \<Rightarrow>
          let d1 = d\<lparr>order := rest\<rparr> in
          (case map_of (records d) qid of
             None \<Rightarrow> d1
           | Some q \<Rightarrow>
               let d2 = d1\<lparr>records := AList.delete qid (records d1)\<rparr> in
               if qr_response_time_ms (tq_record q) = None
               then (case pending d2 (tq_match_key q) of
                       None \<Rightarrow> d2
                     | Some ids \<Rightarrow>
                         let ids' = (if ids \<noteq> [] \<and> hd ids = qid then tl ids else filter (\<lambda>i. i \<noteq> qid) ids)
                         in d2\<lparr>pending := set_queue (tq_match_key q) ids' (pending d2)\<rparr>)
               else d2))"

text \<open>
  The loop after an insertion. It ends when the records fit; were the order empty with records
  left it would run forever (\<open>None\<close>).
\<close>

partial_function (option) evict_excess :: "dns_monitor \<Rightarrow> dns_monitor option" where
  "evict_excess d = (if length (records d) > max_records d then evict_excess (evict_oldest d) else Some d)"

definition new_query_record :: "dns_message \<Rightarrow> u64 \<Rightarrow> device_identity \<Rightarrow> dns_query_record" where
  "new_query_record m ts dev =
     \<lparr>qr_timestamp = ts, qr_domain = dm_domain m, qr_query_type = dm_query_type m,
      qr_response_code = None, qr_response_time_ms = None,
      qr_source_ip = ip_to_string (dm_source_ip m), qr_destination_ip = ip_to_string (dm_destination_ip m),
      qr_source_port = dm_source_port m, qr_destination_port = dm_destination_port m,
      qr_transaction_id = dm_transaction_id m, qr_is_query = True, qr_protocol = dm_protocol m,
      qr_response_ips = [], qr_response_records = [],
      qr_device_mac = id_mac dev, qr_device_name = id_name dev, qr_iface = id_iface dev\<rparr>"

definition ingest_query :: "dns_message \<Rightarrow> u64 \<Rightarrow> u64 \<Rightarrow> device_identity \<Rightarrow> dns_monitor \<Rightarrow> dns_monitor option" where
  "ingest_query m now ts dev d =
     (let key = match_key m; qid = next_id d in
      evict_excess
        (d\<lparr>recent_queries := AList.update key now (recent_queries d),
           next_id := fresh_id qid,
           records := AList.update qid \<lparr>tq_observed_ns = now, tq_match_key = key,
                                        tq_record = new_query_record m ts dev\<rparr> (records d),
           order := order d @ [qid],
           pending := (pending d)(key := Some ((case pending d key of None \<Rightarrow> [] | Some q \<Rightarrow> q) @ [qid]))\<rparr>))"

text \<open>Expired or evicted queries at the front of a queue are dropped.\<close>

definition query_expired :: "(u64 \<times> tracked_query) list \<Rightarrow> u64 \<Rightarrow> u64 \<Rightarrow> bool" where
  "query_expired recs now qid =
     (case map_of recs qid of None \<Rightarrow> True
      | Some q \<Rightarrow> sat_sub now (tq_observed_ns q) > max_query_match_age_ns)"

definition answer_record :: "dns_message \<Rightarrow> u64 \<Rightarrow> tracked_query \<Rightarrow> tracked_query" where
  "answer_record m now q =
     q\<lparr>tq_record := (tq_record q)\<lparr>qr_response_code := dm_response_code m,
         qr_response_time_ms := Some (sat_sub now (tq_observed_ns q) div 1000000),
         qr_response_ips := dm_response_ips m, qr_response_records := dm_response_records m\<rparr>\<rparr>"

definition ingest_response :: "dns_message \<Rightarrow> u64 \<Rightarrow> dns_monitor \<Rightarrow> dns_monitor" where
  "ingest_response m now d =
     (let key = match_key m in
      case pending d key of
        None \<Rightarrow> d
      | Some queue \<Rightarrow>
          let live = dropWhile (query_expired (records d) now) queue;
              d1 = d\<lparr>pending := set_queue key (tl live) (pending d)\<rparr> in
          (case live of
             [] \<Rightarrow> d1
           | qid # _ \<Rightarrow>
               (case map_of (records d1) qid of
                  None \<Rightarrow> d1
                | Some q \<Rightarrow>
                    d1\<lparr>records := AList.update qid (answer_record m now q) (records d1),
                       recent_responses := AList.update key now (recent_responses d1)\<rparr>)))"

definition prune_caches :: "u64 \<Rightarrow> dns_monitor \<Rightarrow> dns_monitor" where
  "prune_caches now d =
     (let limit = max (max_records d * 2) 1
      in d\<lparr>recent_queries := prune_dedupe_cache (recent_queries d) now query_dedup_window_ns limit,
           recent_responses := prune_dedupe_cache (recent_responses d) now response_dedup_window_ns limit\<rparr>)"

definition dns_ingest :: "dns_message \<Rightarrow> u64 \<Rightarrow> u64 \<Rightarrow> device_identity \<Rightarrow> dns_monitor \<Rightarrow> dns_monitor option" where
  "dns_ingest m now ts dev d =
     (if dm_is_query m then
        (if recently_seen (recent_queries d) (match_key m) now query_dedup_window_ns then Some d
         else map_option (prune_caches now) (ingest_query m now ts dev d))
      else
        (if recently_seen (recent_responses d) (match_key m) now response_dedup_window_ns then Some d
         else Some (prune_caches now (ingest_response m now d))))"

section \<open>Queries\<close>

record dns_query_filter =
  qf_domain :: "string option"
  qf_device :: "string option"
  qf_dns_server :: "string option"
  qf_query_type :: "string option"
  qf_result :: "string option"
  qf_iface :: "string option"
  qf_protocol :: "string option"
  qf_page :: "nat option"
  qf_page_size :: "nat option"

text \<open>\<open>is_some_and\<close> of a rejection: the filter passes when it is not given.\<close>

definition passes :: "'a option \<Rightarrow> ('a \<Rightarrow> bool) \<Rightarrow> bool" where
  "passes f p = (case f of None \<Rightarrow> True | Some x \<Rightarrow> p x)"

definition record_passes :: "dns_query_filter \<Rightarrow> dns_query_record \<Rightarrow> bool" where
  "record_passes q r =
     (let result = (case map_option trim (qf_result q) of
                      None \<Rightarrow> None | Some n \<Rightarrow> if n = [] then None else Some (to_ascii_lowercase n))
      in passes (map_option to_ascii_lowercase (qf_domain q)) (\<lambda>n. contains_str n (to_ascii_lowercase (qr_domain r)))
       \<and> passes (map_option to_ascii_lowercase (qf_device q))
           (\<lambda>n. contains_str n (to_ascii_lowercase (qr_device_mac r))
              \<or> contains_str n (to_ascii_lowercase (qr_device_name r))
              \<or> contains_str n (to_ascii_lowercase (qr_source_ip r)))
       \<and> passes (map_option to_ascii_lowercase (qf_dns_server q)) (\<lambda>n. contains_str n (to_ascii_lowercase (qr_destination_ip r)))
       \<and> passes (map_option to_ascii_uppercase (qf_query_type q)) (\<lambda>w. eq_ignore_ascii_case (qr_query_type r) w)
       \<and> passes result (result_matches r)
       \<and> passes (map_option to_ascii_lowercase (qf_iface q)) (\<lambda>w. eq_ignore_ascii_case (qr_iface r) w)
       \<and> passes (map_option to_ascii_uppercase (qf_protocol q)) (\<lambda>w. eq_ignore_ascii_case (qr_protocol r) w))"

definition ordered_records :: "dns_monitor \<Rightarrow> dns_query_record list" where
  "ordered_records d = List.map_filter (\<lambda>i. map_option tq_record (map_of (records d) i)) (order d)"

record dns_page =
  pg_queries :: "dns_query_record list"
  pg_total :: nat
  pg_page :: nat
  pg_page_size :: nat
  pg_total_pages :: nat

definition usize_max :: nat where "usize_max = 2 ^ 64 - 1"

text \<open>\<open>queries\<close> without the statistics it attaches (\<open>stats\<close>).\<close>

definition queries :: "dns_query_filter \<Rightarrow> dns_monitor \<Rightarrow> dns_page" where
  "queries q d =
     (let page = max (case qf_page q of None \<Rightarrow> 1 | Some p \<Rightarrow> p) 1;
          page_size = min (max (case qf_page_size q of None \<Rightarrow> 20 | Some s \<Rightarrow> s) 1) 100;
          filtered = filter (record_passes q)
            (List.map_filter (\<lambda>i. map_option tq_record (map_of (records d) i)) (rev (order d)));
          total = length filtered;
          total_pages = (total + page_size - 1) div page_size;
          start = min ((page - 1) * page_size) usize_max
      in \<lparr>pg_queries = take page_size (drop start filtered), pg_total = total, pg_page = page,
          pg_page_size = page_size, pg_total_pages = total_pages\<rparr>)"

section \<open>Statistics\<close>

definition sorted_top_items :: "(string \<times> nat) list \<Rightarrow> nat \<Rightarrow> (string \<times> nat) list" where
  "sorted_top_items values limit = take limit (sort_key (\<lambda>(name, c). (- int c, name)) values)"

definition percentile :: "u64 list \<Rightarrow> nat \<Rightarrow> u64 res" where
  "percentile xs p =
     (if xs = [] then Ok 0 else idx xs (min ((length xs - 1) * p) usize_max div 100))"

definition count_one :: "string \<Rightarrow> (string \<times> nat) list \<Rightarrow> (string \<times> nat) list" where
  "count_one k m = upd_entry k 0 Suc m"

record stats_acc =
  sa_response_times :: "u64 list"
  sa_response_codes :: "(string \<times> nat) list"
  sa_domains :: "(string \<times> nat) list"
  sa_query_types :: "(string \<times> nat) list"
  sa_devices :: "(string \<times> nat) list"
  sa_dns_servers :: "(string \<times> nat) list"
  sa_unique_devices :: "string set"
  sa_time_range_start :: u64
  sa_time_range_end :: u64
  sa_latest :: "u64 option"
  sa_without_response :: nat

definition device_identity_of :: "dns_query_record \<Rightarrow> string" where
  "device_identity_of r =
     (if qr_device_mac r = [] then (if qr_device_name r = [] then qr_source_ip r else qr_device_name r)
      else qr_device_mac r)"

definition counted_code :: "dns_query_record \<Rightarrow> string option" where
  "counted_code r = (case qr_response_code r of None \<Rightarrow> None
                      | Some c \<Rightarrow> if c \<noteq> ''NO_RESPONSE'' then Some c else None)"

definition stats_step :: "u64 \<Rightarrow> dns_query_record \<Rightarrow> stats_acc \<Rightarrow> stats_acc" where
  "stats_step now_ms r a =
     (let identity = device_identity_of r;
          label = (if qr_device_name r = [] then identity else qr_device_name r);
          a1 = a\<lparr>sa_domains := count_one (qr_domain r) (sa_domains a),
                 sa_query_types := count_one (qr_query_type r) (sa_query_types a),
                 sa_dns_servers := count_one (qr_destination_ip r) (sa_dns_servers a),
                 sa_devices := count_one label (sa_devices a),
                 sa_unique_devices := insert identity (sa_unique_devices a),
                 sa_time_range_start := min (sa_time_range_start a) (qr_timestamp r),
                 sa_time_range_end := max (sa_time_range_end a) (qr_timestamp r)\<rparr>;
          a2 = (case counted_code r of
                  Some c \<Rightarrow> a1\<lparr>sa_response_codes := count_one c (sa_response_codes a1)\<rparr>
                | None \<Rightarrow> if sat_add (qr_timestamp r) unanswered_after_ms \<le> now_ms
                           then a1\<lparr>sa_without_response := sa_without_response a1 + 1\<rparr> else a1)
      in (case qr_response_time_ms r of
            None \<Rightarrow> a2
          | Some t \<Rightarrow> a2\<lparr>sa_response_times := sa_response_times a2 @ [t], sa_latest := Some t\<rparr>))"

definition stats_init :: stats_acc where
  "stats_init = \<lparr>sa_response_times = [], sa_response_codes = [], sa_domains = [], sa_query_types = [],
     sa_devices = [], sa_dns_servers = [], sa_unique_devices = {}, sa_time_range_start = - 1,
     sa_time_range_end = 0, sa_latest = None, sa_without_response = 0\<rparr>"

record dns_stats =
  st_total_queries :: nat
  st_total_responses :: nat
  st_queries_with_response :: nat
  st_queries_without_response :: nat
  st_success_count :: nat
  st_failure_count :: nat
  st_success_rate :: rat
  st_avg_response_time_ms :: rat
  st_min_response_time_ms :: u64
  st_max_response_time_ms :: u64
  st_latest_response_time_ms :: "u64 option"
  st_p50 :: u64
  st_p90 :: u64
  st_p95 :: u64
  st_p99 :: u64
  st_response_codes :: "(string \<times> nat \<times> rat) list"
  st_top_domains :: "(string \<times> nat) list"
  st_top_query_types :: "(string \<times> nat) list"
  st_top_devices :: "(string \<times> nat) list"
  st_top_dns_servers :: "(string \<times> nat) list"
  st_unique_devices :: nat
  st_time_range_start :: u64
  st_time_range_end :: u64
  st_time_range_duration_minutes :: u64
  st_capture_parse_errors :: u64

definition stats :: "u64 \<Rightarrow> dns_monitor \<Rightarrow> dns_stats res" where
  "stats now_ms d =
     (let rs = ordered_records d;
          a = fold (stats_step now_ms) rs stats_init;
          times = sort (sa_response_times a);
          total = sum_list (map snd (sa_response_codes a));
          success = (case map_of (sa_response_codes a) ''NOERROR'' of None \<Rightarrow> 0 | Some c \<Rightarrow> c);
          (t0, t1) = (if rs = [] then (0, 0) else (sa_time_range_start a, sa_time_range_end a))
      in bindr (percentile times 50) (\<lambda>p50. bindr (percentile times 90) (\<lambda>p90.
         bindr (percentile times 95) (\<lambda>p95. bindr (percentile times 99) (\<lambda>p99.
         Ok \<lparr>st_total_queries = length rs, st_total_responses = total, st_queries_with_response = total,
             st_queries_without_response = sa_without_response a, st_success_count = success,
             st_failure_count = total - success,
             st_success_rate = (if total = 0 then 0 else of_nat success / of_nat total),
             st_avg_response_time_ms = (if times = [] then 0
                else of_nat (sum_list (map unat times)) / of_nat (length times)),
             st_min_response_time_ms = (if times = [] then 0 else hd times),
             st_max_response_time_ms = (if times = [] then 0 else last times),
             st_latest_response_time_ms = sa_latest a,
             st_p50 = p50, st_p90 = p90, st_p95 = p95, st_p99 = p99,
             st_response_codes = map (\<lambda>(c, n). (c, n, if total = 0 then 0 else of_nat (n * 100) / of_nat total))
                (sorted_top_items (sa_response_codes a) usize_max),
             st_top_domains = sorted_top_items (sa_domains a) 10,
             st_top_query_types = sorted_top_items (sa_query_types a) 10,
             st_top_devices = sorted_top_items (sa_devices a) 10,
             st_top_dns_servers = sorted_top_items (sa_dns_servers a) 10,
             st_unique_devices = card (sa_unique_devices a),
             st_time_range_start = t0, st_time_range_end = t1,
             st_time_range_duration_minutes = sat_sub t1 t0 div 60000,
             st_capture_parse_errors = capture_parse_errors d\<rparr>)))))"

section \<open>Saved records\<close>

definition records_for_persistence :: "dns_monitor \<Rightarrow> dns_query_record list" where
  "records_for_persistence d = List.map_filter (\<lambda>i. map_option tq_record (map_of (records d) i)) (order d)"

definition mark_unanswered :: "dns_query_record \<Rightarrow> dns_query_record" where
  "mark_unanswered r =
     (if qr_response_time_ms r = None \<and> qr_response_code r = None
      then r\<lparr>qr_response_code := Some ''NO_RESPONSE''\<rparr> else r)"

definition restore_record :: "dns_query_record \<Rightarrow> dns_monitor \<Rightarrow> dns_monitor" where
  "restore_record r0 d =
     (let r = mark_unanswered r0; qid = next_id d;
          key = \<lparr>mk_client_ip = (case parse_ip (qr_source_ip r) of None \<Rightarrow> V4 0 | Some a \<Rightarrow> a),
                 mk_client_port = qr_source_port r, mk_transaction_id = qr_transaction_id r,
                 mk_domain = to_ascii_lowercase (qr_domain r),
                 mk_query_type = to_ascii_uppercase (qr_query_type r), mk_protocol = qr_protocol r\<rparr>
      in d\<lparr>next_id := fresh_id qid,
           records := AList.update qid \<lparr>tq_observed_ns = 0, tq_match_key = key, tq_record = r\<rparr> (records d),
           order := order d @ [qid]\<rparr>)"

definition restore_records :: "dns_query_record list \<Rightarrow> dns_monitor \<Rightarrow> dns_monitor" where
  "restore_records rs d = fold restore_record (rev (take (max_records d) (rev rs))) d"

text \<open>
  The loop of \<open>load_dns_records\<close>; a line is \<open>None\<close> when it cannot be read or parsed.
\<close>

definition push_line :: "nat \<Rightarrow> dns_query_record \<Rightarrow> dns_query_record list \<Rightarrow> dns_query_record list" where
  "push_line n r rs = (if length rs = n then tl rs else rs) @ [r]"

definition load_line :: "nat \<Rightarrow> dns_query_record option \<Rightarrow> dns_query_record list \<Rightarrow> dns_query_record list" where
  "load_line n line rs =
     (case line of
        None \<Rightarrow> rs
      | Some r \<Rightarrow> push_line n (mark_unanswered r) rs)"

definition load_dns_records :: "nat \<Rightarrow> dns_query_record option list \<Rightarrow> dns_query_record list" where
  "load_dns_records n file_lines = (if n = 0 then [] else fold (load_line n) file_lines [])"

section \<open>The ring buffer reader\<close>

text \<open>One item: \<open>Fail\<close> counts as a parse error.\<close>

definition read_item :: "bytes \<Rightarrow> (dns_packet_header \<times> dns_message) res" where
  "read_item item =
     (if length item < dns_header_size then Fail else
      let header = decode_packet_header item;
          captured_len = min (unat (ph_captured_len header)) dns_packet_max_bytes
      in if captured_len = 0 \<or> length item < dns_header_size + captured_len then Fail
         else bindr (parse_dns_packet (slice dns_header_size captured_len item)
                 (unat (ph_ip_offset header)) (ph_ip_version header)) (\<lambda>m. Ok (header, m)))"

fun drain_items ::
  "bytes list \<Rightarrow> (dns_packet_header \<times> dns_message) list \<Rightarrow> u64
   \<Rightarrow> ((dns_packet_header \<times> dns_message) list \<times> u64) res" where
  "drain_items [] ms errs = Ok (ms, errs)"
| "drain_items (i # is) ms errs =
     (case read_item i of
        Panic \<Rightarrow> Panic
      | Fail \<Rightarrow> drain_items is ms (sat_add errs 1)
      | Ok x \<Rightarrow> drain_items is (ms @ [x]) errs)"

text \<open>The wall clock time of a packet; the clock offset is a signed 128-bit number of nanoseconds.\<close>

definition packet_time_ms :: "int \<Rightarrow> u64 \<Rightarrow> u64" where
  "packet_time_ms clock_offset_ns ts = word_of_int (max (uint ts + clock_offset_ns) 0 div 1000000)"

section \<open>Attribution to a device\<close>

definition owns_ip :: "string \<Rightarrow> known_device \<Rightarrow> bool" where
  "owns_ip ip_text k = (ip_text \<in> set (kd_ipv4 k) \<or> ip_text \<in> set (kd_ipv6 k))"

definition resolve_device :: "registry \<Rightarrow> topology \<Rightarrow> dns_packet_header \<Rightarrow> ip_addr \<Rightarrow> device_identity" where
  "resolve_device reg t h client_ip =
     (let ip_text = ip_to_string client_ip;
          known = (if ph_has_mac h \<noteq> 0 then map_of reg (ph_ifindex h, ph_mac h) else None);
          by_mac = (case known of None \<Rightarrow> None
                    | Some k \<Rightarrow> if kd_ipv4 k = [] \<and> kd_ipv6 k = [] \<or> owns_ip ip_text k then Some k else None);
          unique_ip_match = (case filter (owns_ip ip_text) (map snd reg) of [k] \<Rightarrow> Some k | _ \<Rightarrow> None)
      in (case (case by_mac of Some k \<Rightarrow> Some k | None \<Rightarrow> unique_ip_match) of
            Some k \<Rightarrow> \<lparr>id_mac = mac_to_string (kd_mac k), id_name = kd_hostname k, id_iface = kd_logical_iface k\<rparr>
          | None \<Rightarrow>
              let iface = (case by_ifindex t (ph_ifindex h) of None \<Rightarrow> [] | Some i \<Rightarrow> if_name i);
                  other = (case known of None \<Rightarrow> False
                           | Some k \<Rightarrow> \<not> owns_ip ip_text k \<and> (kd_ipv4 k \<noteq> [] \<or> kd_ipv6 k \<noteq> []))
              in \<lparr>id_mac = (if ph_has_mac h \<noteq> 0 \<and> \<not> other then mac_to_string (ph_mac h) else []),
                  id_name = [], id_iface = iface\<rparr>))"

section \<open>One batch of the reader\<close>

type_synonym dns_event = "dns_message \<times> u64 \<times> u64 \<times> device_identity"

fun dns_run :: "dns_event list \<Rightarrow> dns_monitor \<Rightarrow> dns_monitor option" where
  "dns_run [] d = Some d"
| "dns_run ((m, now, ts, dev) # es) d =
     (case dns_ingest m now ts dev d of None \<Rightarrow> None | Some d' \<Rightarrow> dns_run es d')"

definition message_event :: "registry \<Rightarrow> topology \<Rightarrow> int \<Rightarrow> dns_packet_header \<times> dns_message \<Rightarrow> dns_event" where
  "message_event reg t clock_offset_ns hm =
     (let header = fst hm; m = snd hm;
          client_ip = (if dm_is_query m then dm_source_ip m else dm_destination_ip m)
      in (m, ph_timestamp_ns header, packet_time_ms clock_offset_ns (ph_timestamp_ns header),
          resolve_device reg t header client_ip))"

text \<open>The outer option is the eviction loop's; a panic of the parser would be \<open>Panic\<close>.\<close>

definition reader_batch ::
  "registry \<Rightarrow> topology \<Rightarrow> int \<Rightarrow> bytes list \<Rightarrow> dns_monitor \<Rightarrow> dns_monitor option res" where
  "reader_batch reg t clock_offset_ns items d =
     bindr (drain_items items [] 0) (\<lambda>(ms, errs).
       Ok (if errs > 0 \<or> ms \<noteq> []
           then dns_run (map (message_event reg t clock_offset_ns) ms) (note_parse_errors errs d)
           else Some d))"

section \<open>The invariant of the monitor\<close>

definition pending_ok :: "(u64 \<times> tracked_query) list \<Rightarrow> (dns_match_key \<Rightarrow> u64 list option) \<Rightarrow> bool" where
  "pending_ok recs p =
     (\<forall>k q. p k = Some q \<longrightarrow> q \<noteq> [] \<and> distinct q
        \<and> (\<forall>i \<in> set q. \<exists>t. map_of recs i = Some t \<and> tq_match_key t = k
                          \<and> qr_response_time_ms (tq_record t) = None))"

definition dns_wf :: "dns_monitor \<Rightarrow> bool" where
  "dns_wf d =
     (distinct (order d) \<and> distinct (map fst (records d)) \<and> set (map fst (records d)) = set (order d)
      \<and> (\<forall>i \<in> set (order d). i < next_id d) \<and> pending_ok (records d) (pending d)
      \<and> 0 < max_records d)"

definition dns_inv :: "dns_monitor \<Rightarrow> bool" where
  "dns_inv d = (dns_wf d \<and> length (records d) \<le> max_records d)"

lemma dns_wf_length: "dns_wf d \<Longrightarrow> length (records d) = length (order d)"
  unfolding dns_wf_def by (metis distinct_card length_map)

lemma pending_okD:
  "pending_ok recs p \<Longrightarrow> p k = Some q \<Longrightarrow> i \<in> set q \<Longrightarrow>
    \<exists>t. map_of recs i = Some t \<and> tq_match_key t = k \<and> qr_response_time_ms (tq_record t) = None"
  unfolding pending_ok_def by blast

lemma pending_ok_set_queue:
  assumes "pending_ok recs p" and "distinct q"
    and "\<And>i. i \<in> set q \<Longrightarrow> \<exists>t. map_of recs' i = Some t \<and> tq_match_key t = k
                          \<and> qr_response_time_ms (tq_record t) = None"
    and "\<And>k' q' i. k' \<noteq> k \<Longrightarrow> p k' = Some q' \<Longrightarrow> i \<in> set q' \<Longrightarrow> map_of recs' i = map_of recs i"
  shows "pending_ok recs' (set_queue k q p)"
  unfolding pending_ok_def
proof (intro allI impI)
  fix k' q'
  assume q': "set_queue k q p k' = Some q'"
  show "q' \<noteq> [] \<and> distinct q' \<and> (\<forall>i \<in> set q'. \<exists>t. map_of recs' i = Some t \<and> tq_match_key t = k'
      \<and> qr_response_time_ms (tq_record t) = None)"
  proof (cases "k' = k")
    case True
    with q' have "q' = q" and "q \<noteq> []" by (auto simp: set_queue_def split: if_splits)
    with assms(2,3) True show ?thesis by blast
  next
    case False
    with q' have p: "p k' = Some q'" by (simp add: set_queue_def)
    then have "q' \<noteq> []" and "distinct q'" using assms(1) by (auto simp: pending_ok_def)
    moreover have "\<exists>t. map_of recs' i = Some t \<and> tq_match_key t = k' \<and> qr_response_time_ms (tq_record t) = None"
      if "i \<in> set q'" for i
      using pending_okD [OF assms(1) p that] assms(4) [OF False p that] by simp
    ultimately show ?thesis by blast
  qed
qed

lemma evict_oldest_fields [simp]:
  "max_records (evict_oldest d) = max_records d" "next_id (evict_oldest d) = next_id d"
  "recent_queries (evict_oldest d) = recent_queries d" "recent_responses (evict_oldest d) = recent_responses d"
  "order (evict_oldest d) = tl (order d)"
  by (auto simp: evict_oldest_def Let_def split: list.split option.split)

lemma evict_oldest_records:
  "records (evict_oldest d) =
     (case order d of [] \<Rightarrow> records d | i # _ \<Rightarrow> AList.delete i (records d))"
proof (cases "order d")
  case (Cons i rest)
  then show ?thesis
    by (auto simp: evict_oldest_def Let_def delete_idem map_of_eq_None_iff split: option.split)
qed (simp add: evict_oldest_def)

lemma evict_oldest_pending_ok:
  assumes "dns_wf d"
  shows "pending_ok (records (evict_oldest d)) (pending (evict_oldest d))"
proof (cases "order d")
  case Nil
  then have "evict_oldest d = d" by (simp add: evict_oldest_def)
  with assms show ?thesis unfolding dns_wf_def by metis
next
  case (Cons i rest)
  have ok: "pending_ok (records d) (pending d)" using assms by (simp add: dns_wf_def)
  have "i \<in> set (map fst (records d))" using assms Cons by (simp add: dns_wf_def)
  then obtain t where t: "map_of (records d) i = Some t"
    by (metis map_of_eq_None_iff not_None_eq image_set)
  have recs: "records (evict_oldest d) = AList.delete i (records d)"
    by (simp add: evict_oldest_records Cons)
  have not_other: "i \<notin> set q" if "k \<noteq> tq_match_key t" and "pending d k = Some q" for k q
    using pending_okD [OF ok that(2), of i] t that(1) by auto
  show ?thesis
  proof (cases "qr_response_time_ms (tq_record t) = None \<and> pending d (tq_match_key t) \<noteq> None")
    case True
    then obtain q where q: "pending d (tq_match_key t) = Some q" by blast
    define q' where "q' = (if q \<noteq> [] \<and> hd q = i then tl q else filter (\<lambda>j. j \<noteq> i) q)"
    have dq: "distinct q" using ok q by (auto simp: pending_ok_def)
    then have q': "distinct q'" "i \<notin> set q'" "set q' \<subseteq> set q"
      by (cases q; auto simp: q'_def)+
    have "pending (evict_oldest d) = set_queue (tq_match_key t) q' (pending d)"
      using True q t Cons by (simp add: evict_oldest_def Let_def q'_def)
    moreover have "pending_ok (AList.delete i (records d)) (set_queue (tq_match_key t) q' (pending d))"
    proof (rule pending_ok_set_queue [OF ok q'(1)])
      show "\<exists>t'. map_of (AList.delete i (records d)) j = Some t' \<and> tq_match_key t' = tq_match_key t
          \<and> qr_response_time_ms (tq_record t') = None" if "j \<in> set q'" for j
        using pending_okD [OF ok q, of j] that q' by (auto simp: delete_conv)
      show "map_of (AList.delete i (records d)) j = map_of (records d) j"
        if "k' \<noteq> tq_match_key t" and "pending d k' = Some r" and "j \<in> set r" for k' r j
        using not_other [OF that(1,2)] that(3) by (auto simp: delete_conv)
    qed
    ultimately show ?thesis by (simp add: recs)
  next
    case False
    then have p: "pending (evict_oldest d) = pending d"
      using t Cons by (auto simp: evict_oldest_def Let_def)
    have "i \<notin> set q" if "pending d k = Some q" for k q
      using pending_okD [OF ok that, of i] t False that by auto
    then show ?thesis
      using ok unfolding p recs pending_ok_def by (auto simp: delete_conv)
  qed
qed

lemma evict_oldest_wf:
  assumes "dns_wf d"
  shows "dns_wf (evict_oldest d)"
proof (cases "order d")
  case Nil
  with assms show ?thesis by (simp add: evict_oldest_def)
next
  case (Cons i rest)
  have "set (map fst (AList.delete i (records d))) = set rest"
    using assms Cons by (auto simp: dns_wf_def delete_keys)
  with assms Cons evict_oldest_pending_ok [OF assms] show ?thesis
    by (simp add: dns_wf_def evict_oldest_records distinct_delete)
qed

lemma evict_excess_once:
  assumes "dns_wf d" and "length (records d) \<le> max_records d + 1"
  shows "\<exists>d'. evict_excess d = Some d' \<and> d' = (if length (records d) > max_records d then evict_oldest d else d)
       \<and> dns_inv d'"
proof (cases "length (records d) > max_records d")
  case False
  with assms show ?thesis by (simp add: evict_excess.simps [of d] dns_inv_def)
next
  case True
  have wf: "dns_wf (evict_oldest d)" by (rule evict_oldest_wf [OF assms(1)])
  have "length (records (evict_oldest d)) = length (order d) - 1"
    using dns_wf_length [OF wf] by simp
  with assms dns_wf_length [OF assms(1)] True have le: "length (records (evict_oldest d)) \<le> max_records d" by simp
  with True have "evict_excess d = Some (evict_oldest d)"
    by (simp add: evict_excess.simps [of d] evict_excess.simps [of "evict_oldest d"])
  with True wf le show ?thesis by (simp add: dns_inv_def)
qed

lemma fresh_id_above: "i < - 1 \<Longrightarrow> unat (fresh_id i) = unat i + 1 \<and> i < fresh_id i"
  for i :: u64
proof -
  assume "i < - 1"
  then have "unat i + 1 < 2 ^ 64"
    by (simp add: word_less_nat_alt unsigned_minus_1_eq_mask mask_eq_exp_minus_1)
  then have u: "unat (i + 1) = unat i + 1" by (simp add: unat_word_ariths)
  then have "1 \<le> i + 1" by (simp add: word_le_nat_alt)
  with u show ?thesis by (simp add: fresh_id_def max_absorb1 word_less_nat_alt)
qed

lemma pending_ok_new_record:
  assumes "pending_ok recs p" and "i \<notin> set (map fst recs)"
  shows "pending_ok (AList.update i t recs) p"
proof -
  have "map_of recs i = None" using assms(2) by (simp add: map_of_eq_None_iff)
  then have "map_of (AList.update i t recs) j = map_of recs j" if "map_of recs j \<noteq> None" for j
    using that by auto
  then show ?thesis using assms(1) unfolding pending_ok_def by (metis option.distinct(1))
qed

lemma keep_last_full: "keep_last (length xs) (xs @ [x]) = tl (xs @ [x])"
proof -
  have "length (xs @ [x]) - length xs = Suc 0" by simp
  then show ?thesis by (simp only: keep_last_def drop_Suc drop_0)
qed

lemma ingest_query_ok:
  assumes "dns_inv d" and "next_id d < - 1"
  shows "\<exists>d'. ingest_query m now ts dev d = Some d' \<and> dns_inv d' \<and> max_records d' = max_records d
       \<and> unat (next_id d') = unat (next_id d) + 1
       \<and> order d' = keep_last (max_records d) (order d @ [next_id d])
       \<and> recent_responses d' = recent_responses d
       \<and> recent_queries d' = AList.update (match_key m) now (recent_queries d)"
proof -
  have wf: "dns_wf d" and le: "length (records d) \<le> max_records d" using assms(1) by (simp_all add: dns_inv_def)
  let ?i = "next_id d" and ?k = "match_key m"
  let ?t = "\<lparr>tq_observed_ns = now, tq_match_key = ?k, tq_record = new_query_record m ts dev\<rparr>"
  let ?q = "(case pending d ?k of None \<Rightarrow> [] | Some q \<Rightarrow> q) @ [?i]"
  define d1 where "d1 = d\<lparr>recent_queries := AList.update ?k now (recent_queries d), next_id := fresh_id ?i,
      records := AList.update ?i ?t (records d), order := order d @ [?i], pending := (pending d)(?k := Some ?q)\<rparr>"
  have ok: "pending_ok (records d) (pending d)" using wf by (simp add: dns_wf_def)
  have new: "?i \<notin> set (order d)" using wf by (auto simp: dns_wf_def)
  then have newr: "?i \<notin> set (map fst (records d))" using wf by (simp add: dns_wf_def)
  have old_ne: "j \<noteq> ?i" if "map_of (records d) j = Some t" for j t
    using that newr map_of_eq_None_iff [of "records d" ?i] by auto
  have "pending_ok (AList.update ?i ?t (records d)) (set_queue ?k ?q (pending d))"
  proof (rule pending_ok_set_queue [OF ok])
    have "?i \<notin> set q" if "pending d ?k = Some q" for q
      using pending_okD [OF ok that, of ?i] old_ne by blast
    then show "distinct ?q" using ok by (auto simp: pending_ok_def split: option.split)
    show "\<exists>t. map_of (AList.update ?i ?t (records d)) j = Some t \<and> tq_match_key t = ?k
        \<and> qr_response_time_ms (tq_record t) = None" if "j \<in> set ?q" for j
    proof (cases "j = ?i")
      case True
      then show ?thesis by (simp add: new_query_record_def)
    next
      case False
      with that obtain q where "pending d ?k = Some q" and "j \<in> set q"
        by (cases "pending d ?k") auto
      from pending_okD [OF ok this] False show ?thesis by auto
    qed
    show "map_of (AList.update ?i ?t (records d)) j = map_of (records d) j"
      if "k' \<noteq> ?k" "pending d k' = Some q'" "j \<in> set q'" for k' q' j
      using pending_okD [OF ok that(2,3)] old_ne by auto
  qed
  then have "pending_ok (records d1) (pending d1)" by (simp add: d1_def set_queue_def)
  moreover have "\<forall>j \<in> set (order d1). j < next_id d1"
    using wf fresh_id_above [OF assms(2)] by (auto simp: d1_def dns_wf_def intro: order_less_trans)
  moreover have "set (map fst (records d1)) = set (order d1)"
    using wf by (auto simp: d1_def dns_wf_def dom_update [unfolded dom_map_of_conv_image_fst])
  ultimately have wf1: "dns_wf d1"
    using wf new by (simp add: d1_def dns_wf_def distinct_update)
  have len1: "length (records d1) = length (order d) + 1"
    using dns_wf_length [OF wf1] by (simp add: d1_def)
  with le dns_wf_length [OF wf] have "length (records d1) \<le> max_records d1 + 1" by (simp add: d1_def)
  from evict_excess_once [OF wf1 this] obtain d' where d': "evict_excess d1 = Some d'"
    "d' = (if length (records d1) > max_records d1 then evict_oldest d1 else d1)" "dns_inv d'" by blast
  have "order d' = keep_last (max_records d) (order d @ [?i])"
  proof (cases "length (order d) < max_records d")
    case True
    with d'(2) len1 have "d' = d1" by (simp add: d1_def)
    with True show ?thesis by (simp add: d1_def)
  next
    case False
    with le dns_wf_length [OF wf] have eq: "max_records d = length (order d)" by simp
    with d'(2) len1 have "d' = evict_oldest d1" by (simp add: d1_def)
    then have "order d' = tl (order d @ [?i])" by (simp add: d1_def)
    moreover have "keep_last (length (order d)) (order d @ [?i]) = tl (order d @ [?i])"
      by (rule keep_last_full)
    ultimately show ?thesis by (simp only: eq)
  qed
  moreover have "ingest_query m now ts dev d = Some d'"
    using d'(1) by (simp add: ingest_query_def d1_def Let_def)
  ultimately show ?thesis using d' fresh_id_above [OF assms(2)] by (auto simp: d1_def)
qed

lemma set_dropWhile: "set (dropWhile P xs) \<subseteq> set xs"
  using set_dropWhileD by fastforce

lemma distinct_dropWhile: "distinct xs \<Longrightarrow> distinct (dropWhile P xs)"
  by (metis distinct_append takeWhile_dropWhile_id)

lemma ingest_response_ok:
  assumes "dns_inv d"
  shows "dns_inv (ingest_response m now d) \<and> max_records (ingest_response m now d) = max_records d
       \<and> next_id (ingest_response m now d) = next_id d \<and> order (ingest_response m now d) = order d
       \<and> recent_queries (ingest_response m now d) = recent_queries d"
proof (cases "pending d (match_key m)")
  case None
  then show ?thesis using assms by (simp add: ingest_response_def)
next
  case (Some queue)
  let ?k = "match_key m"
  define live where "live = dropWhile (query_expired (records d) now) queue"
  have wf: "dns_wf d" using assms by (simp add: dns_inv_def)
  then have ok: "pending_ok (records d) (pending d)" by (simp add: dns_wf_def)
  have dq: "distinct queue" using ok Some by (auto simp: pending_ok_def)
  then have live: "distinct live" "set live \<subseteq> set queue"
    by (simp_all add: live_def distinct_dropWhile set_dropWhile)
  have tl: "pending_ok (records d) (set_queue ?k (tl live) (pending d))"
  proof (rule pending_ok_set_queue [OF ok])
    have "set (tl live) \<subseteq> set queue" using live(2) by (cases live) auto
    then show "\<exists>t. map_of (records d) i = Some t \<and> tq_match_key t = ?k \<and> qr_response_time_ms (tq_record t) = None"
      if "i \<in> set (tl live)" for i
      using pending_okD [OF ok Some, of i] that by auto
  qed (simp_all add: distinct_tl live(1))
  show ?thesis
  proof (cases live)
    case Nil
    with tl assms Some show ?thesis
      by (simp add: ingest_response_def live_def [symmetric] dns_inv_def dns_wf_def)
  next
    case (Cons i rest)
    with live pending_okD [OF ok Some, of i] obtain t where t: "map_of (records d) i = Some t" "tq_match_key t = ?k"
      by auto
    let ?recs = "AList.update i (answer_record m now t) (records d)"
    have "pending_ok ?recs (set_queue ?k rest (pending d))"
    proof (rule pending_ok_set_queue [OF ok])
      show "distinct rest" using live Cons by simp
      show "\<exists>t. map_of ?recs j = Some t \<and> tq_match_key t = ?k \<and> qr_response_time_ms (tq_record t) = None"
        if "j \<in> set rest" for j
        using that live Cons pending_okD [OF ok Some, of j] by auto
      show "map_of ?recs j = map_of (records d) j" if "k' \<noteq> ?k" "pending d k' = Some q'" "j \<in> set q'" for k' q' j
        using pending_okD [OF ok that(2,3)] t that(1) by auto
    qed
    moreover have "map fst ?recs = map fst (records d)"
    proof -
      have "i \<in> set (map fst (records d))" using t(1) by (metis map_of_eq_None_iff option.distinct(1) image_set)
      then show ?thesis by (simp add: update_keys)
    qed
    moreover from this have "length ?recs = length (records d)" and "fst ` set ?recs = fst ` set (records d)"
      by (metis length_map, metis image_set)
    ultimately show ?thesis
      using assms Some t Cons
      by (simp add: ingest_response_def live_def [symmetric] dns_inv_def dns_wf_def Let_def)
  qed
qed

lemma length_prune [simp]: "length (prune_dedupe_cache c now w n) \<le> n"
  by (auto simp: prune_dedupe_cache_def Let_def)

lemma prune_caches_fields [simp]:
  "order (prune_caches now d) = order d" "records (prune_caches now d) = records d"
  "pending (prune_caches now d) = pending d" "next_id (prune_caches now d) = next_id d"
  "max_records (prune_caches now d) = max_records d"
  by (simp_all add: prune_caches_def Let_def)

lemma dns_inv_prune [simp]: "dns_inv (prune_caches now d) = dns_inv d"
  by (simp add: dns_inv_def dns_wf_def)

definition caches_bounded :: "dns_monitor \<Rightarrow> bool" where
  "caches_bounded d =
     (length (recent_queries d) \<le> 2 * max_records d \<and> length (recent_responses d) \<le> 2 * max_records d)"

lemma caches_bounded_prune: "0 < max_records d \<Longrightarrow> caches_bounded (prune_caches now d)"
proof -
  assume "0 < max_records d"
  then have "max (max_records d * 2) 1 = 2 * max_records d" by simp
  then show ?thesis
    unfolding caches_bounded_def prune_caches_def Let_def
    by (simp only: dns_monitor.select_convs dns_monitor.update_convs dns_monitor.surjective) simp
qed

lemma dns_ingest_ok:
  assumes "dns_inv d" and "next_id d < - 1" and "caches_bounded d"
  shows "\<exists>d'. dns_ingest m now ts dev d = Some d' \<and> dns_inv d' \<and> caches_bounded d'
       \<and> max_records d' = max_records d \<and> unat (next_id d') \<le> unat (next_id d) + 1"
proof (cases "dm_is_query m")
  case True
  obtain d1 where d1: "ingest_query m now ts dev d = Some d1" "dns_inv d1" "max_records d1 = max_records d"
    "unat (next_id d1) = unat (next_id d) + 1"
    using ingest_query_ok [OF assms(1,2)] by blast
  have "0 < max_records d1" using d1(2) by (simp add: dns_inv_def dns_wf_def)
  with True assms d1 caches_bounded_prune show ?thesis by (simp add: dns_ingest_def)
next
  case False
  have "0 < max_records d" using assms(1) by (simp add: dns_inv_def dns_wf_def)
  with False assms ingest_response_ok [OF assms(1), of m now] caches_bounded_prune show ?thesis
    by (simp add: dns_ingest_def)
qed

lemma dns_run_ok:
  assumes "dns_inv d" and "caches_bounded d" and "unat (next_id d) + length es < 2 ^ 64"
  shows "\<exists>d'. dns_run es d = Some d' \<and> dns_inv d' \<and> caches_bounded d' \<and> max_records d' = max_records d"
  using assms
proof (induction es arbitrary: d)
  case Nil
  then show ?case by simp
next
  case (Cons e es)
  obtain m now ts dev where e: "e = (m, now, ts, dev)" by (cases e)
  have "next_id d < - 1"
    using Cons.prems(3) by (simp add: word_less_nat_alt unsigned_minus_1_eq_mask mask_eq_exp_minus_1)
  from dns_ingest_ok [OF Cons.prems(1) this Cons.prems(2)] obtain d1
    where d1: "dns_ingest m now ts dev d = Some d1" "dns_inv d1" "caches_bounded d1"
      "max_records d1 = max_records d" "unat (next_id d1) \<le> unat (next_id d) + 1" by blast
  have "unat (next_id d1) + length es < 2 ^ 64" using d1(5) Cons.prems(3) by simp
  from Cons.IH [OF d1(2,3) this] d1 e show ?case by auto
qed

lemma dns_new_ok: "dns_inv (dns_new a b n ifs) \<and> caches_bounded (dns_new a b n ifs)"
  by (simp add: dns_inv_def dns_wf_def dns_new_def pending_ok_def caches_bounded_def)

text \<open>C20: from a new monitor, every sequence of messages is processed to the end (the eviction loop
  always stops), and afterwards at most \<open>max n 1\<close> queries are kept, the record map and the
  order agree, every pending entry is a kept, unanswered query of its key, and the duplicate
  caches hold at most twice as many entries.\<close>

theorem dns_history_bounded:
  assumes "length es < 2 ^ 64 - 2"
  shows "\<exists>d. dns_run es (dns_new enabled persist n ifs) = Some d
       \<and> length (records d) \<le> max n 1 \<and> distinct (order d)
       \<and> set (map fst (records d)) = set (order d) \<and> pending_ok (records d) (pending d)
       \<and> length (recent_queries d) \<le> 2 * max n 1 \<and> length (recent_responses d) \<le> 2 * max n 1"
proof -
  let ?d = "dns_new enabled persist n ifs"
  have new: "dns_inv ?d" "caches_bounded ?d" by (simp_all add: dns_new_ok)
  have "unat (next_id ?d) + length es < 2 ^ 64" using assms by (simp add: dns_new_def)
  from dns_run_ok [OF new this] obtain d where d: "dns_run es ?d = Some d" "dns_inv d" "caches_bounded d"
    "max_records d = max_records ?d" by blast
  have m: "max_records ?d = max n 1" by (simp add: dns_new_def)
  show ?thesis
    using d(1) d(2,3) [unfolded dns_inv_def dns_wf_def caches_bounded_def d(4) m] by blast
qed

theorem dns_history_bounded_witness:
  "\<exists>d. dns_run [] (dns_new True False 0 []) = Some d \<and> length (records d) \<le> max 0 1"
proof -
  have "length ([] :: dns_event list) < 2 ^ 64 - 2" by simp
  from dns_history_bounded [OF this] show ?thesis by blast
qed

section \<open>Responses and duplicates\<close>


definition sample_dns_query :: dns_message where
  "sample_dns_query = \<lparr>dm_is_query = True, dm_source_ip = V4 1, dm_destination_ip = V4 2, dm_source_port = 5000,
     dm_destination_port = 53, dm_transaction_id = 7, dm_domain = ''a.b'',
     dm_query_type = ''A'', dm_protocol = ''UDP'', dm_response_code = None, dm_response_ips = [],
     dm_response_records = []\<rparr>"

definition sample_dns_response :: dns_message where
  "sample_dns_response = sample_dns_query\<lparr>dm_source_ip := V4 2, dm_destination_ip := V4 1,
     dm_source_port := 53, dm_destination_port := 5000, dm_is_query := False,
     dm_response_code := Some ''NOERROR'', dm_response_ips := [''9.9.9.9'']\<rparr>"

definition no_identity :: device_identity where
  "no_identity = \<lparr>id_mac = [], id_name = [], id_iface = []\<rparr>"

definition sample_waiting :: dns_monitor where
  "sample_waiting = (dns_new True False 5 [])\<lparr>order := [1], next_id := 2,
     records := [(1, \<lparr>tq_observed_ns = 10, tq_match_key = match_key sample_dns_query,
                       tq_record = new_query_record sample_dns_query 0 no_identity\<rparr>)],
     pending := [match_key sample_dns_query \<mapsto> [1]]\<rparr>"

lemma sample_match_key: "match_key sample_dns_response = match_key sample_dns_query"
  by (simp add: match_key_def sample_dns_response_def sample_dns_query_def)


lemma length_alist_update: "length (AList.update k v m) \<le> Suc (length m)"
  by (induction m) auto

text \<open>A repeated query is recorded once: while the duplicate cache has room, a query with the same
  key seen again within 500 ms of a recorded one leaves the monitor exactly as it was.\<close>

theorem repeated_query_ignored:
  assumes "dns_ingest m now ts dev d = Some d'" and "dm_is_query m"
    and "\<not> recently_seen (recent_queries d) (match_key m) now query_dedup_window_ns"
    and "dns_inv d" and "next_id d < - 1" and "length (recent_queries d) < 2 * max_records d"
    and "dm_is_query m'" and "match_key m' = match_key m" and "sat_sub now' now < query_dedup_window_ns"
  shows "dns_ingest m' now' ts' dev' d' = Some d'"
proof -
  obtain d1 where d1: "ingest_query m now ts dev d = Some d1" and mx: "max_records d1 = max_records d"
    and rq: "recent_queries d1 = AList.update (match_key m) now (recent_queries d)"
    using ingest_query_ok [OF assms(4,5)] by blast
  have "length (AList.update (match_key m) now (recent_queries d)) \<le> Suc (length (recent_queries d))"
    by (rule length_alist_update)
  with rq have "recent_queries (prune_caches now d1) = AList.update (match_key m) now (recent_queries d)"
    using assms(6) mx by (simp add: prune_caches_def prune_dedupe_cache_def Let_def)
  moreover have "d' = prune_caches now d1" using assms(1-3) d1 by (simp add: dns_ingest_def)
  ultimately show ?thesis
    using assms(7-9) by (simp add: dns_ingest_def recently_seen_def)
qed

theorem repeated_query_ignored_witness:
  "\<exists>d'. dns_ingest sample_dns_query 10 0 no_identity (dns_new True False 5 []) = Some d'
      \<and> dns_ingest sample_dns_query 400000000 1 no_identity d' = Some d'"
proof -
  let ?d = "dns_new True False 5 []"
  have inv: "dns_inv ?d" "caches_bounded ?d" by (simp_all add: dns_new_ok)
  have i: "next_id ?d < - 1"
    by (simp add: dns_new_def word_less_nat_alt unsigned_minus_1_eq_mask mask_eq_exp_minus_1)
  from dns_ingest_ok [OF inv(1) i inv(2)] obtain d'
    where d': "dns_ingest sample_dns_query 10 0 no_identity ?d = Some d'" by blast
  have q: "dm_is_query sample_dns_query" by (simp add: sample_dns_query_def)
  have fresh: "\<not> recently_seen (recent_queries ?d) (match_key sample_dns_query) 10 query_dedup_window_ns"
    by (simp add: recently_seen_def dns_new_def)
  have room: "length (recent_queries ?d) < 2 * max_records ?d" by (simp add: dns_new_def)
  have near: "sat_sub 400000000 10 < query_dedup_window_ns" by (simp add: sat_sub_def)
  from repeated_query_ignored [OF d' q fresh inv(1) i room q refl near] d' show ?thesis by blast
qed

section \<open>Pages\<close>

lemma concat_pages:
  assumes "0 < n"
  shows "concat (map (\<lambda>p. take n (drop (p * n) xs)) [0..<(length xs + n - 1) div n]) = xs"
proof (induction xs rule: length_induct)
  case (1 xs)
  show ?case
  proof (cases "xs = []")
    case True
    with assms show ?thesis by simp
  next
    case False
    let ?ys = "drop n xs"
    have "length ?ys < length xs" using False assms by simp
    then have IH: "concat (map (\<lambda>p. take n (drop (p * n) ?ys)) [0..<(length ?ys + n - 1) div n]) = ?ys"
      using 1 by blast
    have k: "(length xs + n - 1) div n = Suc ((length ?ys + n - 1) div n)"
    proof (cases "length xs \<le> n")
      case True
      have "0 < length xs" using False by simp
      then have "length xs + n - 1 = n + (length xs - 1)" by linarith
      moreover have "(n + (length xs - 1)) div n = Suc ((length xs - 1) div n)" using assms by simp
      moreover have "(length xs - 1) div n = 0" and "(n - 1) div n = 0"
        using True \<open>0 < length xs\<close> assms by (simp_all add: div_eq_0_iff)
      moreover have "length ?ys + n - 1 = n - 1" using True by simp
      ultimately show ?thesis by metis
    next
      case False
      then have "length xs + n - 1 = n + (length ?ys + n - 1)" using assms by simp
      moreover have "(n + (length ?ys + n - 1)) div n = Suc ((length ?ys + n - 1) div n)"
        unfolding Suc_eq_plus1 using assms by (intro div_add_self1) simp
      ultimately show ?thesis by metis
    qed
    have "concat (map (\<lambda>p. take n (drop (p * n) xs)) [0..<(length xs + n - 1) div n])
        = take n xs @ concat (map (\<lambda>p. take n (drop (p * n) ?ys)) [0..<(length ?ys + n - 1) div n])"
    proof -
      have d: "drop (Suc p * n) xs = drop (p * n) ?ys" for p by (simp add: add.commute)
      have "[0..<Suc m] = 0 # map Suc [0..<m]" for m
        by (simp add: upt_conv_Cons map_Suc_upt del: upt_Suc)
      then show ?thesis unfolding k by (simp only: list.map map_map o_def d concat.simps mult_0 drop_0)
    qed
    then show ?thesis unfolding IH by (simp only: append_take_drop_id)
  qed
qed

lemma record_passes_page [simp]: "record_passes (q\<lparr>qf_page := p\<rparr>) = record_passes q"
  by (rule ext) (simp add: record_passes_def)

text \<open>The pages of a query partition its result: for any filter and page size, the pages 1 to
  \<open>total_pages\<close> put together are exactly the kept records that pass the filter, newest first, each
  once; no page is longer than 100 and the total is their number.\<close>

theorem pages_partition_result:
  assumes "length (order d) < 2 ^ 60"
  shows "let pg = (\<lambda>p. queries (q\<lparr>qf_page := Some p\<rparr>) d);
             result = filter (record_passes q)
               (List.map_filter (\<lambda>i. map_option tq_record (map_of (records d) i)) (rev (order d)))
     in concat (map (\<lambda>p. pg_queries (pg p)) [1..<Suc (pg_total_pages (pg 1))]) = result
      \<and> pg_total (pg 1) = length result
      \<and> length (pg_queries (pg p)) \<le> pg_page_size (pg p) \<and> pg_page_size (pg p) \<le> 100"
proof -
  define xs where "xs = filter (record_passes q)
               (List.map_filter (\<lambda>i. map_option tq_record (map_of (records d) i)) (rev (order d)))"
  define n where "n = min (max (case qf_page_size q of None \<Rightarrow> 20 | Some s \<Rightarrow> s) 1) 100"
  have n: "0 < n" "n \<le> 100" by (simp_all add: n_def)
  have pg: "queries (q\<lparr>qf_page := Some p\<rparr>) d = \<lparr>pg_queries = take n (drop (min ((max p 1 - 1) * n) usize_max) xs),
      pg_total = length xs, pg_page = max p 1, pg_page_size = n, pg_total_pages = (length xs + n - 1) div n\<rparr>" for p
    by (simp add: queries_def Let_def xs_def n_def)
  have "length xs \<le> length (order d)"
    unfolding xs_def by (rule order_trans [OF length_filter_le]) (simp add: List.map_filter_def order_trans [OF length_filter_le])
  with assms have len: "length xs < 2 ^ 60" by simp
  have "take n (drop (min ((Suc p - 1) * n) usize_max) xs) = take n (drop (p * n) xs)" for p
    using len by (cases "p * n \<le> usize_max") (simp_all add: min_def usize_max_def)
  then have "concat (map (\<lambda>p. take n (drop (min ((max p 1 - 1) * n) usize_max) xs)) [1..<Suc ((length xs + n - 1) div n)])
      = concat (map (\<lambda>p. take n (drop (p * n) xs)) [0..<(length xs + n - 1) div n])"
    by (simp add: map_Suc_upt [symmetric] o_def del: upt_Suc)
  also have "\<dots> = xs" using n(1) by (rule concat_pages)
  finally show ?thesis using n by (simp add: pg Let_def xs_def [symmetric] del: upt_Suc)
qed

theorem pages_partition_result_witness:
  "pg_total (queries (\<lparr>qf_domain = None, qf_device = None, qf_dns_server = None, qf_query_type = None,
      qf_result = None, qf_iface = None, qf_protocol = None, qf_page = Some 1, qf_page_size = None\<rparr>) (dns_new True False 5 [])) = 0"
proof -
  let ?q = "\<lparr>qf_domain = None, qf_device = None, qf_dns_server = None, qf_query_type = None,
      qf_result = None, qf_iface = None, qf_protocol = None, qf_page = None, qf_page_size = None\<rparr> :: dns_query_filter"
  have "length (order (dns_new True False 5 [])) < 2 ^ 60" by (simp add: dns_new_def)
  from pages_partition_result [OF this, of ?q] show ?thesis
    by (simp add: Let_def dns_new_def List.map_filter_simps)
qed

section \<open>Statistics\<close>

lemma percentile_Ok:
  assumes "xs \<noteq> []" and "p \<le> 100"
  shows "\<exists>i. i < length xs \<and> i = min ((length xs - 1) * p) usize_max div 100 \<and> percentile xs p = Ok (xs ! i)"
proof -
  have "min ((length xs - 1) * p) usize_max div 100 \<le> (length xs - 1) * p div 100"
    by (rule div_le_mono) simp
  also have "\<dots> \<le> (length xs - 1) * 100 div 100" using assms(2) by (intro div_le_mono mult_le_mono2)
  also have "\<dots> = length xs - 1" by simp
  finally have "min ((length xs - 1) * p) usize_max div 100 < length xs"
    using assms(1) by (cases xs) auto
  then show ?thesis using assms(1) by (simp add: percentile_def)
qed

lemma percentile_mono:
  assumes "sorted xs" and "p \<le> q" and "q \<le> 100" and "percentile xs p = Ok a" and "percentile xs q = Ok b"
  shows "a \<le> b"
proof (cases "xs = []")
  case True
  with assms show ?thesis by (simp add: percentile_def)
next
  case False
  obtain i where i: "i < length xs" "i = min ((length xs - 1) * p) usize_max div 100" "a = xs ! i"
    using percentile_Ok [OF False, of p] assms by auto
  obtain j where j: "j < length xs" "j = min ((length xs - 1) * q) usize_max div 100" "b = xs ! j"
    using percentile_Ok [OF False, of q] assms by auto
  have "(length xs - 1) * p \<le> (length xs - 1) * q" using assms(2) by (rule mult_le_mono2)
  then have "i \<le> j" unfolding i(2) j(2) by (intro div_le_mono min.mono) simp_all
  with i j assms(1) show ?thesis by (simp add: sorted_nth_mono)
qed

lemma percentile_bounds:
  assumes "sorted xs" and "xs \<noteq> []" and "p \<le> 100" and "percentile xs p = Ok a"
  shows "hd xs \<le> a \<and> a \<le> last xs"
proof -
  obtain i where "i < length xs" "a = xs ! i" using percentile_Ok [OF assms(2,3)] assms(4) by auto
  with assms(1,2) show ?thesis
    by (simp add: hd_conv_nth last_conv_nth sorted_nth_mono)
qed

definition total_count :: "(string \<times> nat) list \<Rightarrow> nat" where
  "total_count m = sum_list (map snd m)"

lemma count_one_simps:
  "total_count (count_one k m) = Suc (total_count m)"
  "distinct (map fst m) \<Longrightarrow> distinct (map fst (count_one k m))"
proof -
  show "total_count (count_one k m) = Suc (total_count m)"
    unfolding total_count_def count_one_def upd_entry_def
    by (induction m) auto
  show "distinct (map fst m) \<Longrightarrow> distinct (map fst (count_one k m))"
    by (simp add: count_one_def distinct_upd_entry)
qed

lemma map_of_le_total: "map_of m k = Some c \<Longrightarrow> c \<le> total_count m"
  by (induction m) (auto simp: total_count_def split: if_splits)

lemma stats_step_fields [simp]:
  "sa_response_codes (stats_step now r a) =
     (case counted_code r of None \<Rightarrow> sa_response_codes a | Some c \<Rightarrow> count_one c (sa_response_codes a))"
  "sa_response_times (stats_step now r a) =
     (case qr_response_time_ms r of None \<Rightarrow> sa_response_times a | Some t \<Rightarrow> sa_response_times a @ [t])"
  "sa_domains (stats_step now r a) = count_one (qr_domain r) (sa_domains a)"
  by (auto simp: stats_step_def Let_def split: option.split)

lemma stats_step_without_response:
  "sa_without_response (stats_step now r a) \<le> sa_without_response a + (if counted_code r = None then 1 else 0)"
  by (auto simp: stats_step_def Let_def split: option.split)

lemma stats_fold:
  "total_count (sa_response_codes (fold (stats_step now) rs a))
     = total_count (sa_response_codes a) + length (filter (\<lambda>r. counted_code r \<noteq> None) rs)"
  "sa_without_response (fold (stats_step now) rs a)
     \<le> sa_without_response a + length (filter (\<lambda>r. counted_code r = None) rs)"
  "total_count (sa_domains (fold (stats_step now) rs a)) = total_count (sa_domains a) + length rs"
proof (induction rs arbitrary: a)
  case (Cons r rs)
  {
    case 1
    show ?case using Cons.IH(1) [of "stats_step now r a"] by (simp add: count_one_simps split: option.split)
  next
    case 2
    show ?case using Cons.IH(2) [of "stats_step now r a"] stats_step_without_response [of now r a]
      by (cases "counted_code r") simp_all
  next
    case 3
    show ?case using Cons.IH(3) [of "stats_step now r a"] by (simp add: count_one_simps)
  }
qed simp_all

text \<open>The statistics are consistent and never panic: responses are split into successes and
  failures, responses and unanswered queries together are at most the queries counted, the
  percentiles are ordered and lie between the shortest and the longest response time, and the
  top lists hold at most ten items, most frequent first.\<close>

theorem stats_consistent:
  "\<exists>s. stats now_ms d = Ok s
     \<and> st_success_count s + st_failure_count s = st_total_responses s
     \<and> st_total_responses s + st_queries_without_response s \<le> st_total_queries s
     \<and> st_total_queries s = length (ordered_records d)
     \<and> st_min_response_time_ms s \<le> st_p50 s \<and> st_p50 s \<le> st_p90 s \<and> st_p90 s \<le> st_p95 s
     \<and> st_p95 s \<le> st_p99 s \<and> st_p99 s \<le> st_max_response_time_ms s
     \<and> length (st_top_domains s) \<le> 10 \<and> sorted_wrt (\<ge>) (map snd (st_top_domains s))"
proof -
  let ?rs = "ordered_records d"
  let ?a = "fold (stats_step now_ms) ?rs stats_init"
  let ?times = "sort (sa_response_times ?a)"
  have ok: "\<exists>v. percentile ?times p = Ok v" if "p \<le> 100" for p
    using percentile_Ok [of ?times p] that by (cases "?times = []") (auto simp: percentile_def)
  obtain p50 p90 p95 p99 where p: "percentile ?times 50 = Ok p50" "percentile ?times 90 = Ok p90"
    "percentile ?times 95 = Ok p95" "percentile ?times 99 = Ok p99"
    using ok [of 50] ok [of 90] ok [of 95] ok [of 99] by auto
  have sorted: "sorted ?times" by simp
  have mono: "p50 \<le> p90 \<and> p90 \<le> p95 \<and> p95 \<le> p99"
    using percentile_mono [OF sorted _ _ p(1) p(2)] percentile_mono [OF sorted _ _ p(2) p(3)]
      percentile_mono [OF sorted _ _ p(3) p(4)] by simp
  have lo: "(if ?times = [] then 0 else hd ?times) \<le> p50"
    using percentile_bounds [OF sorted _ _ p(1)] by auto
  have hi: "p99 \<le> (if ?times = [] then 0 else last ?times)"
    using percentile_bounds [OF sorted _ _ p(4)] p(4) by (auto simp: percentile_def)
  have total: "total_count (sa_response_codes ?a) = length (filter (\<lambda>r. counted_code r \<noteq> None) ?rs)"
    using stats_fold(1) [of now_ms ?rs stats_init] by (simp add: stats_init_def total_count_def)
  have "sa_without_response ?a \<le> length (filter (\<lambda>r. counted_code r = None) ?rs)"
    using stats_fold(2) [of now_ms ?rs stats_init] by (simp add: stats_init_def)
  then have le: "total_count (sa_response_codes ?a) + sa_without_response ?a \<le> length ?rs"
    using total sum_length_filter_compl [of "\<lambda>r. counted_code r \<noteq> None" ?rs] by simp
  have succ: "(case map_of (sa_response_codes ?a) ''NOERROR'' of None \<Rightarrow> 0 | Some c \<Rightarrow> c) \<le> total_count (sa_response_codes ?a)"
    by (auto split: option.split dest: map_of_le_total)
  have top: "length (sorted_top_items m 10) \<le> 10 \<and> sorted_wrt (\<ge>) (map snd (sorted_top_items m 10))" for m
  proof -
    let ?f = "\<lambda>(name :: string, c). (- int c, name)"
    have "sorted (map ?f (sort_key ?f m))" by simp
    then have "sorted (map ?f (sorted_top_items m 10))"
      unfolding sorted_top_items_def take_map [symmetric] by (rule sorted_wrt_take)
    then have "sorted_wrt (\<lambda>x y. ?f x \<le> ?f y) (sorted_top_items m 10)" by (simp add: sorted_wrt_map)
    then have "sorted_wrt (\<lambda>x y. snd y \<le> snd x) (sorted_top_items m 10)"
      by (rule sorted_wrt_mono_rel [rotated]) (auto simp: less_eq_prod_def)
    then show ?thesis by (simp add: sorted_wrt_map sorted_top_items_def)
  qed
  show ?thesis
    using mono lo hi le succ top
    by (simp add: stats_def Let_def p case_prod_beta total_count_def [symmetric])
qed


section \<open>Restart\<close>

interpretation load_log: bounded_log "push_line n" "\<lambda>rs. rs" n "\<lambda>rs. length rs \<le> n \<and> 0 < n" for n
proof unfold_locales
  fix rs :: "dns_query_record list" and r
  assume rs: "length rs \<le> n \<and> 0 < n"
  show "push_line n r rs = keep_last n (rs @ [r])"
  proof (cases "length rs = n")
    case True
    with rs have "rs \<noteq> []" by auto
    with True keep_last_full [of rs r] show ?thesis by (simp add: push_line_def)
  next
    case False
    with rs show ?thesis by (simp add: push_line_def keep_last_def)
  qed
  then show "length (push_line n r rs) \<le> n \<and> 0 < n" using rs by simp
qed

lemma fold_load_line: "fold (load_line n) file_lines rs = fold (push_line n) (map mark_unanswered (List.map_filter (\<lambda>l. l) file_lines)) rs"
  by (induction file_lines arbitrary: rs) (simp_all add: load_line_def List.map_filter_simps split: option.split)

lemma load_dns_records_eq:
  "load_dns_records n file_lines = keep_last n (map mark_unanswered (List.map_filter (\<lambda>l. l) file_lines))"
proof (cases "n = 0")
  case True
  then show ?thesis by (simp add: load_dns_records_def keep_last_def)
next
  case False
  then show ?thesis
    using load_log.pushes_contents [of "[]" n "map mark_unanswered (List.map_filter (\<lambda>l. l) file_lines)"]
    by (simp add: load_dns_records_def fold_load_line)
qed

lemma mark_unanswered_idem [simp]: "mark_unanswered (mark_unanswered r) = mark_unanswered r"
  by (simp add: mark_unanswered_def)

lemma newest_in_order: "rev (take n (rev xs)) = keep_last n xs"
  by (simp add: keep_last_def take_rev)

lemma map_filter_cong_on: "(\<And>x. x \<in> set xs \<Longrightarrow> f x = g x) \<Longrightarrow> List.map_filter f xs = List.map_filter g xs"
  by (induction xs) (auto simp: List.map_filter_simps split: option.split)

lemma map_filter_snoc:
  "List.map_filter f (xs @ [x]) = List.map_filter f xs @ (case f x of None \<Rightarrow> [] | Some y \<Rightarrow> [y])"
  by (simp add: List.map_filter_def split: option.split)

lemma restore_record_ok:
  assumes "dns_wf d" and "next_id d < - 1"
  shows "dns_wf (restore_record r d)
       \<and> records_for_persistence (restore_record r d) = records_for_persistence d @ [mark_unanswered r]
       \<and> unat (next_id (restore_record r d)) = unat (next_id d) + 1"
proof -
  let ?i = "next_id d"
  have new: "?i \<notin> set (order d)" using assms(1) by (auto simp: dns_wf_def)
  then have newr: "?i \<notin> set (map fst (records d))" using assms(1) by (simp add: dns_wf_def)
  have up: "unat (fresh_id ?i) = unat ?i + 1" "?i < fresh_id ?i" using fresh_id_above [OF assms(2)] by simp_all
  have "pending_ok (records (restore_record r d)) (pending d)"
    using assms(1) newr by (simp add: restore_record_def Let_def dns_wf_def pending_ok_new_record)
  moreover have "\<forall>i \<in> set (order d). i < fresh_id ?i"
    using assms(1) up(2) by (auto simp: dns_wf_def intro: order_less_trans)
  ultimately have "dns_wf (restore_record r d)"
    using assms(1) new up(2)
    by (simp add: restore_record_def Let_def dns_wf_def distinct_update update_keys)
  moreover have "List.map_filter (\<lambda>i. map_option tq_record (map_of (AList.update ?i t (records d)) i)) (order d)
      = List.map_filter (\<lambda>i. map_option tq_record (map_of (records d) i)) (order d)" for t
    using new by (intro map_filter_cong_on) auto
  ultimately show ?thesis
    using up(1) by (simp add: records_for_persistence_def restore_record_def Let_def map_filter_snoc)
qed

lemma restore_fold:
  "dns_wf d \<Longrightarrow> unat (next_id d) + length rs < 2 ^ 64 \<Longrightarrow>
    records_for_persistence (fold restore_record rs d) = records_for_persistence d @ map mark_unanswered rs"
proof (induction rs arbitrary: d)
  case Nil
  then show ?case by simp
next
  case (Cons r rs)
  have "next_id d < - 1"
    using Cons.prems(2) by (simp add: word_less_nat_alt unsigned_minus_1_eq_mask mask_eq_exp_minus_1)
  from restore_record_ok [OF Cons.prems(1) this, of r] Cons show ?case by simp
qed

text \<open>A restart restores the history: the records read back from the saved lines and put into a
  new monitor of the same capacity are the newest readable lines, in order, with the queries that
  never got an answer marked; unreadable lines are skipped.\<close>

theorem restart_restores_history:
  assumes "0 < n" and "n < 2 ^ 64 - 2"
  shows "records_for_persistence (restore_records (load_dns_records n file_lines) (dns_new enabled persist n ifs))
    = keep_last n (map mark_unanswered (List.map_filter (\<lambda>l. l) file_lines))"
proof -
  let ?rs = "load_dns_records n file_lines"
  let ?d = "dns_new enabled persist n ifs"
  have len: "length ?rs \<le> n" by (simp add: load_dns_records_eq)
  have wf: "dns_wf ?d" using dns_new_ok by (simp add: dns_inv_def)
  have "max_records ?d = n" using assms(1) by (simp add: dns_new_def)
  then have "restore_records ?rs ?d = fold restore_record ?rs ?d"
    using len unfolding restore_records_def newest_in_order by (simp add: keep_last_def)
  moreover have "unat (next_id ?d) + length ?rs < 2 ^ 64" using len assms(2) by (simp add: dns_new_def)
  moreover have "records_for_persistence ?d = []" by (simp add: records_for_persistence_def dns_new_def List.map_filter_simps)
  moreover have "map mark_unanswered ?rs = ?rs"
    unfolding load_dns_records_eq keep_last_def drop_map by (simp add: o_def)
  ultimately show ?thesis using restore_fold [OF wf, of ?rs] by (simp add: load_dns_records_eq)
qed

theorem restart_restores_history_witness:
  "length (records_for_persistence (restore_records (load_dns_records 1
      [Some (new_query_record sample_dns_query 1 no_identity), None, Some (new_query_record sample_dns_query 2 no_identity)])
      (dns_new True True 1 []))) = 1"
proof -
  have "(0 :: nat) < 1" and "(1 :: nat) < 2 ^ 64 - 2" by simp_all
  from restart_restores_history [OF this] show ?thesis by (simp add: List.map_filter_simps)
qed

section \<open>The reader and the attribution\<close>

lemma read_item_not_Panic: "read_item item \<noteq> Panic"
proof -
  have "parse_dns_packet p o' v \<noteq> Panic" for p o' v
    unfolding parse_dns_packet_def
    by (auto simp: bindr_Panic_iff dest: packet_end_ipv4 packet_end_ipv6 split: if_splits)
  then show ?thesis by (auto simp: read_item_def Let_def bindr_Panic_iff)
qed

lemma evict_excess_parse_errors:
  "evict_excess d = Some d' \<Longrightarrow> capture_parse_errors d' = capture_parse_errors d"
proof (rule evict_excess.raw_induct [where P = "\<lambda>d d'. capture_parse_errors d' = capture_parse_errors d"])
  have one: "capture_parse_errors (evict_oldest d) = capture_parse_errors d" for d
    by (auto simp: evict_oldest_def Let_def split: list.split option.split)
  fix ev d d'
  assume "\<And>d d'. ev d = Some d' \<Longrightarrow> capture_parse_errors d' = capture_parse_errors d"
    and "(if max_records d < length (records d) then ev (evict_oldest d) else Some d) = Some d'"
  then show "capture_parse_errors d' = capture_parse_errors d" using one by (auto split: if_splits)
qed

lemma dns_ingest_parse_errors:
  "dns_ingest m now ts dev d = Some d' \<Longrightarrow> capture_parse_errors d' = capture_parse_errors d"
proof -
  have p: "capture_parse_errors (prune_caches n d0) = capture_parse_errors d0" for n d0
    by (simp add: prune_caches_def Let_def)
  have r: "capture_parse_errors (ingest_response m now d) = capture_parse_errors d"
    by (auto simp: ingest_response_def Let_def split: list.split option.split)
  have q: "capture_parse_errors d1 = capture_parse_errors d" if "ingest_query m now ts dev d = Some d1" for d1
    using evict_excess_parse_errors that by (fastforce simp: ingest_query_def Let_def)
  show "dns_ingest m now ts dev d = Some d' \<Longrightarrow> ?thesis"
    by (auto simp: dns_ingest_def p r split: if_splits dest: q)
qed

lemma dns_run_parse_errors: "dns_run es d = Some d' \<Longrightarrow> capture_parse_errors d' = capture_parse_errors d"
  by (induction es d rule: dns_run.induct) (auto split: option.splits dest: dns_ingest_parse_errors)

lemma unat_sat_add_one: "unat (n :: u64) + k < 2 ^ 64 \<Longrightarrow> 0 < k \<Longrightarrow> unat (sat_add n 1) = unat n + 1"
  by (simp add: unat_sat_add)

lemma drain_items_total:
  "unat errs + length items < 2 ^ 64 \<Longrightarrow>
    \<exists>ms' errs'. drain_items items ms errs = Ok (ms', errs')
      \<and> length ms' + unat errs' = length ms + unat errs + length items
      \<and> take (length ms) ms' = ms
      \<and> map Ok (drop (length ms) ms') = filter (\<lambda>x. x \<noteq> Fail) (map read_item items)"
proof (induction items arbitrary: ms errs)
  case Nil
  then show ?case by simp
next
  case (Cons i "is")
  show ?case
  proof (cases "read_item i")
    case (Ok x)
    have "unat errs + length is < 2 ^ 64" using Cons.prems by simp
    from Cons.IH [OF this, of "ms @ [x]"] obtain ms' errs' where r: "drain_items is (ms @ [x]) errs = Ok (ms', errs')"
      "length ms' + unat errs' = length (ms @ [x]) + unat errs + length is" "take (length (ms @ [x])) ms' = ms @ [x]"
      "map Ok (drop (length (ms @ [x])) ms') = filter (\<lambda>y. y \<noteq> Fail) (map read_item is)" by blast
    have e: "ms' = ms @ x # drop (length (ms @ [x])) ms'"
      using r(3) append_take_drop_id [of "length (ms @ [x])" ms'] by simp
    then have "take (length ms) ms' = ms" and "drop (length ms) ms' = x # drop (length (ms @ [x])) ms'"
      by (metis append_eq_conv_conj)+
    with r Ok show ?thesis by simp
  next
    case Fail
    have u: "unat (sat_add errs 1) = unat errs + 1" using Cons.prems by (intro unat_sat_add_one [of _ "length (i # is)"]) simp_all
    then have "unat (sat_add errs 1) + length is < 2 ^ 64" using Cons.prems by simp
    from Cons.IH [OF this, of ms] u Fail show ?thesis by auto
  next
    case Panic
    then show ?thesis using read_item_not_Panic by simp
  qed
qed

text \<open>The ring buffer reader never panics and loses nothing: every item is either passed on, in
  order, as the header and message it parses to, or counted as one parse error; and the monitor
  takes the whole batch.\<close>

theorem drain_accounts_for_every_item:
  assumes "length items < 2 ^ 64 - 2"
  shows "\<exists>ms errs d. drain_items items [] 0 = Ok (ms, errs)
      \<and> length ms + unat errs = length items
      \<and> map Ok ms = filter (\<lambda>x. x \<noteq> Fail) (map read_item items)
      \<and> reader_batch reg t off items (dns_new enabled persist n ifs) = Ok (Some d)
      \<and> capture_parse_errors d = errs
      \<and> length (records d) \<le> max n 1"
proof -
  let ?d = "dns_new enabled persist n ifs"
  obtain ms errs where m: "drain_items items [] 0 = Ok (ms, errs)" "length ms + unat errs = length items"
    "map Ok ms = filter (\<lambda>x. x \<noteq> Fail) (map read_item items)"
    using drain_items_total [of 0 items "[]"] assms by auto
  let ?d1 = "note_parse_errors errs ?d"
  let ?es = "map (message_event reg t off) ms"
  have d1: "dns_inv ?d1" "caches_bounded ?d1" "max_records ?d1 = max n 1"
    using dns_new_ok by (simp_all add: note_parse_errors_def dns_inv_def dns_wf_def caches_bounded_def dns_new_def)
  have errs: "capture_parse_errors ?d1 = errs" by (simp add: note_parse_errors_def dns_new_def)
  have "unat (next_id ?d1) + length ?es < 2 ^ 64"
    using m(2) assms by (simp add: note_parse_errors_def dns_new_def)
  from dns_run_ok [OF d1(1,2) this] obtain d where d: "dns_run ?es ?d1 = Some d" "dns_inv d" "max_records d = max n 1"
    using d1(3) by auto
  have c: "capture_parse_errors d = errs" using dns_run_parse_errors [OF d(1)] errs by simp
  have "reader_batch reg t off items ?d = Ok (Some d)"
  proof (cases "errs > 0 \<or> ms \<noteq> []")
    case True
    with m(1) d(1) show ?thesis by (simp add: reader_batch_def)
  next
    case False
    then have "errs = 0" and "ms = []" by (simp_all add: word_neq_0_conv [symmetric])
    moreover from this have "d = ?d1" using d(1) by simp
    moreover have "note_parse_errors 0 ?d = ?d" by (simp add: note_parse_errors_def dns_new_def)
    ultimately show ?thesis using m(1) by (simp add: reader_batch_def)
  qed
  with m c d(2,3) show ?thesis by (auto simp: dns_inv_def)
qed

theorem drain_accounts_for_every_item_witness:
  "\<exists>ms errs d. drain_items [[1, 2, 3], []] [] 0 = Ok (ms, errs) \<and> length ms + unat errs = 2
      \<and> reader_batch [] [] 0 [[1, 2, 3], []] (dns_new True False 5 []) = Ok (Some d)
      \<and> capture_parse_errors d = errs"
proof -
  have "length [[1, 2, 3], [] :: bytes] < 2 ^ 64 - 2" by simp
  from drain_accounts_for_every_item [OF this, of "[]" "[]" 0 True False 5 "[]"] show ?thesis by auto
qed

text \<open>A query is named after a device only for a reason: the registry entry of the packet's
  interface and MAC address, when it has no addresses or owns the client's, or else the only
  device that owns the client's address. Otherwise the name stays empty.\<close>

theorem device_name_has_a_reason:
  assumes "id_name (resolve_device reg t h client_ip) \<noteq> []"
  shows "\<exists>k \<in> set (map snd reg). resolve_device reg t h client_ip
            = \<lparr>id_mac = mac_to_string (kd_mac k), id_name = kd_hostname k, id_iface = kd_logical_iface k\<rparr>
     \<and> (ph_has_mac h \<noteq> 0 \<and> map_of reg (ph_ifindex h, ph_mac h) = Some k
          \<and> (kd_ipv4 k = [] \<and> kd_ipv6 k = [] \<or> owns_ip (ip_to_string client_ip) k)
        \<or> owns_ip (ip_to_string client_ip) k
          \<and> (\<forall>k' \<in> set (map snd reg). owns_ip (ip_to_string client_ip) k' \<longrightarrow> k' = k))"
proof -
  let ?ip = "ip_to_string client_ip"
  let ?known = "if ph_has_mac h \<noteq> 0 then map_of reg (ph_ifindex h, ph_mac h) else None"
  let ?by = "case ?known of None \<Rightarrow> None
      | Some k \<Rightarrow> if kd_ipv4 k = [] \<and> kd_ipv6 k = [] \<or> owns_ip ?ip k then Some k else None"
  let ?uniq = "case filter (owns_ip ?ip) (map snd reg) of [k] \<Rightarrow> Some k | _ \<Rightarrow> None"
  obtain k where k: "(case ?by of Some k \<Rightarrow> Some k | None \<Rightarrow> ?uniq) = Some k"
    using assms by (cases "case ?by of Some k \<Rightarrow> Some k | None \<Rightarrow> ?uniq") (simp_all add: resolve_device_def Let_def)
  then have res: "resolve_device reg t h client_ip
      = \<lparr>id_mac = mac_to_string (kd_mac k), id_name = kd_hostname k, id_iface = kd_logical_iface k\<rparr>"
    by (simp add: resolve_device_def Let_def)
  show ?thesis
  proof (cases ?by)
    case (Some k')
    with k have "k' = k" by simp
    with Some have "ph_has_mac h \<noteq> 0" "map_of reg (ph_ifindex h, ph_mac h) = Some k"
      "kd_ipv4 k = [] \<and> kd_ipv6 k = [] \<or> owns_ip ?ip k"
      by (auto split: if_splits option.splits)
    moreover from this(2) have "k \<in> set (map snd reg)" by (force dest: map_of_SomeD)
    ultimately show ?thesis using res by blast
  next
    case None
    with k have "?uniq = Some k" by simp
    then have f: "filter (owns_ip ?ip) (map snd reg) = [k]" by (auto split: list.splits)
    then have "{k' \<in> set (map snd reg). owns_ip ?ip k'} = {k}"
      unfolding set_filter [symmetric] by simp
    then show ?thesis using res by blast
  qed
qed

definition sample_device :: known_device where
  "sample_device = \<lparr>kd_ifindex = 3, kd_mac = [2, 0, 0, 0, 0, 1], kd_ipv4 = [], kd_ipv6 = [],
     kd_hostname = ''nas'', kd_logical_iface = ''br-lan'', kd_subnet = [], kd_last_seen_ms = 0\<rparr>"

theorem device_name_has_a_reason_witness:
  "\<exists>k \<in> {sample_device}. id_name (resolve_device [((3, [2, 0, 0, 0, 0, 1]), sample_device)] []
      \<lparr>ph_timestamp_ns = 0, ph_ifindex = 3, ph_captured_len = 0, ph_ip_offset = 0, ph_ip_version = 4, ph_direction = 0,
       ph_mac = [2, 0, 0, 0, 0, 1], ph_has_mac = 1\<rparr> (V4 0x0A000009)) = kd_hostname k"
proof -
  let ?h = "\<lparr>ph_timestamp_ns = 0, ph_ifindex = 3, ph_captured_len = 0, ph_ip_offset = 0, ph_ip_version = 4, ph_direction = 0,
       ph_mac = [2, 0, 0, 0, 0, 1], ph_has_mac = 1\<rparr> :: dns_packet_header"
  have "id_name (resolve_device [((3, [2, 0, 0, 0, 0, 1]), sample_device)] [] ?h (V4 0x0A000009)) \<noteq> []"
    by (simp add: resolve_device_def Let_def owns_ip_def sample_device_def)
  from device_name_has_a_reason [OF this] show ?thesis by auto
qed

end
