(* ===== verification/Ebpf.thy ===== *)
theory Ebpf
  imports Dns_Monitor
begin

text \<open>
  The packet program of \<open>bandix-plus-ebpf/src/main.rs\<close>: the classification of a frame, the exclusion
  of management traffic, the traffic counters, the DNS capture, and the two ECM hooks.

  The kernel is a parameter: a packet is an \<open>skb\<close> whose linear part is a prefix of its bytes and
  whose \<open>sk_load\<close> is \<open>bpf_skb_load_bytes\<close>; the outcome of a map insertion or of a ring buffer
  reservation and the clock are inputs (\<open>hook_env\<close>). A structure read through a pointer is the
  slice of its size; its fields are read big or little endian from their offsets.
\<close>

section \<open>Packets and maps\<close>

record skb =
  sk_bytes :: bytes
  sk_linear :: nat
  sk_ifindex :: u32
  sk_load :: "nat \<Rightarrow> nat \<Rightarrow> bytes option"

definition ptr_at :: "nat \<Rightarrow> skb \<Rightarrow> nat \<Rightarrow> bytes option" where
  "ptr_at sz s offset = (if offset + sz > sk_linear s then None else Some (slice offset sz (sk_bytes s)))"

definition packet_u16 :: "skb \<Rightarrow> nat \<Rightarrow> u16 option" where
  "packet_u16 s offset = map_option of_be16 (sk_load s offset 2)"

text \<open>A big endian \<open>u16\<close> field at an offset of a structure.\<close>

definition field16 :: "bytes \<Rightarrow> nat \<Rightarrow> u16" where
  "field16 h off = of_be16 (slice off 2 h)"

record packet_meta =
  pm_ip_version :: u8
  pm_mac :: "mac option"
  pm_ip_offset :: u16

record kernel_maps =
  km_router_local_ips :: "router_ip_key \<Rightarrow> u8 option"
  km_management_ports :: "u16 \<Rightarrow> u8 option"
  km_track_devices :: "u32 \<Rightarrow> u8 option"
  km_iface_stats :: "(iface_traffic_key \<times> traffic_value) list"
  km_device_stats :: "(device_traffic_key \<times> traffic_value) list"
  km_insert_failures :: "u64 option"
  km_dns_data :: "bytes list"
  km_ecm_stats :: "(ecm_traffic_key \<times> traffic_value) list"

record hook_env =
  he_dns_enabled :: u8
  he_time :: u64
  he_reserve :: bool
  he_scratch :: bytes
  he_iface_insert :: bool
  he_device_insert :: bool
  he_failure_insert :: bool

abbreviation eth_p_ip :: u16 where "eth_p_ip \<equiv> 0x0800"
abbreviation eth_p_ipv6 :: u16 where "eth_p_ipv6 \<equiv> 0x86DD"
abbreviation eth_p_ppp_ses :: u16 where "eth_p_ppp_ses \<equiv> 0x8864"
abbreviation eth_p_8021q :: u16 where "eth_p_8021q \<equiv> 0x8100"
abbreviation eth_p_8021ad :: u16 where "eth_p_8021ad \<equiv> 0x88A8"
abbreviation ppp_proto_ip :: u16 where "ppp_proto_ip \<equiv> 0x0021"
abbreviation ppp_proto_ipv6 :: u16 where "ppp_proto_ipv6 \<equiv> 0x0057"
abbreviation dns_port :: u16 where "dns_port \<equiv> 53"
abbreviation dir_ingress :: u8 where "dir_ingress \<equiv> 1"
abbreviation dir_egress :: u8 where "dir_egress \<equiv> 2"

section \<open>Classification\<close>

definition ppp_ip_version :: "u16 \<Rightarrow> u8 option" where
  "ppp_ip_version proto = (if proto = ppp_proto_ip then Some 4 else if proto = ppp_proto_ipv6 then Some 6 else None)"

definition resolve_ip_version_from_eth :: "skb \<Rightarrow> u16 \<Rightarrow> nat \<Rightarrow> u8 option" where
  "resolve_ip_version_from_eth s eth_proto payload_offset =
     (if eth_proto = eth_p_ip then Some 4
      else if eth_proto = eth_p_ipv6 then Some 6
      else if eth_proto = eth_p_ppp_ses then
        (case ptr_at 8 s payload_offset of None \<Rightarrow> None | Some pppoe \<Rightarrow> ppp_ip_version (field16 pppoe 6))
      else None)"

definition resolve_ip_version_from_l3 :: "skb \<Rightarrow> nat \<Rightarrow> u8 option" where
  "resolve_ip_version_from_l3 s offset =
     (case ptr_at 2 s offset of
        None \<Rightarrow> None
      | Some p \<Rightarrow>
          let version = (ucast (drop_bit 12 (of_be16 p)) :: u8)
          in if version = 4 then Some 4 else if version = 6 then Some 6 else None)"

definition resolve_ip_version_from_ppp :: "skb \<Rightarrow> u8 option" where
  "resolve_ip_version_from_ppp s =
     (case ptr_at 2 s 0 of
        None \<Rightarrow> None
      | Some p \<Rightarrow> (case ppp_ip_version (of_be16 p) of
                     Some v \<Rightarrow> Some v
                   | None \<Rightarrow> resolve_ip_version_from_l3 s 2))"

section \<open>Management traffic\<close>

definition management_port_matches :: "kernel_maps \<Rightarrow> u16 \<Rightarrow> u16 \<Rightarrow> u8 \<Rightarrow> bool" where
  "management_port_matches k source destination direction =
     (km_management_ports k (if direction = dir_ingress then destination else source) \<noteq> None)"

definition management_ipv4 :: "kernel_maps \<Rightarrow> skb \<Rightarrow> u8 \<Rightarrow> nat \<Rightarrow> bool" where
  "management_ipv4 k s direction offset =
     (case ptr_at 20 s offset of
        None \<Rightarrow> False
      | Some ip \<Rightarrow>
          let ihl = unat (ip ! 0 AND 0x0f) * 4 in
          if ip ! 9 \<noteq> 6 \<or> ihl < 20 then False
          else if field16 ip 6 AND 0x1fff \<noteq> 0 then False
          else (case ptr_at 20 s (offset + ihl) of
                  None \<Rightarrow> False
                | Some tcp \<Rightarrow>
                    if \<not> management_port_matches k (field16 tcp 0) (field16 tcp 2) direction then False
                    else (let local_ip = of_be32 (if direction = dir_ingress then slice 16 4 ip else slice 12 4 ip)
                          in km_router_local_ips k \<lparr>rk_ip = [local_ip, 0, 0, 0], rk_ip_version = 4\<rparr> \<noteq> None)))"

definition management_ipv6 :: "kernel_maps \<Rightarrow> skb \<Rightarrow> u8 \<Rightarrow> nat \<Rightarrow> bool" where
  "management_ipv6 k s direction offset =
     (case ptr_at 40 s offset of
        None \<Rightarrow> False
      | Some ip \<Rightarrow>
          if ip ! 6 \<noteq> 6 then False
          else (case ptr_at 20 s (offset + 40) of
                  None \<Rightarrow> False
                | Some tcp \<Rightarrow>
                    if \<not> management_port_matches k (field16 tcp 0) (field16 tcp 2) direction then False
                    else (let w = (if direction = dir_ingress then slice 24 16 ip else slice 8 16 ip)
                          in km_router_local_ips k
                               \<lparr>rk_ip = map (\<lambda>i. of_be32 (slice (4 * i) 4 w)) [0, 1, 2, 3], rk_ip_version = 6\<rparr> \<noteq> None)))"

definition is_management_packet :: "kernel_maps \<Rightarrow> skb \<Rightarrow> u8 \<Rightarrow> u16 \<Rightarrow> nat \<Rightarrow> bool" where
  "is_management_packet k s direction eth_proto offset =
     (let inner = (if eth_proto = eth_p_ppp_ses then
                     (case ptr_at 8 s offset of
                        None \<Rightarrow> None
                      | Some pppoe \<Rightarrow>
                          map_option (\<lambda>v. (if v = 4 then eth_p_ip else eth_p_ipv6, offset + 8))
                            (ppp_ip_version (field16 pppoe 6)))
                   else Some (eth_proto, offset))
      in case inner of
           None \<Rightarrow> False
         | Some (proto, off) \<Rightarrow>
             if proto = eth_p_ip then management_ipv4 k s direction off
             else if proto = eth_p_ipv6 then management_ipv6 k s direction off
             else False)"

section \<open>The metadata of a packet\<close>

text \<open>At most two VLAN tags are skipped.\<close>

fun skip_vlans :: "nat \<Rightarrow> skb \<Rightarrow> u16 \<Rightarrow> nat \<Rightarrow> u16 \<times> nat" where
  "skip_vlans 0 s eth_proto offset = (eth_proto, offset)"
| "skip_vlans (Suc n) s eth_proto offset =
     (if eth_proto = eth_p_8021q \<or> eth_proto = eth_p_8021ad then
        (case ptr_at 4 s offset of
           Some vlan \<Rightarrow> skip_vlans n s (field16 vlan 2) (offset + 4)
         | None \<Rightarrow> (eth_proto, offset))
      else (eth_proto, offset))"

text \<open>The part for frames with an Ethernet header: \<open>None\<close> goes on to the other forms.\<close>

definition meta_from_eth :: "kernel_maps \<Rightarrow> skb \<Rightarrow> u8 \<Rightarrow> packet_meta option option" where
  "meta_from_eth k s direction =
     (case ptr_at 14 s 0 of
        None \<Rightarrow> None
      | Some eth \<Rightarrow>
          let (eth_proto, offset) = skip_vlans 2 s (field16 eth 12) 14 in
          (case resolve_ip_version_from_eth s eth_proto offset of
             None \<Rightarrow> None
           | Some v \<Rightarrow>
               Some (if is_management_packet k s direction eth_proto offset then None
                     else
                       let h_dest = slice 0 6 eth;
                           mac = (if direction = dir_ingress
                                  then (if h_dest ! 0 AND 1 \<noteq> 0 then h_dest else slice 6 6 eth)
                                  else h_dest)
                       in Some \<lparr>pm_ip_version = v, pm_mac = Some mac,
                                pm_ip_offset = word_of_nat (if eth_proto = eth_p_ppp_ses then offset + 8 else offset)\<rparr>)))"

definition meta_from_l3 :: "kernel_maps \<Rightarrow> skb \<Rightarrow> u8 \<Rightarrow> u8 \<Rightarrow> nat \<Rightarrow> packet_meta option" where
  "meta_from_l3 k s direction v offset =
     (if is_management_packet k s direction (if v = 4 then eth_p_ip else eth_p_ipv6) offset then None
      else Some \<lparr>pm_ip_version = v, pm_mac = None, pm_ip_offset = word_of_nat offset\<rparr>)"

definition resolve_packet_meta :: "kernel_maps \<Rightarrow> skb \<Rightarrow> u8 \<Rightarrow> packet_meta option" where
  "resolve_packet_meta k s direction =
     (case meta_from_eth k s direction of
        Some r \<Rightarrow> r
      | None \<Rightarrow>
          (case resolve_ip_version_from_l3 s 0 of
             Some v \<Rightarrow> meta_from_l3 k s direction v 0
           | None \<Rightarrow>
               (case resolve_ip_version_from_ppp s of
                  Some v \<Rightarrow> meta_from_l3 k s direction v 2
                | None \<Rightarrow> None)))"

section \<open>DNS packets\<close>

text \<open>
  The bounded walk over the IPv6 extension headers: the protocol and offset it ends at, \<open>None\<close>
  when the packet is not DNS.
\<close>

fun follow_extensions :: "nat \<Rightarrow> skb \<Rightarrow> nat \<Rightarrow> u8 \<Rightarrow> nat \<Rightarrow> (u8 \<times> nat) option" where
  "follow_extensions 0 s ip_end protocol off = Some (protocol, off)"
| "follow_extensions (Suc n) s ip_end protocol off =
     (if protocol = 17 \<or> protocol = 6 then Some (protocol, off)
      else if protocol = 44 \<or> protocol = 50 then None
      else if protocol \<in> {0, 43, 60, 135, 139, 140} \<or> protocol = 51 then
        (case (sk_load s off 1, sk_load s (off + 1) 1) of
           (Some nx, Some l) \<Rightarrow>
             let extension_len = (if protocol = 51 then (unat (l ! 0) + 2) * 4 else (unat (l ! 0) + 1) * 8)
             in if extension_len < 8 \<or> off + extension_len > ip_end then None
                else follow_extensions n s ip_end (nx ! 0) (off + extension_len)
         | _ \<Rightarrow> None)
      else None)"

definition dns_network :: "skb \<Rightarrow> nat \<Rightarrow> u8 \<Rightarrow> nat \<Rightarrow> (u8 \<times> nat \<times> nat) option" where
  "dns_network s ip_offset v packet_len =
     (if v = 4 then
        (case ptr_at 20 s ip_offset of
           None \<Rightarrow> None
         | Some ip \<Rightarrow>
             let ihl = unat (ip ! 0 AND 0x0f) * 4; total_len = unat (field16 ip 2) in
             if drop_bit 4 (ip ! 0) \<noteq> 4 \<or> ihl < 20 \<or> ip_offset + ihl > packet_len then None
             else if total_len < ihl \<or> ip_offset + total_len > packet_len then None
             else if field16 ip 6 AND 0x3fff \<noteq> 0 then None
             else Some (ip ! 9, ip_offset + ihl, ip_offset + total_len))
      else if v = 6 then
        (case ptr_at 40 s ip_offset of
           None \<Rightarrow> None
         | Some ip \<Rightarrow>
             if drop_bit 28 (of_be32 (slice 0 4 ip)) \<noteq> 6 \<or> ip_offset + 40 > packet_len then None
             else
               let ip_end = ip_offset + 40 + unat (field16 ip 4) in
               if ip_end > packet_len then None
               else (case follow_extensions 6 s ip_end (ip ! 6) (ip_offset + 40) of
                       None \<Rightarrow> None
                     | Some (protocol, off) \<Rightarrow>
                         if protocol \<noteq> 17 \<and> protocol \<noteq> 6 then None else Some (protocol, off, ip_end)))
      else None)"

definition dns_transport :: "skb \<Rightarrow> u8 \<Rightarrow> nat \<Rightarrow> nat \<Rightarrow> (nat \<times> nat) option" where
  "dns_transport s protocol off ip_end =
     (if protocol = 17 then
        (case ptr_at 8 s off of
           None \<Rightarrow> None
         | Some udp \<Rightarrow>
             let udp_len = unat (field16 udp 4) in
             if field16 udp 0 \<noteq> dns_port \<and> field16 udp 2 \<noteq> dns_port then None
             else if udp_len < 8 + 12 \<or> off + udp_len > ip_end then None
             else Some (off + 8, off + udp_len))
      else if protocol = 6 then
        (case ptr_at 20 s off of
           None \<Rightarrow> None
         | Some tcp \<Rightarrow>
             let tcp_header_len = unat (drop_bit 12 (field16 tcp 12)) * 4;
                 length_offset = off + tcp_header_len in
             if field16 tcp 0 \<noteq> dns_port \<and> field16 tcp 2 \<noteq> dns_port then None
             else if tcp_header_len < 20 \<or> length_offset + 2 > ip_end then None
             else (case packet_u16 s length_offset of
                     None \<Rightarrow> None
                   | Some dl \<Rightarrow>
                       let dns_len = unat dl in
                       if dns_len < 12 \<or> length_offset + 2 + dns_len > ip_end then None
                       else Some (length_offset + 2, length_offset + 2 + dns_len)))
      else None)"

definition dns_header_plausible :: "skb \<Rightarrow> nat \<Rightarrow> nat \<Rightarrow> bool" where
  "dns_header_plausible s dns_offset dns_end =
     (if dns_offset + 12 > dns_end then False
      else (case (packet_u16 s (dns_offset + 2), packet_u16 s (dns_offset + 4)) of
              (Some flags, Some question_count) \<Rightarrow>
                question_count > 0 \<and> question_count \<le> 16 \<and> drop_bit 11 flags AND 0x0f \<le> 5
            | _ \<Rightarrow> False))"

definition is_dns_packet :: "skb \<Rightarrow> nat \<Rightarrow> u8 \<Rightarrow> nat \<Rightarrow> bool" where
  "is_dns_packet s ip_offset v packet_len =
     (case dns_network s ip_offset v packet_len of
        None \<Rightarrow> False
      | Some (protocol, transport_offset, ip_end) \<Rightarrow>
          (case dns_transport s protocol transport_offset ip_end of
             None \<Rightarrow> False
           | Some (dns_offset, dns_end) \<Rightarrow> dns_header_plausible s dns_offset dns_end))"

text \<open>The ring buffer entry: the header, the packet, and what the reserved memory held before.\<close>

definition capture_header :: "hook_env \<Rightarrow> skb \<Rightarrow> u8 \<Rightarrow> packet_meta \<Rightarrow> dns_packet_header" where
  "capture_header e s direction meta =
     \<lparr>ph_timestamp_ns = he_time e, ph_ifindex = sk_ifindex s,
      ph_captured_len = word_of_nat (length (sk_bytes s)), ph_ip_offset = pm_ip_offset meta,
      ph_ip_version = pm_ip_version meta, ph_direction = direction,
      ph_mac = (case pm_mac meta of Some m \<Rightarrow> m | None \<Rightarrow> replicate 6 0),
      ph_has_mac = (case pm_mac meta of Some _ \<Rightarrow> 1 | None \<Rightarrow> 0)\<rparr>"

definition capture_dns_packet :: "hook_env \<Rightarrow> skb \<Rightarrow> u8 \<Rightarrow> packet_meta \<Rightarrow> kernel_maps \<Rightarrow> kernel_maps" where
  "capture_dns_packet e s direction meta k =
     (let packet_len = length (sk_bytes s) in
      if packet_len = 0 \<or> packet_len > dns_packet_max_bytes then k
      else if \<not> is_dns_packet s (unat (pm_ip_offset meta)) (pm_ip_version meta) packet_len then k
      else if \<not> he_reserve e then k
      else (case sk_load s 0 packet_len of
              None \<Rightarrow> k
            | Some packet \<Rightarrow>
                k\<lparr>km_dns_data := km_dns_data k
                    @ [encode_packet_header (capture_header e s direction meta)
                       @ packet @ take (dns_packet_max_bytes - packet_len) (he_scratch e)]\<rparr>))"

section \<open>Counters\<close>

definition bump_value :: "u64 \<Rightarrow> traffic_value \<Rightarrow> traffic_value" where
  "bump_value n v = \<lparr>tv_packets = sat_add (tv_packets v) 1, tv_bytes = sat_add (tv_bytes v) n\<rparr>"

definition bump_iface_counter :: "hook_env \<Rightarrow> iface_traffic_key \<Rightarrow> u64 \<Rightarrow> kernel_maps \<Rightarrow> kernel_maps" where
  "bump_iface_counter e key n k =
     (case map_of (km_iface_stats k) key of
        Some v \<Rightarrow> k\<lparr>km_iface_stats := AList.update key (bump_value n v) (km_iface_stats k)\<rparr>
      | None \<Rightarrow>
          if he_iface_insert e
          then k\<lparr>km_iface_stats := AList.update key \<lparr>tv_packets = 1, tv_bytes = n\<rparr> (km_iface_stats k)\<rparr>
          else k)"

definition bump_device_insert_failure_count :: "hook_env \<Rightarrow> kernel_maps \<Rightarrow> kernel_maps" where
  "bump_device_insert_failure_count e k =
     (case km_insert_failures k of
        Some n \<Rightarrow> k\<lparr>km_insert_failures := Some (sat_add n 1)\<rparr>
      | None \<Rightarrow> if he_failure_insert e then k\<lparr>km_insert_failures := Some 1\<rparr> else k)"

definition bump_device_counter :: "hook_env \<Rightarrow> device_traffic_key \<Rightarrow> u64 \<Rightarrow> kernel_maps \<Rightarrow> kernel_maps" where
  "bump_device_counter e key n k =
     (case map_of (km_device_stats k) key of
        Some v \<Rightarrow> k\<lparr>km_device_stats := AList.update key (bump_value n v) (km_device_stats k)\<rparr>
      | None \<Rightarrow>
          if he_device_insert e
          then k\<lparr>km_device_stats := AList.update key \<lparr>tv_packets = 1, tv_bytes = n\<rparr> (km_device_stats k)\<rparr>
          else bump_device_insert_failure_count e k)"

section \<open>The hooks\<close>

definition tc_act_unspec :: "32 word" where
  "tc_act_unspec = - 1"

definition try_bandix_plus :: "hook_env \<Rightarrow> skb \<Rightarrow> u8 \<Rightarrow> kernel_maps \<Rightarrow> (32 word + 32 word) \<times> kernel_maps" where
  "try_bandix_plus e s direction k =
     (case resolve_packet_meta k s direction of
        None \<Rightarrow> (Inr tc_act_unspec, k)
      | Some meta \<Rightarrow>
          let k1 = (if he_dns_enabled e \<noteq> 0 then capture_dns_packet e s direction meta k else k);
              pkt_len = word_of_nat (length (sk_bytes s));
              k2 = bump_iface_counter e
                     \<lparr>ik_ifindex = sk_ifindex s, ik_ip_version = pm_ip_version meta, ik_direction = direction\<rparr> pkt_len k1;
              k3 = (case pm_mac meta of
                      None \<Rightarrow> k2
                    | Some m \<Rightarrow>
                        if (case km_track_devices k2 (sk_ifindex s) of None \<Rightarrow> 0 | Some t \<Rightarrow> t) = 1
                        then bump_device_counter e
                               \<lparr>dk_ifindex = sk_ifindex s, dk_mac = m, dk_ip_version = pm_ip_version meta,
                                dk_direction = direction\<rparr> pkt_len k2
                        else k2)
          in (Inr tc_act_unspec, k3))"

definition hook_result :: "(32 word + 32 word) \<times> kernel_maps \<Rightarrow> 32 word \<times> kernel_maps" where
  "hook_result r = ((case fst r of Inr ret \<Rightarrow> ret | Inl ret \<Rightarrow> ret), snd r)"

definition bandix_plus_ingress :: "hook_env \<Rightarrow> skb \<Rightarrow> kernel_maps \<Rightarrow> 32 word \<times> kernel_maps" where
  "bandix_plus_ingress e s k = hook_result (try_bandix_plus e s dir_ingress k)"

definition bandix_plus_egress :: "hook_env \<Rightarrow> skb \<Rightarrow> kernel_maps \<Rightarrow> 32 word \<times> kernel_maps" where
  "bandix_plus_egress e s k = hook_result (try_bandix_plus e s dir_egress k)"

section \<open>The ECM hooks\<close>

text \<open>The sums wrap around.\<close>

definition ecm_count :: "bool \<Rightarrow> ecm_traffic_key \<Rightarrow> u64 \<Rightarrow> u64 \<Rightarrow> kernel_maps \<Rightarrow> kernel_maps" where
  "ecm_count insert_ok key pkts n k =
     (case map_of (km_ecm_stats k) key of
        Some v \<Rightarrow> k\<lparr>km_ecm_stats := AList.update key
                       \<lparr>tv_packets = tv_packets v + pkts, tv_bytes = tv_bytes v + n\<rparr> (km_ecm_stats k)\<rparr>
      | None \<Rightarrow>
          if insert_ok
          then k\<lparr>km_ecm_stats := AList.update key \<lparr>tv_packets = pkts, tv_bytes = n\<rparr> (km_ecm_stats k)\<rparr>
          else k)"

definition ecm_sync ::
  "bool \<times> bool \<Rightarrow> u32 list \<Rightarrow> u8 \<Rightarrow> u64 \<Rightarrow> u64 \<Rightarrow> u64 \<Rightarrow> u64 \<Rightarrow> kernel_maps \<Rightarrow> kernel_maps" where
  "ecm_sync ins ip v tx_bytes rx_bytes tx_pkts rx_pkts k =
     (let k1 = (if tx_bytes > 0
                then ecm_count (fst ins) \<lparr>ek_ip = ip, ek_ip_version = v, ek_direction = dir_egress\<rparr> tx_pkts tx_bytes k
                else k)
      in if rx_bytes > 0
         then ecm_count (snd ins) \<lparr>ek_ip = ip, ek_ip_version = v, ek_direction = dir_ingress\<rparr> rx_pkts rx_bytes k1
         else k1)"

definition ecm_bandix_sync_hook ::
  "bool \<times> bool \<Rightarrow> u32 \<Rightarrow> u64 \<Rightarrow> u64 \<Rightarrow> u64 \<Rightarrow> u64 \<Rightarrow> kernel_maps \<Rightarrow> kernel_maps" where
  "ecm_bandix_sync_hook ins ip tx_bytes rx_bytes tx_pkts rx_pkts k =
     (if ip = 0 \<or> tx_bytes = 0 \<and> rx_bytes = 0 then k
      else ecm_sync ins [ip, 0, 0, 0] 4 tx_bytes rx_bytes tx_pkts rx_pkts k)"

text \<open>The address is \<open>None\<close> for a null pointer or a failed read.\<close>

definition ecm_bandix_ipv6_sync_hook ::
  "bool \<times> bool \<Rightarrow> u32 list option \<Rightarrow> u64 \<Rightarrow> u64 \<Rightarrow> u64 \<Rightarrow> u64 \<Rightarrow> kernel_maps \<Rightarrow> kernel_maps" where
  "ecm_bandix_ipv6_sync_hook ins ip tx_bytes rx_bytes tx_pkts rx_pkts k =
     (case ip of
        None \<Rightarrow> k
      | Some a \<Rightarrow> if tx_bytes = 0 \<and> rx_bytes = 0 then k else ecm_sync ins a 6 tx_bytes rx_bytes tx_pkts rx_pkts k)"


section \<open>What the kernel documents\<close>

text \<open>
  The linear part is a prefix of the packet, and \<open>bpf_skb_load_bytes\<close> copies any bytes inside the
  packet and fails beyond it.
\<close>

definition skb_ok :: "skb \<Rightarrow> bool" where
  "skb_ok s = (sk_linear s \<le> length (sk_bytes s)
     \<and> (\<forall>off n. sk_load s off n = (if off + n \<le> length (sk_bytes s) then Some (slice off n (sk_bytes s)) else None)))"

lemma sk_load_ok: "skb_ok s \<Longrightarrow> sk_load s off n = (if off + n \<le> length (sk_bytes s) then Some (slice off n (sk_bytes s)) else None)"
  by (simp add: skb_ok_def)

lemma ptr_at_SomeD:
  "ptr_at n s off = Some h \<Longrightarrow> skb_ok s \<Longrightarrow> off + n \<le> length (sk_bytes s) \<and> h = slice off n (sk_bytes s)"
  by (auto simp: ptr_at_def skb_ok_def split: if_splits)

lemma packet_u16_SomeD:
  "packet_u16 s off = Some w \<Longrightarrow> skb_ok s \<Longrightarrow> off + 2 \<le> length (sk_bytes s) \<and> w = of_be16 (slice off 2 (sk_bytes s))"
  by (auto simp: packet_u16_def sk_load_ok split: if_splits)

section \<open>The kernel and the reader agree on the framing\<close>

lemma slice_slice: "a + m \<le> n \<Longrightarrow> slice a m (slice off n xs) = slice (off + a) m xs"
  by (simp add: slice_def drop_take take_take add.commute min_absorb1)

lemma nth_of_slice: "i < n \<Longrightarrow> off + n \<le> length xs \<Longrightarrow> slice off n xs ! i = xs ! (off + i)"
  by (rule nth_slice)

lemma field16_slice: "a + 2 \<le> n \<Longrightarrow> field16 (slice off n xs) a = of_be16 (slice (off + a) 2 xs)"
  by (simp add: field16_def slice_slice)

lemma read_u16_at: "off + 2 \<le> length p \<Longrightarrow> length p < 2 ^ 64 \<Longrightarrow> read_u16 p off = Ok (of_be16 (slice off 2 p))"
  by (simp add: read_u16_def checked_add_def get_slice_def)

lemma slice_2: "off + 2 \<le> length xs \<Longrightarrow> slice off 2 xs = [xs ! off, xs ! (off + 1)]"
  by (simp add: slice_def numeral_2_eq_2 take_Suc_conv_app_nth)

lemma slice_4: "off + 4 \<le> length xs \<Longrightarrow> slice off 4 xs = [xs ! off, xs ! (off + 1), xs ! (off + 2), xs ! (off + 3)]"
  by (simp add: slice_def eval_nat_numeral take_Suc_conv_app_nth)

lemma unat_byte_lt: "unat (b :: u8) < 256"
  using unat_lt [of b] by simp

lemma unat_drop: "unat (drop_bit n w) = unat w div 2 ^ n" for w :: "'a::len word"
  unfolding unat_drop_bit_eq by (rule drop_bit_eq_div)

lemma unat_of_be:
  "length bs = 2 \<Longrightarrow> unat (of_be16 bs) = le_to_nat (rev bs)"
  "length cs = 4 \<Longrightarrow> unat (of_be32 cs) = le_to_nat (rev cs)"
  using le_to_nat_bound [of "rev bs"] le_to_nat_bound [of "rev cs"]
  by (simp_all add: of_be16_def of_be32_def unat_of_nat)

lemma be16_high_nibble: "unat (drop_bit 12 (of_be16 [a, b])) = unat (drop_bit 4 a)"
proof -
  have "unat (of_be16 [a, b]) = unat b + 256 * unat a"
    by (simp add: unat_of_be)
  then show ?thesis using unat_byte_lt [of b] unfolding unat_drop by simp
qed

lemma be32_high_nibble: "drop_bit 28 (of_be32 [a, b, c, d]) = 6 \<longleftrightarrow> drop_bit 4 a = 6"
proof -
  have u: "unat (of_be32 [a, b, c, d]) = unat d + 256 * (unat c + 256 * (unat b + 256 * unat a))"
    by (simp add: unat_of_be)
  have "unat (drop_bit 28 (of_be32 [a, b, c, d])) = unat (drop_bit 4 a)"
    using unat_byte_lt [of b] unat_byte_lt [of c] unat_byte_lt [of d]
    unfolding unat_drop u by simp
  moreover have "unat (6 :: u32) = 6" and "unat (6 :: u8) = 6" by simp_all
  ultimately show ?thesis by (metis word_unat_eq_iff)
qed


lemma follow_extensions_agree:
  assumes "skb_ok s" and "ip_end \<le> length (sk_bytes s)"
    and "follow_extensions n s ip_end p off = Some (p', off')" and "p' = 17 \<or> p' = 6"
  shows "skip_extensions (n + m) (sk_bytes s) ip_end p off = Ok (p', off')"
  using assms(3)
proof (induction n arbitrary: p off)
  case 0
  with assms(4) show ?case by (cases m) auto
next
  case (Suc n)
  show ?case
  proof (cases "p = 17 \<or> p = 6")
    case True
    with Suc.prems show ?thesis by auto
  next
    case False
    let ?add = "if p = 51 then 2 else 1 :: nat" and ?u = "if p = 51 then 4 else 8 :: nat"
    from Suc.prems False have ext: "p \<in> {0, 43, 60, 135, 139, 140} \<or> p = 51" and nf: "p \<noteq> 44" "p \<noteq> 50"
      by (auto split: if_splits)
    from Suc.prems False ext nf obtain nx l where ld: "sk_load s off 1 = Some nx" "sk_load s (off + 1) 1 = Some l"
      by (auto split: if_splits option.splits)
    let ?len = "(unat (l ! 0) + ?add) * ?u"
    have rest: "\<not> ?len < 8" "\<not> off + ?len > ip_end"
      "follow_extensions n s ip_end (nx ! 0) (off + ?len) = Some (p', off')"
      using Suc.prems False ext nf ld by (auto simp: Let_def split: if_splits)
    have in_packet: "off + 1 < ip_end" using rest(1,2) by linarith
    then have b: "off < length (sk_bytes s)" "off + 1 < length (sk_bytes s)" using assms(2) by simp_all
    have nx: "nx ! 0 = sk_bytes s ! off" and l: "l ! 0 = sk_bytes s ! (off + 1)"
      using ld b by (auto simp: sk_load_ok [OF assms(1)] nth_of_slice split: if_splits)
    have skip: "skip_extension (sk_bytes s) ip_end off ?add ?u = Ok (nx ! 0, off + ?len)"
      using in_packet b rest(2) nx l by (simp add: skip_extension_def Let_def)
    show ?thesis
      using skip ext Suc.IH [OF rest(3)] by (auto split: if_splits)
  qed
qed

lemma guarded_case_Some:
  "(if A then None else if B then None
    else case F of None \<Rightarrow> None | Some (q, o') \<Rightarrow> if C q then None else Some (q, o', e)) = Some (p, t, i) \<Longrightarrow>
   \<not> A \<and> \<not> B \<and> F = Some (p, t) \<and> \<not> C p \<and> i = e"
  by (auto split: if_splits option.splits prod.splits)

text \<open>What the network header of an accepted packet is for the reader.\<close>

lemma dns_network_agrees:
  assumes "skb_ok s" and "length (sk_bytes s) \<le> dns_packet_max_bytes"
    and "dns_network s off v (length (sk_bytes s)) = Some (p, t, ip_end)"
  shows "\<exists>src dst. (if v = 4 then parse_ipv4_header (sk_bytes s) off
            else if v = 6 then parse_ipv6_header (sk_bytes s) off else Fail) = Ok (src, dst, p, t, ip_end)
      \<and> ip_end \<le> length (sk_bytes s) \<and> (v = 4 \<or> v = 6)"
proof -
  let ?b = "sk_bytes s"
  have small: "length ?b < 2 ^ 64" using assms(2) by simp
  have v: "v = 4 \<or> v = 6" using assms(3) by (auto simp: dns_network_def split: if_splits)
  then show ?thesis
  proof
    assume v4: "v = 4"
    then obtain ip where ip: "ptr_at 20 s off = Some ip"
      using assms(3) by (auto simp: dns_network_def split: option.splits)
    note h = ptr_at_SomeD [OF ip assms(1)]
    then have h0: "ip ! 0 = ?b ! off" and h9: "ip ! 9 = ?b ! (off + 9)" by (simp_all add: nth_of_slice)
    have f: "field16 ip 2 = of_be16 (slice (off + 2) 2 ?b)" "field16 ip 6 = of_be16 (slice (off + 6) 2 ?b)"
      using h by (simp_all add: field16_slice)
    have c: "drop_bit 4 (ip ! 0) = 4" "\<not> unat (ip ! 0 AND 0x0f) * 4 < 20"
      "\<not> unat (field16 ip 2) < unat (ip ! 0 AND 0x0f) * 4" "\<not> off + unat (field16 ip 2) > length ?b"
      "field16 ip 6 AND 0x3fff = 0"
      "p = ip ! 9" "t = off + unat (ip ! 0 AND 0x0f) * 4" "ip_end = off + unat (field16 ip 2)"
      using assms(3) v4 ip by (auto simp: dns_network_def Let_def split: if_splits)
    have hdr: "get_slice off (off + 20) ?b = Ok ip" using h by (simp add: get_slice_def)
    have bounds: "off + 20 \<le> length ?b" using h by blast
    have len: "length ip = 20" using h by (simp add: min_absorb1 le_diff_conv2)
    have r: "read_u16 ?b (off + 2) = Ok (field16 ip 2)" "read_u16 ?b (off + 6) = Ok (field16 ip 6)"
      using h small by (simp_all add: read_u16_at field16_slice)
    have "parse_ipv4_header ?b off
        = Ok (V4 (ipv4_of_octets (slice 12 4 ip)), V4 (ipv4_of_octets (slice 16 4 ip)), p, t, ip_end)"
      using c bounds small len
      by (simp add: parse_ipv4_header_def Let_def hdr r checked_add_def guard_def del: add_2_eq_Suc')
    with v4 c(4,8) show ?thesis by simp
  next
    assume v6: "v = 6"
    then obtain ip where ip: "ptr_at 40 s off = Some ip"
      using assms(3) by (auto simp: dns_network_def split: option.splits)
    note h = ptr_at_SomeD [OF ip assms(1)]
    then have len: "length ip = 40" by (simp add: min_absorb1 le_diff_conv2)
    have f: "field16 ip 4 = of_be16 (slice (off + 4) 2 ?b)" using h by (simp add: field16_slice)
    let ?stop = "off + 40 + unat (field16 ip 4)"
    have "(if drop_bit 28 (of_be32 (slice 0 4 ip)) \<noteq> 6 \<or> off + 40 > length ?b then None
        else if ?stop > length ?b then None
        else case follow_extensions 6 s ?stop (ip ! 6) (off + 40) of None \<Rightarrow> None
          | Some (q, o') \<Rightarrow> if q \<noteq> 17 \<and> q \<noteq> 6 then None else Some (q, o', ?stop)) = Some (p, t, ip_end)"
      using assms(3) v6 ip unfolding dns_network_def Let_def by simp
    note c = guarded_case_Some [OF this]
    have fe: "follow_extensions 6 s ?stop (ip ! 6) (off + 40) = Some (p, t)" using c by blast
    have ver6: "drop_bit 28 (of_be32 (slice 0 4 ip)) = 6" and le: "?stop \<le> length ?b" and pp: "p = 17 \<or> p = 6"
      and ie: "ip_end = ?stop" using c by (blast, meson not_less, blast, blast)
    have "slice 0 4 ip = [ip ! 0, ip ! 1, ip ! 2, ip ! 3]" using slice_4 [of 0 ip] len by (simp add: numeral_2_eq_2)
    with ver6 have ver: "drop_bit 4 (ip ! 0) = 6" by (simp add: be32_high_nibble)
    have hdr: "get_slice off (off + 40) ?b = Ok ip" using h by (simp add: get_slice_def)
    have r: "read_u16 ?b (off + 4) = Ok (field16 ip 4)" using h small by (simp add: read_u16_at field16_slice)
    have "skip_extensions (6 + 2) ?b ?stop (ip ! 6) (off + 40) = Ok (p, t)"
      by (rule follow_extensions_agree [OF assms(1) le fe pp])
    then have se: "skip_extensions 8 ?b ?stop (ip ! 6) (off + 40) = Ok (p, t)"
      by (simp del: skip_extensions.simps)
    have bounds: "off + 40 \<le> length ?b" using h by blast
    have c40: "checked_add off 40 = Ok (off + 40)" and ce: "checked_add (off + 40) (unat (field16 ip 4)) = Ok ?stop"
      using le small by simp_all
    have i0: "idx ip 0 = Ok (ip ! 0)" and i6: "idx ip 6 = Ok (ip ! 6)" using len by simp_all
    have "parse_ipv6_header ?b off
        = Ok (V6 (ipv6_of_octets (slice 8 16 ip)), V6 (ipv6_of_octets (slice 24 16 ip)), p, t, ip_end)"
      unfolding parse_ipv6_header_def Let_def c40 bindr.simps hdr i0 r ce min_absorb1 [OF le] i6 se ie
      by (simp add: ver guard_def)
    with v6 le ie show ?thesis by simp
  qed
qed

lemma dns_transport_agrees:
  assumes "skb_ok s" and "length (sk_bytes s) \<le> dns_packet_max_bytes" and "ip_end \<le> length (sk_bytes s)"
    and "dns_transport s p off ip_end = Some (a, b)"
  shows "\<exists>sport dport. parse_transport (sk_bytes s) p off ip_end = Ok (sport, dport, a, b - a)
      \<and> (sport = 53 \<or> dport = 53) \<and> a + 12 \<le> b \<and> b \<le> ip_end"
proof -
  let ?b = "sk_bytes s"
  have small: "length ?b < 2 ^ 64" using assms(2) by simp
  have "p = 17 \<or> p = 6" using assms(4) by (auto simp: dns_transport_def split: if_splits)
  then show ?thesis
  proof
    assume p: "p = 17"
    then obtain udp where u: "ptr_at 8 s off = Some udp"
      using assms(4) by (auto simp: dns_transport_def split: option.splits)
    note h = ptr_at_SomeD [OF u assms(1)]
    have r: "read_u16 ?b off = Ok (field16 udp 0)" "read_u16 ?b (off + 2) = Ok (field16 udp 2)"
      "read_u16 ?b (off + 4) = Ok (field16 udp 4)"
      using h small by (simp_all add: read_u16_at field16_slice)
    from p u assms(4) r show ?thesis
      by (auto simp: dns_transport_def parse_transport_def Let_def split: if_splits)
  next
    assume p: "p = 6"
    then obtain tcp where u: "ptr_at 20 s off = Some tcp"
      using assms(4) by (auto simp: dns_transport_def split: option.splits)
    note h = ptr_at_SomeD [OF u assms(1)]
    have r: "read_u16 ?b off = Ok (field16 tcp 0)" "read_u16 ?b (off + 2) = Ok (field16 tcp 2)"
      using h small by (simp_all add: read_u16_at field16_slice)
    have "field16 tcp 12 = of_be16 [?b ! (off + 12), ?b ! (off + 13)]"
      using h by (simp add: field16_slice slice_2) (simp add: add.commute)
    then have hl: "unat (drop_bit 12 (field16 tcp 12)) = unat (drop_bit 4 (?b ! (off + 12)))"
      by (simp only: be16_high_nibble)
    let ?lo = "off + unat (drop_bit 4 (?b ! (off + 12))) * 4"
    obtain dl where dl: "packet_u16 s ?lo = Some dl"
      using assms(4) p u hl by (auto simp: dns_transport_def Let_def split: if_splits option.splits)
    note d = packet_u16_SomeD [OF dl assms(1)]
    have rl: "read_u16 ?b ?lo = Ok dl" using d small by (simp add: read_u16_at)
    have ix: "idx ?b (off + 12) = Ok (?b ! (off + 12))" using h by simp
    from p u assms(4) r rl ix dl hl show ?thesis
      by (auto simp: dns_transport_def parse_transport_def Let_def split: if_splits)
  qed
qed

lemma dns_packet_agrees:
  assumes "skb_ok s" and "length (sk_bytes s) \<le> dns_packet_max_bytes"
    and "is_dns_packet s off v (length (sk_bytes s))"
  shows "\<exists>dns src dst sport dport protocol.
      parse_dns_packet (sk_bytes s) off v = parse_dns_message dns src dst sport dport protocol
      \<and> 12 \<le> length dns \<and> (sport = 53 \<or> dport = 53)
      \<and> (\<exists>qc. read_u16 dns 4 = Ok qc \<and> 0 < qc \<and> qc \<le> 16)"
proof -
  let ?b = "sk_bytes s"
  obtain p t ip_end a b where n: "dns_network s off v (length ?b) = Some (p, t, ip_end)"
    and tr: "dns_transport s p t ip_end = Some (a, b)" and pl: "dns_header_plausible s a b"
    using assms(3) by (auto simp: is_dns_packet_def split: option.splits)
  from dns_network_agrees [OF assms(1,2) n] obtain src dst
    where net: "(if v = 4 then parse_ipv4_header ?b off else if v = 6 then parse_ipv6_header ?b off else Fail)
        = Ok (src, dst, p, t, ip_end)" and le: "ip_end \<le> length ?b" by blast
  from dns_transport_agrees [OF assms(1,2) le tr] obtain sport dport
    where pt: "parse_transport ?b p t ip_end = Ok (sport, dport, a, b - a)"
    and port: "sport = 53 \<or> dport = 53" and ab: "a + 12 \<le> b" "b \<le> ip_end" by blast
  let ?dns = "slice a (b - a) ?b"
  have len: "length ?dns = b - a" using ab le by simp
  have "parse_dns_packet ?b off v = parse_dns_message ?dns src dst sport dport (if p = 17 then ''UDP'' else ''TCP'')"
    using net pt port ab le assms(2)
    by (auto simp: parse_dns_packet_def checked_add_def get_slice_def)
  moreover obtain qc where qc: "packet_u16 s (a + 4) = Some qc" "0 < qc" "qc \<le> 16"
    using pl by (auto simp: dns_header_plausible_def split: if_splits option.splits)
  note q = packet_u16_SomeD [OF qc(1) assms(1)]
  have "read_u16 ?dns 4 = Ok qc"
    using len ab assms(2) q by (simp add: read_u16_at slice_slice le)
  ultimately show ?thesis using len ab port qc(2,3) by (intro exI conjI) (assumption | simp)+
qed


section \<open>From the hook to the reader\<close>

definition meta_ok :: "packet_meta \<Rightarrow> bool" where
  "meta_ok m = (case pm_mac m of None \<Rightarrow> True | Some a \<Rightarrow> length a = 6)"

lemma resolve_packet_meta_ok:
  assumes "skb_ok s" and "resolve_packet_meta k s d = Some m"
  shows "meta_ok m"
proof -
  have eth: "length (slice 0 6 h) = 6 \<and> length (slice 6 6 h) = 6" if "ptr_at 14 s 0 = Some h" for h
    using ptr_at_SomeD [OF that assms(1)] by (auto simp: slice_slice)
  show ?thesis
    using assms(2) eth
    by (auto simp: resolve_packet_meta_def meta_from_eth_def meta_from_l3_def meta_ok_def Let_def
        simp del: length_slice split: option.splits if_splits prod.splits)
qed

lemma read_item_of_event:
  assumes "length (ph_mac h) = 6" and "unat (ph_captured_len h) = length packet"
    and "0 < length packet" and "length packet \<le> dns_packet_max_bytes"
  shows "read_item (encode_packet_header h @ packet @ rest)
    = bindr (parse_dns_packet packet (unat (ph_ip_offset h)) (ph_ip_version h)) (\<lambda>m. Ok (h, m))"
proof -
  have len: "length (encode_packet_header h) = 32" by (rule length_encode_packet_header [OF assms(1)])
  have dec: "decode_packet_header (encode_packet_header h @ packet @ rest) = h"
    by (rule packet_header_roundtrip [OF assms(1)])
  have sl: "slice 32 (length packet) (encode_packet_header h @ packet @ rest) = packet"
    by (simp add: slice_def len)
  show ?thesis
    using assms(2-4) by (simp add: read_item_def dec len sl Let_def)
qed


text \<open>A DNS query over UDP and IPv4 in an Ethernet frame.\<close>

definition sample_frame :: bytes where
  "sample_frame = [2, 0, 0, 0, 0, 1, 2, 0, 0, 0, 0, 2, 8, 0]
     @ [0x45, 0, 0, 45, 0, 0, 0, 0, 64, 17, 0, 0, 10, 0, 0, 9, 1, 1, 1, 1]
     @ [0x13, 0x88, 0, 53, 0, 25, 0, 0]
     @ [0, 7, 1, 0, 0, 1, 0, 0, 0, 0, 0, 0, 0, 0, 1, 0, 1]"

definition skb_of :: "u32 \<Rightarrow> bytes \<Rightarrow> skb" where
  "skb_of i bs = \<lparr>sk_bytes = bs, sk_linear = length bs, sk_ifindex = i,
     sk_load = (\<lambda>off n. if off + n \<le> length bs then Some (slice off n bs) else None)\<rparr>"

definition empty_maps :: kernel_maps where
  "empty_maps = \<lparr>km_router_local_ips = (\<lambda>_. None), km_management_ports = (\<lambda>_. None), km_track_devices = (\<lambda>_. None),
     km_iface_stats = [], km_device_stats = [], km_insert_failures = None, km_dns_data = [], km_ecm_stats = []\<rparr>"

definition sample_env :: hook_env where
  "sample_env = \<lparr>he_dns_enabled = 1, he_time = 5, he_reserve = True, he_scratch = replicate 1600 0,
     he_iface_insert = True, he_device_insert = True, he_failure_insert = True\<rparr>"

lemma skb_of_ok: "skb_ok (skb_of i bs)"
  by (simp add: skb_ok_def skb_of_def)

lemma sample_meta: "resolve_packet_meta empty_maps (skb_of 3 sample_frame) dir_ingress
    = Some \<lparr>pm_ip_version = 4, pm_mac = Some [2, 0, 0, 0, 0, 2], pm_ip_offset = 14\<rparr>"
  by code_simp

lemma sample_is_dns: "is_dns_packet (skb_of 3 sample_frame) 14 4 (length sample_frame)"
  by code_simp



section \<open>The interface of a counter map\<close>

text \<open>
  What user space relies on when it reads a map of counters: an update adds its amount to the
  counters of its key, with the map's kind of addition (\<open>plus\<close>: saturating or wrapping), and
  leaves the others alone. A key that is not in the map counts as zero.
\<close>

locale counter_map =
  fixes bump :: "'k \<Rightarrow> 'a \<Rightarrow> 's \<Rightarrow> 's"
    and counts :: "'s \<Rightarrow> 'k \<Rightarrow> nat \<times> nat"
    and amount :: "'a \<Rightarrow> nat \<times> nat"
    and plus :: "nat \<Rightarrow> nat \<Rightarrow> nat"
  assumes counts_bump: "counts (bump key a s) k = (if k = key
      then (plus (fst (counts s k)) (fst (amount a)), plus (snd (counts s k)) (snd (amount a))) else counts s k)"
    and plus_plus: "plus (plus x a1) a2 = plus x (a1 + a2)"
    and plus_0: "plus (fst (counts s k)) 0 = fst (counts s k) \<and> plus (snd (counts s k)) 0 = snd (counts s k)"
begin

definition total_of :: "('k \<times> 'a) list \<Rightarrow> 'k \<Rightarrow> nat \<times> nat" where
  "total_of ops k = (let as = map (amount \<circ> snd) (filter (\<lambda>x. fst x = k) ops)
                     in (sum_list (map fst as), sum_list (map snd as)))"

lemma counts_bumps:
  "counts (fold (\<lambda>x. bump (fst x) (snd x)) ops s) k
    = (plus (fst (counts s k)) (fst (total_of ops k)), plus (snd (counts s k)) (snd (total_of ops k)))"
proof (induction ops arbitrary: s)
  case Nil
  then show ?case using plus_0 [of s k] by (simp add: total_of_def)
next
  case (Cons x ops)
  then show ?case by (simp add: counts_bump plus_plus total_of_def Let_def)
qed

end

definition counts_in :: "('k \<times> traffic_value) list \<Rightarrow> 'k \<Rightarrow> nat \<times> nat" where
  "counts_in m k = (case map_of m k of None \<Rightarrow> (0, 0) | Some v \<Rightarrow> (unat (tv_packets v), unat (tv_bytes v)))"

definition sat_plus :: "nat \<Rightarrow> nat \<Rightarrow> nat" where
  "sat_plus x a = min (x + a) (2 ^ 64 - 1)"

definition wrap_plus :: "nat \<Rightarrow> nat \<Rightarrow> nat" where
  "wrap_plus x a = (x + a) mod 2 ^ 64"

lemma unat_u64_le: "unat (w :: u64) \<le> 2 ^ 64 - 1"
  using unat_lt [of w] by simp

lemma counts_in_sat: "sat_plus (fst (counts_in m k)) 0 = fst (counts_in m k) \<and> sat_plus (snd (counts_in m k)) 0 = snd (counts_in m k)"
proof -
  have "sat_plus (unat w) 0 = unat w" for w :: u64 using unat_u64_le [of w] by (simp add: sat_plus_def min_def)
  moreover have "sat_plus 0 0 = 0" by (simp add: sat_plus_def)
  ultimately show ?thesis by (simp add: counts_in_def split: option.split)
qed

lemma counts_in_wrap: "wrap_plus (fst (counts_in m k)) 0 = fst (counts_in m k) \<and> wrap_plus (snd (counts_in m k)) 0 = snd (counts_in m k)"
proof -
  have "unat (w :: u64) mod 2 ^ 64 = unat w" for w using unat_lt [of w] by simp
  then show ?thesis by (simp add: counts_in_def wrap_plus_def split: option.split)
qed

lemma counts_in_update:
  "counts_in (AList.update key v m) k = (if k = key then (unat (tv_packets v), unat (tv_bytes v)) else counts_in m k)"
  by (simp add: counts_in_def)

lemma sat_plus_laws: "sat_plus (sat_plus x a) b = sat_plus x (a + b)"
  by (simp add: sat_plus_def min_def)

lemma wrap_plus_laws: "wrap_plus (wrap_plus x a) b = wrap_plus x (a + b)"
  by (simp add: wrap_plus_def mod_add_left_eq add.assoc)

lemma unat_sat_plus: "unat (sat_add a b) = sat_plus (unat a) (unat b)" for a b :: u64
  by (simp add: unat_sat_add sat_plus_def)

lemma unat_wrap_plus: "unat (a + b) = wrap_plus (unat a) (unat b)" for a b :: u64
  by (simp add: wrap_plus_def unat_word_ariths)

lemma plus_zero [simp]:
  "sat_plus 0 (unat w) = unat w" "sat_plus 0 (Suc 0) = Suc 0" "wrap_plus 0 (unat w) = unat w" for w :: u64
  using unat_u64_le [of w] unat_lt [of w] by (simp_all add: sat_plus_def wrap_plus_def min_def)

text \<open>The two counters of the packet program, when insertions succeed, and the ECM counters.\<close>

interpretation iface_counters: counter_map
  "\<lambda>key n k. bump_iface_counter (e\<lparr>he_iface_insert := True\<rparr>) key n k" "\<lambda>k. counts_in (km_iface_stats k)"
  "\<lambda>n. (1, unat n)" sat_plus for e
proof unfold_locales
  fix key n k k'
  show "counts_in (km_iface_stats (bump_iface_counter (e\<lparr>he_iface_insert := True\<rparr>) key n k)) k' =
     (if k' = key
      then (sat_plus (fst (counts_in (km_iface_stats k) k')) (fst (1, unat n)),
            sat_plus (snd (counts_in (km_iface_stats k) k')) (snd (1, unat n)))
      else counts_in (km_iface_stats k) k')"
    by (auto simp: bump_iface_counter_def counts_in_update bump_value_def unat_sat_plus counts_in_def
        split: option.split)
qed (simp_all add: sat_plus_laws counts_in_sat)

interpretation device_counters: counter_map
  "\<lambda>key n k. bump_device_counter (e\<lparr>he_device_insert := True\<rparr>) key n k" "\<lambda>k. counts_in (km_device_stats k)"
  "\<lambda>n. (1, unat n)" sat_plus for e
proof unfold_locales
  fix key n k k'
  show "counts_in (km_device_stats (bump_device_counter (e\<lparr>he_device_insert := True\<rparr>) key n k)) k' =
     (if k' = key
      then (sat_plus (fst (counts_in (km_device_stats k) k')) (fst (1, unat n)),
            sat_plus (snd (counts_in (km_device_stats k) k')) (snd (1, unat n)))
      else counts_in (km_device_stats k) k')"
    by (auto simp: bump_device_counter_def counts_in_update bump_value_def unat_sat_plus counts_in_def
        split: option.split)
qed (simp_all add: sat_plus_laws counts_in_sat)

interpretation ecm_counters: counter_map
  "\<lambda>key a k. ecm_count True key (fst a) (snd a) k" "\<lambda>k. counts_in (km_ecm_stats k)"
  "\<lambda>a. (unat (fst a), unat (snd a))" wrap_plus
proof unfold_locales
  fix key :: ecm_traffic_key and a :: "u64 \<times> u64" and k k'
  show "counts_in (km_ecm_stats (ecm_count True key (fst a) (snd a) k)) k' =
     (if k' = key
      then (wrap_plus (fst (counts_in (km_ecm_stats k) k')) (fst (unat (fst a), unat (snd a))),
            wrap_plus (snd (counts_in (km_ecm_stats k) k')) (snd (unat (fst a), unat (snd a))))
      else counts_in (km_ecm_stats k) k')"
    by (auto simp: ecm_count_def counts_in_update unat_wrap_plus counts_in_def
        split: option.split)
qed (simp_all add: wrap_plus_laws counts_in_wrap)


section \<open>What the hooks count\<close>

text \<open>The counters a packet is added to.\<close>

definition iface_key_of :: "kernel_maps \<Rightarrow> skb \<Rightarrow> u8 \<Rightarrow> iface_traffic_key option" where
  "iface_key_of k s d =
     map_option (\<lambda>m. \<lparr>ik_ifindex = sk_ifindex s, ik_ip_version = pm_ip_version m, ik_direction = d\<rparr>)
       (resolve_packet_meta k s d)"

definition device_key_of :: "kernel_maps \<Rightarrow> skb \<Rightarrow> u8 \<Rightarrow> device_traffic_key option" where
  "device_key_of k s d =
     (case resolve_packet_meta k s d of
        None \<Rightarrow> None
      | Some m \<Rightarrow>
          if km_track_devices k (sk_ifindex s) = Some 1
          then map_option (\<lambda>a. \<lparr>dk_ifindex = sk_ifindex s, dk_mac = a, dk_ip_version = pm_ip_version m, dk_direction = d\<rparr>)
                 (pm_mac m)
          else None)"

definition skb_len :: "skb \<Rightarrow> u64" where
  "skb_len s = word_of_nat (length (sk_bytes s))"

definition ops_of :: "(skb \<Rightarrow> u8 \<Rightarrow> 'k option) \<Rightarrow> (hook_env \<times> skb \<times> u8) list \<Rightarrow> ('k \<times> u64) list" where
  "ops_of key ps = List.map_filter (\<lambda>(e, s, d). map_option (\<lambda>k. (k, skb_len s)) (key s d)) ps"

definition run_hooks :: "(hook_env \<times> skb \<times> u8) list \<Rightarrow> kernel_maps \<Rightarrow> kernel_maps" where
  "run_hooks ps k = fold (\<lambda>(e, s, d) k. snd (try_bandix_plus e s d k)) ps k"

text \<open>The hooks change no configuration map; the classification does not depend on the counters.\<close>

definition same_config :: "kernel_maps \<Rightarrow> kernel_maps \<Rightarrow> bool" where
  "same_config k k' =
     (km_router_local_ips k = km_router_local_ips k' \<and> km_management_ports k = km_management_ports k'
      \<and> km_track_devices k = km_track_devices k')"

lemma bump_config [simp]:
  "same_config (bump_iface_counter e key n k) k" "same_config (bump_device_counter e dkey n k) k"
  "same_config (capture_dns_packet e s d m k) k"
  by (auto simp: same_config_def bump_iface_counter_def bump_device_counter_def bump_device_insert_failure_count_def
      capture_dns_packet_def Let_def split: option.split)

lemma same_config_trans: "same_config a b \<Longrightarrow> same_config b c \<Longrightarrow> same_config a c"
  by (simp add: same_config_def)

lemma same_config_refl [simp]: "same_config k k"
  by (simp add: same_config_def)

lemma bump_config_iff [simp]:
  "same_config (bump_iface_counter e key n k) k' \<longleftrightarrow> same_config k k'"
  "same_config (bump_device_counter e dkey n k) k' \<longleftrightarrow> same_config k k'"
  "same_config (capture_dns_packet e s d m k) k' \<longleftrightarrow> same_config k k'"
  using bump_config by (simp_all add: same_config_def)

lemma bump_track [simp]:
  "km_track_devices (bump_iface_counter e key n k) = km_track_devices k"
  "km_track_devices (capture_dns_packet e s d m k) = km_track_devices k"
  using bump_config by (simp_all add: same_config_def)

lemma hook_config: "same_config (snd (try_bandix_plus e s d k)) k"
  by (simp add: try_bandix_plus_def Let_def split: option.split)

lemma meta_config: "same_config k k' \<Longrightarrow> resolve_packet_meta k s d = resolve_packet_meta k' s d"
proof -
  assume "same_config k k'"
  then have r: "km_router_local_ips k = km_router_local_ips k'" and m: "km_management_ports k = km_management_ports k'"
    by (simp_all add: same_config_def)
  have pm: "management_port_matches k = management_port_matches k'"
    by (intro ext) (simp add: management_port_matches_def m)
  have m4: "management_ipv4 k = management_ipv4 k'" by (intro ext) (simp only: management_ipv4_def pm r)
  have m6: "management_ipv6 k = management_ipv6 k'" by (intro ext) (simp only: management_ipv6_def pm r)
  have mp: "is_management_packet k = is_management_packet k'"
    by (intro ext) (simp only: is_management_packet_def m4 m6)
  show ?thesis by (simp only: resolve_packet_meta_def meta_from_eth_def meta_from_l3_def mp)
qed

lemma keys_config:
  "same_config k k' \<Longrightarrow> iface_key_of k = iface_key_of k' \<and> device_key_of k = device_key_of k'"
  using meta_config [of k k']
  by (auto simp: iface_key_of_def device_key_of_def same_config_def intro!: ext split: option.split)

lemma capture_counters [simp]:
  "km_iface_stats (capture_dns_packet e s d m k) = km_iface_stats k"
  "km_device_stats (capture_dns_packet e s d m k) = km_device_stats k"
  by (simp_all add: capture_dns_packet_def Let_def split: option.split)

lemma bump_frame [simp]:
  "km_device_stats (bump_iface_counter e key n k) = km_device_stats k"
  "km_iface_stats (bump_device_counter e dkey n k) = km_iface_stats k"
  by (simp_all add: bump_iface_counter_def bump_device_counter_def bump_device_insert_failure_count_def split: option.split)

lemma bump_cong:
  "km_iface_stats k = km_iface_stats k' \<Longrightarrow> he_iface_insert e = he_iface_insert e' \<Longrightarrow>
    km_iface_stats (bump_iface_counter e key n k) = km_iface_stats (bump_iface_counter e' key n k')"
  "km_device_stats k = km_device_stats k' \<Longrightarrow> he_device_insert e \<Longrightarrow> he_device_insert e' \<Longrightarrow>
    km_device_stats (bump_device_counter e dkey n k) = km_device_stats (bump_device_counter e' dkey n k')"
  by (simp_all add: bump_iface_counter_def bump_device_counter_def split: option.split)

definition bump_all_iface :: "(iface_traffic_key \<times> u64) list \<Rightarrow> kernel_maps \<Rightarrow> kernel_maps" where
  "bump_all_iface ops k = fold (\<lambda>x. bump_iface_counter (sample_env\<lparr>he_iface_insert := True\<rparr>) (fst x) (snd x)) ops k"

definition bump_all_device :: "(device_traffic_key \<times> u64) list \<Rightarrow> kernel_maps \<Rightarrow> kernel_maps" where
  "bump_all_device ops k = fold (\<lambda>x. bump_device_counter (sample_env\<lparr>he_device_insert := True\<rparr>) (fst x) (snd x)) ops k"

lemma hook_step:
  assumes "he_iface_insert e" and "he_device_insert e"
  shows "km_iface_stats (snd (try_bandix_plus e s d k)) = km_iface_stats (bump_all_iface (ops_of (iface_key_of k) [(e, s, d)]) k)
       \<and> km_device_stats (snd (try_bandix_plus e s d k)) = km_device_stats (bump_all_device (ops_of (device_key_of k) [(e, s, d)]) k)"
proof (cases "resolve_packet_meta k s d")
  case None
  then show ?thesis
    by (simp add: try_bandix_plus_def ops_of_def iface_key_of_def device_key_of_def bump_all_iface_def bump_all_device_def
        List.map_filter_simps)
next
  case (Some m)
  let ?k1 = "if he_dns_enabled e \<noteq> 0 then capture_dns_packet e s d m k else k"
  let ?ik = "\<lparr>ik_ifindex = sk_ifindex s, ik_ip_version = pm_ip_version m, ik_direction = d\<rparr>"
  let ?k2 = "bump_iface_counter e ?ik (skb_len s) ?k1"
  have i1: "km_iface_stats ?k1 = km_iface_stats k" and d1: "km_device_stats ?k1 = km_device_stats k" by simp_all
  have i: "km_iface_stats ?k2 = km_iface_stats (bump_all_iface [(?ik, skb_len s)] k)"
    using bump_cong(1) [OF i1, of e "sample_env\<lparr>he_iface_insert := True\<rparr>"] assms(1) by (simp add: bump_all_iface_def)
  have dv: "km_device_stats (bump_device_counter e key (skb_len s) ?k2) = km_device_stats (bump_all_device [(key, skb_len s)] k)" for key
    using bump_cong(2) [of ?k2 k e "sample_env\<lparr>he_device_insert := True\<rparr>" key] d1 assms(2) by (simp add: bump_all_device_def)
  have t: "snd (try_bandix_plus e s d k) = (case pm_mac m of None \<Rightarrow> ?k2
      | Some a \<Rightarrow> if km_track_devices k (sk_ifindex s) = Some 1
          then bump_device_counter e \<lparr>dk_ifindex = sk_ifindex s, dk_mac = a, dk_ip_version = pm_ip_version m, dk_direction = d\<rparr>
                 (skb_len s) ?k2 else ?k2)"
    by (cases "pm_mac m"; cases "km_track_devices k (sk_ifindex s)")
      (simp_all add: try_bandix_plus_def Some Let_def skb_len_def)
  have none: "km_device_stats ?k2 = km_device_stats (bump_all_device [] k)" using d1 by (simp add: bump_all_device_def)
  show ?thesis
    unfolding t using i dv none
    by (auto simp: ops_of_def iface_key_of_def device_key_of_def Some List.map_filter_simps split: option.split)
qed

lemma bump_all_iface_cong:
  "km_iface_stats k = km_iface_stats k' \<Longrightarrow> km_iface_stats (bump_all_iface ops k) = km_iface_stats (bump_all_iface ops k')"
  unfolding bump_all_iface_def
proof (induction ops arbitrary: k k')
  case (Cons x ops)
  show ?case unfolding fold.simps o_apply by (rule Cons.IH, rule bump_cong(1), rule Cons.prems, rule refl)
qed simp

lemma bump_all_device_cong:
  "km_device_stats k = km_device_stats k' \<Longrightarrow> km_device_stats (bump_all_device ops k) = km_device_stats (bump_all_device ops k')"
  unfolding bump_all_device_def
proof (induction ops arbitrary: k k')
  case (Cons x ops)
  show ?case unfolding fold.simps o_apply by (rule Cons.IH, rule bump_cong(2), rule Cons.prems) simp_all
qed simp

lemma ops_of_Cons: "ops_of key (p # ps) = ops_of key [p] @ ops_of key ps"
  by (simp add: ops_of_def List.map_filter_simps split: option.split prod.split)

lemma run_hooks_ops:
  "\<forall>(e, s, d) \<in> set ps. he_iface_insert e \<and> he_device_insert e \<Longrightarrow>
    km_iface_stats (run_hooks ps k) = km_iface_stats (bump_all_iface (ops_of (iface_key_of k) ps) k)
    \<and> km_device_stats (run_hooks ps k) = km_device_stats (bump_all_device (ops_of (device_key_of k) ps) k)"
proof (induction ps arbitrary: k)
  case Nil
  then show ?case by (simp add: run_hooks_def ops_of_def bump_all_iface_def bump_all_device_def List.map_filter_simps)
next
  case (Cons p ps)
  obtain e s d where p: "p = (e, s, d)" by (cases p)
  let ?k1 = "snd (try_bandix_plus e s d k)"
  have ins: "he_iface_insert e" "he_device_insert e" using Cons.prems p by auto
  have run: "run_hooks (p # ps) k = run_hooks ps ?k1" by (simp add: run_hooks_def p)
  have IH: "km_iface_stats (run_hooks ps ?k1) = km_iface_stats (bump_all_iface (ops_of (iface_key_of k) ps) ?k1)"
    "km_device_stats (run_hooks ps ?k1) = km_device_stats (bump_all_device (ops_of (device_key_of k) ps) ?k1)"
  proof -
    have ps: "\<forall>(e, s, d) \<in> set ps. he_iface_insert e \<and> he_device_insert e" using Cons.prems by simp
    have keys: "iface_key_of ?k1 = iface_key_of k" "device_key_of ?k1 = device_key_of k"
      using keys_config [OF hook_config [of e s d k]] by blast+
    note ih = Cons.IH [OF ps, of ?k1, unfolded keys]
    show "km_iface_stats (run_hooks ps ?k1) = km_iface_stats (bump_all_iface (ops_of (iface_key_of k) ps) ?k1)"
      by (rule ih [THEN conjunct1])
    show "km_device_stats (run_hooks ps ?k1) = km_device_stats (bump_all_device (ops_of (device_key_of k) ps) ?k1)"
      by (rule ih [THEN conjunct2])
  qed
  have step: "km_iface_stats ?k1 = km_iface_stats (bump_all_iface (ops_of (iface_key_of k) [p]) k)"
    "km_device_stats ?k1 = km_device_stats (bump_all_device (ops_of (device_key_of k) [p]) k)"
    unfolding p by (rule hook_step [OF ins, THEN conjunct1] hook_step [OF ins, THEN conjunct2])+
  have split: "bump_all_iface (ops_of (iface_key_of k) (p # ps)) k
      = bump_all_iface (ops_of (iface_key_of k) ps) (bump_all_iface (ops_of (iface_key_of k) [p]) k)"
    "bump_all_device (ops_of (device_key_of k) (p # ps)) k
      = bump_all_device (ops_of (device_key_of k) ps) (bump_all_device (ops_of (device_key_of k) [p]) k)"
    unfolding ops_of_Cons [of _ p ps] bump_all_iface_def bump_all_device_def by (simp_all only: fold_append o_apply)
  show ?case
    unfolding run split IH bump_all_iface_cong [OF step(1)] bump_all_device_cong [OF step(2)] by simp
qed

lemma hook_counts:
  assumes "\<forall>(e, s, d) \<in> set ps. he_iface_insert e \<and> he_device_insert e"
  shows "counts_in (km_iface_stats (run_hooks ps k)) ikey =
        (let ns = map snd (filter (\<lambda>x. fst x = ikey) (ops_of (iface_key_of k) ps)); old = counts_in (km_iface_stats k) ikey
         in (min (fst old + length ns) (2 ^ 64 - 1), min (snd old + sum_list (map unat ns)) (2 ^ 64 - 1)))"
    and "counts_in (km_device_stats (run_hooks ps k)) dkey =
        (let ns = map snd (filter (\<lambda>x. fst x = dkey) (ops_of (device_key_of k) ps)); old = counts_in (km_device_stats k) dkey
         in (min (fst old + length ns) (2 ^ 64 - 1), min (snd old + sum_list (map unat ns)) (2 ^ 64 - 1)))"
proof -
  have ones: "sum_list (map (\<lambda>x. Suc 0) xs) = length xs" for xs :: "'z list" by (induction xs) simp_all
  note r = run_hooks_ops [OF assms, of k]
  show "counts_in (km_iface_stats (run_hooks ps k)) ikey =
        (let ns = map snd (filter (\<lambda>x. fst x = ikey) (ops_of (iface_key_of k) ps)); old = counts_in (km_iface_stats k) ikey
         in (min (fst old + length ns) (2 ^ 64 - 1), min (snd old + sum_list (map unat ns)) (2 ^ 64 - 1)))"
    using iface_counters.counts_bumps [of sample_env "ops_of (iface_key_of k) ps" k ikey]
    unfolding r [THEN conjunct1] bump_all_iface_def iface_counters.total_of_def
    by (simp add: Let_def sat_plus_def comp_def ones)
  show "counts_in (km_device_stats (run_hooks ps k)) dkey =
        (let ns = map snd (filter (\<lambda>x. fst x = dkey) (ops_of (device_key_of k) ps)); old = counts_in (km_device_stats k) dkey
         in (min (fst old + length ns) (2 ^ 64 - 1), min (snd old + sum_list (map unat ns)) (2 ^ 64 - 1)))"
    using device_counters.counts_bumps [of sample_env "ops_of (device_key_of k) ps" k dkey]
    unfolding r [THEN conjunct2] bump_all_device_def device_counters.total_of_def
    by (simp add: Let_def sat_plus_def comp_def ones)
qed

text \<open>C10: the hooks let every packet pass on, and while map insertions succeed the counters are exact:
  after any sequence of packets the counters of an interface key have grown by the number and the
  total length of the packets classified to it, the counters of a device key by those of the
  tracked interface and MAC address, up to the largest 64 bit number; nothing else is counted.\<close>

theorem hooks_count_exactly:
  assumes "\<forall>(e, s, d) \<in> set ps. he_iface_insert e \<and> he_device_insert e"
  shows "fst (bandix_plus_ingress e s k) = tc_act_unspec \<and> fst (bandix_plus_egress e s k) = tc_act_unspec
     \<and> counts_in (km_iface_stats (run_hooks ps k)) ikey =
        (let ns = map snd (filter (\<lambda>x. fst x = ikey) (ops_of (iface_key_of k) ps)); old = counts_in (km_iface_stats k) ikey
         in (min (fst old + length ns) (2 ^ 64 - 1), min (snd old + sum_list (map unat ns)) (2 ^ 64 - 1)))
     \<and> counts_in (km_device_stats (run_hooks ps k)) dkey =
        (let ns = map snd (filter (\<lambda>x. fst x = dkey) (ops_of (device_key_of k) ps)); old = counts_in (km_device_stats k) dkey
         in (min (fst old + length ns) (2 ^ 64 - 1), min (snd old + sum_list (map unat ns)) (2 ^ 64 - 1)))"
proof -
  have ret: "fst (try_bandix_plus e s d k) = Inr tc_act_unspec" for d
    by (simp add: try_bandix_plus_def Let_def split: option.split)
  show ?thesis
    unfolding hook_counts [OF assms] by (simp add: ret bandix_plus_ingress_def bandix_plus_egress_def hook_result_def)
qed

theorem hooks_count_exactly_witness:
  "counts_in (km_iface_stats (run_hooks [(sample_env, skb_of 3 sample_frame, dir_ingress)] empty_maps))
     \<lparr>ik_ifindex = 3, ik_ip_version = 4, ik_direction = dir_ingress\<rparr> = (1, 59)"
proof -
  let ?p = "(sample_env, skb_of 3 sample_frame, dir_ingress)"
  let ?k = "\<lparr>ik_ifindex = 3, ik_ip_version = 4, ik_direction = dir_ingress\<rparr>"
  have ins: "\<forall>(e, s, d) \<in> set [?p]. he_iface_insert e \<and> he_device_insert e" by (simp add: sample_env_def)
  have "ops_of (iface_key_of empty_maps) [?p] = [(?k, 59)]"
    by (simp add: ops_of_def iface_key_of_def sample_meta List.map_filter_simps skb_len_def)
       (simp add: skb_of_def sample_frame_def)
  with hooks_count_exactly [OF ins, of sample_env "skb_of 3 []" empty_maps ?k] show ?thesis
    by (simp add: Let_def) (simp add: empty_maps_def counts_in_def)
qed


section \<open>Frames without an Ethernet header\<close>

text \<open>On an interface without a link layer header (tun, WireGuard, PPP) the packet starts with its IP
  header, but the Ethernet reading is tried first: bytes 12 and 13 are then the first half of the IPv4
  source address.  A packet from 8.0.7.9 is classified as IPv4 in Ethernet, with the first six
  bytes of its IP header (version, length, identification) as a MAC address and an IP header at
  offset 14.  A packet from 9.0.7.9 is classified as it should be.\<close>

definition l3_packet :: "u8 \<Rightarrow> bytes" where
  "l3_packet a = [69, 0, 0, 40, 18, 52, 64, 0, 64, 6, 0, 0, a, 0, 7, 9, 10, 0, 0, 1] @ replicate 20 0"

lemma l3_packet_misread_as_ethernet:
  "resolve_packet_meta empty_maps (skb_of 3 (l3_packet 8)) dir_egress
     = Some \<lparr>pm_ip_version = 4, pm_mac = Some [69, 0, 0, 40, 18, 52], pm_ip_offset = 14\<rparr>"
  "resolve_packet_meta empty_maps (skb_of 3 (l3_packet 9)) dir_egress
     = Some \<lparr>pm_ip_version = 4, pm_mac = None, pm_ip_offset = 0\<rparr>"
  by code_simp+

text \<open>And an Ethernet frame that carries neither IPv4 nor IPv6 falls through to the reading without a header,
  where the first half byte of its destination MAC address is taken for the IP version: an ARP reply
  to 48:00:00:00:00:01 is counted as an IPv4 packet of the interface.\<close>

definition arp_frame :: "u8 \<Rightarrow> bytes" where
  "arp_frame a = [a, 0, 0, 0, 0, 1, 2, 0, 0, 0, 0, 2, 8, 6] @ replicate 28 0"

lemma arp_counted_as_ipv4:
  "resolve_packet_meta empty_maps (skb_of 3 (arp_frame 72)) dir_egress
     = Some \<lparr>pm_ip_version = 4, pm_mac = None, pm_ip_offset = 0\<rparr>"
  "resolve_packet_meta empty_maps (skb_of 3 (arp_frame 2)) dir_egress = None"
  by code_simp+

end
