(* ===== verification/End_To_End.thy ===== *)
theory End_To_End
  imports Totals Ebpf
begin

text \<open>
  The packet program and the collector together: packets pass the hooks, which count them in the
  kernel's maps; ticks of the collector read the interface map and book what the counters grew by. What
  the service shows as the total of an interface is then the bytes of the packets that passed it.
\<close>

section \<open>Keys of the interface map\<close>

lemma distinct_bump: "distinct (map fst (km_iface_stats k)) \<Longrightarrow> distinct (map fst (km_iface_stats (bump_iface_counter e key n k)))"
  by (auto simp: bump_iface_counter_def distinct_update split: option.split)

lemma distinct_bump_all: "distinct (map fst (km_iface_stats k)) \<Longrightarrow> distinct (map fst (km_iface_stats (bump_all_iface ops k)))"
  unfolding bump_all_iface_def by (induction ops arbitrary: k) (simp_all add: distinct_bump)

lemma distinct_hooks:
  assumes "\<forall>(e, s, d) \<in> set ps. he_iface_insert e \<and> he_device_insert e" and "distinct (map fst (km_iface_stats k))"
  shows "distinct (map fst (km_iface_stats (run_hooks ps k)))"
  unfolding run_hooks_ops [OF assms(1), THEN conjunct1] by (rule distinct_bump_all [OF assms(2)])

section \<open>Packets and ticks\<close>

text \<open>A round: the configuration maps may change, packets pass, then the collector ticks. The tick reads
  every entry of the interface map, or cannot open it.\<close>

type_synonym service_round = "(kernel_maps \<Rightarrow> kernel_maps) \<times> (hook_env \<times> skb \<times> u8) list \<times> snap_input"

definition listed_maps :: "kernel_maps \<Rightarrow> snap_input \<Rightarrow> snap_input" where
  "listed_maps k inp = inp\<lparr>si_iface_map := map_option (\<lambda>_. map Some (km_iface_stats k)) (si_iface_map inp)\<rparr>"

definition round_outcome :: "snap_options \<Rightarrow> topology \<Rightarrow> service_round \<Rightarrow> kernel_maps \<times> monitor_runtime \<Rightarrow> snap_outcome" where
  "round_outcome opts t r s =
     (let (cfg, ps, inp) = r; (k, rt) = s in collect_snapshot (listed_maps (run_hooks ps (cfg k)) inp) opts t rt)"

definition service_step :: "snap_options \<Rightarrow> topology \<Rightarrow> service_round \<Rightarrow> kernel_maps \<times> monitor_runtime \<Rightarrow> kernel_maps \<times> monitor_runtime" where
  "service_step opts t r s =
     (let (cfg, ps, inp) = r; (k, rt) = s in (run_hooks ps (cfg k), after_tick rt (round_outcome opts t r s)))"

text \<open>The bytes of the packets classified to a key, under the configuration of their round.\<close>

fun classified_bytes :: "snap_options \<Rightarrow> topology \<Rightarrow> iface_traffic_key \<Rightarrow> service_round list \<Rightarrow> kernel_maps \<times> monitor_runtime \<Rightarrow> nat" where
  "classified_bytes opts t key [] s = 0"
| "classified_bytes opts t key ((cfg, ps, inp) # rs) s =
     sum_list (map (unat \<circ> snd) (filter (\<lambda>x. fst x = key) (ops_of (iface_key_of (cfg (fst s))) ps)))
     + classified_bytes opts t key rs (service_step opts t (cfg, ps, inp) s)"

text \<open>A configuration change leaves the interface counters alone, and the kernel has room for them.\<close>

definition plain_round :: "service_round \<Rightarrow> bool" where
  "plain_round r =
     (case r of (cfg, ps, inp) \<Rightarrow>
        (\<forall>k. km_iface_stats (cfg k) = km_iface_stats k) \<and> (\<forall>(e, s, d) \<in> set ps. he_iface_insert e \<and> he_device_insert e))"

definition counter :: "kernel_maps \<Rightarrow> iface_traffic_key \<Rightarrow> nat" where
  "counter k key = snd (counts_in (km_iface_stats k) key)"

definition booked :: "monitor_runtime \<Rightarrow> iface_traffic_key \<Rightarrow> nat" where
  "booked rt key = unat (baseline (rt_prev_iface_bytes rt) key)"

lemma read_listed:
  assumes "distinct (map fst (km_iface_stats k))"
  shows "read_iface_stats (si_iface_map (listed_maps k inp)) = map_option (\<lambda>_. km_iface_stats k) (si_iface_map inp)"
proof (cases "si_iface_map inp")
  case None
  then show ?thesis by (simp add: listed_maps_def read_iface_stats_def)
qed (use read_complete(1) [OF assms] in \<open>simp add: listed_maps_def\<close>)

lemma tick_reads_counters:
  fixes inp :: snap_input
  assumes "topology_ok t" and "\<not> so_enable_ecm opts" and "monitored_index t (so_monitor_ifaces opts) i"
    and d: "distinct (map fst (km_iface_stats k))" and le: "booked rt (counter_key t i f) \<le> counter k (counter_key t i f)"
  defines "out \<equiv> collect_snapshot (listed_maps k inp) opts t rt"
  shows "booked rt (counter_key t i f) \<le> booked (after_tick rt out) (counter_key t i f)
    \<and> booked (after_tick rt out) (counter_key t i f) \<le> counter k (counter_key t i f)
    \<and> ((\<exists>d e rt'. out = SnapOk d e rt') \<longrightarrow> booked (after_tick rt out) (counter_key t i f) = counter k (counter_key t i f))
    \<and> unat (q_bytes f (quad_at (rt_cumulative_iface (after_tick rt out)) i))
      = min (unat (q_bytes f (quad_at (rt_cumulative_iface rt) i))
          + (booked (after_tick rt out) (counter_key t i f) - booked rt (counter_key t i f))) (2 ^ 64 - 1)"
proof -
  let ?key = "counter_key t i f"
  have ik: "ik_ifindex ?key = i" by (simp add: counter_key_def)
  have fwd: "forward_run opts t ?key [listed_maps k inp] rt"
    using le by (auto simp: read_listed [OF d] booked_def counter_def counts_in_def word_le_nat_alt split: option.splits)
  note moved = tick_moves_total [OF assms(1-3) fwd]
  have "booked (after_tick rt out) ?key \<le> counter k ?key
      \<and> ((\<exists>d e rt'. out = SnapOk d e rt') \<longrightarrow> booked (after_tick rt out) ?key = counter k ?key)"
  proof -
    consider (same) "iface_part (after_tick rt out) = iface_part rt" "\<forall>d e rt'. out \<noteq> SnapOk d e rt'"
      | (grows) "total_grows t (monitored_index t (so_monitor_ifaces opts)) (km_iface_stats k) rt (after_tick rt out)"
      using tick_totals [OF assms(1,2) refl, of rt "listed_maps k inp"] unfolding out_def by (auto simp: read_listed [OF d])
    then show ?thesis
    proof cases
      case same
      then show ?thesis using le by (simp add: booked_def iface_part_def)
    next
      case grows
      then have "rt_prev_iface_bytes (after_tick rt out) ?key
          = (case map_of (km_iface_stats k) ?key of None \<Rightarrow> rt_prev_iface_bytes rt ?key | Some v \<Rightarrow> Some (tv_bytes v))"
        using assms(3) ik by (simp add: total_grows_def new_baselines_def)
      then show ?thesis using le by (auto simp: booked_def counter_def counts_in_def baseline_def split: option.split)
    qed
  qed
  with moved show ?thesis unfolding out_def booked_def by simp
qed

section \<open>Rounds\<close>

definition shown_bytes :: "monitor_runtime \<Rightarrow> u32 \<Rightarrow> family \<Rightarrow> nat" where
  "shown_bytes rt i f = unat (q_bytes f (quad_at (rt_cumulative_iface rt) i))"

text \<open>What holds between the rounds: the baseline is behind the counter, and both the counter and the
  total have grown by what passed and what was booked.\<close>

definition in_step :: "iface_traffic_key \<Rightarrow> u32 \<Rightarrow> family \<Rightarrow> nat \<Rightarrow> kernel_maps \<times> monitor_runtime \<Rightarrow> kernel_maps \<times> monitor_runtime \<Rightarrow> bool" where
  "in_step key i f n s s' =
     (booked (snd s) key \<le> booked (snd s') key \<and> booked (snd s') key \<le> counter (fst s') key
      \<and> distinct (map fst (km_iface_stats (fst s')))
      \<and> counter (fst s') key = min (counter (fst s) key + n) (2 ^ 64 - 1)
      \<and> shown_bytes (snd s') i f = min (shown_bytes (snd s) i f + (booked (snd s') key - booked (snd s) key)) (2 ^ 64 - 1))"

lemma in_stepD:
  assumes "in_step key i f n s s'"
  shows "booked (snd s) key \<le> booked (snd s') key" and "booked (snd s') key \<le> counter (fst s') key"
    and "distinct (map fst (km_iface_stats (fst s')))" and "counter (fst s') key = min (counter (fst s) key + n) (2 ^ 64 - 1)"
    and "shown_bytes (snd s') i f = min (shown_bytes (snd s) i f + (booked (snd s') key - booked (snd s) key)) (2 ^ 64 - 1)"
  using assms unfolding in_step_def by blast+

lemma counter_le: "counter k key \<le> 2 ^ 64 - 1"
proof -
  have "unat w \<le> 2 ^ 64 - 1" for w :: u64 using unat_lt [of w] by simp
  then show ?thesis by (auto simp: counter_def counts_in_def split: option.split)
qed

lemma in_step_refl:
  "booked (snd s) key \<le> counter (fst s) key \<Longrightarrow> distinct (map fst (km_iface_stats (fst s))) \<Longrightarrow> in_step key i f 0 s s"
  using counter_le [of "fst s" key] unat_lt [of "q_bytes f (quad_at (rt_cumulative_iface (snd s)) i)"]
  by (simp add: in_step_def shown_bytes_def)

lemma in_step_trans:
  assumes "in_step key i f a s0 s1" and "in_step key i f b s1 s2"
  shows "in_step key i f (a + b) s0 s2"
proof -
  note 1 = in_stepD [OF assms(2)]
  have 2: "counter (fst s2) key = min (counter (fst s0) key + (a + b)) (2 ^ 64 - 1)"
    unfolding 1(4) in_stepD(4) [OF assms(1)] by (simp add: min_def)
  have 3: "shown_bytes (snd s2) i f = min (shown_bytes (snd s0) i f + (booked (snd s2) key - booked (snd s0) key)) (2 ^ 64 - 1)
      \<and> booked (snd s0) key \<le> booked (snd s2) key"
    by (rule min_steps [where ?b1.0 = "booked (snd s1) key" and ?t1.0 = "shown_bytes (snd s1) i f"])
      (use assms in \<open>simp_all only: in_step_def simp_thms\<close>)
  show ?thesis unfolding in_step_def using 1(2,3) 2 3 by blast
qed

lemma round_in_step:
  assumes "topology_ok t" and "\<not> so_enable_ecm opts" and "monitored_index t (so_monitor_ifaces opts) i" and "plain_round r"
    and d: "distinct (map fst (km_iface_stats (fst s)))" and le: "booked (snd s) (counter_key t i f) \<le> counter (fst s) (counter_key t i f)"
  shows "in_step (counter_key t i f) i f (classified_bytes opts t (counter_key t i f) [r] s) s (service_step opts t r s)
    \<and> ((\<exists>d e rt'. round_outcome opts t r s = SnapOk d e rt') \<longrightarrow>
        booked (snd (service_step opts t r s)) (counter_key t i f) = counter (fst (service_step opts t r s)) (counter_key t i f))"
proof -
  obtain cfg ps inp where r: "r = (cfg, ps, inp)" by (cases r)
  obtain k rt where s: "s = (k, rt)" by (cases s)
  let ?key = "counter_key t i f" and ?k = "run_hooks ps (cfg k)"
  have ins: "\<forall>(e, s, d) \<in> set ps. he_iface_insert e \<and> he_device_insert e" and cfg: "km_iface_stats (cfg k) = km_iface_stats k"
    using assms(4) by (simp_all add: plain_round_def r)
  have dk: "distinct (map fst (km_iface_stats ?k))" by (rule distinct_hooks [OF ins]) (use d in \<open>simp add: cfg s\<close>)
  have c: "counter ?k ?key = min (counter k ?key + classified_bytes opts t ?key [r] s) (2 ^ 64 - 1)"
    using hook_counts(1) [OF ins, of "cfg k" ?key] by (simp add: counter_def Let_def r s cfg counts_in_def comp_def)
  have "booked rt ?key \<le> counter k ?key" using le by (simp add: s)
  then have le': "booked rt ?key \<le> counter ?k ?key" unfolding c using counter_le [of k ?key] by simp
  have out: "round_outcome opts t r s = collect_snapshot (listed_maps ?k inp) opts t rt" by (simp add: round_outcome_def r s)
  have step: "service_step opts t r s = (?k, after_tick rt (collect_snapshot (listed_maps ?k inp) opts t rt))"
    by (simp add: service_step_def out [symmetric]) (simp add: r s)
  from tick_reads_counters [OF assms(1-3) dk le', of inp] show ?thesis
    unfolding step out in_step_def shown_bytes_def fst_conv snd_conv using c dk by (simp add: s)
qed

lemma rounds_in_step:
  assumes "topology_ok t" and "\<not> so_enable_ecm opts" and "monitored_index t (so_monitor_ifaces opts) i" and "\<forall>r \<in> set rs. plain_round r"
    and "distinct (map fst (km_iface_stats (fst s)))" and "booked (snd s) (counter_key t i f) \<le> counter (fst s) (counter_key t i f)"
  shows "in_step (counter_key t i f) i f (classified_bytes opts t (counter_key t i f) rs s) s (fold (service_step opts t) rs s)"
  using assms(4-6)
proof (induction rs arbitrary: s)
  case Nil
  then show ?case by (simp add: in_step_refl)
next
  case (Cons r rs)
  let ?s1 = "service_step opts t r s" and ?key = "counter_key t i f"
  have one: "in_step ?key i f (classified_bytes opts t ?key [r] s) s ?s1"
    using round_in_step [OF assms(1-3) _ Cons.prems(2,3)] Cons.prems(1) by simp
  from in_stepD(2,3) [OF one] have "in_step ?key i f (classified_bytes opts t ?key rs ?s1) ?s1 (fold (service_step opts t) rs ?s1)"
    using Cons.IH [of ?s1] Cons.prems(1) by simp
  from in_step_trans [OF one this]
  show ?case by (cases r) (simp add: ac_simps)
qed



end
