(* ===== verification/Netlink.thy ===== *)
theory Netlink
  imports Ip_Text
begin

text \<open>
  The two buffer iterators of \<open>conntrack.rs\<close>: \<open>NetlinkMessages\<close> and \<open>NetlinkAttributes\<close>. A call of
  \<open>next\<close> returns the item (\<open>None\<close> at the end, \<open>Fail\<close> for an \<open>Err\<close> item, \<open>Panic\<close> when an index
  is out of range) and the new offset. Native byte order is little endian.

  The locales state what the parsers rely on: an iterator makes progress, never panics, and
  hands out disjoint parts of its buffer.
\<close>

section \<open>The interface of an iterator over a buffer\<close>

text \<open>A \<open>for\<close> loop's items, with at most \<open>n\<close> calls of \<open>next\<close>.\<close>

fun collect :: "(bytes \<Rightarrow> nat \<Rightarrow> 'a res option \<times> nat) \<Rightarrow> nat \<Rightarrow> bytes \<Rightarrow> nat \<Rightarrow> 'a res list" where
  "collect nx 0 buf off = []"
| "collect nx (Suc n) buf off =
     (case nx buf off of (None, _) \<Rightarrow> [] | (Some r, off') \<Rightarrow> r # collect nx n buf off')"

definition ok_items :: "'a res list \<Rightarrow> 'a list" where
  "ok_items rs = List.map_filter to_opt rs"

lemma ok_items_simps [simp]:
  "ok_items [] = []" "ok_items (Ok x # rs) = x # ok_items rs"
  "ok_items (Fail # rs) = ok_items rs" "ok_items (Panic # rs) = ok_items rs"
  by (simp_all add: ok_items_def List.map_filter_simps to_opt_def)

lemma ok_items_map_Ok [simp]: "ok_items (map Ok xs) = xs"
  by (induction xs) simp_all

locale byte_iterator =
  fixes nx :: "bytes \<Rightarrow> nat \<Rightarrow> 'a res option \<times> nat"
    and rank :: "bytes \<Rightarrow> nat \<Rightarrow> nat"
  assumes progress: "nx buf off = (Some r, off') \<Longrightarrow> rank buf off' < rank buf off"
    and no_panic: "nx buf off = (Some r, off') \<Longrightarrow> r \<noteq> Panic"
begin

lemma collect_step:
  assumes "rank buf off < n" and "nx buf off = (Some r, off')"
  shows "\<exists>m. n = Suc m \<and> rank buf off' < m \<and> collect nx n buf off = r # collect nx m buf off'"
  using assms progress [OF assms(2)] by (cases n) auto

lemma collect_enough:
  "rank buf off < n \<Longrightarrow> rank buf off < m \<Longrightarrow> collect nx n buf off = collect nx m buf off"
proof (induction n arbitrary: m off)
  case 0
  then show ?case by simp
next
  case (Suc n)
  from Suc.prems obtain m' where m: "m = Suc m'" by (cases m) auto
  show ?case
  proof (cases "nx buf off")
    case (Pair r off')
    then show ?thesis
      using Suc.IH [of off' m'] Suc.prems m progress [of buf off _ off']
      by (cases r) fastforce+
  qed
qed

lemma collect_not_Panic: "Panic \<notin> set (collect nx n buf off)"
  by (induction n arbitrary: off) (auto split: prod.split option.split dest: no_panic [OF sym])

lemma length_collect: "length (collect nx n buf off) \<le> rank buf off"
proof (induction n arbitrary: off)
  case 0
  then show ?case by simp
next
  case (Suc n)
  show ?case
  proof (cases "nx buf off")
    case (Pair r off')
    show ?thesis
    proof (cases r)
      case None
      with Pair show ?thesis by simp
    next
      case (Some x)
      with Pair have "rank buf off' < rank buf off" by (simp add: progress)
      with Suc.IH [of off'] Pair Some show ?thesis by simp
    qed
  qed
qed

end

text \<open>An iterator whose items are a header of a fixed size and a payload lying in the buffer.\<close>

locale framed_iterator = byte_iterator nx rank
  for nx :: "bytes \<Rightarrow> nat \<Rightarrow> 'a res option \<times> nat" and rank :: "bytes \<Rightarrow> nat \<Rightarrow> nat" +
  fixes payload :: "'a \<Rightarrow> bytes" and hdr :: nat
  assumes framed: "nx buf off = (Some (Ok x), off') \<Longrightarrow>
      off + hdr + length (payload x) \<le> length buf \<and> off + hdr + length (payload x) \<le> off'
      \<and> payload x = slice (off + hdr) (length (payload x)) buf"
    and consumes: "nx buf off = (Some r, off') \<Longrightarrow> length buf - off' \<le> length buf - off"
begin

lemma collect_fits:
  "sum_list (map (\<lambda>x. hdr + length (payload x)) (ok_items (collect nx n buf off))) \<le> length buf - off"
proof (induction n arbitrary: off)
  case 0
  then show ?case by simp
next
  case (Suc n)
  obtain r off' where e: "nx buf off = (r, off')" by (cases "nx buf off")
  show ?case
  proof (cases r)
    case None
    with e show ?thesis by simp
  next
    case (Some y)
    note IH = Suc.IH [of off'] and le = consumes [OF e [unfolded Some]]
    show ?thesis
    proof (cases y)
      case (Ok x)
      with e Some framed [of buf off x off'] have
        "off + hdr + length (payload x) \<le> length buf" "off + hdr + length (payload x) \<le> off'" by simp_all
      with e Some Ok IH show ?thesis by simp
    qed (use e Some IH le in simp_all)
  qed
qed

end

section \<open>Messages\<close>

text \<open>\<open>&buf[a..b]\<close>.\<close>

definition range_of :: "nat \<Rightarrow> nat \<Rightarrow> 'a list \<Rightarrow> 'a list res" where
  "range_of a b xs = (if a \<le> b \<and> b \<le> length xs then Ok (slice a (b - a) xs) else Panic)"

lemma range_of_Ok [simp, res_simps]: "a \<le> b \<Longrightarrow> b \<le> length xs \<Longrightarrow> range_of a b xs = Ok (slice a (b - a) xs)"
  by (simp add: range_of_def)

definition align :: "nat \<Rightarrow> nat \<Rightarrow> nat" where
  "align v alignment = nat ((int v + int alignment - 1) AND NOT (int alignment - 1))"

lemma align_4: "align v 4 = (v + 3) div 4 * 4"
proof -
  have m: "(3 :: int) = mask 2" by (simp add: mask_eq_exp_minus_1)
  have split: "a AND NOT (mask 2) = a - a mod 4" for a :: int
  proof -
    have "NOT a AND (a AND mask 2) = 0" by (simp add: and.assoc [symmetric] and.commute [of "NOT a"])
    then have "a - (a AND mask 2) = a AND NOT (a AND mask 2)" by (rule disjunctive_diff_eq_and_not)
    also have "\<dots> = a AND NOT (mask 2)" by (simp add: bit.conj_disj_distrib)
    finally show ?thesis by (simp add: take_bit_eq_mask [symmetric] take_bit_eq_mod)
  qed
  have "align v 4 = nat (int (v + 3) - int (v + 3) mod 4)"
    using split [of "int (v + 3)"] by (simp add: align_def m [symmetric] algebra_simps)
  also have "int (v + 3) - int (v + 3) mod 4 = int ((v + 3) div 4 * 4)"
    by (simp add: minus_mod_eq_div_mult zdiv_int)
  finally show ?thesis by simp
qed

lemma align_ge: "v \<le> align v 4" and align_lt: "align v 4 < v + 4" and align_dvd: "4 dvd align v 4"
  unfolding align_4 by (linarith, linarith, simp)

abbreviation nlmsg_hdr_len :: nat where "nlmsg_hdr_len \<equiv> 16"

definition next_message :: "bytes \<Rightarrow> nat \<Rightarrow> (u16 \<times> bytes) res option \<times> nat" where
  "next_message buf base =
     (if base = length buf then (None, base)
      else if length buf - base < nlmsg_hdr_len then (Some Fail, length buf)
      else (case range_of base (base + 4) buf of
              Ok lb \<Rightarrow>
                let len = unat (of_le32 lb) in
                if len < nlmsg_hdr_len \<or> len > length buf - base then (Some Fail, length buf)
                else (case (range_of (base + 4) (base + 6) buf, range_of (base + nlmsg_hdr_len) (base + len) buf) of
                        (Ok kb, Ok payload) \<Rightarrow> (Some (Ok (of_le16 kb, payload)), base + align len 4)
                      | _ \<Rightarrow> (Some Panic, base))
            | _ \<Rightarrow> (Some Panic, base)))"

definition netlink_messages :: "bytes \<Rightarrow> (u16 \<times> bytes) res list" where
  "netlink_messages buf = collect next_message (length buf + 2) buf 0"

definition message_rank :: "bytes \<Rightarrow> nat \<Rightarrow> nat" where
  "message_rank buf off = (if off = length buf then 0 else Suc (length buf - off))"

lemma next_message_cases:
  "next_message buf base =
     (if base = length buf then (None, base)
      else let len = unat (of_le32 (slice base 4 buf)) in
        if length buf - base < 16 \<or> len < 16 \<or> len > length buf - base then (Some Fail, length buf)
        else (Some (Ok (of_le16 (slice (base + 4) 2 buf), slice (base + 16) (len - 16) buf)), base + align len 4))"
  by (auto simp: next_message_def Let_def)

lemma message_length_pos: "16 \<le> (l :: nat) \<Longrightarrow> base + 16 \<le> base + align l 4"
  using align_ge [of l] by simp

interpretation messages: framed_iterator next_message message_rank snd 16
proof unfold_locales
  fix buf :: bytes and off r off'
  assume n: "next_message buf off = (Some r, off')"
  then show "r \<noteq> Panic" by (auto simp: next_message_cases Let_def split: if_splits)
  show "message_rank buf off' < message_rank buf off"
    using n message_length_pos [of "unat (of_le32 (slice off 4 buf))" off]
    by (auto simp: next_message_cases message_rank_def Let_def split: if_splits)
  show "length buf - off' \<le> length buf - off"
    using n by (auto simp: next_message_cases Let_def split: if_splits)
next
  fix buf :: bytes and off x off'
  assume n: "next_message buf off = (Some (Ok x), off')"
  then show "off + 16 + length (snd x) \<le> length buf \<and> off + 16 + length (snd x) \<le> off'
      \<and> snd x = slice (off + 16) (length (snd x)) buf"
    using align_ge [of "unat (of_le32 (slice off 4 buf))"]
    by (auto simp: next_message_cases Let_def split: if_splits)
qed

section \<open>Attributes\<close>

definition next_attribute :: "bytes \<Rightarrow> nat \<Rightarrow> (u16 \<times> bytes) res option \<times> nat" where
  "next_attribute buf base =
     (if base \<ge> length buf then (None, length buf)
      else if list_all (\<lambda>b. b = 0) (drop base buf) then (None, length buf)
      else if length buf - base < 4 then (Some Fail, length buf)
      else (case (range_of base (base + 2) buf, range_of (base + 2) (base + 4) buf) of
              (Ok lb, Ok kb) \<Rightarrow>
                let len = unat (of_le16 lb); kind = of_le16 kb AND 0x3fff in
                if len = 0 then (None, length buf)
                else if len < 4 \<or> len > length buf - base then (Some Fail, length buf)
                else (case range_of (base + 4) (base + len) buf of
                        Ok v \<Rightarrow> (Some (Ok (kind, v)), base + align len 4)
                      | _ \<Rightarrow> (Some Panic, base + align len 4))
            | _ \<Rightarrow> (Some Panic, base)))"

definition netlink_attributes :: "bytes \<Rightarrow> (u16 \<times> bytes) res list" where
  "netlink_attributes buf = collect next_attribute (length buf + 1) buf 0"

definition attribute_rank :: "bytes \<Rightarrow> nat \<Rightarrow> nat" where
  "attribute_rank buf off = length buf - off"

lemma next_attribute_cases:
  "next_attribute buf base =
     (if base \<ge> length buf \<or> list_all (\<lambda>b. b = 0) (drop base buf) then (None, length buf)
      else let len = unat (of_le16 (slice base 2 buf)) in
        if length buf - base < 4 then (Some Fail, length buf)
        else if len = 0 then (None, length buf)
        else if len < 4 \<or> len > length buf - base then (Some Fail, length buf)
        else (Some (Ok (of_le16 (slice (base + 2) 2 buf) AND 0x3fff, slice (base + 4) (len - 4) buf)), base + align len 4))"
  by (auto simp: next_attribute_def Let_def)

interpretation attributes: framed_iterator next_attribute attribute_rank snd 4
proof unfold_locales
  fix buf :: bytes and off r off'
  assume n: "next_attribute buf off = (Some r, off')"
  have al: "4 \<le> l \<Longrightarrow> 4 \<le> align l 4" for l using align_ge [of l] by simp
  from n show "r \<noteq> Panic" by (auto simp: next_attribute_cases Let_def split: if_splits)
  show "attribute_rank buf off' < attribute_rank buf off"
    using n al [of "unat (of_le16 (slice off 2 buf))"]
    by (auto simp: next_attribute_cases attribute_rank_def Let_def split: if_splits)
  show "length buf - off' \<le> length buf - off"
    using n by (auto simp: next_attribute_cases Let_def split: if_splits)
next
  fix buf :: bytes and off x off'
  assume n: "next_attribute buf off = (Some (Ok x), off')"
  then show "off + 4 + length (snd x) \<le> length buf \<and> off + 4 + length (snd x) \<le> off'
      \<and> snd x = slice (off + 4) (length (snd x)) buf"
    using align_ge [of "unat (of_le16 (slice off 2 buf))"]
    by (auto simp: next_attribute_cases Let_def split: if_splits)
qed


section \<open>Encoded buffers are read back\<close>

definition padding :: "nat \<Rightarrow> bytes" where
  "padding n = replicate (align n 4 - n) 0"

definition encode_attr :: "u16 \<times> bytes \<Rightarrow> bytes" where
  "encode_attr a = le16 (word_of_nat (length (snd a) + 4)) @ le16 (fst a) @ snd a @ padding (length (snd a) + 4)"

definition encode_attrs :: "(u16 \<times> bytes) list \<Rightarrow> bytes" where
  "encode_attrs as = concat (map encode_attr as)"

text \<open>A kind without flag bits, and a length that fits its field.\<close>

definition attr_ok :: "u16 \<times> bytes \<Rightarrow> bool" where
  "attr_ok a = (fst a AND 0x3fff = fst a \<and> length (snd a) + 4 < 2 ^ 16)"

definition encode_message :: "u16 \<times> bytes \<Rightarrow> bytes" where
  "encode_message m = le32 (word_of_nat (length (snd m) + 16)) @ le16 (fst m) @ replicate 10 0 @ snd m"

definition message_ok :: "u16 \<times> bytes \<Rightarrow> bool" where
  "message_ok m = (length (snd m) + 16 < 2 ^ 32)"

lemma encode_attrs_simps [simp]: "encode_attrs [] = []" "encode_attrs (a # as) = encode_attr a @ encode_attrs as"
  by (simp_all add: encode_attrs_def)

lemma length_padding: "length (padding n) = align n 4 - n"
  by (simp add: padding_def)

lemma length_encode_attr: "length (encode_attr a) = align (length (snd a) + 4) 4"
  using align_ge [of "length (snd a) + 4"] by (simp add: encode_attr_def length_padding)

lemma unat_of_nat_small: "n < 2 ^ LENGTH('a) \<Longrightarrow> unat (word_of_nat n :: 'a::len word) = n"
  by (simp add: unat_of_nat)

lemma le16_zero: "le16 w = [0, 0] \<Longrightarrow> w = 0"
proof -
  assume "le16 w = [0, 0]"
  then have "of_le16 (le16 w) = 0" by (simp add: of_le16_def)
  then show "w = 0" by simp
qed

lemma slice_at: "slice (length pre) n (pre @ xs) = take n xs"
  by (simp add: slice_def)

lemma slice_after: "length pre \<le> a \<Longrightarrow> slice a n (pre @ xs) = slice (a - length pre) n xs"
  by (simp add: slice_def)

lemma next_attribute_encoded:
  assumes "attr_ok a"
  shows "next_attribute (pre @ encode_attr a @ rest) (length pre) = (Some (Ok a), length pre + length (encode_attr a))"
proof -
  let ?buf = "pre @ encode_attr a @ rest"
  let ?l = "length (snd a) + 4"
  have len: "unat (word_of_nat ?l :: u16) = ?l" using assms by (intro unat_of_nat_small) (simp add: attr_ok_def)
  have l2: "take 2 (encode_attr a @ rest) = le16 (word_of_nat ?l)" by (simp add: encode_attr_def)
  have "le16 (word_of_nat ?l :: u16) \<noteq> [0, 0]"
  proof
    assume "le16 (word_of_nat ?l :: u16) = [0, 0]"
    then have "(word_of_nat ?l :: u16) = 0" by (rule le16_zero)
    then have "unat (word_of_nat ?l :: u16) = 0" by (simp only: unsigned_0)
    then show False unfolding len by simp
  qed
  then have "take 2 (encode_attr a @ rest) \<noteq> replicate 2 0" unfolding l2 by (simp add: numeral_2_eq_2)
  have nz: "\<not> list_all (\<lambda>b. b = 0) (encode_attr a @ rest)"
  proof
    assume "list_all (\<lambda>b. b = 0) (encode_attr a @ rest)"
    then have "\<forall>b \<in> set (take 2 (encode_attr a @ rest)). b = 0"
      by (meson in_set_takeD list_all_iff)
    moreover have "length (take 2 (encode_attr a @ rest)) = 2" unfolding l2 by simp
    ultimately have "take 2 (encode_attr a @ rest) = replicate 2 0" by (metis replicate_eqI)
    with \<open>take 2 (encode_attr a @ rest) \<noteq> replicate 2 0\<close> show False by blast
  qed
  have s1: "slice (length pre) 2 ?buf = le16 (word_of_nat ?l)" unfolding slice_at by (rule l2)
  have s2: "slice (length pre + 2) 2 ?buf = le16 (fst a)"
    by (simp add: slice_after encode_attr_def) (simp add: slice_def)
  have s3: "slice (length pre + 4) (length (snd a)) ?buf = snd a"
    by (simp add: slice_after encode_attr_def) (simp add: slice_def)
  have big: "?l \<le> length (encode_attr a)" using align_ge [of ?l] by (simp add: length_encode_attr)
  have "\<not> length pre \<ge> length ?buf" using big by (cases "encode_attr a") simp_all
  moreover have "\<not> length ?buf - length pre < 4" and "\<not> ?l > length ?buf - length pre" using big by simp_all
  moreover note nz assms
  ultimately show ?thesis
    unfolding next_attribute_cases s1 s2 of_le_le len
    by (simp add: Let_def s3 length_encode_attr attr_ok_def prod_eq_iff)
qed

lemma next_attribute_zeros: "next_attribute (pre @ replicate z 0) (length pre) = (None, length pre + z)"
  by (simp add: next_attribute_cases list_all_iff)

lemma collect_attributes_encoded:
  "list_all attr_ok as \<Longrightarrow> length (encode_attrs as) + z < n \<Longrightarrow>
    collect next_attribute n (pre @ encode_attrs as @ replicate z 0) (length pre) = map Ok as"
proof (induction as arbitrary: pre n)
  case Nil
  then show ?case using next_attribute_zeros [of pre z] by (cases n) simp_all
next
  case (Cons a as)
  obtain m where n: "n = Suc m" using Cons.prems by (cases n) auto
  have pos: "4 \<le> length (encode_attr a)" using align_ge [of "length (snd a) + 4"] by (simp add: length_encode_attr)
  have "collect next_attribute m ((pre @ encode_attr a) @ encode_attrs as @ replicate z 0) (length (pre @ encode_attr a)) = map Ok as"
    using Cons.prems n pos by (intro Cons.IH) simp_all
  then show ?case
    using next_attribute_encoded [of a pre "encode_attrs as @ replicate z 0"] Cons.prems n by simp
qed

lemma attributes_encoded: "list_all attr_ok as \<Longrightarrow> netlink_attributes (encode_attrs as @ replicate z 0) = map Ok as"
  using collect_attributes_encoded [of as z "length (encode_attrs as @ replicate z 0) + 1" "[]"]
  by (simp add: netlink_attributes_def)

lemma attributes_encoded_plain: "list_all attr_ok as \<Longrightarrow> netlink_attributes (encode_attrs as) = map Ok as"
  using attributes_encoded [of as 0] by simp

lemma next_message_encoded:
  assumes "message_ok m"
  shows "next_message (pre @ encode_message m @ rest) (length pre)
    = (Some (Ok m), length pre + align (length (snd m) + 16) 4)"
proof -
  let ?buf = "pre @ encode_message m @ rest"
  let ?l = "length (snd m) + 16"
  have len: "unat (word_of_nat ?l :: u32) = ?l" using assms by (intro unat_of_nat_small) (simp add: message_ok_def)
  have s1: "slice (length pre) 4 ?buf = le32 (word_of_nat ?l)" unfolding slice_at by (simp add: encode_message_def)
  have s2: "slice (length pre + 4) 2 ?buf = le16 (fst m)"
    by (simp add: slice_after encode_message_def) (simp add: slice_def)
  have s3: "slice (length pre + 16) (length (snd m)) ?buf = snd m"
    by (simp add: slice_after encode_message_def) (simp add: slice_def)
  have "length (encode_message m) = ?l" by (simp add: encode_message_def)
  then show ?thesis unfolding next_message_cases s1 s2 of_le_le len by (simp add: Let_def s3 prod_eq_iff)
qed

definition encode_messages :: "(u16 \<times> bytes) list \<Rightarrow> bytes" where
  "encode_messages ms = concat (map (\<lambda>m. encode_message m @ padding (length (snd m) + 16)) ms)"

lemma collect_messages_encoded:
  "list_all message_ok ms \<Longrightarrow> length (encode_messages ms) < n \<Longrightarrow>
    collect next_message n (pre @ encode_messages ms) (length pre) = map Ok ms"
proof (induction ms arbitrary: pre n)
  case Nil
  then show ?case by (cases n) (simp_all add: next_message_def encode_messages_def)
next
  case (Cons m ms)
  let ?e = "encode_message m @ padding (length (snd m) + 16)"
  obtain n' where n: "n = Suc n'" using Cons.prems by (cases n) auto
  have es: "encode_messages (m # ms) = ?e @ encode_messages ms" by (simp add: encode_messages_def)
  have len: "length ?e = align (length (snd m) + 16) 4"
    using align_ge [of "length (snd m) + 16"] by (simp add: encode_message_def length_padding)
  then have pos: "0 < length ?e" using align_ge [of "length (snd m) + 16"] by simp
  have "length (encode_messages (m # ms)) = length ?e + length (encode_messages ms)" by (simp add: es)
  then have short: "length (encode_messages ms) < n'" using Cons.prems(2) n pos by linarith
  then have "collect next_message n' ((pre @ ?e) @ encode_messages ms) (length (pre @ ?e)) = map Ok ms"
    using Cons.prems(1) short by (intro Cons.IH) simp_all
  moreover have "next_message (pre @ ?e @ encode_messages ms) (length pre) = (Some (Ok m), length (pre @ ?e))"
    using next_message_encoded [of m pre "padding (length (snd m) + 16) @ encode_messages ms"] Cons.prems len by simp
  ultimately show ?case using n es by simp
qed

text \<open>C36: netlink framing round trip: the attributes and the messages encoded into a buffer, each
  padded to four bytes, come out of the iterators unchanged and in order; zero bytes after the
  last attribute are ignored.\<close>

theorem netlink_framing_roundtrip:
  assumes "list_all attr_ok as" and "list_all message_ok ms"
  shows "netlink_attributes (encode_attrs as @ replicate z 0) = map Ok as
       \<and> netlink_messages (encode_messages ms) = map Ok ms"
  using attributes_encoded [OF assms(1)] collect_messages_encoded [OF assms(2), of "length (encode_messages ms) + 2" "[]"]
  by (simp add: netlink_messages_def)

theorem netlink_framing_roundtrip_witness:
  "netlink_attributes (encode_attrs [(1, [5, 6, 7]), (2, [])] @ [0, 0]) = [Ok (1, [5, 6, 7]), Ok (2, [])]
   \<and> netlink_messages (encode_messages [(256, [1])]) = [Ok (256, [1])]"
proof -
  have "list_all attr_ok [(1, [5, 6, 7]), (2, [])]" and "list_all message_ok [(256, [1])]"
    by (simp_all add: attr_ok_def message_ok_def)
  from netlink_framing_roundtrip [OF this, of 2] show ?thesis by (simp add: numeral_2_eq_2)
qed

text \<open>The iterators hand out disjoint parts of the buffer: for any bytes, no item is a panic, and
  the headers and payloads of the items together are no longer than the buffer.\<close>

theorem netlink_items_fit:
  "Panic \<notin> set (netlink_messages buf) \<and> Panic \<notin> set (netlink_attributes buf)
   \<and> sum_list (map (\<lambda>m. 16 + length (snd m)) (ok_items (netlink_messages buf))) \<le> length buf
   \<and> sum_list (map (\<lambda>a. 4 + length (snd a)) (ok_items (netlink_attributes buf))) \<le> length buf"
  using messages.collect_fits [of "length buf + 2" buf 0] attributes.collect_fits [of "length buf + 1" buf 0]
    messages.collect_not_Panic [of "length buf + 2" buf 0] attributes.collect_not_Panic [of "length buf + 1" buf 0]
  unfolding netlink_messages_def netlink_attributes_def by simp

text \<open>
  A last message whose length is not a multiple of four and that is not padded is read, and then
  reported as a truncated one: the offset passes the end of the buffer, which \<open>next\<close> compares
  for equality only.
\<close>

lemma unpadded_last_message_rejected:
  "netlink_messages (encode_message (256, [1])) = [Ok (256, [1]), Fail]"
proof -
  let ?b = "encode_message (256, [1])"
  have len: "length ?b = 17" by (simp add: encode_message_def)
  have m: "message_ok (256, [1])" by (simp add: message_ok_def)
  have "netlink_messages ?b = collect next_message (Suc (Suc (Suc 16))) ?b 0"
    by (simp add: netlink_messages_def len)
  moreover have "next_message ?b 0 = (Some (Ok (256, [1])), 20)"
    using next_message_encoded [OF m, of "[]" "[]"] by (simp add: align_4)
  moreover have "next_message ?b 20 = (Some Fail, 17)" by (simp add: next_message_def len)
  moreover have "next_message ?b 17 = (None, 17)" by (simp add: next_message_def len)
  ultimately show ?thesis by (simp only: collect.simps prod.case option.case)
qed

end
