(* ===== verification/Flow_Parser.thy ===== *)
theory Flow_Parser
  imports Netlink
begin

text \<open>
  The ctnetlink message parser of \<open>conntrack.rs\<close>: \<open>parse_flow_message\<close>, the tuple, the counters, the
  TCP state and the status flags. An \<open>Err\<close> is \<open>Fail\<close>; its text is not modelled. A \<open>for\<close> loop
  with \<open>?\<close> on its items is \<open>each\<close>.
\<close>

section \<open>Data\<close>

record endpoint_key =
  ep_src :: ip_addr
  ep_dst :: ip_addr
  ep_sport :: u16
  ep_dport :: u16

record flow_key =
  fk_protocol :: u8
  fk_orig :: endpoint_key
  fk_reply :: endpoint_key

record connection_endpoint =
  ce_src :: string
  ce_dst :: string
  ce_sport :: u16
  ce_dport :: u16

record connection_flow =
  cf_id :: "u32 option"
  cf_protocol :: string
  cf_state :: "string option"
  cf_orig :: connection_endpoint
  cf_reply :: connection_endpoint
  cf_orig_packets :: u64
  cf_orig_bytes :: u64
  cf_reply_packets :: u64
  cf_reply_bytes :: u64
  cf_flags :: "string list"

record parsed_flow =
  pf_key :: flow_key
  pf_flow :: connection_flow

section \<open>Loops over fallible items\<close>

fun each :: "('a \<Rightarrow> 's \<Rightarrow> 's res) \<Rightarrow> 'a res list \<Rightarrow> 's \<Rightarrow> 's res" where
  "each f [] s = Ok s"
| "each f (r # rs) s = bindr r (\<lambda>x. bindr (f x s) (each f rs))"

lemma each_not_Panic:
  "Panic \<notin> set rs \<Longrightarrow> (\<And>x s. f x s \<noteq> Panic) \<Longrightarrow> each f rs s \<noteq> Panic"
proof (induction rs arbitrary: s)
  case (Cons r rs)
  then show ?case by (cases r) (auto simp: bindr_Panic_iff)
qed simp

lemma each_Ok_Ok [simp]: "each (\<lambda>x s. Ok (g x s)) (map Ok xs) s = Ok (fold g xs s)"
  by (induction xs arbitrary: s) simp_all

section \<open>Fields\<close>

definition read_u32_be :: "bytes \<Rightarrow> u32 option" where
  "read_u32_be value = (if length value \<ge> 4 then Some (of_be32 (take 4 value)) else None)"

definition tcp_state_name :: "u8 \<Rightarrow> string" where
  "tcp_state_name s =
     (if s = 1 then ''SYN_SENT'' else if s = 2 then ''SYN_RECV'' else if s = 3 then ''ESTABLISHED''
      else if s = 4 then ''FIN_WAIT'' else if s = 5 then ''CLOSE_WAIT'' else if s = 6 then ''LAST_ACK''
      else if s = 7 then ''CLOSING'' else if s = 8 then ''TIME_WAIT'' else if s = 9 then ''CLOSE''
      else if s = 10 then ''LISTEN'' else if s = 11 then ''SYN_SENT2'' else ''NONE'')"

definition status_masks :: "(u32 \<times> string) list" where
  "status_masks =
     [(2, ''SEEN_REPLY''), (4, ''ASSURED''), (8, ''CONFIRMED''), (16, ''SRC_NAT''), (32, ''DST_NAT''),
      (512, ''DYING''), (16384, ''OFFLOAD''), (32768, ''HW_OFFLOAD'')]"

definition status_flags :: "u32 \<Rightarrow> string list" where
  "status_flags status = map snd (filter (\<lambda>(mask, _). status AND mask \<noteq> 0) status_masks)"

definition endpoint_from_key :: "endpoint_key \<Rightarrow> connection_endpoint" where
  "endpoint_from_key k =
     \<lparr>ce_src = ip_to_string (ep_src k), ce_dst = ip_to_string (ep_dst k),
      ce_sport = ep_sport k, ce_dport = ep_dport k\<rparr>"

section \<open>Tuples\<close>

record tuple_acc =
  ta_src :: "ip_addr option"
  ta_dst :: "ip_addr option"
  ta_protocol :: "u8 option"
  ta_sport :: "u16 option"
  ta_dport :: "u16 option"

definition tuple_none :: tuple_acc where
  "tuple_none = \<lparr>ta_src = None, ta_dst = None, ta_protocol = None, ta_sport = None, ta_dport = None\<rparr>"

definition ip_attr :: "u16 \<times> bytes \<Rightarrow> tuple_acc \<Rightarrow> tuple_acc" where
  "ip_attr x a =
     (let k = fst x; bs = snd x in
      if k = 1 \<and> length bs \<ge> 4 then a\<lparr>ta_src := Some (V4 (ipv4_of_octets (take 4 bs)))\<rparr>
      else if k = 2 \<and> length bs \<ge> 4 then a\<lparr>ta_dst := Some (V4 (ipv4_of_octets (take 4 bs)))\<rparr>
      else if k = 3 \<and> length bs \<ge> 16 then a\<lparr>ta_src := Some (V6 (ipv6_of_octets (take 16 bs)))\<rparr>
      else if k = 4 \<and> length bs \<ge> 16 then a\<lparr>ta_dst := Some (V6 (ipv6_of_octets (take 16 bs)))\<rparr>
      else a)"

definition proto_attr :: "u16 \<times> bytes \<Rightarrow> tuple_acc \<Rightarrow> tuple_acc" where
  "proto_attr x a =
     (let k = fst x; bs = snd x in
      if k = 1 then a\<lparr>ta_protocol := (case bs of [] \<Rightarrow> None | b # _ \<Rightarrow> Some b)\<rparr>
      else if k = 2 \<and> length bs \<ge> 2 then a\<lparr>ta_sport := Some (of_be16 (take 2 bs))\<rparr>
      else if k = 3 \<and> length bs \<ge> 2 then a\<lparr>ta_dport := Some (of_be16 (take 2 bs))\<rparr>
      else a)"

definition tuple_attr :: "u16 \<times> bytes \<Rightarrow> tuple_acc \<Rightarrow> tuple_acc res" where
  "tuple_attr x a =
     (if fst x = 1 then each (\<lambda>y b. Ok (ip_attr y b)) (netlink_attributes (snd x)) a
      else if fst x = 2 then each (\<lambda>y b. Ok (proto_attr y b)) (netlink_attributes (snd x)) a
      else Ok a)"

definition finish_tuple :: "tuple_acc \<Rightarrow> (u8 \<times> endpoint_key) option" where
  "finish_tuple a =
     (case (ta_src a, ta_dst a, ta_protocol a, ta_sport a, ta_dport a) of
        (Some src, Some dst, Some protocol, Some sport, Some dport) \<Rightarrow>
          Some (protocol, \<lparr>ep_src = src, ep_dst = dst, ep_sport = sport, ep_dport = dport\<rparr>)
      | _ \<Rightarrow> None)"

definition parse_tuple :: "bytes \<Rightarrow> (u8 \<times> endpoint_key) option res" where
  "parse_tuple value = bindr (each tuple_attr (netlink_attributes value) tuple_none) (\<lambda>a. Ok (finish_tuple a))"

section \<open>Protocol state and counters\<close>

text \<open>\<open>None\<close>: no state attribute here, go on; \<open>Some r\<close>: return \<open>r\<close>.\<close>

fun tcp_state_inner :: "(u16 \<times> bytes) list \<Rightarrow> string option option" where
  "tcp_state_inner [] = None"
| "tcp_state_inner ((k, bs) # rest) =
     (if k = 1 then Some (case bs of [] \<Rightarrow> None | s # _ \<Rightarrow> Some (tcp_state_name s)) else tcp_state_inner rest)"

fun tcp_state_outer :: "(u16 \<times> bytes) list \<Rightarrow> string option" where
  "tcp_state_outer [] = None"
| "tcp_state_outer ((k, v) # rest) =
     (if k \<noteq> 1 then tcp_state_outer rest
      else (case tcp_state_inner (ok_items (netlink_attributes v)) of
              Some r \<Rightarrow> r | None \<Rightarrow> tcp_state_outer rest))"

definition parse_tcp_state :: "bytes \<Rightarrow> string option" where
  "parse_tcp_state value = tcp_state_outer (ok_items (netlink_attributes value))"

definition counter_attr :: "u16 \<times> bytes \<Rightarrow> u64 \<times> u64 \<Rightarrow> u64 \<times> u64" where
  "counter_attr x c =
     (if fst x = 1 \<and> length (snd x) \<ge> 8 then (of_be64 (take 8 (snd x)), snd c)
      else if fst x = 2 \<and> length (snd x) \<ge> 8 then (fst c, of_be64 (take 8 (snd x)))
      else c)"

definition parse_counters :: "bytes \<Rightarrow> (u64 \<times> u64) res" where
  "parse_counters value = each (\<lambda>x c. Ok (counter_attr x c)) (netlink_attributes value) (0, 0)"

section \<open>Flow messages\<close>

record flow_acc =
  fa_orig :: "(u8 \<times> endpoint_key) option"
  fa_reply :: "(u8 \<times> endpoint_key) option"
  fa_status :: "u32 option"
  fa_protoinfo :: "string option"
  fa_orig_counters :: "u64 \<times> u64"
  fa_reply_counters :: "u64 \<times> u64"
  fa_id :: "u32 option"

definition flow_none :: flow_acc where
  "flow_none = \<lparr>fa_orig = None, fa_reply = None, fa_status = None, fa_protoinfo = None,
     fa_orig_counters = (0, 0), fa_reply_counters = (0, 0), fa_id = None\<rparr>"

definition flow_attr :: "u16 \<times> bytes \<Rightarrow> flow_acc \<Rightarrow> flow_acc res" where
  "flow_attr x a =
     (let k = fst x; value = snd x in
      if k = 1 then bindr (parse_tuple value) (\<lambda>t. Ok (a\<lparr>fa_orig := t\<rparr>))
      else if k = 2 then bindr (parse_tuple value) (\<lambda>t. Ok (a\<lparr>fa_reply := t\<rparr>))
      else if k = 3 then Ok (a\<lparr>fa_status := read_u32_be value\<rparr>)
      else if k = 4 then Ok (a\<lparr>fa_protoinfo := parse_tcp_state value\<rparr>)
      else if k = 10 then bindr (parse_counters value) (\<lambda>c. Ok (a\<lparr>fa_orig_counters := c\<rparr>))
      else if k = 11 then bindr (parse_counters value) (\<lambda>c. Ok (a\<lparr>fa_reply_counters := c\<rparr>))
      else if k = 13 then Ok (a\<lparr>fa_id := read_u32_be value\<rparr>)
      else Ok a)"

definition finish_flow :: "flow_acc \<Rightarrow> parsed_flow option" where
  "finish_flow a =
     (case fa_orig a of
        None \<Rightarrow> None
      | Some (protocol_number, orig_key) \<Rightarrow>
          (case fa_reply a of
             None \<Rightarrow> None
           | Some (reply_protocol, reply_key) \<Rightarrow>
               if protocol_number \<noteq> reply_protocol \<or> protocol_number \<noteq> 6 \<and> protocol_number \<noteq> 17 then None
               else Some
                 \<lparr>pf_key = \<lparr>fk_protocol = protocol_number, fk_orig = orig_key, fk_reply = reply_key\<rparr>,
                  pf_flow =
                    \<lparr>cf_id = fa_id a, cf_protocol = (if protocol_number = 6 then ''tcp'' else ''udp''),
                     cf_state = (if protocol_number = 6 then fa_protoinfo a else None),
                     cf_orig = endpoint_from_key orig_key, cf_reply = endpoint_from_key reply_key,
                     cf_orig_packets = fst (fa_orig_counters a), cf_orig_bytes = snd (fa_orig_counters a),
                     cf_reply_packets = fst (fa_reply_counters a), cf_reply_bytes = snd (fa_reply_counters a),
                     cf_flags = (case fa_status a of None \<Rightarrow> [] | Some s \<Rightarrow> status_flags s)\<rparr>\<rparr>))"

abbreviation nfgenmsg_len :: nat where "nfgenmsg_len \<equiv> 4"

definition parse_flow_message :: "bytes \<Rightarrow> parsed_flow option res" where
  "parse_flow_message payload =
     (if length payload < nfgenmsg_len then Fail
      else bindr (each flow_attr (netlink_attributes (drop nfgenmsg_len payload)) flow_none)
             (\<lambda>a. Ok (finish_flow a)))"

section \<open>No message makes the parser panic\<close>

lemma attributes_not_Panic: "Panic \<notin> set (netlink_attributes buf)"
  by (simp only: netlink_attributes_def attributes.collect_not_Panic not_False_eq_True)

lemma each_attribute_not_Panic:
  "(\<And>x s. f x s \<noteq> Panic) \<Longrightarrow> each f (netlink_attributes buf) s \<noteq> Panic"
  by (rule each_not_Panic [OF attributes_not_Panic])

lemma parse_tuple_not_Panic [simp, res_simps]: "parse_tuple v \<noteq> Panic"
proof -
  have "tuple_attr x a \<noteq> Panic" for x a
    by (simp add: tuple_attr_def each_attribute_not_Panic)
  then show ?thesis by (simp add: parse_tuple_def bindr_Panic_iff each_attribute_not_Panic)
qed

lemma parse_counters_not_Panic [simp, res_simps]: "parse_counters v \<noteq> Panic"
  by (simp add: parse_counters_def each_attribute_not_Panic)

lemma parse_flow_message_not_Panic [simp, res_simps]: "parse_flow_message payload \<noteq> Panic"
proof -
  have "flow_attr x a \<noteq> Panic" for x a
    by (simp add: flow_attr_def Let_def bindr_Panic_iff)
  then show ?thesis by (simp add: parse_flow_message_def bindr_Panic_iff each_attribute_not_Panic)
qed

definition flow_shape :: "flow_key \<Rightarrow> connection_flow \<Rightarrow> bool" where
  "flow_shape k f =
     ((fk_protocol k, cf_protocol f) \<in> {(6, ''tcp''), (17, ''udp'')}
      \<and> cf_orig f = endpoint_from_key (fk_orig k) \<and> cf_reply f = endpoint_from_key (fk_reply k)
      \<and> (cf_state f = None \<or> cf_protocol f = ''tcp'')
      \<and> set (cf_flags f) \<subseteq> set (map snd status_masks))"

lemma parsed_flow_shape: "parse_flow_message payload = Ok (Some p) \<Longrightarrow> flow_shape (pf_key p) (pf_flow p)"
proof -
  have flags: "set (case st of None \<Rightarrow> [] | Some s \<Rightarrow> status_flags s) \<subseteq> set (map snd status_masks)" for st
    unfolding status_flags_def by (cases st) auto
  have "finish_flow a = Some p \<Longrightarrow>
          (fk_protocol (pf_key p), cf_protocol (pf_flow p)) \<in> {(6, ''tcp''), (17, ''udp'')}
          \<and> cf_orig (pf_flow p) = endpoint_from_key (fk_orig (pf_key p))
          \<and> cf_reply (pf_flow p) = endpoint_from_key (fk_reply (pf_key p))
          \<and> (cf_state (pf_flow p) = None \<or> cf_protocol (pf_flow p) = ''tcp'')
          \<and> cf_flags (pf_flow p) = (case fa_status a of None \<Rightarrow> [] | Some s \<Rightarrow> status_flags s)" for a
    by (auto simp: finish_flow_def split: option.splits if_splits)
  with flags show "parse_flow_message payload = Ok (Some p) \<Longrightarrow> ?thesis"
    by (fastforce simp: parse_flow_message_def bindr_Ok_iff flow_shape_def split: if_splits)
qed

text \<open>What an accepted flow message is, for any bytes: the parser never panics, and a flow it
  returns is TCP or UDP with the protocol of its key, has the text of its key's endpoints, a TCP
  state only when it is TCP, and only flag names of the table.\<close>

theorem accepted_flow_shape:
  "parse_flow_message payload \<noteq> Panic
   \<and> (case parse_flow_message payload of
        Ok (Some p) \<Rightarrow>
          (fk_protocol (pf_key p), cf_protocol (pf_flow p)) \<in> {(6, ''tcp''), (17, ''udp'')}
          \<and> cf_orig (pf_flow p) = endpoint_from_key (fk_orig (pf_key p))
          \<and> cf_reply (pf_flow p) = endpoint_from_key (fk_reply (pf_key p))
          \<and> (cf_state (pf_flow p) = None \<or> cf_protocol (pf_flow p) = ''tcp'')
          \<and> set (cf_flags (pf_flow p)) \<subseteq> set (map snd status_masks)
      | _ \<Rightarrow> True)"
  by (auto split: res.split option.split dest!: parsed_flow_shape simp: flow_shape_def)

section \<open>An encoded flow is read back\<close>

text \<open>The messages the kernel sends, from the octets of the addresses; V4 addresses have four, V6 sixteen.\<close>

record raw_endpoint =
  re_src :: bytes
  re_dst :: bytes
  re_sport :: u16
  re_dport :: u16

definition endpoint_ok :: "raw_endpoint \<Rightarrow> bool" where
  "endpoint_ok e = ((length (re_src e) = 4 \<or> length (re_src e) = 16) \<and> length (re_dst e) = length (re_src e))"

definition addr_of_octets :: "bytes \<Rightarrow> ip_addr" where
  "addr_of_octets os = (if length os = 4 then V4 (ipv4_of_octets os) else V6 (ipv6_of_octets os))"

definition key_of_raw :: "raw_endpoint \<Rightarrow> endpoint_key" where
  "key_of_raw e = \<lparr>ep_src = addr_of_octets (re_src e), ep_dst = addr_of_octets (re_dst e),
     ep_sport = re_sport e, ep_dport = re_dport e\<rparr>"

definition be16 :: "u16 \<Rightarrow> bytes" where "be16 w = rev (le16 w)"
definition be32 :: "u32 \<Rightarrow> bytes" where "be32 w = rev (le32 w)"
definition be64 :: "u64 \<Rightarrow> bytes" where "be64 w = rev (le64 w)"

lemma be_lengths [simp]: "length (be16 a) = 2" "length (be32 b) = 4" "length (be64 c) = 8"
  by (simp_all add: be16_def be32_def be64_def)

lemma of_be_be [simp]: "of_be16 (be16 a) = a" "of_be32 (be32 b) = b" "of_be64 (be64 c) = c"
  using of_le_le(1) [of a] of_le_le(2) [of b] of_le_le(3) [of c]
  by (simp_all add: be16_def be32_def be64_def of_be16_def of_be32_def of_be64_def
      of_le16_def of_le32_def of_le64_def)

definition ip_attrs :: "raw_endpoint \<Rightarrow> (u16 \<times> bytes) list" where
  "ip_attrs e = (if length (re_src e) = 4 then [(1, re_src e), (2, re_dst e)] else [(3, re_src e), (4, re_dst e)])"

definition tuple_attrs :: "u8 \<Rightarrow> raw_endpoint \<Rightarrow> (u16 \<times> bytes) list" where
  "tuple_attrs p e =
     [(1, encode_attrs (ip_attrs e)), (2, encode_attrs [(1, [p]), (2, be16 (re_sport e)), (3, be16 (re_dport e))])]"

definition counter_attrs :: "u64 \<Rightarrow> u64 \<Rightarrow> (u16 \<times> bytes) list" where
  "counter_attrs packets bytes = [(1, be64 packets), (2, be64 bytes)]"

definition flow_attrs ::
  "u8 \<Rightarrow> raw_endpoint \<Rightarrow> raw_endpoint \<Rightarrow> u32 \<Rightarrow> u8 \<Rightarrow> u64 \<times> u64 \<Rightarrow> u64 \<times> u64 \<Rightarrow> u32 \<Rightarrow> (u16 \<times> bytes) list" where
  "flow_attrs p o' r status st oc rc i =
     [(1, encode_attrs (tuple_attrs p o')), (2, encode_attrs (tuple_attrs p r)), (3, be32 status),
      (4, encode_attrs [(1, encode_attrs [(1, [st])])]), (10, encode_attrs (counter_attrs (fst oc) (snd oc))),
      (11, encode_attrs (counter_attrs (fst rc) (snd rc))), (13, be32 i)]"

lemma attr_ok_simps [simp]: "attr_ok (k, v) = (k AND 0x3fff = k \<and> length v + 4 < 2 ^ 16)"
  by (simp add: attr_ok_def)

lemma length_encode_attrs_simps [simp]:
  "length (encode_attr (k, v)) = align (length v + 4) 4"
  by (simp add: length_encode_attr)

lemma ip_attrs_ok: "endpoint_ok e \<Longrightarrow> list_all attr_ok (ip_attrs e)"
  by (auto simp: endpoint_ok_def ip_attrs_def)

lemma tuple_attrs_ok: "endpoint_ok e \<Longrightarrow> list_all attr_ok (tuple_attrs p e)"
  by (auto simp: endpoint_ok_def tuple_attrs_def ip_attrs_def align_4)

lemma length_tuple: "endpoint_ok e \<Longrightarrow> length (encode_attrs (tuple_attrs p e)) \<le> 80"
  by (auto simp: endpoint_ok_def tuple_attrs_def ip_attrs_def align_4)

lemma parse_tuple_encoded:
  assumes "endpoint_ok e"
  shows "parse_tuple (encode_attrs (tuple_attrs p e)) = Ok (Some (p, key_of_raw e))"
proof -
  have pa: "list_all attr_ok [(1, [p]), (2, be16 (re_sport e)), (3, be16 (re_dport e))]" by simp
  have ip: "tuple_attr (1, encode_attrs (ip_attrs e)) a
      = Ok (a\<lparr>ta_src := Some (addr_of_octets (re_src e)), ta_dst := Some (addr_of_octets (re_dst e))\<rparr>)" for a
    using assms attributes_encoded_plain [OF ip_attrs_ok [OF assms]]
    by (auto simp: tuple_attr_def ip_attrs_def ip_attr_def addr_of_octets_def endpoint_ok_def)
  have pr: "tuple_attr (2, encode_attrs [(1, [p]), (2, be16 (re_sport e)), (3, be16 (re_dport e))]) a
      = Ok (a\<lparr>ta_protocol := Some p, ta_sport := Some (re_sport e), ta_dport := Some (re_dport e)\<rparr>)" for a
    using attributes_encoded_plain [OF pa] by (simp add: tuple_attr_def proto_attr_def del: encode_attrs_simps)
  show ?thesis
    using attributes_encoded_plain [OF tuple_attrs_ok [OF assms, of p]]
    by (simp add: parse_tuple_def tuple_attrs_def ip pr tuple_none_def finish_tuple_def key_of_raw_def
        del: encode_attrs_simps)
qed

lemma parse_counters_encoded: "parse_counters (encode_attrs (counter_attrs a b)) = Ok (a, b)"
proof -
  have "list_all attr_ok (counter_attrs a b)" by (simp add: counter_attrs_def)
  from attributes_encoded_plain [OF this] show ?thesis
    by (simp add: parse_counters_def counter_attrs_def counter_attr_def del: encode_attrs_simps)
qed

lemma parse_tcp_state_encoded: "parse_tcp_state (encode_attrs [(1, encode_attrs [(1, [st])])]) = Some (tcp_state_name st)"
proof -
  have "list_all attr_ok [(1, [st])]" by simp
  note inner = attributes_encoded_plain [OF this]
  have "list_all attr_ok [(1, encode_attrs [(1, [st])])]" by (simp add: align_4)
  from attributes_encoded_plain [OF this] inner show ?thesis
    by (simp add: parse_tcp_state_def del: encode_attrs_simps)
qed

text \<open>C35: a conntrack message round trip: a TCP or UDP flow encoded with all its attributes, with
  IPv4 or IPv6 addresses and any bytes as the family header, is parsed back to that key, those
  counters, id and flags, and to the named TCP state when it is TCP.\<close>

theorem flow_message_roundtrip:
  assumes "endpoint_ok o'" and "endpoint_ok r" and "p = 6 \<or> p = 17" and "length family = 4"
  shows "parse_flow_message (family @ encode_attrs (flow_attrs p o' r status st oc rc i)) =
    Ok (Some \<lparr>pf_key = \<lparr>fk_protocol = p, fk_orig = key_of_raw o', fk_reply = key_of_raw r\<rparr>,
      pf_flow = \<lparr>cf_id = Some i, cf_protocol = (if p = 6 then ''tcp'' else ''udp''),
        cf_state = (if p = 6 then Some (tcp_state_name st) else None),
        cf_orig = endpoint_from_key (key_of_raw o'), cf_reply = endpoint_from_key (key_of_raw r),
        cf_orig_packets = fst oc, cf_orig_bytes = snd oc, cf_reply_packets = fst rc, cf_reply_bytes = snd rc,
        cf_flags = status_flags status\<rparr>\<rparr>)"
proof -
  have "list_all attr_ok (flow_attrs p o' r status st oc rc i)"
    using length_tuple [OF assms(1), of p] length_tuple [OF assms(2), of p]
    by (simp add: flow_attrs_def counter_attrs_def align_4)
  from attributes_encoded_plain [OF this] show ?thesis
    using assms(3,4)
    by (auto simp: parse_flow_message_def flow_attrs_def flow_attr_def flow_none_def finish_flow_def
        parse_tuple_encoded [OF assms(1)] parse_tuple_encoded [OF assms(2)] parse_counters_encoded
        parse_tcp_state_encoded read_u32_be_def simp del: encode_attrs_simps)
qed

theorem flow_message_roundtrip_witness:
  "\<exists>pf. parse_flow_message ([2, 0, 0, 0] @ encode_attrs (flow_attrs 6
        \<lparr>re_src = [10, 0, 0, 9], re_dst = [1, 1, 1, 1], re_sport = 5000, re_dport = 443\<rparr>
        \<lparr>re_src = [1, 1, 1, 1], re_dst = [10, 0, 0, 9], re_sport = 443, re_dport = 5000\<rparr> 14 3 (1, 60) (2, 120) 77))
      = Ok (Some pf) \<and> cf_state (pf_flow pf) = Some ''ESTABLISHED''
      \<and> cf_flags (pf_flow pf) = [''SEEN_REPLY'', ''ASSURED'', ''CONFIRMED'']"
proof -
  let ?o = "\<lparr>re_src = [10, 0, 0, 9], re_dst = [1, 1, 1, 1], re_sport = 5000, re_dport = 443\<rparr>"
  let ?r = "\<lparr>re_src = [1, 1, 1, 1], re_dst = [10, 0, 0, 9], re_sport = 443, re_dport = 5000\<rparr>"
  have "endpoint_ok ?o" and "endpoint_ok ?r" by (simp_all add: endpoint_ok_def)
  moreover have "(6 :: u8) = 6 \<or> (6 :: u8) = 17" and "length [2, 0, 0, 0 :: u8] = 4" by simp_all
  ultimately show ?thesis
    using flow_message_roundtrip [of ?o ?r 6 "[2, 0, 0, 0]" 14 3 "(1, 60)" "(2, 120)" 77]
    by (simp add: tcp_state_name_def status_flags_def status_masks_def del: encode_attrs_simps)
qed

end
