(* ===== verification/Conntrack.thy ===== *)
theory Conntrack
  imports Flow_Parser Common Addresses "HOL-Library.Multiset"
begin

text \<open>
  The connection table of \<open>conntrack.rs\<close>: inserting and removing flows, applying the event stream,
  the dump that reconciles the table, the statistics and the filtered list. The hash maps of
  flows and of flow ids are association lists. Sockets, threads and timers are not modelled; the
  datagrams received are a list of \<open>recv_result\<close>, and an error's text is a parameter.
\<close>

section \<open>State\<close>

record conn_global =
  cg_total :: u32
  cg_tcp :: u32
  cg_udp :: u32
  cg_established_tcp :: u32
  cg_time_wait_tcp :: u32
  cg_close_wait_tcp :: u32
  cg_last_updated :: u64

record conn_device =
  cd_mac :: string
  cd_hostname :: string
  cd_logical_iface :: string
  cd_ipv4 :: "string list"
  cd_ipv6 :: "string list"
  cd_tcp :: u32
  cd_udp :: u32
  cd_established_tcp :: u32
  cd_time_wait_tcp :: u32
  cd_close_wait_tcp :: u32
  cd_total :: u32
  cd_last_updated :: u64

record conntrack_state =
  cs_enabled :: bool
  cs_flows :: "(flow_key \<times> connection_flow) list"
  cs_flow_ids :: "(u32 \<times> flow_key) list"
  cs_global :: conn_global
  cs_devices :: "conn_device list"
  cs_last_updated :: u64
  cs_event_stream_available :: bool
  cs_event_loss :: u64
  cs_last_error :: "string option"

definition max_tracked_flows :: nat where
  "max_tracked_flows = 100000"

definition global_zero :: "u64 \<Rightarrow> conn_global" where
  "global_zero now = \<lparr>cg_total = 0, cg_tcp = 0, cg_udp = 0, cg_established_tcp = 0, cg_time_wait_tcp = 0,
     cg_close_wait_tcp = 0, cg_last_updated = now\<rparr>"

definition conntrack_new :: "bool \<Rightarrow> conntrack_state" where
  "conntrack_new enabled =
     \<lparr>cs_enabled = enabled, cs_flows = [], cs_flow_ids = [], cs_global = global_zero 0, cs_devices = [],
      cs_last_updated = 0, cs_event_stream_available = False, cs_event_loss = 0, cs_last_error = None\<rparr>"

section \<open>The table\<close>

text \<open>\<open>flow_ids.insert\<close> returns the key the id had, and that flow is dropped first.\<close>

definition insert_flow :: "parsed_flow \<Rightarrow> conntrack_state \<Rightarrow> conntrack_state" where
  "insert_flow p s =
     (let s1 = (case cf_id (pf_flow p) of
                  None \<Rightarrow> s
                | Some i \<Rightarrow>
                    let s' = s\<lparr>cs_flow_ids := AList.update i (pf_key p) (cs_flow_ids s)\<rparr> in
                    (case map_of (cs_flow_ids s) i of
                       None \<Rightarrow> s'
                     | Some old_key \<Rightarrow> s'\<lparr>cs_flows := AList.delete old_key (cs_flows s')\<rparr>))
      in if length (cs_flows s1) \<ge> max_tracked_flows \<and> map_of (cs_flows s1) (pf_key p) = None then s1
         else s1\<lparr>cs_flows := AList.update (pf_key p) (pf_flow p) (cs_flows s1)\<rparr>)"

definition remove_flow :: "parsed_flow \<Rightarrow> conntrack_state \<Rightarrow> conntrack_state" where
  "remove_flow p s =
     (case (case cf_id (pf_flow p) of None \<Rightarrow> None
            | Some i \<Rightarrow> map_option (\<lambda>k. (i, k)) (map_of (cs_flow_ids s) i)) of
        Some (i, k) \<Rightarrow> s\<lparr>cs_flow_ids := AList.delete i (cs_flow_ids s), cs_flows := AList.delete k (cs_flows s)\<rparr>
      | None \<Rightarrow> s\<lparr>cs_flows := AList.delete (pf_key p) (cs_flows s)\<rparr>)"

definition replace_flows :: "parsed_flow list \<Rightarrow> conntrack_state \<Rightarrow> conntrack_state" where
  "replace_flows ps s =
     (fold insert_flow (take max_tracked_flows ps) (s\<lparr>cs_flows := [], cs_flow_ids := []\<rparr>))\<lparr>cs_last_error := None\<rparr>"

definition note_error :: "string \<Rightarrow> conntrack_state \<Rightarrow> conntrack_state" where
  "note_error message s = s\<lparr>cs_last_error := Some message\<rparr>"

section \<open>The event stream\<close>

text \<open>The state after the messages applied so far is kept when a later one is malformed.\<close>

fun apply_messages :: "(u16 \<times> bytes) res list \<Rightarrow> conntrack_state \<Rightarrow> conntrack_state \<times> unit res" where
  "apply_messages [] s = (s, Ok ())"
| "apply_messages (Panic # ms) s = (s, Panic)"
| "apply_messages (Fail # ms) s = (s, Fail)"
| "apply_messages (Ok (kind, payload) # ms) s =
     (if kind = 1 \<or> kind = 3 then apply_messages ms s
      else if kind = 4 then (s, Fail)
      else if kind = 2 then
        (if length payload \<ge> 4 \<and> of_le32 (take 4 payload) \<noteq> 0 then (s, Fail) else apply_messages ms s)
      else
        (case parse_flow_message payload of
           Panic \<Rightarrow> (s, Panic)
         | Fail \<Rightarrow> (s, Fail)
         | Ok None \<Rightarrow> apply_messages ms s
         | Ok (Some p) \<Rightarrow>
             apply_messages ms
               (if kind AND 255 = 2 then remove_flow p s
                else if kind AND 255 = 0 then insert_flow p s else s)))"

definition apply_event_messages :: "bytes \<Rightarrow> conntrack_state \<Rightarrow> conntrack_state \<times> unit res" where
  "apply_event_messages buf s = apply_messages (netlink_messages buf) s"

text \<open>What the event loop does with one \<open>recv\<close>: the state, and whether the socket is kept.\<close>

datatype recv_result = RecvError int | Received bytes

definition event_recv :: "recv_result \<Rightarrow> conntrack_state \<Rightarrow> conntrack_state \<times> bool" where
  "event_recv r s =
     (case r of
        RecvError errno \<Rightarrow>
          if errno = 4 then (s, True)
          else if errno = 105 then
            (s\<lparr>cs_event_loss := sat_add (cs_event_loss s) 1,
               cs_last_error := Some ''conntrack event socket overflowed; waiting for reconciliation dump''\<rparr>, False)
          else (s, False)
      | Received buf \<Rightarrow> if buf = [] then (s, False) else (fst (apply_event_messages buf s), True))"

section \<open>The dump\<close>

definition dump_request :: "u32 \<Rightarrow> bytes" where
  "dump_request sequence =
     le32 20 @ le16 (push_bit 8 1 OR 1) @ le16 (1 OR (0x100 OR 0x200)) @ le32 sequence @ le32 0 @ [0, 0, 0, 0]"

datatype dump_step = DumpDone "parsed_flow list" | DumpMore "parsed_flow list" | DumpFail | DumpPanic

fun dump_messages :: "(u16 \<times> bytes) res list \<Rightarrow> parsed_flow list \<Rightarrow> dump_step" where
  "dump_messages [] fs = DumpMore fs"
| "dump_messages (Panic # ms) fs = DumpPanic"
| "dump_messages (Fail # ms) fs = DumpFail"
| "dump_messages (Ok (kind, payload) # ms) fs =
     (if kind = 1 then dump_messages ms fs
      else if kind = 3 then DumpDone fs
      else if kind = 4 then DumpFail
      else if kind = 2 then
        (if length payload < 4 then DumpFail
         else if of_le32 (take 4 payload) \<noteq> 0 then DumpFail
         else dump_messages ms fs)
      else
        (case parse_flow_message payload of
           Panic \<Rightarrow> DumpPanic
         | Fail \<Rightarrow> DumpFail
         | Ok None \<Rightarrow> dump_messages ms fs
         | Ok (Some p) \<Rightarrow> dump_messages ms (if length fs < max_tracked_flows then fs @ [p] else fs)))"

text \<open>\<open>None\<close>: the datagrams so far do not end the dump, \<open>recv\<close> is called again.\<close>

fun dump_loop :: "recv_result list \<Rightarrow> parsed_flow list \<Rightarrow> parsed_flow list res option" where
  "dump_loop [] fs = None"
| "dump_loop (RecvError e # rs) fs = Some Fail"
| "dump_loop (Received buf # rs) fs =
     (if buf = [] then Some Fail
      else (case dump_messages (netlink_messages buf) fs of
              DumpDone fs' \<Rightarrow> Some (Ok fs')
            | DumpMore fs' \<Rightarrow> dump_loop rs fs'
            | DumpFail \<Rightarrow> Some Fail
            | DumpPanic \<Rightarrow> Some Panic))"

definition dump_conntrack_on_fd :: "u32 \<Rightarrow> int \<Rightarrow> recv_result list \<Rightarrow> parsed_flow list res option" where
  "dump_conntrack_on_fd sequence sent rs =
     (if sent < 0 \<or> nat sent \<noteq> length (dump_request sequence) then Some Fail else dump_loop rs [])"

section \<open>Statistics\<close>

record flow_device =
  fd_mac :: string
  fd_hostname :: string
  fd_logical_iface :: string
  fd_ipv4 :: "ip_addr list"
  fd_ipv6 :: "ip_addr list"

definition device_identities :: "registry \<Rightarrow> flow_device list" where
  "device_identities reg =
     map (\<lambda>(_, d). \<lparr>fd_mac = mac_to_string (kd_mac d), fd_hostname = kd_hostname d,
                    fd_logical_iface = kd_logical_iface d,
                    fd_ipv4 = List.map_filter parse_ip (kd_ipv4 d),
                    fd_ipv6 = List.map_filter parse_ip (kd_ipv6 d)\<rparr>) reg"

definition owns_addr :: "ip_addr \<Rightarrow> flow_device \<Rightarrow> bool" where
  "owns_addr ip d = (ip \<in> set (fd_ipv4 d) \<or> ip \<in> set (fd_ipv6 d))"

definition unique_identity_for_ip :: "flow_device list \<Rightarrow> ip_addr \<Rightarrow> flow_device option" where
  "unique_identity_for_ip ds ip = (case filter (owns_addr ip) ds of [d] \<Rightarrow> Some d | _ \<Rightarrow> None)"

definition time_wait_states :: "string list" where
  "time_wait_states = [''TIME_WAIT'', ''FIN_WAIT'', ''FIN_WAIT2'', ''CLOSING'', ''LAST_ACK'']"

definition classify_tcp_state :: "string option \<Rightarrow> conn_global \<Rightarrow> conn_global" where
  "classify_tcp_state st g =
     (let s = (case st of None \<Rightarrow> [] | Some x \<Rightarrow> x) in
      if s = ''ESTABLISHED'' then g\<lparr>cg_established_tcp := sat_add (cg_established_tcp g) 1\<rparr>
      else if s \<in> set time_wait_states then g\<lparr>cg_time_wait_tcp := sat_add (cg_time_wait_tcp g) 1\<rparr>
      else if s = ''CLOSE_WAIT'' then g\<lparr>cg_close_wait_tcp := sat_add (cg_close_wait_tcp g) 1\<rparr>
      else g)"

definition classify_tcp_state_device :: "string option \<Rightarrow> conn_device \<Rightarrow> conn_device" where
  "classify_tcp_state_device st d =
     (let s = (case st of None \<Rightarrow> [] | Some x \<Rightarrow> x) in
      if s = ''ESTABLISHED'' then d\<lparr>cd_established_tcp := sat_add (cd_established_tcp d) 1\<rparr>
      else if s \<in> set time_wait_states then d\<lparr>cd_time_wait_tcp := sat_add (cd_time_wait_tcp d) 1\<rparr>
      else if s = ''CLOSE_WAIT'' then d\<lparr>cd_close_wait_tcp := sat_add (cd_close_wait_tcp d) 1\<rparr>
      else d)"

definition device_zero :: "flow_device \<Rightarrow> u64 \<Rightarrow> conn_device" where
  "device_zero i now =
     \<lparr>cd_mac = fd_mac i, cd_hostname = fd_hostname i, cd_logical_iface = fd_logical_iface i,
      cd_ipv4 = map ip_to_string (fd_ipv4 i), cd_ipv6 = map ip_to_string (fd_ipv6 i),
      cd_tcp = 0, cd_udp = 0, cd_established_tcp = 0, cd_time_wait_tcp = 0, cd_close_wait_tcp = 0,
      cd_total = 0, cd_last_updated = now\<rparr>"

definition count_global :: "connection_flow \<Rightarrow> conn_global \<Rightarrow> conn_global" where
  "count_global f g =
     (let protocol = to_ascii_lowercase (cf_protocol f);
          g1 = (if protocol = ''tcp'' then classify_tcp_state (cf_state f) (g\<lparr>cg_tcp := sat_add (cg_tcp g) 1\<rparr>)
                else if protocol = ''udp'' then g\<lparr>cg_udp := sat_add (cg_udp g) 1\<rparr> else g)
      in if protocol = ''tcp'' \<or> protocol = ''udp'' then g1\<lparr>cg_total := sat_add (cg_total g1) 1\<rparr> else g1)"

definition count_device :: "connection_flow \<Rightarrow> conn_device \<Rightarrow> conn_device" where
  "count_device f d =
     (let protocol = to_ascii_lowercase (cf_protocol f) in
      if protocol = ''tcp'' then
        (let d1 = classify_tcp_state_device (cf_state f) (d\<lparr>cd_tcp := sat_add (cd_tcp d) 1\<rparr>)
         in d1\<lparr>cd_total := sat_add (cd_total d1) 1\<rparr>)
      else if protocol = ''udp'' then d\<lparr>cd_udp := sat_add (cd_udp d) 1, cd_total := sat_add (cd_total d) 1\<rparr>
      else d)"

definition flow_owner :: "flow_device list \<Rightarrow> connection_flow \<Rightarrow> flow_device option" where
  "flow_owner ids f =
     (case parse_ip (ce_src (cf_orig f)) of None \<Rightarrow> None | Some ip \<Rightarrow> unique_identity_for_ip ids ip)"

definition count_flow ::
  "flow_device list \<Rightarrow> u64 \<Rightarrow> connection_flow
   \<Rightarrow> conn_global \<times> (string \<times> conn_device) list \<Rightarrow> conn_global \<times> (string \<times> conn_device) list" where
  "count_flow ids now f acc =
     (count_global f (fst acc),
      (case flow_owner ids f of
         None \<Rightarrow> snd acc
       | Some i \<Rightarrow> upd_entry (fd_mac i) (device_zero i now) (count_device f) (snd acc)))"

definition calculate_stats ::
  "connection_flow list \<Rightarrow> flow_device list \<Rightarrow> u64 \<Rightarrow> conn_global \<times> conn_device list" where
  "calculate_stats fs ids now =
     (let acc = fold (count_flow ids now) fs (global_zero now, [])
      in (fst acc, sort_key (\<lambda>d. (- int (unat (cd_total d)), cd_mac d)) (map snd (snd acc))))"

definition refresh_stats :: "registry \<Rightarrow> u64 \<Rightarrow> conntrack_state \<Rightarrow> conntrack_state" where
  "refresh_stats reg now s =
     (let (g, ds) = calculate_stats (map snd (cs_flows s)) (device_identities reg) now
      in s\<lparr>cs_global := g, cs_devices := ds, cs_last_updated := now\<rparr>)"

section \<open>Reading the table\<close>

record conn_summary =
  su_enabled :: bool
  su_global :: conn_global
  su_devices :: "conn_device list"
  su_total_flows :: nat
  su_last_updated :: u64
  su_event_stream_available :: bool
  su_event_loss :: u64
  su_last_error :: "string option"

definition summary :: "conntrack_state \<Rightarrow> conn_summary" where
  "summary s = \<lparr>su_enabled = cs_enabled s, su_global = cs_global s, su_devices = cs_devices s,
     su_total_flows = length (cs_flows s), su_last_updated = cs_last_updated s,
     su_event_stream_available = cs_event_stream_available s, su_event_loss = cs_event_loss s,
     su_last_error = cs_last_error s\<rparr>"

definition flow_matches_ip_filters :: "string list \<Rightarrow> connection_flow \<Rightarrow> bool" where
  "flow_matches_ip_filters filters f =
     (filters = [] \<or> list_ex (\<lambda>v. eq_ignore_ascii_case (ce_src (cf_orig f)) v
                                \<or> eq_ignore_ascii_case (ce_dst (cf_reply f)) v) filters)"

definition ip_filter_list :: "string option \<Rightarrow> string list" where
  "ip_filter_list ip =
     filter (\<lambda>v. v \<noteq> []) (map trim (split_on CHR '','' (case ip of None \<Rightarrow> [] | Some s \<Rightarrow> s)))"

definition flow_passes :: "string option \<Rightarrow> string option \<Rightarrow> string option \<Rightarrow> connection_flow \<Rightarrow> bool" where
  "flow_passes ip protocol state_filter f =
     ((case protocol of None \<Rightarrow> True | Some v \<Rightarrow> eq_ignore_ascii_case (cf_protocol f) v)
      \<and> (case state_filter of None \<Rightarrow> True
          | Some v \<Rightarrow> (case cf_state f of None \<Rightarrow> False | Some st \<Rightarrow> eq_ignore_ascii_case st v))
      \<and> flow_matches_ip_filters (ip_filter_list ip) f)"

definition flow_sort_key :: "connection_flow \<Rightarrow> string \<times> string \<times> u16 \<times> u16" where
  "flow_sort_key f = (ce_src (cf_orig f), ce_dst (cf_orig f), ce_sport (cf_orig f), ce_dport (cf_orig f))"

definition filtered_flows ::
  "string option \<Rightarrow> string option \<Rightarrow> string option \<Rightarrow> conntrack_state \<Rightarrow> bool \<times> connection_flow list" where
  "filtered_flows ip protocol state_filter s =
     (cs_enabled s, sort_key flow_sort_key (filter (flow_passes ip protocol state_filter) (map snd (cs_flows s))))"


section \<open>The table operations\<close>

text \<open>Inserting a flow: the flow its id had before is gone, every other one stays.\<close>

definition stale_key :: "parsed_flow \<Rightarrow> conntrack_state \<Rightarrow> flow_key option" where
  "stale_key p s = (case cf_id (pf_flow p) of None \<Rightarrow> None | Some i \<Rightarrow> map_of (cs_flow_ids s) i)"

lemma insert_flow_flows:
  "cs_flows (insert_flow p s) =
     (let fs = (case stale_key p s of None \<Rightarrow> cs_flows s | Some k \<Rightarrow> AList.delete k (cs_flows s))
      in if length fs \<ge> max_tracked_flows \<and> map_of fs (pf_key p) = None then fs
         else AList.update (pf_key p) (pf_flow p) fs)"
  by (auto simp: insert_flow_def stale_key_def Let_def split: option.split)

lemma insert_flow_ids:
  "cs_flow_ids (insert_flow p s) =
     (case cf_id (pf_flow p) of None \<Rightarrow> cs_flow_ids s | Some i \<Rightarrow> AList.update i (pf_key p) (cs_flow_ids s))"
  by (simp add: insert_flow_def Let_def split: option.split)

lemma remove_flow_flows:
  "cs_flows (remove_flow p s) =
     AList.delete (case stale_key p s of None \<Rightarrow> pf_key p | Some k \<Rightarrow> k) (cs_flows s)"
  by (simp add: remove_flow_def stale_key_def split: option.split)

lemma remove_flow_ids:
  "cs_flow_ids (remove_flow p s) =
     (case cf_id (pf_flow p) of None \<Rightarrow> cs_flow_ids s | Some i \<Rightarrow> AList.delete i (cs_flow_ids s))"
proof (cases "stale_key p s")
  case None
  have "map_of m i = None \<Longrightarrow> AList.delete i m = m" for m :: "(u32 \<times> flow_key) list" and i
    by (simp add: map_of_eq_None_iff delete_id)
  with None show ?thesis by (simp add: remove_flow_def stale_key_def split: option.splits)
next
  case (Some k)
  then show ?thesis by (simp add: remove_flow_def stale_key_def split: option.splits)
qed

definition table_ok :: "conntrack_state \<Rightarrow> bool" where
  "table_ok s =
     (distinct (map fst (cs_flows s)) \<and> length (cs_flows s) \<le> max_tracked_flows
      \<and> distinct (map fst (cs_flow_ids s)) \<and> (\<forall>(k, f) \<in> set (cs_flows s). flow_shape k f))"

lemma length_update_new: "map_of m k = None \<Longrightarrow> length (AList.update k v m) = Suc (length m)"
  by (induction m) (auto split: if_splits)

lemma length_update_old: "map_of m k = Some w \<Longrightarrow> length (AList.update k v m) = length m"
  by (induction m) (auto split: if_splits)

lemma set_alist_update_subset: "set (AList.update k v m) \<subseteq> insert (k, v) (set m)"
  by (induction m) auto

lemma set_alist_delete_subset: "set (AList.delete k m) \<subseteq> set m"
  by (auto simp: AList.delete_eq)

lemma length_alist_delete: "length (AList.delete k m) \<le> length m"
  by (simp add: AList.delete_eq)

lemma insert_flow_ok:
  assumes "table_ok s" and "flow_shape (pf_key p) (pf_flow p)"
  shows "table_ok (insert_flow p s)"
proof -
  define fs where "fs = (case stale_key p s of None \<Rightarrow> cs_flows s | Some k \<Rightarrow> AList.delete k (cs_flows s))"
  have d: "distinct (map fst fs)" and len: "length fs \<le> max_tracked_flows" and sub: "set fs \<subseteq> set (cs_flows s)"
    using assms(1) length_alist_delete [of _ "cs_flows s"] set_alist_delete_subset [of _ "cs_flows s"]
    by (auto simp: fs_def table_ok_def distinct_delete split: option.split intro: order_trans)
  have len': "length (AList.update (pf_key p) (pf_flow p) fs) \<le> max_tracked_flows"
    if "\<not> (length fs \<ge> max_tracked_flows \<and> map_of fs (pf_key p) = None)"
    using that len by (cases "map_of fs (pf_key p)") (simp_all add: length_update_new length_update_old)
  have "\<forall>(k, f) \<in> set (AList.update (pf_key p) (pf_flow p) fs). flow_shape k f"
    using set_alist_update_subset [of "pf_key p" "pf_flow p" fs] sub assms by (fastforce simp: table_ok_def)
  moreover have "distinct (map fst (cs_flow_ids (insert_flow p s)))"
    using assms(1) by (simp add: insert_flow_ids table_ok_def distinct_update split: option.split)
  ultimately show ?thesis
    using d len len' sub assms(1)
    by (auto simp: table_ok_def insert_flow_flows fs_def [symmetric] distinct_update)
qed

lemma remove_flow_ok: "table_ok s \<Longrightarrow> table_ok (remove_flow p s)"
  using length_alist_delete [of _ "cs_flows s"] set_alist_delete_subset [of _ "cs_flows s"]
  by (fastforce simp: table_ok_def remove_flow_flows remove_flow_ids distinct_delete
      split: option.split intro: order_trans)

lemma apply_messages_ok: "table_ok s \<Longrightarrow> table_ok (fst (apply_messages ms s)) \<and> (Panic \<notin> set ms \<longrightarrow> snd (apply_messages ms s) \<noteq> Panic)"
proof (induction ms s rule: apply_messages.induct)
  case (4 kind payload ms s)
  show ?case
  proof (cases "kind = 1 \<or> kind = 3 \<or> kind = 4 \<or> kind = 2")
    case True
    with 4 show ?thesis by auto
  next
    case False
    show ?thesis
    proof (cases "parse_flow_message payload")
      case (Ok m)
      show ?thesis
      proof (cases m)
        case (Some p)
        have "table_ok (if kind AND 255 = 2 then remove_flow p s else if kind AND 255 = 0 then insert_flow p s else s)"
          using 4(5) parsed_flow_shape [of payload p] Ok Some by (simp add: insert_flow_ok remove_flow_ok)
        from 4(4) [OF _ _ _ Ok Some this] False Ok Some show ?thesis by simp
      qed (use 4 False Ok in simp)
    qed (use 4 False in simp_all)
  qed
qed simp_all

lemma dump_messages_shape:
  "\<forall>p \<in> set fs. flow_shape (pf_key p) (pf_flow p) \<Longrightarrow>
    dump_messages ms fs = DumpDone fs' \<or> dump_messages ms fs = DumpMore fs' \<Longrightarrow>
    \<forall>p \<in> set fs'. flow_shape (pf_key p) (pf_flow p)"
proof (induction ms fs rule: dump_messages.induct)
  case (4 kind payload ms fs)
  have "\<forall>q \<in> set (if length fs < max_tracked_flows then fs @ [p] else fs). flow_shape (pf_key q) (pf_flow q)"
    if "parse_flow_message payload = Ok (Some p)" for p
    using 4(5) parsed_flow_shape [OF that] by simp
  with 4 show ?case by (auto split: if_splits res.splits option.splits)
qed auto

lemma dump_loop_shape:
  "\<forall>p \<in> set fs. flow_shape (pf_key p) (pf_flow p) \<Longrightarrow> dump_loop rs fs = Some (Ok fs') \<Longrightarrow>
    \<forall>p \<in> set fs'. flow_shape (pf_key p) (pf_flow p)"
proof (induction rs fs rule: dump_loop.induct)
  case (3 buf rs fs)
  then show ?case
    by (auto split: if_splits dump_step.splits dest: dump_messages_shape)
qed auto

lemma fold_insert_ok:
  "table_ok s \<Longrightarrow> \<forall>p \<in> set ps. flow_shape (pf_key p) (pf_flow p) \<Longrightarrow> table_ok (fold insert_flow ps s)"
  by (induction ps arbitrary: s) (simp_all add: insert_flow_ok)

lemma replace_flows_ok:
  assumes "\<forall>p \<in> set ps. flow_shape (pf_key p) (pf_flow p)"
  shows "table_ok (replace_flows ps s)"
proof -
  have "table_ok (s\<lparr>cs_flows := [], cs_flow_ids := []\<rparr>)" by (simp add: table_ok_def)
  moreover have "\<forall>p \<in> set (take max_tracked_flows ps). flow_shape (pf_key p) (pf_flow p)"
    using assms by (meson in_set_takeD)
  ultimately have "table_ok (fold insert_flow (take max_tracked_flows ps) (s\<lparr>cs_flows := [], cs_flow_ids := []\<rparr>))"
    by (rule fold_insert_ok)
  then show ?thesis by (simp add: replace_flows_def table_ok_def)
qed

section \<open>The monitor as a state machine\<close>

text \<open>The event thread, the dump task and the statistics task take turns on the locked state.\<close>

inductive conntrack_step :: "conntrack_state \<Rightarrow> conntrack_state \<Rightarrow> bool" where
  event: "conntrack_step s (fst (event_recv r s))"
| dumped: "dump_conntrack_on_fd q sent rs = Some (Ok ps) \<Longrightarrow> conntrack_step s (replace_flows ps s)"
| dump_failed: "conntrack_step s (note_error m s)"
| counted: "conntrack_step s (refresh_stats reg now s)"
| stream: "conntrack_step s (s\<lparr>cs_event_stream_available := b\<rparr>)"

inductive conntrack_reachable :: "bool \<Rightarrow> conntrack_state \<Rightarrow> bool" for enabled where
  start: "conntrack_reachable enabled (conntrack_new enabled)"
| step: "conntrack_reachable enabled s \<Longrightarrow> conntrack_step s s' \<Longrightarrow> conntrack_reachable enabled s'"

inductive_cases conntrack_stepE: "conntrack_step s s'"

lemma event_recv_ok: "table_ok s \<Longrightarrow> table_ok (fst (event_recv r s))"
  using apply_messages_ok [of s]
  by (auto simp: event_recv_def apply_event_messages_def table_ok_def split: recv_result.split)

lemma conntrack_step_ok: "conntrack_step s s' \<Longrightarrow> table_ok s \<Longrightarrow> table_ok s'"
proof (erule conntrack_stepE)
  fix q sent rs ps
  assume "dump_conntrack_on_fd q sent rs = Some (Ok ps)" and "s' = replace_flows ps s"
  then show "table_ok s'"
    using dump_loop_shape [of "[]" rs ps] by (auto simp: dump_conntrack_on_fd_def split: if_splits intro: replace_flows_ok)
qed (auto simp: event_recv_ok, simp_all add: table_ok_def note_error_def refresh_stats_def case_prod_beta)

text \<open>C14: however the event stream, the dumps and the statistics interleave, and whatever bytes
  arrive, the table holds at most 100000 flows, one per key, each with the protocol and the
  endpoint text of its key; and applying a datagram never panics.\<close>

theorem conntrack_table_invariant:
  assumes "conntrack_reachable enabled s"
  shows "length (cs_flows s) \<le> max_tracked_flows \<and> distinct (map fst (cs_flows s))
       \<and> (\<forall>(k, f) \<in> set (cs_flows s). flow_shape k f)
       \<and> snd (apply_event_messages buf s) \<noteq> Panic"
proof -
  have "table_ok s"
    using assms
  proof (induction rule: conntrack_reachable.induct)
    case start
    show ?case by (simp add: table_ok_def conntrack_new_def)
  qed (rule conntrack_step_ok)
  moreover have "Panic \<notin> set (netlink_messages buf)"
    by (simp only: netlink_messages_def messages.collect_not_Panic not_False_eq_True)
  ultimately show ?thesis
    using apply_messages_ok [of s "netlink_messages buf"] by (auto simp: table_ok_def apply_event_messages_def)
qed

theorem conntrack_table_invariant_witness:
  "length (cs_flows (fst (event_recv (Received [1, 2, 3]) (conntrack_new True)))) \<le> max_tracked_flows"
proof -
  have "conntrack_reachable True (fst (event_recv (Received [1, 2, 3]) (conntrack_new True)))"
    by (rule conntrack_reachable.step [OF conntrack_reachable.start conntrack_step.event])
  from conntrack_table_invariant [OF this] show ?thesis by blast
qed


section \<open>Reconciliation\<close>

definition flow_entry :: "parsed_flow \<Rightarrow> flow_key \<times> connection_flow" where
  "flow_entry p = (pf_key p, pf_flow p)"

lemma alist_update_new: "k \<notin> fst ` set m \<Longrightarrow> AList.update k v m = m @ [(k, v)]"
  by (induction m) auto

definition dump_consistent :: "parsed_flow list \<Rightarrow> bool" where
  "dump_consistent ps =
     (distinct (map pf_key ps)
      \<and> distinct (List.map_filter (\<lambda>p. cf_id (pf_flow p)) ps) \<and> length ps \<le> max_tracked_flows)"

lemma mem_map_filter: "y \<in> set (List.map_filter f xs) \<longleftrightarrow> (\<exists>x \<in> set xs. f x = Some y)"
  by (induction xs) (auto simp: List.map_filter_simps split: option.split)

lemma map_filter_app: "List.map_filter f (xs @ ys) = List.map_filter f xs @ List.map_filter f ys"
  by (simp add: List.map_filter_def)

lemma fold_insert_fresh:
  assumes "dump_consistent (qs @ ps)" and "cs_flows s = map flow_entry qs"
    and "fst ` set (cs_flow_ids s) = set (List.map_filter (\<lambda>p. cf_id (pf_flow p)) qs)"
  shows "cs_flows (fold insert_flow ps s) = map flow_entry (qs @ ps)"
  using assms
proof (induction ps arbitrary: qs s)
  case Nil
  then show ?case by simp
next
  case (Cons p ps)
  have keys: "pf_key p \<notin> fst ` set (cs_flows s)"
    using Cons.prems(1,2) by (auto simp: dump_consistent_def flow_entry_def)
  have ids: "i \<notin> fst ` set (cs_flow_ids s)" if "cf_id (pf_flow p) = Some i" for i
    using Cons.prems(1) that unfolding Cons.prems(3)
    by (auto simp: dump_consistent_def map_filter_app List.map_filter_simps)
  then have stale: "stale_key p s = None"
    by (auto simp: stale_key_def map_of_eq_None_iff split: option.split)
  have "length qs < max_tracked_flows" using Cons.prems(1) by (simp add: dump_consistent_def)
  then have flows: "cs_flows (insert_flow p s) = map flow_entry (qs @ [p])"
    using stale keys Cons.prems(2) by (simp add: insert_flow_flows alist_update_new flow_entry_def)
  have "fst ` set (cs_flow_ids (insert_flow p s)) = set (List.map_filter (\<lambda>p. cf_id (pf_flow p)) (qs @ [p]))"
    using Cons.prems(3) ids
    by (auto simp: insert_flow_ids map_filter_app List.map_filter_simps alist_update_new split: option.split)
  moreover have "dump_consistent ((qs @ [p]) @ ps)" using Cons.prems(1) by simp
  ultimately show ?case using Cons.IH [OF _ flows] by simp
qed

lemma replace_flows_exact:
  assumes "dump_consistent ps"
  shows "cs_flows (replace_flows ps s) = map flow_entry ps"
proof -
  have "cs_flows (fold insert_flow ps (s\<lparr>cs_flows := [], cs_flow_ids := []\<rparr>)) = map flow_entry ([] @ ps)"
    using assms by (intro fold_insert_fresh) (simp_all add: List.map_filter_simps)
  moreover have "take max_tracked_flows ps = ps" using assms by (simp add: dump_consistent_def)
  ultimately show ?thesis by (simp add: replace_flows_def)
qed

text \<open>The flow of a message, and the messages a dump is made of.\<close>

definition flows_of :: "(u16 \<times> bytes) list \<Rightarrow> parsed_flow list" where
  "flows_of ms = List.map_filter (\<lambda>m. case parse_flow_message (snd m) of Ok (Some p) \<Rightarrow> Some p | _ \<Rightarrow> None) ms"

definition flow_message :: "u16 \<times> bytes \<Rightarrow> bool" where
  "flow_message m = (message_ok m \<and> fst m \<notin> {1, 2, 3, 4} \<and> parse_flow_message (snd m) \<noteq> Fail)"

lemma flows_of_simps [simp]: "flows_of [] = []" "flows_of (a @ b) = flows_of a @ flows_of b"
  by (simp_all add: flows_of_def map_filter_app List.map_filter_simps)

lemma dump_messages_flows:
  "list_all flow_message ms \<Longrightarrow>
    dump_messages (map Ok ms @ rest) fs =
    dump_messages rest (if length fs \<le> max_tracked_flows then take max_tracked_flows (fs @ flows_of ms) else fs)"
proof (induction ms arbitrary: fs)
  case Nil
  then show ?case by (simp add: flows_of_def List.map_filter_simps)
next
  case (Cons m ms)
  obtain kind payload where m: "m = (kind, payload)" by (cases m)
  with Cons.prems have kind: "kind \<noteq> 1" "kind \<noteq> 2" "kind \<noteq> 3" "kind \<noteq> 4"
    and nf: "parse_flow_message payload \<noteq> Fail"
    by (auto simp: flow_message_def)
  from nf obtain r where r: "parse_flow_message payload = Ok r"
    using parse_flow_message_not_Panic [of payload] by (cases "parse_flow_message payload") auto
  have ms: "list_all flow_message ms" using Cons.prems by simp
  show ?case
  proof (cases r)
    case None
    with kind r m Cons.IH [OF ms] show ?thesis by (simp add: flows_of_def List.map_filter_simps)
  next
    case (Some p)
    have fl: "flows_of ((kind, payload) # ms) = p # flows_of ms"
      using r Some by (simp add: flows_of_def List.map_filter_simps)
    show ?thesis
    proof (cases "length fs < max_tracked_flows")
      case True
      with kind r Some m Cons.IH [OF ms] show ?thesis by (simp add: fl)
    next
      case False
      with kind r Some m Cons.IH [OF ms] show ?thesis by (simp add: fl)
    qed
  qed
qed

lemma netlink_messages_encoded: "list_all message_ok ms \<Longrightarrow> netlink_messages (encode_messages ms) = map Ok ms"
  using collect_messages_encoded [of ms "length (encode_messages ms) + 2" "[]"] by (simp add: netlink_messages_def)

lemma encode_messages_nonempty:
  assumes "ms \<noteq> []"
  shows "encode_messages ms \<noteq> []"
proof (cases ms)
  case (Cons m rest)
  have "0 < length (encode_messages ms)" by (simp add: Cons encode_messages_def encode_message_def)
  then show ?thesis by auto
qed (use assms in simp)

lemma flow_message_ok: "list_all flow_message ms \<Longrightarrow> list_all message_ok ms"
  by (auto simp: list_all_iff flow_message_def)

lemma dump_loop_flows:
  assumes "\<forall>ms \<in> set mss. ms \<noteq> [] \<and> list_all flow_message ms" and "list_all flow_message ms"
    and "length fs \<le> max_tracked_flows"
  shows "dump_loop (map (\<lambda>ms. Received (encode_messages ms)) mss @ [Received (encode_messages (ms @ [(3, [])]))]) fs
    = Some (Ok (take max_tracked_flows (fs @ flows_of (concat mss @ ms))))"
  using assms
proof (induction mss arbitrary: fs)
  case Nil
  have "netlink_messages (encode_messages (ms @ [(3, [])])) = map Ok ms @ [Ok (3, [])]"
    using flow_message_ok [OF Nil.prems(2)] by (simp add: netlink_messages_encoded message_ok_def)
  with Nil dump_messages_flows [OF Nil.prems(2), of "[Ok (3, [])]" fs]
    encode_messages_nonempty [of "ms @ [(3, [])]"]
  show ?case by simp
next
  case (Cons m mss)
  have m: "m \<noteq> []" "list_all flow_message m" using Cons.prems(1) by simp_all
  have "netlink_messages (encode_messages m) = map Ok m"
    by (rule netlink_messages_encoded [OF flow_message_ok [OF m(2)]])
  moreover have "length (take max_tracked_flows (fs @ flows_of m)) \<le> max_tracked_flows" by simp
  note IH = Cons.IH [OF _ Cons.prems(2) this]
  moreover have "take max_tracked_flows (take max_tracked_flows (fs @ flows_of m) @ zs)
      = take max_tracked_flows (fs @ flows_of m @ zs)" for zs
    using Cons.prems(3) by (cases "length (fs @ flows_of m) \<le> max_tracked_flows") (simp_all add: min_absorb1 min_def)
  ultimately show ?case
    using m encode_messages_nonempty [OF m(1)] dump_messages_flows [OF m(2), of "[]" fs] Cons.prems
    by (simp del: take_append)
qed

text \<open>C15: reconciliation: a dump received in any number of datagrams and closed by a \<open>DONE\<close> message
  leaves exactly the flows of its messages in the table, in their order, whatever the table held
  before, when the kernel's keys and ids are distinct and no more than the limit; and it clears
  the error.\<close>

theorem dump_reconciles_table:
  assumes "\<forall>ms \<in> set mss. ms \<noteq> [] \<and> list_all flow_message ms" and "list_all flow_message ms"
    and "dump_consistent (flows_of (concat mss @ ms))"
  shows "\<exists>ps. dump_conntrack_on_fd q 20
        (map (\<lambda>ms. Received (encode_messages ms)) mss @ [Received (encode_messages (ms @ [(3, [])]))]) = Some (Ok ps)
     \<and> cs_flows (replace_flows ps s) = map flow_entry (flows_of (concat mss @ ms))
     \<and> cs_last_error (replace_flows ps s) = None"
proof -
  let ?fs = "flows_of (concat mss @ ms)"
  have "length (dump_request q) = 20" by (simp add: dump_request_def)
  then have "dump_conntrack_on_fd q 20
        (map (\<lambda>ms. Received (encode_messages ms)) mss @ [Received (encode_messages (ms @ [(3, [])]))])
      = Some (Ok (take max_tracked_flows ?fs))"
    using dump_loop_flows [OF assms(1,2), of "[]"] by (simp add: dump_conntrack_on_fd_def)
  moreover have "take max_tracked_flows ?fs = ?fs"
    using assms(3) unfolding dump_consistent_def by (intro take_all) blast
  ultimately show ?thesis
    using replace_flows_exact [OF assms(3)] by (auto simp: replace_flows_def)
qed

definition sample_raw :: "u16 \<Rightarrow> raw_endpoint" where
  "sample_raw port = \<lparr>re_src = [10, 0, 0, 9], re_dst = [1, 1, 1, 1], re_sport = port, re_dport = 443\<rparr>"

definition sample_flow_message :: "u16 \<Rightarrow> u32 \<Rightarrow> u16 \<times> bytes" where
  "sample_flow_message port i =
     (256, [2, 0, 0, 0] @ encode_attrs [(1, encode_attrs (tuple_attrs 17 (sample_raw port))),
        (2, encode_attrs (tuple_attrs 17 (sample_raw port))), (13, be32 i)])"

lemma sample_flow_parses:
  "\<exists>p. parse_flow_message (snd (sample_flow_message port i)) = Ok (Some p)
     \<and> cf_id (pf_flow p) = Some i \<and> ep_sport (fk_orig (pf_key p)) = port"
proof -
  have ok: "endpoint_ok (sample_raw port)" by (simp add: sample_raw_def endpoint_ok_def)
  have "list_all attr_ok [(1, encode_attrs (tuple_attrs 17 (sample_raw port))),
        (2, encode_attrs (tuple_attrs 17 (sample_raw port))), (13, be32 i)]"
    using length_tuple [OF ok, of 17] by simp
  moreover have "re_sport (sample_raw port) = port" by (simp add: sample_raw_def)
  ultimately show ?thesis using attributes_encoded_plain
    by (simp add: sample_flow_message_def parse_flow_message_def flow_attr_def flow_none_def finish_flow_def
        parse_tuple_encoded [OF ok] read_u32_be_def key_of_raw_def del: encode_attrs_simps)
qed

lemma sample_flow_message_ok: "flow_message (sample_flow_message port i)"
proof -
  have ok: "endpoint_ok (sample_raw port)" by (simp add: sample_raw_def endpoint_ok_def)
  have "message_ok (sample_flow_message port i)"
    by (simp add: message_ok_def sample_flow_message_def tuple_attrs_def ip_attrs_def sample_raw_def align_4)
  moreover have "fst (sample_flow_message port i) = 256" by (simp add: sample_flow_message_def)
  moreover obtain p where "parse_flow_message (snd (sample_flow_message port i)) = Ok (Some p)"
    using sample_flow_parses by blast
  ultimately show ?thesis by (simp add: flow_message_def)
qed

theorem dump_reconciles_table_witness:
  "\<exists>ps. dump_conntrack_on_fd 1 20 [Received (encode_messages [sample_flow_message 5000 7]),
          Received (encode_messages [sample_flow_message 5001 8, (3, [])])] = Some (Ok ps)
     \<and> length (cs_flows (replace_flows ps (conntrack_new True))) = 2"
proof -
  let ?a = "sample_flow_message 5000 7" and ?b = "sample_flow_message 5001 8"
  obtain p q where p: "parse_flow_message (snd ?a) = Ok (Some p)" "cf_id (pf_flow p) = Some 7" "ep_sport (fk_orig (pf_key p)) = 5000"
    and q: "parse_flow_message (snd ?b) = Ok (Some q)" "cf_id (pf_flow q) = Some 8" "ep_sport (fk_orig (pf_key q)) = 5001"
    using sample_flow_parses [of 5000 7] sample_flow_parses [of 5001 8] by blast
  have "pf_key p \<noteq> pf_key q" using p(3) q(3) by auto
  then have c: "dump_consistent (flows_of (concat [[?a]] @ [?b]))"
    using p q by (simp add: flows_of_def List.map_filter_simps dump_consistent_def max_tracked_flows_def)
  have a: "\<forall>ms \<in> set [[?a]]. ms \<noteq> [] \<and> list_all flow_message ms" and b: "list_all flow_message [?b]"
    by (simp_all add: sample_flow_message_ok)
  from dump_reconciles_table [OF a b c, of 1 "conntrack_new True"] p q show ?thesis
    by (auto simp: flows_of_def List.map_filter_simps)
qed


section \<open>Single events\<close>

text \<open>One event: after a NEW event the table maps the flow's key to it, unless the table is full and
  the key is new; the flow its id stood for before is gone; every other flow is untouched. The
  DELETE event of the same message then removes exactly that flow and its id again.\<close>

theorem event_updates_one_flow:
  fixes s :: conntrack_state and p :: parsed_flow
  defines "s' \<equiv> insert_flow p s"
    and "full \<equiv> (let fs = (case stale_key p s of None \<Rightarrow> cs_flows s | Some k \<Rightarrow> AList.delete k (cs_flows s))
                 in length fs \<ge> max_tracked_flows \<and> map_of fs (pf_key p) = None)"
  shows "map_of (cs_flows s') k =
      (if k = pf_key p \<and> \<not> full then Some (pf_flow p)
       else if stale_key p s = Some k then None else map_of (cs_flows s) k)
    \<and> map_of (cs_flows (remove_flow p s')) k =
      (if k = pf_key p \<or> stale_key p s = Some k then None else map_of (cs_flows s) k)
    \<and> stale_key p (remove_flow p s') = None"
proof -
  have st: "stale_key p s' = (case cf_id (pf_flow p) of None \<Rightarrow> None | Some i \<Rightarrow> Some (pf_key p))"
    by (simp add: stale_key_def s'_def insert_flow_ids split: option.split)
  have m: "map_of (cs_flows s') k =
      (if k = pf_key p \<and> \<not> full then Some (pf_flow p)
       else if stale_key p s = Some k then None else map_of (cs_flows s) k)"
    unfolding s'_def full_def insert_flow_flows Let_def
    by (cases "stale_key p s") (auto simp: delete_conv)
  moreover have "map_of (cs_flows (remove_flow p s')) k = (if k = pf_key p then None else map_of (cs_flows s') k)"
    by (simp add: remove_flow_flows st delete_conv split: option.split)
  moreover have "stale_key p (remove_flow p s') = None"
    by (simp add: stale_key_def remove_flow_ids delete_conv split: option.split)
  ultimately show ?thesis by auto
qed

text \<open>
  Two consequences of the id map. A full table still records the ids of the flows it refuses, so
  the id map is not bounded by the limit. And an id whose flow was replaced by a newer one with
  the same key removes the newer flow.
\<close>

lemma refused_flow_leaves_id:
  assumes "length (cs_flows s) \<ge> max_tracked_flows" and "map_of (cs_flows s) (pf_key p) = None"
    and "cf_id (pf_flow p) = Some i" and "map_of (cs_flow_ids s) i = None"
  shows "cs_flows (insert_flow p s) = cs_flows s
       \<and> length (cs_flow_ids (insert_flow p s)) = Suc (length (cs_flow_ids s))"
proof -
  have "stale_key p s = None" using assms(3,4) by (simp add: stale_key_def)
  with assms show ?thesis by (simp add: insert_flow_flows insert_flow_ids length_update_new)
qed

lemma stale_id_removes_live_flow:
  assumes "cf_id (pf_flow old) = Some i" and "cf_id (pf_flow new) = Some j" and "i \<noteq> j"
    and "pf_key old = pf_key new"
  shows "map_of (cs_flows (remove_flow old (insert_flow new (insert_flow old s)))) (pf_key new) = None"
proof -
  have "map_of (cs_flow_ids (insert_flow new (insert_flow old s))) i = Some (pf_key new)"
    using assms by (simp add: insert_flow_ids)
  with assms show ?thesis by (simp add: remove_flow_flows stale_key_def delete_conv)
qed

section \<open>The statistics count the flows\<close>

definition is_tcp :: "connection_flow \<Rightarrow> bool" where
  "is_tcp f = (to_ascii_lowercase (cf_protocol f) = ''tcp'')"

definition is_udp :: "connection_flow \<Rightarrow> bool" where
  "is_udp f = (to_ascii_lowercase (cf_protocol f) = ''udp'')"

definition counted_by :: "flow_device list \<Rightarrow> string \<Rightarrow> connection_flow \<Rightarrow> bool" where
  "counted_by ids mac f =
     ((is_tcp f \<or> is_udp f) \<and> (case flow_owner ids f of None \<Rightarrow> False | Some i \<Rightarrow> fd_mac i = mac))"

lemma tcp_not_udp: "is_tcp f \<Longrightarrow> \<not> is_udp f"
  by (simp add: is_tcp_def is_udp_def)

lemma tcp_udp_le: "length (filter is_tcp fs) + length (filter is_udp fs) \<le> length fs"
  by (induction fs) (auto dest: tcp_not_udp)

lemma classify_fields [simp]:
  "cg_tcp (classify_tcp_state st g) = cg_tcp g" "cg_udp (classify_tcp_state st g) = cg_udp g"
  "cg_total (classify_tcp_state st g) = cg_total g"
  "cd_tcp (classify_tcp_state_device st d) = cd_tcp d" "cd_udp (classify_tcp_state_device st d) = cd_udp d"
  "cd_total (classify_tcp_state_device st d) = cd_total d" "cd_mac (classify_tcp_state_device st d) = cd_mac d"
  by (simp_all add: classify_tcp_state_def classify_tcp_state_device_def Let_def)

lemma unat_sat_incr: "unat (a :: u32) < 2 ^ 32 - 1 \<Longrightarrow> unat (sat_add a 1) = unat a + 1"
  by (simp add: unat_sat_add)

lemma classify_states:
  assumes "unat (cg_established_tcp g) + unat (cg_time_wait_tcp g) + unat (cg_close_wait_tcp g) < 2 ^ 32 - 1"
  shows "unat (cg_established_tcp (classify_tcp_state st g)) + unat (cg_time_wait_tcp (classify_tcp_state st g))
       + unat (cg_close_wait_tcp (classify_tcp_state st g))
     \<le> unat (cg_established_tcp g) + unat (cg_time_wait_tcp g) + unat (cg_close_wait_tcp g) + 1"
  using assms by (simp add: classify_tcp_state_def Let_def unat_sat_incr)

lemma count_global_fields:
  "cg_tcp (count_global f g) = (if is_tcp f then sat_add (cg_tcp g) 1 else cg_tcp g)"
  "cg_udp (count_global f g) = (if is_udp f then sat_add (cg_udp g) 1 else cg_udp g)"
  "cg_total (count_global f g) = (if is_tcp f \<or> is_udp f then sat_add (cg_total g) 1 else cg_total g)"
  by (simp_all add: count_global_def Let_def is_tcp_def is_udp_def)

lemma count_global_states:
  assumes "unat (cg_established_tcp g) + unat (cg_time_wait_tcp g) + unat (cg_close_wait_tcp g) < 2 ^ 32 - 1"
  shows "unat (cg_established_tcp (count_global f g)) + unat (cg_time_wait_tcp (count_global f g))
       + unat (cg_close_wait_tcp (count_global f g))
     \<le> unat (cg_established_tcp g) + unat (cg_time_wait_tcp g) + unat (cg_close_wait_tcp g) + (if is_tcp f then 1 else 0)"
  using classify_states [of "g\<lparr>cg_tcp := sat_add (cg_tcp g) 1\<rparr>" "cf_state f"] assms
  by (simp add: count_global_def Let_def is_tcp_def)

lemma count_device_fields:
  "cd_total (count_device f d) = (if is_tcp f \<or> is_udp f then sat_add (cd_total d) 1 else cd_total d)"
  "cd_mac (count_device f d) = cd_mac d"
  by (simp_all add: count_device_def Let_def is_tcp_def is_udp_def)

lemma stats_fold_global:
  fixes fs :: "connection_flow list" and ids :: "flow_device list" and now :: u64
  defines "g \<equiv> fst (fold (count_flow ids now) fs (global_zero now, []))"
  assumes "length fs < 2 ^ 32"
  shows "unat (cg_tcp g) = length (filter is_tcp fs) \<and> unat (cg_udp g) = length (filter is_udp fs)
    \<and> unat (cg_total g) = length (filter is_tcp fs) + length (filter is_udp fs)
    \<and> unat (cg_established_tcp g) + unat (cg_time_wait_tcp g) + unat (cg_close_wait_tcp g) \<le> length (filter is_tcp fs)"
  using assms(2) unfolding g_def
proof (induction fs rule: rev_induct)
  case Nil
  then show ?case by (simp add: global_zero_def)
next
  case (snoc f fs)
  define g where "g = fst (fold (count_flow ids now) fs (global_zero now, []))"
  have "length (filter is_tcp fs) + length (filter is_udp fs) \<le> length fs"
    by (rule tcp_udp_le)
  with snoc have IH: "unat (cg_tcp g) = length (filter is_tcp fs)" "unat (cg_udp g) = length (filter is_udp fs)"
    "unat (cg_total g) = length (filter is_tcp fs) + length (filter is_udp fs)"
    "unat (cg_established_tcp g) + unat (cg_time_wait_tcp g) + unat (cg_close_wait_tcp g) \<le> length (filter is_tcp fs)"
    and small: "length (filter is_tcp fs) + length (filter is_udp fs) < 2 ^ 32 - 1"
    by (simp_all add: g_def)
  have step: "fst (fold (count_flow ids now) (fs @ [f]) (global_zero now, [])) = count_global f g"
    by (simp add: count_flow_def g_def)
  have "unat (cg_established_tcp g) + unat (cg_time_wait_tcp g) + unat (cg_close_wait_tcp g) < 2 ^ 32 - 1"
    using IH(4) small by linarith
  note states = count_global_states [OF this, of f]
  show ?case unfolding step
    using IH small states tcp_not_udp [of f] by (auto simp: count_global_fields unat_sat_incr)
qed

lemma stats_fold_devices:
  fixes fs :: "connection_flow list" and ids :: "flow_device list" and now :: u64
  defines "m \<equiv> snd (fold (count_flow ids now) fs (global_zero now, []))"
  assumes "length fs < 2 ^ 32"
  shows "distinct (map fst m)
    \<and> (\<forall>mac d. map_of m mac = Some d \<longrightarrow> cd_mac d = mac \<and> unat (cd_total d) = length (filter (counted_by ids mac) fs))
    \<and> (\<forall>mac. map_of m mac = None \<longrightarrow> filter (counted_by ids mac) fs = [])"
  using assms(2) unfolding m_def
proof (induction fs rule: rev_induct)
  case Nil
  then show ?case by simp
next
  case (snoc f fs)
  define m where "m = snd (fold (count_flow ids now) fs (global_zero now, []))"
  have IH: "distinct (map fst m)" "\<And>mac d. map_of m mac = Some d \<Longrightarrow> cd_mac d = mac \<and> unat (cd_total d) = length (filter (counted_by ids mac) fs)"
    "\<And>mac. map_of m mac = None \<Longrightarrow> filter (counted_by ids mac) fs = []"
    using snoc unfolding m_def by simp_all
  have lt: "length (filter (counted_by ids mac) fs) < 2 ^ 32 - 1" for mac
    by (rule order_le_less_trans [OF length_filter_le]) (use snoc.prems in simp)
  show ?case
  proof (cases "flow_owner ids f")
    case None
    then have "snd (fold (count_flow ids now) (fs @ [f]) (global_zero now, [])) = m"
      by (simp add: count_flow_def m_def)
    moreover have "\<not> counted_by ids mac f" for mac using None by (simp add: counted_by_def)
    ultimately show ?thesis using IH by simp
  next
    case (Some i)
    then have step: "snd (fold (count_flow ids now) (fs @ [f]) (global_zero now, []))
        = upd_entry (fd_mac i) (device_zero i now) (count_device f) m"
      by (simp add: count_flow_def m_def)
    define d where "d = (case map_of m (fd_mac i) of None \<Rightarrow> device_zero i now | Some d \<Rightarrow> d)"
    have d: "cd_mac d = fd_mac i \<and> unat (cd_total d) = length (filter (counted_by ids (fd_mac i)) fs)"
      using IH(2,3) [of "fd_mac i"] by (cases "map_of m (fd_mac i)") (simp_all add: d_def device_zero_def)
    have "unat (cd_total (count_device f d)) = length (filter (counted_by ids (fd_mac i)) (fs @ [f]))"
      using d lt [of "fd_mac i"] Some by (simp add: count_device_fields counted_by_def unat_sat_incr)
    moreover have "filter (counted_by ids mac) (fs @ [f]) = filter (counted_by ids mac) fs" if "mac \<noteq> fd_mac i" for mac
      using Some that by (simp add: counted_by_def)
    ultimately show ?thesis
      unfolding step using IH d
      by (auto simp: map_of_upd_entry d_def [symmetric] count_device_fields distinct_upd_entry)
  qed
qed

text \<open>C31: the statistics are exact: with fewer than \<open>2 ^ 32\<close> flows the totals are the numbers of TCP and
  UDP flows, the three TCP state classes do not exceed the TCP flows, and each device row counts
  exactly the flows whose origin address belongs to that device alone; one row per MAC address,
  most connections first, and no flow of a device without a row.\<close>

theorem conntrack_stats_exact:
  fixes fs :: "connection_flow list" and ids :: "flow_device list" and now :: u64
  defines "g \<equiv> fst (calculate_stats fs ids now)" and "ds \<equiv> snd (calculate_stats fs ids now)"
  assumes "length fs < 2 ^ 32"
  shows "unat (cg_tcp g) = length (filter is_tcp fs) \<and> unat (cg_udp g) = length (filter is_udp fs)
    \<and> unat (cg_total g) = unat (cg_tcp g) + unat (cg_udp g)
    \<and> unat (cg_established_tcp g) + unat (cg_time_wait_tcp g) + unat (cg_close_wait_tcp g) \<le> unat (cg_tcp g)
    \<and> distinct (map cd_mac ds)
    \<and> (\<forall>d \<in> set ds. unat (cd_total d) = length (filter (counted_by ids (cd_mac d)) fs))
    \<and> (\<forall>mac. mac \<notin> cd_mac ` set ds \<longrightarrow> filter (counted_by ids mac) fs = [])
    \<and> sorted_wrt (\<lambda>a b. cd_total b \<le> cd_total a) ds"
proof -
  let ?m = "snd (fold (count_flow ids now) fs (global_zero now, []))"
  note G = stats_fold_global [OF assms(3), of ids now] and D = stats_fold_devices [OF assms(3), of ids now]
  let ?k = "\<lambda>d. (- int (unat (cd_total d)), cd_mac d)"
  have ds: "ds = sort_key ?k (map snd ?m)" by (simp add: ds_def calculate_stats_def Let_def)
  have entry: "map_of ?m mac = Some d \<longleftrightarrow> (mac, d) \<in> set ?m" for mac d using D by simp
  then have macs: "cd_mac d = mac" if "(mac, d) \<in> set ?m" for mac d using D that by simp
  then have "map cd_mac (map snd ?m) = map fst ?m" by (auto intro!: map_cong simp: comp_def)
  moreover have "mset ds = mset (map snd ?m)" by (simp add: ds)
  ultimately have "mset (map cd_mac ds) = mset (map fst ?m)" by (metis mset_map)
  then have dist: "distinct (map cd_mac ds)" and macset: "cd_mac ` set ds = fst ` set ?m"
    using D by (metis mset_eq_imp_distinct_iff, metis mset_eq_setD set_map)
  have rows: "\<forall>d \<in> set ds. unat (cd_total d) = length (filter (counted_by ids (cd_mac d)) fs)"
  proof
    fix d assume "d \<in> set ds"
    then obtain mac where e: "(mac, d) \<in> set ?m" by (auto simp: ds)
    then have "cd_mac d = mac \<and> unat (cd_total d) = length (filter (counted_by ids mac) fs)"
      using D by simp
    then show "unat (cd_total d) = length (filter (counted_by ids (cd_mac d)) fs)" by simp
  qed
  have "sorted (map ?k ds)" unfolding ds by (rule sorted_sort_key)
  then have "sorted_wrt (\<lambda>a b. ?k a \<le> ?k b) ds" by (simp add: sorted_wrt_map)
  then have "sorted_wrt (\<lambda>a b. cd_total b \<le> cd_total a) ds"
    by (rule sorted_wrt_mono_rel [rotated]) (auto simp: less_eq_prod_def word_le_def)
  moreover have "\<forall>mac. mac \<notin> cd_mac ` set ds \<longrightarrow> filter (counted_by ids mac) fs = []"
    using D by (auto simp: macset map_of_eq_None_iff)
  moreover have "g = fst (fold (count_flow ids now) fs (global_zero now, []))"
    by (simp add: g_def calculate_stats_def Let_def)
  ultimately show ?thesis using G dist rows by simp
qed

theorem conntrack_stats_exact_witness:
  "distinct (map cd_mac (snd (calculate_stats [] [] 5))) \<and> unat (cg_total (fst (calculate_stats [] [] 5))) = 0"
proof -
  have "length ([] :: connection_flow list) < 2 ^ 32" by simp
  from conntrack_stats_exact [OF this, of "[]" 5] show ?thesis by simp
qed

text \<open>The filtered list is the flows of the table that pass every given filter, each as often as it
  is there, in the order of origin address, destination address and ports.\<close>

theorem filtered_flows_exact:
  "mset (snd (filtered_flows ip protocol st s)) = mset (filter (flow_passes ip protocol st) (map snd (cs_flows s)))
   \<and> sorted_wrt (\<lambda>a b. flow_sort_key a \<le> flow_sort_key b) (snd (filtered_flows ip protocol st s))
   \<and> (ip = None \<and> protocol = None \<and> st = None \<longrightarrow> length (snd (filtered_flows ip protocol st s)) = length (cs_flows s))"
proof -
  have "sorted (map flow_sort_key (snd (filtered_flows ip protocol st s)))"
    by (simp add: filtered_flows_def)
  moreover have "flow_passes None None None f" for f
    by (simp add: flow_passes_def flow_matches_ip_filters_def ip_filter_list_def)
  ultimately show ?thesis by (auto simp: filtered_flows_def sorted_wrt_map)
qed

end
