(* ===== verification/Traffic_History.thy ===== *)
theory Traffic_History
  imports Histogram
begin

text \<open>
  \<open>TrafficHistory\<close> of \<open>monitor.rs\<close>: the last \<open>window_points\<close> samples of every interface
  and device, queried per interface or merged over the series of one MAC address. The
  \<open>BTreeMap\<close> that merges the samples of one instant is an association list, read out in
  the order of its keys.
\<close>

section \<open>State and operations\<close>

record history_point =
  hp_ts_ms :: u64
  hp_metrics :: quad
  hp_cumulative :: quad

record history_sample =
  hs_ts_ms :: u64
  hs_up_v4_bps :: u64
  hs_up_v6_bps :: u64
  hs_down_v4_bps :: u64
  hs_down_v6_bps :: u64
  hs_up_v4_bytes :: u64
  hs_up_v6_bytes :: u64
  hs_down_v4_bytes :: u64
  hs_down_v6_bytes :: u64
  hs_up_v4_bytes_cumulative :: u64
  hs_up_v6_bytes_cumulative :: u64
  hs_down_v4_bytes_cumulative :: u64
  hs_down_v6_bytes_cumulative :: u64

record traffic_history =
  window_points :: nat
  iface_series :: "(u32 \<times> history_point list) list"
  device_series :: "(series_key \<times> history_point list) list"

definition traffic_history_new :: "nat \<Rightarrow> traffic_history" where
  "traffic_history_new n = \<lparr>window_points = max n 1, iface_series = [], device_series = []\<rparr>"

definition traffic_remove_device :: "u32 \<Rightarrow> string \<Rightarrow> traffic_history \<Rightarrow> traffic_history \<times> bool" where
  "traffic_remove_device i mac t =
     (let before = length (device_series t);
          kept = filter (\<lambda>(k, _). sk_ifindex k \<noteq> i \<or> \<not> eq_ignore_ascii_case (sk_mac k) mac)
                   (device_series t)
      in (t\<lparr>device_series := kept\<rparr>, length kept \<noteq> before))"

definition trim_history_queue :: "history_point list \<Rightarrow> nat \<Rightarrow> history_point list" where
  "trim_history_queue q n = trim_front n q"

definition push_point :: "nat \<Rightarrow> history_point \<Rightarrow> history_point list \<Rightarrow> history_point list" where
  "push_point n p q = trim_history_queue (q @ [p]) n"

definition traffic_ingest_iface :: "u64 \<Rightarrow> iface_item \<Rightarrow> traffic_history \<Rightarrow> traffic_history" where
  "traffic_ingest_iface ts it t =
     t\<lparr>iface_series := upd_entry (ii_ifindex it) []
         (push_point (window_points t)
           \<lparr>hp_ts_ms = ts, hp_metrics = ii_metrics it, hp_cumulative = ii_cumulative it\<rparr>)
         (iface_series t)\<rparr>"

definition traffic_ingest_device :: "u64 \<Rightarrow> device_item \<Rightarrow> traffic_history \<Rightarrow> traffic_history" where
  "traffic_ingest_device ts dev t =
     (if \<not> di_online dev \<and> quad_is_empty (di_metrics dev) then t
      else t\<lparr>device_series := upd_entry \<lparr>sk_ifindex = di_ifindex dev, sk_mac = di_mac dev\<rparr> []
               (push_point (window_points t)
                 \<lparr>hp_ts_ms = ts, hp_metrics = di_metrics dev, hp_cumulative = di_cumulative dev\<rparr>)
               (device_series t)\<rparr>)"

definition traffic_ingest_snapshot :: "snapshot_data \<Rightarrow> traffic_history \<Rightarrow> traffic_history" where
  "traffic_ingest_snapshot snap t =
     fold (traffic_ingest_device (sd_timestamp_ms snap)) (sd_devices snap)
       (fold (traffic_ingest_iface (sd_timestamp_ms snap)) (sd_interfaces snap) t)"

definition to_sample :: "u64 \<Rightarrow> quad \<Rightarrow> quad \<Rightarrow> history_sample" where
  "to_sample ts m c =
     \<lparr>hs_ts_ms = ts,
      hs_up_v4_bps = q_up_v4_bps m, hs_up_v6_bps = q_up_v6_bps m,
      hs_down_v4_bps = q_down_v4_bps m, hs_down_v6_bps = q_down_v6_bps m,
      hs_up_v4_bytes = q_up_v4_bytes m, hs_up_v6_bytes = q_up_v6_bytes m,
      hs_down_v4_bytes = q_down_v4_bytes m, hs_down_v6_bytes = q_down_v6_bytes m,
      hs_up_v4_bytes_cumulative = q_up_v4_bytes c, hs_up_v6_bytes_cumulative = q_up_v6_bytes c,
      hs_down_v4_bytes_cumulative = q_down_v4_bytes c, hs_down_v6_bytes_cumulative = q_down_v6_bytes c\<rparr>"

definition series_to_samples :: "history_point list \<Rightarrow> history_sample list" where
  "series_to_samples q = map (\<lambda>p. to_sample (hp_ts_ms p) (hp_metrics p) (hp_cumulative p)) q"

definition traffic_query_iface :: "traffic_history \<Rightarrow> u32 \<Rightarrow> history_sample list" where
  "traffic_query_iface t i =
     (case map_of (iface_series t) i of None \<Rightarrow> [] | Some q \<Rightarrow> series_to_samples q)"

definition merge_point ::
  "(u64 \<times> quad \<times> quad) list \<Rightarrow> history_point \<Rightarrow> (u64 \<times> quad \<times> quad) list" where
  "merge_point merged p =
     upd_entry (hp_ts_ms p) (quad_default, quad_default)
       (\<lambda>(m, c). (add_quad m (hp_metrics p), add_quad c (hp_cumulative p))) merged"

definition merge_series ::
  "u32 option \<Rightarrow> string \<Rightarrow> (u64 \<times> quad \<times> quad) list \<Rightarrow> series_key \<times> history_point list
   \<Rightarrow> (u64 \<times> quad \<times> quad) list" where
  "merge_series ifindex mac merged e =
     (if (case ifindex of None \<Rightarrow> False | Some i \<Rightarrow> sk_ifindex (fst e) \<noteq> i) then merged
      else if \<not> eq_ignore_ascii_case (sk_mac (fst e)) mac then merged
      else foldl merge_point merged (snd e))"

definition traffic_query_device :: "traffic_history \<Rightarrow> u32 option \<Rightarrow> string \<Rightarrow> history_sample list" where
  "traffic_query_device t ifindex mac =
     map (\<lambda>(ts, m, c). to_sample ts m c)
       (sort_key fst (foldl (merge_series ifindex mac) [] (device_series t)))"

section \<open>Windows\<close>

lemma push_point_keep_last: "push_point n p q = keep_last n (q @ [p])"
  by (simp add: push_point_def trim_history_queue_def trim_front_keep_last)

interpretation point_log: bounded_log "push_point n" "\<lambda>q. q" n "\<lambda>_. True" for n
  by unfold_locales (simp_all add: push_point_keep_last)

definition points_of :: "('k \<times> history_point list) list \<Rightarrow> 'k \<Rightarrow> history_point list" where
  "points_of m k = (case map_of m k of None \<Rightarrow> [] | Some q \<Rightarrow> q)"

lemma points_of_upd_entry [simp]:
  "points_of (upd_entry k [] f m) k' = (if k' = k then f (points_of m k) else points_of m k')"
  by (simp add: points_of_def map_of_upd_entry)

lemma window_points_ingest [simp]:
  "window_points (traffic_ingest_iface ts it t) = window_points t"
  "window_points (traffic_ingest_device ts dev t) = window_points t"
  by (simp_all add: traffic_ingest_iface_def traffic_ingest_device_def)

lemma device_series_ingest_iface [simp]: "device_series (traffic_ingest_iface ts it t) = device_series t"
  by (simp add: traffic_ingest_iface_def)

lemma fold_ingest_iface [simp]:
  "window_points (fold (traffic_ingest_iface ts) its t) = window_points t"
  "device_series (fold (traffic_ingest_iface ts) its t) = device_series t"
  by (induction its arbitrary: t) simp_all

text \<open>The samples a device contributes to the history, snapshot by snapshot.\<close>

definition device_points :: "series_key \<Rightarrow> snapshot_data \<Rightarrow> history_point list" where
  "device_points k snap =
     map (\<lambda>d. \<lparr>hp_ts_ms = sd_timestamp_ms snap, hp_metrics = di_metrics d, hp_cumulative = di_cumulative d\<rparr>)
       (filter (\<lambda>d. \<lparr>sk_ifindex = di_ifindex d, sk_mac = di_mac d\<rparr> = k
                   \<and> (di_online d \<or> \<not> quad_is_empty (di_metrics d))) (sd_devices snap))"

lemma traffic_ingest_device_points:
  "points_of (device_series (fold (traffic_ingest_device ts) ds t)) k =
     fold (push_point (window_points t))
       (map (\<lambda>d. \<lparr>hp_ts_ms = ts, hp_metrics = di_metrics d, hp_cumulative = di_cumulative d\<rparr>)
          (filter (\<lambda>d. \<lparr>sk_ifindex = di_ifindex d, sk_mac = di_mac d\<rparr> = k
                   \<and> (di_online d \<or> \<not> quad_is_empty (di_metrics d))) ds))
       (points_of (device_series t) k)"
proof (induction ds arbitrary: t)
  case Nil
  then show ?case by simp
next
  case (Cons d ds)
  show ?case by (simp add: Cons.IH) (simp add: traffic_ingest_device_def)
qed

lemma traffic_ingest_snapshot_device:
  "window_points (traffic_ingest_snapshot snap t) = window_points t"
  "points_of (device_series (traffic_ingest_snapshot snap t)) k =
     fold (push_point (window_points t)) (device_points k snap) (points_of (device_series t) k)"
proof -
  have "window_points (fold (traffic_ingest_device ts) ds t) = window_points t" for ts ds t
    by (induction ds arbitrary: t) simp_all
  then show "window_points (traffic_ingest_snapshot snap t) = window_points t"
    by (simp add: traffic_ingest_snapshot_def)
  show "points_of (device_series (traffic_ingest_snapshot snap t)) k =
     fold (push_point (window_points t)) (device_points k snap) (points_of (device_series t) k)"
    by (simp add: traffic_ingest_snapshot_def traffic_ingest_device_points device_points_def)
qed

text \<open>After any run of snapshots a device's recent history is exactly the newest
  \<open>max n 1\<close> of the samples it contributed (a device that is offline with no traffic contributes
  none).\<close>

theorem traffic_history_window:
  "points_of (device_series (fold traffic_ingest_snapshot snaps (traffic_history_new n))) k
     = keep_last (max n 1) (concat (map (device_points k) snaps))"
proof -
  have "points_of (device_series (fold traffic_ingest_snapshot snaps t)) k =
      fold (push_point (window_points t)) (concat (map (device_points k) snaps))
        (points_of (device_series t) k)" for t
    by (induction snaps arbitrary: t) (simp_all add: traffic_ingest_snapshot_device)
  moreover have "points_of (device_series (traffic_history_new n)) k = []"
    by (simp add: points_of_def traffic_history_new_def)
  ultimately show ?thesis
    by (simp add: point_log.pushes_contents) (simp add: traffic_history_new_def)
qed

section \<open>Merged device queries\<close>

fun h_bps :: "family \<Rightarrow> history_sample \<Rightarrow> u64" where
  "h_bps UpV4 = hs_up_v4_bps" | "h_bps DownV4 = hs_down_v4_bps"
| "h_bps UpV6 = hs_up_v6_bps" | "h_bps DownV6 = hs_down_v6_bps"

fun h_bytes :: "family \<Rightarrow> history_sample \<Rightarrow> u64" where
  "h_bytes UpV4 = hs_up_v4_bytes" | "h_bytes DownV4 = hs_down_v4_bytes"
| "h_bytes UpV6 = hs_up_v6_bytes" | "h_bytes DownV6 = hs_down_v6_bytes"

fun h_cum :: "family \<Rightarrow> history_sample \<Rightarrow> u64" where
  "h_cum UpV4 = hs_up_v4_bytes_cumulative" | "h_cum DownV4 = hs_down_v4_bytes_cumulative"
| "h_cum UpV6 = hs_up_v6_bytes_cumulative" | "h_cum DownV6 = hs_down_v6_bytes_cumulative"

lemma h_to_sample [simp]:
  "h_bps f (to_sample ts m c) = q_bps f m" "h_bytes f (to_sample ts m c) = q_bytes f m"
  "h_cum f (to_sample ts m c) = q_bytes f c" "hs_ts_ms (to_sample ts m c) = ts"
  by (cases f; simp add: to_sample_def)+

definition series_selected :: "u32 option \<Rightarrow> string \<Rightarrow> series_key \<Rightarrow> bool" where
  "series_selected ifindex mac k =
     ((ifindex = None \<or> ifindex = Some (sk_ifindex k)) \<and> eq_ignore_ascii_case (sk_mac k) mac)"

definition selected_points :: "traffic_history \<Rightarrow> u32 option \<Rightarrow> string \<Rightarrow> history_point list" where
  "selected_points t ifindex mac =
     concat (map snd (filter (\<lambda>e. series_selected ifindex mac (fst e)) (device_series t)))"

lemma merge_series_points:
  "foldl (merge_series ifindex mac) merged es =
     foldl merge_point merged (concat (map snd (filter (\<lambda>e. series_selected ifindex mac (fst e)) es)))"
  by (induction es arbitrary: merged)
     (auto simp: merge_series_def series_selected_def split: option.splits)

definition points_rep :: "history_point list \<Rightarrow> (u64 \<times> quad \<times> quad) list \<Rightarrow> bool" where
  "points_rep ps merged =
     (distinct (map fst merged) \<and> fst ` set merged = hp_ts_ms ` set ps
      \<and> (\<forall>ts m c. map_of merged ts = Some (m, c) \<longrightarrow>
            (\<forall>f. q_bps f m = sat_sum (map (\<lambda>p. q_bps f (hp_metrics p)) (filter (\<lambda>p. hp_ts_ms p = ts) ps))
               \<and> q_bytes f m = sat_sum (map (\<lambda>p. q_bytes f (hp_metrics p)) (filter (\<lambda>p. hp_ts_ms p = ts) ps))
               \<and> q_bytes f c = sat_sum (map (\<lambda>p. q_bytes f (hp_cumulative p)) (filter (\<lambda>p. hp_ts_ms p = ts) ps)))))"

lemma fst_set_upd_entry: "fst ` set (upd_entry k d u m) = insert k (fst ` set m)"
  using dom_map_of_conv_image_fst [of "upd_entry k d u m"] dom_map_of_conv_image_fst [of m]
  by (simp add: map_of_upd_entry)

lemma points_rep_foldl: "points_rep ps (foldl merge_point [] ps)"
proof (induction ps rule: rev_induct)
  case Nil
  then show ?case by (simp add: points_rep_def)
next
  case (snoc p ps)
  let ?m = "foldl merge_point [] ps"
  have none: "filter (\<lambda>x. hp_ts_ms x = hp_ts_ms p) ps = []" if "map_of ?m (hp_ts_ms p) = None"
  proof -
    have "hp_ts_ms p \<notin> hp_ts_ms ` set ps"
      using snoc.IH that by (simp add: points_rep_def map_of_eq_None_iff)
    then show ?thesis by (metis (mono_tags, lifting) filter_False image_eqI)
  qed
  from snoc.IH none show ?case
    unfolding points_rep_def
    by (auto simp: merge_point_def distinct_upd_entry map_of_upd_entry fst_set_upd_entry sat_sum_append
        split: option.splits)
qed

text \<open>A device query merges the series of one MAC (in any letter case, on the asked interface
  or on all of them) into one sample per instant, in increasing time order; each sample adds up
  the rates, the bytes and the cumulative bytes of exactly the points recorded at that instant.\<close>

theorem device_query_merges_series:
  "let ss = traffic_query_device t ifindex mac; ps = selected_points t ifindex mac
   in sorted_wrt (<) (map hs_ts_ms ss)
    \<and> set (map hs_ts_ms ss) = hp_ts_ms ` set ps
    \<and> list_all (\<lambda>s. let now = filter (\<lambda>p. hp_ts_ms p = hs_ts_ms s) ps
         in h_bps f s = sat_sum (map (\<lambda>p. q_bps f (hp_metrics p)) now)
          \<and> h_bytes f s = sat_sum (map (\<lambda>p. q_bytes f (hp_metrics p)) now)
          \<and> h_cum f s = sat_sum (map (\<lambda>p. q_bytes f (hp_cumulative p)) now)) ss"
proof -
  let ?ps = "selected_points t ifindex mac"
  let ?m = "foldl merge_point [] ?ps"
  have q: "traffic_query_device t ifindex mac = map (\<lambda>(ts, m, c). to_sample ts m c) (sort_key fst ?m)"
    by (simp add: traffic_query_device_def merge_series_points selected_points_def)
  have rep: "points_rep ?ps ?m" by (rule points_rep_foldl)
  then have dist: "distinct (map fst ?m)" by (simp add: points_rep_def)
  have keys: "map hs_ts_ms (traffic_query_device t ifindex mac) = map fst (sort_key fst ?m)"
    unfolding q by (simp add: case_prod_beta)
  have "distinct (map fst (sort_key fst ?m))"
    using dist mset_eq_imp_distinct_iff [of "map fst (sort_key fst ?m)" "map fst ?m"] by simp
  then have "sorted_wrt (<) (map hs_ts_ms (traffic_query_device t ifindex mac))"
    unfolding keys by (simp add: strict_sorted_iff)
  moreover have "set (map hs_ts_ms (traffic_query_device t ifindex mac)) = hp_ts_ms ` set ?ps"
    unfolding keys using rep by (simp add: points_rep_def)
  moreover have "list_all (\<lambda>s. let now = filter (\<lambda>p. hp_ts_ms p = hs_ts_ms s) ?ps
         in h_bps f s = sat_sum (map (\<lambda>p. q_bps f (hp_metrics p)) now)
          \<and> h_bytes f s = sat_sum (map (\<lambda>p. q_bytes f (hp_metrics p)) now)
          \<and> h_cum f s = sat_sum (map (\<lambda>p. q_bytes f (hp_cumulative p)) now))
      (traffic_query_device t ifindex mac)"
    using rep map_of_is_SomeI [OF dist] unfolding q points_rep_def
    by (auto simp: list_all_iff Let_def)
  ultimately show ?thesis by (simp add: Let_def)
qed

lemma traffic_remove_device_selected:
  "selected_points (fst (traffic_remove_device i mac t)) (Some i) mac = []"
  by (auto simp: selected_points_def traffic_remove_device_def Let_def series_selected_def filter_empty_conv)

end
