(* ===== verification/Api_Query.thy ===== *)
theory Api_Query
  imports Conntrack Dns_Monitor Traffic_History Snapshot
begin

text \<open>
  The reading handlers of \<open>api.rs\<close>: how a query string is interpreted, and what is answered from the state.
  The JSON envelope is \<open>envelope\<close>; parsing the query string and serialising the answer belong to axum and
  serde. Dates belong to chrono: \<open>calendar\<close> collects the calls, the clock is an argument.
\<close>

section \<open>Envelope and query words\<close>

record 'a envelope =
  en_ok :: bool
  en_data :: 'a
  en_error :: "string option"

abbreviation answered :: "'a \<Rightarrow> 'a envelope" where
  "answered x \<equiv> \<lparr>en_ok = True, en_data = x, en_error = None\<rparr>"

abbreviation refused :: "'a \<Rightarrow> string \<Rightarrow> 'a envelope" where
  "refused x e \<equiv> \<lparr>en_ok = False, en_data = x, en_error = Some e\<rparr>"

text \<open>\<open>filter(|s| !s.trim().is_empty())\<close>, and the variant that keeps the trimmed text.\<close>

definition given :: "string option \<Rightarrow> string option" where
  "given s = (case s of None \<Rightarrow> None | Some x \<Rightarrow> if trim x = [] then None else Some x)"

definition trimmed :: "string option \<Rightarrow> string option" where
  "trimmed s = (case s of None \<Rightarrow> None | Some x \<Rightarrow> if trim x = [] then None else Some (trim x))"

definition parse_traffic_type :: "string option \<Rightarrow> history_traffic_type" where
  "parse_traffic_type input =
     (let s = to_ascii_lowercase (case input of None \<Rightarrow> ''all'' | Some x \<Rightarrow> x)
      in if s = ''ipv4'' then TTIpv4 else if s = ''ipv6'' then TTIpv6 else TTAll)"

datatype history_direction = DirUp | DirDown | DirBoth

definition parse_direction :: "string option \<Rightarrow> history_direction" where
  "parse_direction input =
     (let s = to_ascii_lowercase (case input of None \<Rightarrow> ''both'' | Some x \<Rightarrow> x)
      in if s = ''up'' then DirUp else if s = ''down'' then DirDown else DirBoth)"

datatype period_scope = Today | Week | Month | Year

definition parse_period_scope :: "string option \<Rightarrow> string + period_scope option" where
  "parse_period_scope input =
     (case input of
        None \<Rightarrow> Inr None
      | Some raw \<Rightarrow>
         (let s = trim raw; w = to_ascii_lowercase s
          in if s = [] then Inr None
             else if w = ''all'' then Inr None
             else if w = ''today'' then Inr (Some Today)
             else if w = ''week'' then Inr (Some Week)
             else if w = ''month'' then Inr (Some Month)
             else if w = ''year'' then Inr (Some Year)
             else Inl ''invalid period, expected one of: all, today, week, month, year''))"

text \<open>
  What chrono does for the local time zone: the local date of an instant (\<open>None\<close> when the instant is out of its range),
  the instant at which a date starts (\<open>None\<close> when midnight does not exist or is ambiguous, on which the
  code's \<open>unwrap\<close> panics), the day of the week counted from Monday, and the first days of month and year.
\<close>

record 'd calendar =
  cal_date :: "u64 \<Rightarrow> 'd option"
  cal_midnight :: "'d \<Rightarrow> u64 option"
  cal_weekday :: "'d \<Rightarrow> nat"
  cal_minus_days :: "'d \<Rightarrow> nat \<Rightarrow> 'd"
  cal_month_start :: "'d \<Rightarrow> 'd"
  cal_year_start :: "'d \<Rightarrow> 'd"

definition midnight :: "('d, 'z) calendar_scheme \<Rightarrow> 'd \<Rightarrow> u64 res" where
  "midnight cal d = (case cal_midnight cal d of None \<Rightarrow> Panic | Some t \<Rightarrow> Ok t)"

definition period_range_ms :: "('d, 'z) calendar_scheme \<Rightarrow> period_scope \<Rightarrow> u64 \<Rightarrow> (u64 \<times> u64) res" where
  "period_range_ms cal scope now_ms =
     (case cal_date cal now_ms of
        None \<Rightarrow> Ok (0, now_ms)
      | Some d \<Rightarrow>
          bindr (midnight cal d) (\<lambda>today_start.
          bindr (case scope of
                   Today \<Rightarrow> Ok today_start
                 | Week \<Rightarrow> midnight cal (cal_minus_days cal d (cal_weekday cal d))
                 | Month \<Rightarrow> midnight cal (cal_month_start cal d)
                 | Year \<Rightarrow> midnight cal (cal_year_start cal d)) (\<lambda>start. Ok (start, now_ms))))"

definition resolve_query_iface_to_ifindex :: "topology \<Rightarrow> snapshot_data \<Rightarrow> string option \<Rightarrow> string + u32" where
  "resolve_query_iface_to_ifindex t snap iface =
     (case trimmed iface of
        None \<Rightarrow> Inl ''iface is required''
      | Some name \<Rightarrow>
         (case ifindex_by_name t name of
            Some i \<Rightarrow> Inr i
          | None \<Rightarrow> (case List.find (\<lambda>it. ii_ifname it = name) (sd_interfaces snap) of
              Some it \<Rightarrow> Inr (ii_ifindex it)
            | None \<Rightarrow> Inl (''unknown iface: '' @ name))))"

section \<open>Overview and devices\<close>

text \<open>\<open>Panic\<close> is the panic of \<open>period_range_ms\<close>; every other outcome is an answer.\<close>

definition overview ::
  "('d, 'z) calendar_scheme \<Rightarrow> (u64 \<Rightarrow> u64 \<times> u64) \<Rightarrow> u64 \<Rightarrow> string option \<Rightarrow> snapshot_data \<Rightarrow> histogram \<Rightarrow> iface_item list envelope res" where
  "overview cal day now period snap h =
     (case parse_period_scope period of
        Inl e \<Rightarrow> Ok (refused [] e)
      | Inr None \<Rightarrow> Ok (answered (sd_interfaces snap))
      | Inr (Some scope) \<Rightarrow>
          bindr (period_range_ms cal scope now) (\<lambda>(start_ms, end_ms).
            Ok (answered (map (\<lambda>it. it\<lparr>ii_cumulative :=
              cumulative_from_buckets (query_aggregate day h (ii_ifindex it) None start_ms end_ms Hourly)\<rparr>) (sd_interfaces snap)))))"

definition devices ::
  "('d, 'z) calendar_scheme \<Rightarrow> (u64 \<Rightarrow> u64 \<times> u64) \<Rightarrow> u64 \<Rightarrow> string option \<Rightarrow> string option \<Rightarrow> snapshot_data \<Rightarrow> histogram
   \<Rightarrow> device_item list envelope res" where
  "devices cal day now iface period snap h =
     (case parse_period_scope period of
        Inl e \<Rightarrow> Ok (refused [] e)
      | Inr scope \<Rightarrow>
         (let filtered = filter (\<lambda>d. case iface of None \<Rightarrow> True | Some n \<Rightarrow> n = [] \<or> di_logical_iface d = n) (sd_devices snap)
          in case scope of
               None \<Rightarrow> Ok (answered filtered)
             | Some sc \<Rightarrow>
                bindr (period_range_ms cal sc now) (\<lambda>(start_ms, end_ms).
                  Ok (answered (map (\<lambda>d. d\<lparr>di_cumulative :=
                    cumulative_from_buckets (query_aggregate day h (di_ifindex d) (Some (di_mac d)) start_ms end_ms Hourly)\<rparr>) filtered)))))"

section \<open>Recent history\<close>

text \<open>\<open>query_iface\<close> and \<open>query_device\<close> take the traffic type and the direction and do not use them.\<close>

definition history :: "topology \<Rightarrow> snapshot_data \<Rightarrow> traffic_history \<Rightarrow> string option \<Rightarrow> string option \<Rightarrow> history_sample list envelope" where
  "history t snap th iface mac =
     (case resolve_query_iface_to_ifindex t snap iface of
        Inl e \<Rightarrow> refused [] e
      | Inr i \<Rightarrow> answered (case given mac of
            Some m \<Rightarrow> traffic_query_device th (Some i) m
          | None \<Rightarrow> traffic_query_iface th i))"

section \<open>Histogram\<close>

record aggregate_query =
  aq_iface :: "string option"
  aq_mac :: "string option"
  aq_traffic_type :: "string option"
  aq_start_ms :: "u64 option"
  aq_end_ms :: "u64 option"
  aq_bucket :: "string option"

definition parse_bucket :: "string option \<Rightarrow> aggregate_bucket" where
  "parse_bucket b = (if to_ascii_lowercase (case b of None \<Rightarrow> ''hourly'' | Some x \<Rightarrow> x) = ''daily'' then Daily else Hourly)"

text \<open>The body of the loop over the buckets of one device; \<open>by_window\<close> is a \<open>BTreeMap\<close>, read in key order.\<close>

definition add_window :: "bucket \<Rightarrow> ((u64 \<times> u64) \<times> bucket) list \<Rightarrow> ((u64 \<times> u64) \<times> bucket) list" where
  "add_window b by_window =
     (let key = (start_ts_ms b, end_ts_ms b)
      in upd_entry key (empty_bucket (fst key) (snd key)) (\<lambda>entry. accumulate_bucket entry b) by_window)"

definition registered_macs :: "registry \<Rightarrow> u32 \<Rightarrow> string list" where
  "registered_macs reg i = map (\<lambda>(k, _). mac_to_string (snd k)) (filter (\<lambda>(k, _). fst k = i) reg)"

definition all_devices ::
  "(u64 \<Rightarrow> u64 \<times> u64) \<Rightarrow> registry \<Rightarrow> histogram \<Rightarrow> u32 \<Rightarrow> u64 \<Rightarrow> u64 \<Rightarrow> aggregate_bucket \<Rightarrow> bucket list" where
  "all_devices day reg h i start_ms end_ms bk =
     map snd (sort_key fst
       (fold (\<lambda>mac. fold add_window (query_aggregate day h i (Some mac) start_ms end_ms bk)) (registered_macs reg i) []))"

definition aggregate ::
  "(u64 \<Rightarrow> u64 \<times> u64) \<Rightarrow> u64 \<Rightarrow> topology \<Rightarrow> snapshot_data \<Rightarrow> registry \<Rightarrow> histogram \<Rightarrow> aggregate_query \<Rightarrow> bucket list envelope" where
  "aggregate day now_ms t snap reg h q =
     (case resolve_query_iface_to_ifindex t snap (aq_iface q) of
        Inl e \<Rightarrow> refused [] e
      | Inr i \<Rightarrow>
         (let start_ms = (case aq_start_ms q of None \<Rightarrow> sat_sub now_ms (24 * 3600 * 1000) | Some s \<Rightarrow> s);
              end_ms = (case aq_end_ms q of None \<Rightarrow> now_ms | Some e \<Rightarrow> e);
              bk = parse_bucket (aq_bucket q);
              tt = parse_traffic_type (aq_traffic_type q)
          in answered (map (\<lambda>b. with_traffic_type b tt)
               (case given (aq_mac q) of
                  Some mac \<Rightarrow> query_aggregate day h i (Some mac) start_ms end_ms bk
                | None \<Rightarrow> all_devices day reg h i start_ms end_ms bk))))"


section \<open>Usage ranking\<close>

record ranking_query =
  rq_iface :: "string option"
  rq_traffic_type :: "string option"
  rq_start_ms :: "u64 option"
  rq_end_ms :: "u64 option"
  rq_limit :: "nat option"

record ranking_item =
  ri_iface :: string
  ri_mac :: string
  ri_hostname :: string
  ri_ipv4 :: "string list"
  ri_ipv6 :: "string list"
  ri_up_bytes :: u64
  ri_down_bytes :: u64
  ri_total_bytes :: u64

definition up_total :: "history_traffic_type \<Rightarrow> bucket list \<Rightarrow> u64" where
  "up_total tt bs = foldl (\<lambda>up b. sat_add up (sat_add (up_v4_bytes b) (up_v6_bytes b))) 0 (map (\<lambda>b. with_traffic_type b tt) bs)"

definition down_total :: "history_traffic_type \<Rightarrow> bucket list \<Rightarrow> u64" where
  "down_total tt bs = foldl (\<lambda>d b. sat_add d (sat_add (down_v4_bytes b) (down_v6_bytes b))) 0 (map (\<lambda>b. with_traffic_type b tt) bs)"

definition ranking_item_of ::
  "(u64 \<Rightarrow> u64 \<times> u64) \<Rightarrow> histogram \<Rightarrow> history_traffic_type \<Rightarrow> u64 \<Rightarrow> u64 \<Rightarrow> u32 option \<Rightarrow> device_key \<times> known_device \<Rightarrow> ranking_item option" where
  "ranking_item_of day h tt start_ms end_ms only e =
     (let (key, dev) = e; mac = mac_to_string (snd key);
          bs = query_aggregate day h (fst key) (Some mac) start_ms end_ms Daily;
          up = up_total tt bs; down = down_total tt bs
      in if only \<noteq> None \<and> only \<noteq> Some (fst key) then None
         else if sat_add up down = 0 then None
         else Some \<lparr>ri_iface = kd_logical_iface dev, ri_mac = mac, ri_hostname = kd_hostname dev, ri_ipv4 = kd_ipv4 dev,
           ri_ipv6 = kd_ipv6 dev, ri_up_bytes = up, ri_down_bytes = down, ri_total_bytes = sat_add up down\<rparr>)"

text \<open>\<open>sort_by\<close> is stable; the larger total comes first, then the smaller MAC text.\<close>

definition ranking_order :: "ranking_item \<Rightarrow> int \<times> string" where
  "ranking_order it = (- int (unat (ri_total_bytes it)), ri_mac it)"

text \<open>\<open>Fail\<close> is the status \<open>BAD_REQUEST\<close>. \<open>default_start\<close> is the instant one year before \<open>now_ms\<close>.\<close>

definition usage_ranking ::
  "(u64 \<Rightarrow> u64 \<times> u64) \<Rightarrow> u64 \<Rightarrow> u64 \<Rightarrow> topology \<Rightarrow> snapshot_data \<Rightarrow> registry \<Rightarrow> histogram \<Rightarrow> ranking_query \<Rightarrow> ranking_item list envelope res" where
  "usage_ranking day now_ms default_start t snap reg h q =
     (case given (rq_iface q) of
        None \<Rightarrow> Fail
      | Some iface \<Rightarrow>
         (let tt = parse_traffic_type (rq_traffic_type q);
              start_ms = (case rq_start_ms q of None \<Rightarrow> default_start | Some s \<Rightarrow> s);
              end_ms = (case rq_end_ms q of None \<Rightarrow> now_ms | Some e \<Rightarrow> e)
          in if end_ms < start_ms then Fail
             else bindr (if iface = ''all'' then Ok None
                         else (case resolve_query_iface_to_ifindex t snap (Some iface) of Inl _ \<Rightarrow> Fail | Inr i \<Rightarrow> Ok (Some i)))
               (\<lambda>only. let items = sort_key ranking_order (List.map_filter (ranking_item_of day h tt start_ms end_ms only) reg)
                 in Ok (answered (case rq_limit q of None \<Rightarrow> items | Some n \<Rightarrow> if n > 0 then take n items else items)))))"

section \<open>Connections and DNS\<close>

record flows_page =
  fp_enabled :: bool
  fp_items :: "connection_flow list"
  fp_total :: nat
  fp_page :: nat
  fp_page_size :: nat
  fp_total_pages :: nat

record flows_query =
  fq_ip :: "string option"
  fq_protocol :: "string option"
  fq_state :: "string option"
  fq_page :: "nat option"
  fq_page_size :: "nat option"

definition connection_flows :: "conntrack_state \<Rightarrow> flows_query \<Rightarrow> flows_page envelope" where
  "connection_flows s q =
     (let (enabled, flows) = filtered_flows (trimmed (fq_ip q)) (trimmed (fq_protocol q)) (trimmed (fq_state q)) s;
          total_flows = length flows;
          page_size = min (max (case fq_page_size q of None \<Rightarrow> 100 | Some n \<Rightarrow> n) 1) 500;
          total_pages = max (min (total_flows + (page_size - 1)) usize_max div page_size) 1;
          page = min (max (case fq_page q of None \<Rightarrow> 1 | Some p \<Rightarrow> p) 1) total_pages;
          start = min ((page - 1) * page_size) usize_max
      in answered \<lparr>fp_enabled = enabled, fp_items = (if start < total_flows then take page_size (drop start flows) else []),
           fp_total = total_flows, fp_page = page, fp_page_size = page_size, fp_total_pages = total_pages\<rparr>)"

definition connection_devices :: "conntrack_state \<Rightarrow> (conn_summary \<times> nat) envelope" where
  "connection_devices s = answered (summary s, length (su_devices (summary s)))"

definition dns_queries :: "dns_query_filter \<Rightarrow> dns_monitor \<Rightarrow> dns_page envelope" where
  "dns_queries q d = answered (queries q d)"

definition dns_stats_handler :: "u64 \<Rightarrow> dns_monitor \<Rightarrow> dns_stats envelope res" where
  "dns_stats_handler now_ms d = bindr (stats now_ms d) (\<lambda>s. Ok (answered s))"

definition dns_config_handler :: "dns_monitor \<Rightarrow> dns_config envelope" where
  "dns_config_handler d = answered (config d)"

section \<open>The ranking\<close>

lemma map_filter_eq: "List.map_filter f xs = map (the \<circ> f) (filter (\<lambda>x. f x \<noteq> None) xs)"
  by (simp add: List.map_filter_def)

lemma unat_sum_sat:
  fixes f :: "'b \<Rightarrow> u64"
  shows "unat (foldl (\<lambda>s b. sat_add s (f b)) a bs) = min (unat a + (\<Sum>b \<leftarrow> bs. unat (f b))) (2 ^ 64 - 1)"
proof (induction bs arbitrary: a)
  case Nil
  show ?case using unat_lt [of a] by simp
next
  case (Cons b bs)
  show ?case by (simp add: Cons.IH sat_simps)
qed

text \<open>Which items the ranking is made of.\<close>

definition ranked ::
  "(u64 \<Rightarrow> u64 \<times> u64) \<Rightarrow> histogram \<Rightarrow> history_traffic_type \<Rightarrow> u64 \<Rightarrow> u64 \<Rightarrow> u32 option \<Rightarrow> registry \<Rightarrow> ranking_item set" where
  "ranked day h tt start_ms end_ms only reg = {it. \<exists>e \<in> set reg. ranking_item_of day h tt start_ms end_ms only e = Some it}"

lemma set_map_filter: "set (List.map_filter f xs) = {y. \<exists>x \<in> set xs. f x = Some y}"
  by (force simp: List.map_filter_def)

lemma top_items:
  assumes "items = sort_key key xs" and "shown = (case limit of None \<Rightarrow> items | Some n \<Rightarrow> if n > 0 then take n items else items)"
  shows "sorted (map key shown) \<and> set shown \<subseteq> set xs
    \<and> (limit = None \<or> limit = Some 0 \<longrightarrow> set shown = set xs)
    \<and> (\<forall>x \<in> set xs - set shown. \<forall>y \<in> set shown. key y \<le> key x)"
proof -
  let ?n = "case limit of None \<Rightarrow> length items | Some n \<Rightarrow> if n > 0 then n else length items"
  have shown: "shown = take ?n items" using assms(2) by (auto split: option.split)
  have s: "sorted (map key (take ?n items @ drop ?n items))" by (simp add: assms(1))
  have "key y \<le> key x" if "x \<in> set xs - set shown" "y \<in> set shown" for x y
  proof -
    have "x \<in> set items" using that(1) assms(1) by simp
    then have "x \<in> set (take ?n items) \<union> set (drop ?n items)" by (metis append_take_drop_id set_append)
    with that(1) shown have "x \<in> set (drop ?n items)" by blast
    with s that(2) shown show ?thesis unfolding map_append sorted_append by auto
  qed
  moreover have "sorted (map key shown)" using s unfolding shown map_append sorted_append by blast
  moreover have "set shown \<subseteq> set xs" using assms(1) set_take_subset [of ?n items] unfolding shown by simp
  moreover have "limit = None \<or> limit = Some 0 \<longrightarrow> set shown = set xs" using assms(1) shown by auto
  ultimately show ?thesis by blast
qed


lemma sums_exact:
  "unat (up_total TTAll bs) = min (\<Sum>b \<leftarrow> bs. min (unat (up_v4_bytes b) + unat (up_v6_bytes b)) (2 ^ 64 - 1)) (2 ^ 64 - 1)"
  "unat (down_total TTAll bs) = min (\<Sum>b \<leftarrow> bs. min (unat (down_v4_bytes b) + unat (down_v6_bytes b)) (2 ^ 64 - 1)) (2 ^ 64 - 1)"
  by (simp_all add: up_total_def down_total_def foldl_map unat_sum_sat sat_simps del: min.bounded_iff)


definition sample_registry :: registry where
  "sample_registry =
     [((3, [2, 0, 0, 0, 0, 1]), \<lparr>kd_ifindex = 3, kd_mac = [2, 0, 0, 0, 0, 1], kd_ipv4 = [], kd_ipv6 = [], kd_hostname = ''pc'',
        kd_logical_iface = ''br-lan'', kd_subnet = [], kd_last_seen_ms = 0\<rparr>)]"


section \<open>The histogram of all devices\<close>

definition window :: "bucket \<Rightarrow> u64 \<times> u64" where
  "window b = (start_ts_ms b, end_ts_ms b)"

text \<open>What the map of the windows holds after adding \<open>bs\<close>.\<close>

definition windows_of :: "bucket list \<Rightarrow> ((u64 \<times> u64) \<times> bucket) list \<Rightarrow> bool" where
  "windows_of bs m =
     (distinct (map fst m)
      \<and> (\<forall>w. case map_of m w of
               None \<Rightarrow> w \<notin> window ` set bs
             | Some e \<Rightarrow> w \<in> window ` set bs \<and> window e = w \<and> sample_count e = 0
                 \<and> (\<forall>f. unat (b_bytes f e) = min (\<Sum>b \<leftarrow> filter (\<lambda>b. window b = w) bs. unat (b_bytes f b)) (2 ^ 64 - 1))))"

lemma windows_ofD:
  assumes "windows_of bs m"
  shows "map_of m w = None \<Longrightarrow> w \<notin> window ` set bs"
    and "map_of m w = Some e \<Longrightarrow> w \<in> window ` set bs \<and> window e = w \<and> sample_count e = 0
      \<and> (\<forall>f. unat (b_bytes f e) = min (\<Sum>b \<leftarrow> filter (\<lambda>b. window b = w) bs. unat (b_bytes f b)) (2 ^ 64 - 1))"
proof -
  have "case map_of m w of
               None \<Rightarrow> w \<notin> window ` set bs
             | Some e \<Rightarrow> w \<in> window ` set bs \<and> window e = w \<and> sample_count e = 0
                 \<and> (\<forall>f. unat (b_bytes f e) = min (\<Sum>b \<leftarrow> filter (\<lambda>b. window b = w) bs. unat (b_bytes f b)) (2 ^ 64 - 1))"
    using assms unfolding windows_of_def by blast
  then show "map_of m w = None \<Longrightarrow> w \<notin> window ` set bs"
    and "map_of m w = Some e \<Longrightarrow> w \<in> window ` set bs \<and> window e = w \<and> sample_count e = 0
      \<and> (\<forall>f. unat (b_bytes f e) = min (\<Sum>b \<leftarrow> filter (\<lambda>b. window b = w) bs. unat (b_bytes f b)) (2 ^ 64 - 1))"
    by simp_all
qed

lemma accumulate_bucket_fields:
  "b_bytes f (accumulate_bucket a b) = sat_add (b_bytes f a) (b_bytes f b)"
  "window (accumulate_bucket a b) = window a" "sample_count (accumulate_bucket a b) = sample_count a"
  by (cases f; simp add: accumulate_bucket_def window_def)+

lemma add_window_windows: "windows_of bs m \<Longrightarrow> windows_of (bs @ [b]) (add_window b m)"
proof -
  assume m: "windows_of bs m"
  let ?w = "window b" and ?m = "add_window b m"
  have look: "map_of ?m = (map_of m)(?w \<mapsto> accumulate_bucket (case map_of m ?w of None \<Rightarrow> empty_bucket (fst ?w) (snd ?w) | Some e \<Rightarrow> e) b)"
    unfolding window_def fst_conv snd_conv by (simp add: add_window_def Let_def map_of_upd_entry)
  have "distinct (map fst ?m)" using m by (simp add: windows_of_def add_window_def Let_def distinct_upd_entry)
  moreover have "case map_of ?m w of
               None \<Rightarrow> w \<notin> window ` set (bs @ [b])
             | Some e \<Rightarrow> w \<in> window ` set (bs @ [b]) \<and> window e = w \<and> sample_count e = 0
                 \<and> (\<forall>f. unat (b_bytes f e) = min (\<Sum>b \<leftarrow> filter (\<lambda>b. window b = w) (bs @ [b]). unat (b_bytes f b)) (2 ^ 64 - 1))" for w
  proof (cases "w = ?w")
    case False
    then have "map_of ?m w = map_of m w" and "filter (\<lambda>b. window b = w) (bs @ [b]) = filter (\<lambda>b. window b = w) bs"
      by (auto simp: look)
    with windows_ofD [OF m, of w] False show ?thesis by (cases "map_of m w") auto
  next
    case w: True
    show ?thesis
    proof (cases "map_of m ?w")
      case None
      from windows_ofD(1) [OF m None] have "filter (\<lambda>b. window b = ?w) bs = []" by (metis (mono_tags, lifting) filter_empty_conv image_eqI)
      moreover have "unat (b_bytes f b) \<le> 2 ^ 64 - 1" for f using unat_le_max [of "b_bytes f b"] by simp
      ultimately show ?thesis using None by (simp add: w look accumulate_bucket_fields) (simp add: window_def)
    next
      case (Some e)
      note e = windows_ofD(2) [OF m Some]
      show ?thesis using Some e by (simp add: w look accumulate_bucket_fields sat_simps min_def)
    qed
  qed
  ultimately show ?thesis unfolding windows_of_def by blast
qed

lemma windows_of_all: "windows_of bs (fold add_window bs [])"
  by (induction bs rule: rev_induct) (simp add: windows_of_def, simp add: add_window_windows)

lemma fold_fold_concat: "fold (\<lambda>x. fold g (f x)) xs s = fold g (concat (map f xs)) s"
  by (induction xs arbitrary: s) simp_all



definition two_devices :: registry where
  "two_devices = sample_registry @ map (\<lambda>(k, kd). ((3, [2, 0, 0, 0, 0, 2]), kd\<lparr>kd_mac := [2, 0, 0, 0, 0, 2]\<rparr>)) sample_registry"

definition two_histories :: histogram where
  "two_histories =
     (let day = (empty_bucket 0 3599999)
      in \<lparr>max_hours = 24, current_hour_iface = [], current_hour_device = [], completed_iface = [], completed_device =
        [(\<lparr>sk_ifindex = 3, sk_mac = mac_to_string [2, 0, 0, 0, 0, 1]\<rparr>, [day\<lparr>up_v4_bytes := 700\<rparr>]),
         (\<lparr>sk_ifindex = 3, sk_mac = mac_to_string [2, 0, 0, 0, 0, 2]\<rparr>, [day\<lparr>up_v4_bytes := 300\<rparr>])]\<rparr>)"

lemma two_queries:
  "query_aggregate (\<lambda>ts. (0, 86399999)) two_histories 3 (Some (mac_to_string [2, 0, 0, 0, 0, 1])) 0 5000 Hourly
    = [finalize ((empty_bucket 0 3599999)\<lparr>up_v4_bytes := 700\<rparr>)]"
  "query_aggregate (\<lambda>ts. (0, 86399999)) two_histories 3 (Some (mac_to_string [2, 0, 0, 0, 0, 2])) 0 5000 Hourly
    = [finalize ((empty_bucket 0 3599999)\<lparr>up_v4_bytes := 300\<rparr>)]"
proof -
  have t: "trim (mac_to_string [2, 0, 0, 0, 0, 1]) \<noteq> []" "trim (mac_to_string [2, 0, 0, 0, 0, 2]) \<noteq> []" by code_simp+
  have k: "\<not> eq_ignore_ascii_case (mac_to_string [2, 0, 0, 0, 0, 1]) (mac_to_string [2, 0, 0, 0, 0, 2])"
    "mac_to_string [2, 0, 0, 0, 0, 1] \<noteq> mac_to_string [2, 0, 0, 0, 0, 2]" by code_simp+
  show "query_aggregate (\<lambda>ts. (0, 86399999)) two_histories 3 (Some (mac_to_string [2, 0, 0, 0, 0, 1])) 0 5000 Hourly
    = [finalize ((empty_bucket 0 3599999)\<lparr>up_v4_bytes := 700\<rparr>)]"
    using t by (simp add: query_aggregate_def two_histories_def Let_def key_matches_def query_device_hourly_def series_buckets_def
        overlaps_def empty_bucket_def)
  show "query_aggregate (\<lambda>ts. (0, 86399999)) two_histories 3 (Some (mac_to_string [2, 0, 0, 0, 0, 2])) 0 5000 Hourly
    = [finalize ((empty_bucket 0 3599999)\<lparr>up_v4_bytes := 300\<rparr>)]"
    using t k by (simp add: query_aggregate_def two_histories_def Let_def key_matches_def query_device_hourly_def series_buckets_def
        overlaps_def empty_bucket_def)
qed


end
