(* ===== verification/Rates.thy ===== *)
theory Rates
  imports Snapshot
begin

text \<open>
  The smoothed rates: they stay between the old and the new rate, and the rates of an interface without
  offloaded traffic vanish after a bounded number of ticks.
\<close>

section \<open>Smoothing\<close>

text \<open>C32: smoothing stays in range. For rates below 2 to the 50 bits per second, the smoothed rate of
  every family is at most the larger of the new and the old rate and at least the smaller one less one
  bit per second (the truncation), in exact IEEE double arithmetic; the bytes are not touched.\<close>

theorem smoothed_rates_in_range:
  assumes "unat (q_bps f new) < 2 ^ 50" and "unat (q_bps f old) < 2 ^ 50"
  shows "unat (q_bps f (smooth_rates new old)) \<le> max (unat (q_bps f new)) (unat (q_bps f old))
    \<and> min (unat (q_bps f new)) (unat (q_bps f old)) \<le> Suc (unat (q_bps f (smooth_rates new old)))
    \<and> q_bytes f (smooth_rates new old) = q_bytes f old"
  using ewma_bounds [OF assms] by simp

theorem smoothed_rates_in_range_witness:
  "unat (q_bps UpV4 (smooth_rates (quad_default\<lparr>q_up_v4_bps := 1000\<rparr>) (quad_default\<lparr>q_up_v4_bps := 400\<rparr>))) \<in> {399..1000}"
  using smoothed_rates_in_range [of UpV4 "quad_default\<lparr>q_up_v4_bps := 1000\<rparr>" "quad_default\<lparr>q_up_v4_bps := 400\<rparr>"]
  by simp

section \<open>Decay\<close>

lemma map_of_smooth_present: "map_of m i = None \<Longrightarrow> map_of (smooth_present m s) i = map_of s i"
  unfolding smooth_present_def
proof (induction m arbitrary: s)
  case (Cons e m)
  then show ?case by (cases e) (auto simp: map_of_upd_entry split: if_splits)
qed simp

lemma distinct_smooth_present: "distinct (map fst s) \<Longrightarrow> distinct (map fst (smooth_present m s))"
  unfolding smooth_present_def by (induction m arbitrary: s) (auto simp: distinct_upd_entry)

lemma keys_decay: "map fst (map (\<lambda>(i, s). if map_of m i = None then (i, decay_rates s) else (i, s)) s) = map fst s"
  by (induction s) auto

lemma distinct_smooth_ecm_map: "distinct (map fst s) \<Longrightarrow> distinct (map fst (smooth_ecm_map m s))"
  unfolding smooth_ecm_map_def decay_absent_def
  by (intro distinct_smooth_present distinct_keys_filter) (simp only: keys_decay)

lemma map_of_decay: "map_of (map (\<lambda>(i, s). if map_of m i = None then (i, decay_rates s) else (i, s)) s) i
    = map_option (\<lambda>q. if map_of m i = None then decay_rates q else q) (map_of s i)"
  by (induction s) auto

lemma absent_step:
  assumes "distinct (map fst s)" and "map_of m i = None"
  shows "map_of (smooth_ecm_map m s) i =
    (case map_of s i of None \<Rightarrow> None | Some q \<Rightarrow> if rates_zero (decay_rates q) then None else Some (decay_rates q))"
  unfolding smooth_ecm_map_def map_of_smooth_present [OF assms(2)] decay_absent_def
proof (subst map_of_filter_key)
  show "distinct (map fst (map (\<lambda>(i, s). if map_of m i = None then (i, decay_rates s) else (i, s)) s))"
    unfolding keys_decay by (rule assms(1))
qed (use assms(2) in \<open>simp add: map_of_decay split: option.split\<close>)

text \<open>The largest a rate can still be after \<open>n\<close> ticks without traffic.\<close>

definition faded :: "nat \<Rightarrow> quad \<Rightarrow> bool" where
  "faded n q = (\<forall>f. of_nat (unat (q_bps f q)) < ((7 / 10) ^ n * 2 ^ 64 :: rat))"

lemma faded_0: "faded 0 q"
proof -
  have "(of_nat (unat (w :: u64)) :: rat) < 2 ^ 64" for w
    using unat_lt [of w] of_nat_less_iff [of "unat w" "2 ^ 64", where 'a = rat] by simp
  then show ?thesis by (simp add: faded_def)
qed

lemma faded_Suc: "faded n q \<Longrightarrow> faded (Suc n) (decay_rates q)"
  unfolding faded_def
proof
  fix f
  assume "\<forall>f. of_nat (unat (q_bps f q)) < ((7 / 10) ^ n * 2 ^ 64 :: rat)"
  then have "of_nat (unat (q_bps f q)) < ((7 / 10) ^ n * 2 ^ 64 :: rat)" ..
  then show "of_nat (unat (q_bps f (decay_rates q))) < ((7 / 10) ^ Suc n * 2 ^ 64 :: rat)"
    using decay_bound [of "q_bps f q"] by simp
qed

lemma faded_125: "faded 125 q \<Longrightarrow> rates_zero q"
proof -
  assume q: "faded 125 q"
  have "(7 / 10 :: rat) ^ 125 * 2 ^ 64 < 1" by (simp add: power_divide)
  then have "of_nat (unat (q_bps f q)) < (1 :: rat)" for f using q unfolding faded_def by (meson less_trans)
  then have "unat (q_bps f q) < 1" for f using of_nat_less_iff [of "unat (q_bps f q)" 1, where 'a = rat] by simp
  then show ?thesis by (simp add: rates_zero_iff unsigned_eq_0_iff)
qed

lemma idle_fades:
  assumes "distinct (map fst s)" and "\<forall>m \<in> set ms. map_of m i = None"
  shows "distinct (map fst (fold smooth_ecm_map ms s)) \<and>
    (\<forall>q. map_of (fold smooth_ecm_map ms s) i = Some q \<longrightarrow> faded (length ms) q \<and> (ms \<noteq> [] \<longrightarrow> \<not> rates_zero q))"
  using assms(2)
proof (induction ms rule: rev_induct)
  case Nil
  then show ?case using assms(1) by (simp add: faded_0)
next
  case (snoc m ms)
  let ?s = "fold smooth_ecm_map ms s"
  have d: "distinct (map fst ?s)" and IH: "\<forall>q. map_of ?s i = Some q \<longrightarrow> faded (length ms) q" using snoc by simp_all
  have "map_of m i = None" using snoc.prems by simp
  from absent_step [OF d this] IH show ?case
    by (auto simp: distinct_smooth_ecm_map [OF d] faded_Suc simp del: q_decay_rates split: option.splits if_splits)
qed

text \<open>C33: offloaded rates vanish. Whatever rates an interface shows for offloaded traffic, after 125
  ticks in which none of it is booked to the interface, whatever is booked to others meanwhile, its entry
  is gone, and it stays gone. 125 is enough because each tick leaves at most seven tenths of a rate
  below 2 to the 64.\<close>

theorem offloaded_rates_vanish:
  assumes "distinct (map fst s)" and "\<forall>m \<in> set ms. map_of m i = None" and "125 \<le> length ms"
  shows "map_of (fold smooth_ecm_map ms s) i = None"
proof -
  have split: "fold smooth_ecm_map ms s = fold smooth_ecm_map (drop 125 ms) (fold smooth_ecm_map (take 125 ms) s)"
    by (metis append_take_drop_id fold_append o_apply)
  have first: "\<forall>m \<in> set (take 125 ms). map_of m i = None" using assms(2) by (auto dest: in_set_takeD)
  note a = idle_fades [OF assms(1) first]
  have len: "length (take 125 ms) = 125" "take 125 ms \<noteq> []" using assms(3) by auto
  have gone: "map_of (fold smooth_ecm_map (take 125 ms) s) i = None"
    using a len faded_125 by (cases "map_of (fold smooth_ecm_map (take 125 ms) s) i") auto
  have stays: "map_of (fold smooth_ecm_map ns u) i = None"
    if "distinct (map fst u)" "map_of u i = None" "\<forall>m \<in> set ns. map_of m i = None" for ns u
    using that
  proof (induction ns arbitrary: u)
    case (Cons m ns)
    then show ?case using absent_step [OF Cons.prems(1), of m i] by (simp add: distinct_smooth_ecm_map)
  qed simp
  show ?thesis
    unfolding split by (rule stays) (use a gone assms(2) in \<open>auto dest: in_set_dropD\<close>)
qed

theorem offloaded_rates_vanish_witness:
  "map_of (fold smooth_ecm_map (replicate 125 [(4, quad_default)]) [(3, quad_default\<lparr>q_down_v4_bps := 80000000\<rparr>)]) (3 :: u32) = None"
  by (rule offloaded_rates_vanish) simp_all

end
