(* ===== verification/Collector.thy ===== *)
theory Collector
  imports Totals Rates
begin

text \<open>
  The invariant of the collector's state over everything that happens to it: ticks, removals of devices,
  the restoration of saved state and renamed devices. It gives what the histories rely on: a snapshot
  lists every interface and every device once.
\<close>

section \<open>The invariant\<close>

definition registry_ok :: "registry \<Rightarrow> bool" where
  "registry_ok reg =
     (distinct (map fst reg)
      \<and> (\<forall>(key, kd) \<in> set reg. kd_ifindex kd = fst key \<and> kd_mac kd = snd key \<and> length (snd key) = 6))"

definition totals_ok :: "monitor_runtime \<Rightarrow> bool" where
  "totals_ok rt =
     (distinct (map fst (rt_cumulative_iface rt)) \<and> distinct (map fst (rt_cumulative_device rt))
      \<and> distinct (map fst (rt_cumulative_mcast rt)) \<and> distinct (map fst (rt_cumulative_bcast rt))
      \<and> distinct (map fst (rt_cumulative_unresolved rt))
      \<and> distinct (map fst (rt_smoothed_lan_ecm_rates rt)) \<and> distinct (map fst (rt_smoothed_unresolved_ecm_rates rt)))"

text \<open>Every counter with a baseline has a time of its last activity, and the other way round.\<close>

definition baselines_ok :: "monitor_runtime \<Rightarrow> bool" where
  "baselines_ok rt =
     (dom (rt_prev_device_bytes rt) = dom (rt_device_last_active_ms rt)
      \<and> dom (rt_prev_ecm_bytes rt) = dom (rt_ecm_last_active_ms rt))"

definition grace_ok :: "(device_key \<rightharpoonup> u8) \<Rightarrow> bool" where
  "grace_ok m = (\<forall>k g. m k = Some g \<longrightarrow> g \<le> 2)"

definition runtime_ok :: "monitor_runtime \<Rightarrow> bool" where
  "runtime_ok rt =
     (registry_ok (rt_registry rt) \<and> totals_ok rt \<and> baselines_ok rt \<and> grace_ok (rt_ecm_device_grace_ticks rt))"

lemmas runtime_ok_defs = runtime_ok_def totals_ok_def baselines_ok_def

definition group_ok :: "device_group \<Rightarrow> bool" where
  "group_ok devices =
     (distinct (map fst devices)
      \<and> (\<forall>(key, d) \<in> set devices. di_ifindex d = fst key \<and> di_mac d = mac_to_string (snd key) \<and> length (snd key) = 6))"

section \<open>Groups of devices\<close>

lemma registry_ok_update:
  "registry_ok reg \<Longrightarrow> kd_ifindex kd = fst key \<Longrightarrow> kd_mac kd = snd key \<Longrightarrow> length (snd key) = 6 \<Longrightarrow> registry_ok (AList.update key kd reg)"
  using set_alist_update [of key kd reg] by (fastforce simp: registry_ok_def distinct_update)

lemma registry_ok_Nil [simp]: "registry_ok []"
  by (simp add: registry_ok_def)

lemma registry_okD: "registry_ok reg \<Longrightarrow> map_of reg key = Some kd \<Longrightarrow> kd_ifindex kd = fst key \<and> kd_mac kd = snd key \<and> length (snd key) = 6"
  by (auto simp: registry_ok_def dest!: map_of_SomeD)

lemma group_ok_Nil [simp]: "group_ok []"
  by (simp add: group_ok_def)

lemma group_ok_update:
  "group_ok devices \<Longrightarrow> di_ifindex d = fst key \<Longrightarrow> di_mac d = mac_to_string (snd key) \<Longrightarrow> length (snd key) = 6 \<Longrightarrow>
    group_ok (AList.update key d devices)"
  using set_alist_update [of key d devices] by (fastforce simp: group_ok_def distinct_update)

lemma group_okD: "group_ok devices \<Longrightarrow> map_of devices key = Some d \<Longrightarrow> di_ifindex d = fst key \<and> di_mac d = mac_to_string (snd key) \<and> length (snd key) = 6"
  by (auto simp: group_ok_def dest!: map_of_SomeD)

lemma group_ok_activate: "registry_ok reg \<Longrightarrow> group_ok devices \<Longrightarrow> group_ok (activate_known_device reg key now devices)"
  by (auto simp: activate_known_device_def dest: registry_okD intro!: group_ok_update split: option.split)

lemma group_ok_metrics: "group_ok devices \<Longrightarrow> group_ok (add_device_metrics key f devices)"
  by (auto simp: add_device_metrics_def dest: group_okD intro!: group_ok_update split: option.split)

section \<open>Steps that do not touch what the invariant speaks of\<close>

lemma ok_frame:
  "runtime_ok rt \<Longrightarrow> runtime_ok (note_device_capacity now n rt)"
  "runtime_ok rt \<Longrightarrow> runtime_ok (note_insert_failures now fs rt)"
  "runtime_ok rt \<Longrightarrow> runtime_ok (snd (device_prune_due now rt))"
  "runtime_ok rt \<Longrightarrow> runtime_ok (snd (snd (snd (ecm_reading enable inp t rt))))"
  "runtime_ok rt \<Longrightarrow> runtime_ok (snd (ecm_interval_seconds now fb ok rt))"
  "runtime_ok rt \<Longrightarrow> runtime_ok (poll_ipv6_neighbors out now force rt)"
  "runtime_ok rt \<Longrightarrow> runtime_ok (refresh_hostnames inp rt)"
  "runtime_ok rt \<Longrightarrow> runtime_ok (expire_ownership now t rt)"
  "runtime_ok rt \<Longrightarrow> runtime_ok (note_owner enable t now nb rt)"
  "runtime_ok rt \<Longrightarrow> runtime_ok (note_ecm_capacity now m rt)"
  by (simp_all add: runtime_ok_defs note_device_capacity_def note_insert_failures_def device_prune_due_def ecm_reading_def
      ecm_interval_seconds_def poll_ipv6_neighbors_def refresh_hostnames_def expire_ownership_def note_owner_def
      note_ecm_capacity_def Let_def grace_ok_def split: option.split)

lemma ok_pending: "runtime_ok (rt\<lparr>rt_ipv6_neighbor_refresh_pending := b\<rparr>) = runtime_ok rt"
  by (simp add: runtime_ok_defs)

lemma ok_refresh_neighbors: "runtime_ok rt \<Longrightarrow> runtime_ok (snd (refresh_neighbors inp opts t refresh rt))"
  by (simp add: refresh_neighbors_def list_neighbors_filtered_def Let_def ok_frame ok_pending)

lemma fold_keeps: "P s \<Longrightarrow> (\<And>x s. x \<in> set xs \<Longrightarrow> P s \<Longrightarrow> P (f x s)) \<Longrightarrow> P (fold f xs s)"
  by (induction xs arbitrary: s) simp_all

lemma refreshed_macs: "n \<in> set (fst (refresh_neighbors inp opts t refresh rt)) \<Longrightarrow> length (nb_mac n) = 6"
  by (auto simp: refresh_neighbors_def list_neighbors_filtered_def Let_def split: option.splits if_splits
      dest!: mem_listed dest: arp_entryD ipv6_entryD)

section \<open>Neighbours\<close>

lemma set_upd_entry: "set (upd_entry k d f m) \<subseteq> insert (k, f (case map_of m k of None \<Rightarrow> d | Some v \<Rightarrow> v)) (set m)"
  unfolding upd_entry_def by (rule set_alist_update)

lemma grouped_macs:
  fixes s :: "((string \<times> mac) \<times> device_ips) list \<times> monitor_runtime"
  assumes "\<forall>n \<in> set ns. length (nb_mac n) = 6" and "\<forall>e \<in> set (fst s). length (snd (fst e)) = 6" and "runtime_ok (snd s)"
  shows "(\<forall>e \<in> set (fst (fold (group_neighbor enable t now) ns s)). length (snd (fst e)) = 6)
    \<and> runtime_ok (snd (fold (group_neighbor enable t now) ns s))"
proof (rule fold_keeps [where P = "\<lambda>s. (\<forall>e \<in> set (fst s). length (snd (fst e)) = 6) \<and> runtime_ok (snd s)"])
  fix n and s :: "((string \<times> mac) \<times> device_ips) list \<times> monitor_runtime"
  assume n: "n \<in> set ns" and s: "(\<forall>e \<in> set (fst s). length (snd (fst e)) = 6) \<and> runtime_ok (snd s)"
  from set_upd_entry [of "(nb_dev n, nb_mac n)" "([], [], [])" "add_ip n" "fst s"] n s assms(1)
  show "(\<forall>e \<in> set (fst (group_neighbor enable t now n s)). length (snd (fst e)) = 6) \<and> runtime_ok (snd (group_neighbor enable t now n s))"
    by (auto simp: group_neighbor_def ok_frame)
qed (use assms in simp)

lemma group_ok_neighbor_device:
  "length (snd (fst e)) = 6 \<Longrightarrow> group_ok devices \<Longrightarrow> group_ok (neighbor_device t ifs now rt e devices)"
  by (auto simp: neighbor_device_def Let_def case_prod_beta intro!: group_ok_update split: option.split)

lemma neighbor_devices_ok:
  assumes "runtime_ok rt"
  shows "group_ok (fst (neighbor_devices inp opts t refresh rt)) \<and> runtime_ok (snd (neighbor_devices inp opts t refresh rt))"
proof -
  obtain ns rt1 where ns: "refresh_neighbors inp opts t refresh rt = (ns, rt1)" by fastforce
  have macs: "\<forall>n \<in> set ns. length (nb_mac n) = 6" using refreshed_macs [of _ inp opts t refresh rt] ns by simp
  have "runtime_ok rt1" using ok_refresh_neighbors [OF assms, of inp opts t refresh] ns by simp
  then have rt2: "runtime_ok (expire_ownership (si_now inp) t (refresh_hostnames inp rt1))" by (simp add: ok_frame)
  obtain groups rt3 where g: "fold (group_neighbor (so_enable_ecm opts) t (si_now inp)) ns
      ([], expire_ownership (si_now inp) t (refresh_hostnames inp rt1)) = (groups, rt3)" by fastforce
  have "(\<forall>e \<in> set groups. length (snd (fst e)) = 6) \<and> runtime_ok rt3"
    using grouped_macs [OF macs, of "([], expire_ownership (si_now inp) t (refresh_hostnames inp rt1))" "so_enable_ecm opts" t "si_now inp"] rt2 g
    by simp
  then show ?thesis
    by (simp add: neighbor_devices_def Let_def ns g) (rule fold_keeps, simp, simp add: group_ok_neighbor_device)
qed

section \<open>Interface and device counters\<close>

lemma ok_account_iface: "runtime_ok (is_rt s) \<Longrightarrow> runtime_ok (is_rt (account_iface t stats sec name s))"
  by (auto simp: account_iface_def Let_def case_prod_beta runtime_ok_defs distinct_update split: option.split)

lemma ok_account_ifaces: "runtime_ok rt \<Longrightarrow> runtime_ok (is_rt (account_ifaces t ifs stats sec rt))"
  unfolding account_ifaces_def by (rule fold_keeps [where P = "\<lambda>s. runtime_ok (is_rt s)"]) (simp_all add: ok_account_iface)

lemma ok_device_step:
  assumes "runtime_ok (tc_rt s)" and "group_ok (tc_devices s)"
  shows "runtime_ok (tc_rt (device_traffic_step now prune sec wan e s)) \<and> group_ok (tc_devices (device_traffic_step now prune sec wan e s))"
proof -
  obtain k v where e: "e = (k, v)" by (cases e)
  have r: "registry_ok (rt_registry (tc_rt s))" using assms(1) by (simp add: runtime_ok_def)
  have b: "insert k (dom (rt_prev_device_bytes (tc_rt s))) = insert k (dom (rt_device_last_active_ms (tc_rt s)))"
    using assms(1) by (simp add: runtime_ok_defs)
  show ?thesis
    using assms b by (simp add: e Let_def runtime_ok_defs group_ok_activate [OF r] group_ok_metrics)
qed

lemma account_devices_ok:
  assumes "runtime_ok rt" and "group_ok devices"
  shows "runtime_ok (tc_rt (account_devices now prune sec wan stats devices rt)) \<and> group_ok (tc_devices (account_devices now prune sec wan stats devices rt))"
  unfolding account_devices_def
  by (rule fold_keeps [where P = "\<lambda>s. runtime_ok (tc_rt s) \<and> group_ok (tc_devices s)"])
    (use assms in \<open>simp_all add: ok_device_step del: device_traffic_step.simps\<close>)

lemma ok_forget_counter:
  "runtime_ok rt \<Longrightarrow> runtime_ok (rt\<lparr>rt_prev_device_bytes := (rt_prev_device_bytes rt)(k := None),
      rt_device_last_active_ms := (rt_device_last_active_ms rt)(k := None)\<rparr>)"
  by (simp add: runtime_ok_defs)

lemma ok_prune_devices:
  assumes "runtime_ok rt" and "prune_device_counters w ok ks rt = Some (removed, rt')"
  shows "runtime_ok rt'"
proof -
  have "runtime_ok (snd (fold (\<lambda>k (removed, rt).
             if ok k
             then (removed @ [k],
                   rt\<lparr>rt_prev_device_bytes := (rt_prev_device_bytes rt)(k := None),
                      rt_device_last_active_ms := (rt_device_last_active_ms rt)(k := None)\<rparr>)
             else (removed, rt)) ks ([], rt)))"
    by (rule fold_keeps [where P = "\<lambda>s. runtime_ok (snd s)"]) (simp_all add: assms(1) case_prod_beta ok_forget_counter)
  then show ?thesis using assms by (auto simp: prune_device_counters_def split: if_splits)
qed

section \<open>Offloaded traffic\<close>

lemma ok_ecm_delta: "runtime_ok rt \<Longrightarrow> runtime_ok (snd (ecm_delta k n now rt))"
  by (simp add: ecm_delta_def Let_def runtime_ok_defs)

lemma ok_ecm_step:
  assumes "runtime_ok (ec_rt s)" and "group_ok (ec_devices s)"
  shows "runtime_ok (ec_rt (ecm_traffic_step now sec sn e s)) \<and> group_ok (ec_devices (ecm_traffic_step now sec sn e s))"
proof -
  obtain k v where e: "e = (k, v)" by (cases e)
  obtain delta rt where d: "ecm_delta k (tv_bytes v) now (ec_rt s) = (delta, rt)" by fastforce
  have "runtime_ok rt" using ok_ecm_delta [OF assms(1), of k "tv_bytes v" now] d by simp
  moreover from this have "registry_ok (rt_registry rt)" by (simp add: runtime_ok_def)
  ultimately show ?thesis
    using assms(2) by (simp add: e d Let_def group_ok_activate group_ok_metrics split: option.split ecm_class.split)
qed

lemma ok_forget_ecm:
  "runtime_ok rt \<Longrightarrow> runtime_ok (rt\<lparr>rt_prev_ecm_bytes := (rt_prev_ecm_bytes rt)(k := None),
      rt_ecm_last_active_ms := (rt_ecm_last_active_ms rt)(k := None)\<rparr>)"
  by (simp add: runtime_ok_defs)

lemma ok_prune_ecm: "runtime_ok (snd (snd s)) \<Longrightarrow> runtime_ok (snd (snd (prune_ecm_key inp k s)))"
  by (simp add: prune_ecm_key_def Let_def case_prod_beta ok_forget_ecm split: option.split)

lemma dom_retain: "dom (retain (\<lambda>k _. P k) m) = dom m \<inter> Collect P"
  by (auto simp: retain_def split: option.splits if_splits)

lemma ok_retain_ecm:
  "runtime_ok rt \<Longrightarrow> runtime_ok (rt\<lparr>rt_prev_ecm_bytes := retain (\<lambda>k _. P k) (rt_prev_ecm_bytes rt),
      rt_ecm_last_active_ms := retain (\<lambda>k _. P k) (rt_ecm_last_active_ms rt)\<rparr>)"
  by (simp add: runtime_ok_defs dom_retain)

lemma ok_clear_ecm: "runtime_ok rt \<Longrightarrow> runtime_ok (rt\<lparr>rt_prev_ecm_bytes := Map.empty, rt_ecm_last_active_ms := Map.empty\<rparr>)"
  by (simp add: runtime_ok_defs)

lemma account_ecm_ok:
  assumes "runtime_ok rt" and "group_ok devices"
  shows "runtime_ok (ec_rt (fst (account_ecm inp run sec t v6 stats devices rt)))
    \<and> group_ok (ec_devices (fst (account_ecm inp run sec t v6 stats devices rt)))"
proof -
  let ?s0 = "\<lparr>ec_devices = devices, ec_wan = quad_default, ec_unresolved = [], ec_lan = [], ec_active = {}, ec_prune = [], ec_rt = rt\<rparr>"
  let ?s = "fold (ecm_traffic_step (si_now inp) sec (ecm_subnets_of t v6)) stats ?s0"
  have s: "runtime_ok (ec_rt ?s) \<and> group_ok (ec_devices ?s)"
    by (rule fold_keeps [where P = "\<lambda>s. runtime_ok (ec_rt s) \<and> group_ok (ec_devices s)"])
      (use assms in \<open>simp_all add: ok_ecm_step del: ecm_traffic_step.simps\<close>)
  have p: "runtime_ok (snd (snd (fold (prune_ecm_key inp) (ec_prune ?s) ([], stats, ec_rt ?s))))"
    by (rule fold_keeps [where P = "\<lambda>s. runtime_ok (snd (snd s))"]) (use s in \<open>simp_all add: ok_prune_ecm\<close>)
  show ?thesis
    using s p assms
    by (simp add: account_ecm_def Let_def case_prod_beta ok_retain_ecm ok_frame ok_clear_ecm del: ecm_traffic_step.simps)
qed

lemma bindr_update:
  "bindr m (\<lambda>d. Ok (s\<lparr>ec_devices := AList.update k (F d) (ec_devices s), ec_active := A d\<rparr>)) = Ok s' \<Longrightarrow>
    \<exists>d. m = Ok d \<and> ec_devices s' = AList.update k (F d) (ec_devices s)"
  by (auto simp: bindr_Ok_iff)

lemma add_wan_device_group:
  assumes "add_wan_device t now q s = Ok s'" and "group_ok (ec_devices s)"
  shows "group_ok (ec_devices s')"
proof (cases "wan_index t")
  case (Some i)
  have six: "length mac_wan = 6" by (simp add: mac_wan_def)
  note d = bindr_update [OF assms(1) [unfolded add_wan_device_def Some option.case Let_def]]
  then show ?thesis
  proof (elim exE conjE)
    fix d
    assume d: "(case map_of (ec_devices s) (i, mac_wan) of
                  Some d \<Rightarrow> Ok d
                | None \<Rightarrow> (case by_ifindex t i of
                    None \<Rightarrow> Panic
                  | Some f \<Rightarrow> Ok \<lparr>di_ifindex = i, di_logical_iface = if_name f, di_subnet = [], di_ipv4 = [], di_ipv6 = [],
                      di_mac = mac_to_string mac_wan, di_hostname = ''WAN (External)'', di_metrics = quad_default,
                      di_cumulative = quad_default, di_online = True, di_last_seen_ms = now, di_neighbor_state = None\<rparr>)) = Ok d"
    have "di_ifindex d = i \<and> di_mac d = mac_to_string mac_wan"
      using d group_okD [OF assms(2), of "(i, mac_wan)" d] by (auto split: option.splits)
    moreover assume "ec_devices s' = AList.update (i, mac_wan) (d\<lparr>di_online := True, di_last_seen_ms := now,
        di_metrics := if quad_is_empty (ec_wan s) then if quad_is_empty q then di_metrics d else add_quad (di_metrics d) q
          else add_quad (if quad_is_empty q then di_metrics d else add_quad (di_metrics d) q) (ec_wan s)\<rparr>) (ec_devices s)"
    ultimately show ?thesis using assms(2) six by (simp add: group_ok_update)
  qed
qed (use assms in \<open>simp add: add_wan_device_def\<close>)

section \<open>Totals, registry and lists\<close>

lemma grace_ok_upd: "grace_ok m \<Longrightarrow> g \<le> 2 \<Longrightarrow> grace_ok (m(k \<mapsto> g))"
  by (simp add: grace_ok_def)

lemma grace_ok_le: "grace_ok m \<Longrightarrow> m k = Some g \<Longrightarrow> g \<le> 2 \<and> sat_sub g 1 \<le> 2"
proof -
  assume "grace_ok m" and "m k = Some g"
  then have "g \<le> 2" unfolding grace_ok_def by blast
  moreover from this have "unat g - 1 \<le> 2" by (simp add: word_le_nat_alt)
  ultimately show ?thesis by (simp add: word_le_nat_alt unat_sat_sub)
qed

lemma total_device_ok:
  assumes "runtime_ok (snd s)" and "group_ok (fst s @ e # es)"
  shows "runtime_ok (snd (total_device active e s)) \<and> group_ok (fst (total_device active e s) @ es)
    \<and> map fst (fst (total_device active e s)) = map fst (fst s) @ [fst e]"
proof -
  obtain key d where e: "e = (key, d)" by (cases e)
  obtain done' rt where s: "s = (done', rt)" by (cases s)
  have rt: "runtime_ok rt" and es: "group_ok (done' @ (key, d) # es)" using assms by (simp_all add: s e)
  have grace: "grace_ok ((rt_ecm_device_grace_ticks rt)(key \<mapsto> g))"
      "grace_ok ((rt_ecm_device_grace_ticks rt)(key \<mapsto> sat_sub g 1))"
    if "rt_ecm_device_grace_ticks rt key = Some g" for g
    using rt grace_ok_le [of "rt_ecm_device_grace_ticks rt" key g] that by (simp_all add: runtime_ok_def grace_ok_upd)
  have swap: "group_ok (done' @ (key, d') # es)" if "di_ifindex d' = di_ifindex d" "di_mac d' = di_mac d" for d'
    using es that by (simp add: group_ok_def)
  from rt have "runtime_ok (snd (total_device active e s))"
    by (simp add: grace s e total_device_def Let_def runtime_ok_defs distinct_update split: option.split)
  moreover have "group_ok (fst (total_device active e s) @ es)"
    by (simp add: s e total_device_def Let_def swap split: option.split)
  moreover have "map fst (fst (total_device active e s)) = map fst (fst s) @ [fst e]"
    by (simp add: s e total_device_def Let_def split: option.split)
  ultimately show ?thesis by simp
qed

lemma total_devices_ok:
  assumes "runtime_ok rt" and "group_ok devices"
  shows "runtime_ok (snd (total_devices active devices rt)) \<and> group_ok (fst (total_devices active devices rt))
    \<and> map fst (fst (total_devices active devices rt)) = map fst devices"
proof -
  let ?rt = "rt\<lparr>rt_ecm_device_grace_ticks := (\<lambda>k. if k \<in> active then Some 2 else rt_ecm_device_grace_ticks rt k)\<rparr>"
  have rt: "runtime_ok ?rt" using assms(1) by (simp add: runtime_ok_defs grace_ok_def)
  have run: "runtime_ok (snd (fold (total_device active) es s)) \<and> group_ok (fst (fold (total_device active) es s))
      \<and> map fst (fst (fold (total_device active) es s)) = map fst (fst s) @ map fst es"
    if "runtime_ok (snd s)" "group_ok (fst s @ es)" for es s
    using that
  proof (induction es arbitrary: s)
    case (Cons e es)
    from total_device_ok [OF Cons.prems] Cons.IH [of "total_device active e s"] show ?case by simp
  qed simp
  have "grace_ok m \<Longrightarrow> grace_ok (retain P m)" for P m
    by (auto simp: grace_ok_def retain_def split: option.splits if_splits)
  then show ?thesis
    using run [of "([], ?rt)" devices] rt assms(2)
    by (simp add: total_devices_def Let_def case_prod_beta runtime_ok_defs)
qed

lemma register_ok:
  assumes "registry_ok reg" and "\<forall>(key, d) \<in> set devices. di_ifindex d = fst key \<and> length (snd key) = 6"
  shows "registry_ok (fold (register_device now) devices reg)"
  by (rule fold_keeps) (use assms in \<open>auto simp: register_device_def intro!: registry_ok_update\<close>)

lemma listed_once:
  assumes "group_ok devices" and "registry_ok (rt_registry rt)"
  shows "distinct (map (\<lambda>d. (di_ifindex d, di_mac d)) (list_devices t ifs devices rt))"
proof -
  let ?id = "\<lambda>d. (di_ifindex d, di_mac d)" and ?name = "\<lambda>(i, m). (i, mac_to_string m)"
  let ?off = "filter (\<lambda>(key, kd). key \<notin> fst ` set devices \<and> offline_listed t ifs kd) (rt_registry rt)"
  let ?keys = "map fst devices @ map fst ?off"
  have six: "\<forall>k \<in> set ?keys. length (snd k) = 6" using assms by (auto simp: group_ok_def registry_ok_def)
  have "distinct (map fst devices)" and "distinct (map fst ?off)"
    using assms by (simp_all add: group_ok_def registry_ok_def distinct_map_filter)
  moreover have "set (map fst devices) \<inter> set (map fst ?off) = {}" by (auto simp: image_iff)
  ultimately have "distinct ?keys" by simp
  moreover have "inj_on ?name (set ?keys)"
  proof (rule inj_onI)
    fix x y
    assume x: "x \<in> set ?keys" and y: "y \<in> set ?keys" and n: "?name x = ?name y"
    from x y six have "length (snd x) = 6" "length (snd y) = 6" by blast+
    with n show "x = y" using mac_to_string_inj [of "snd x" "snd y"] by (simp add: case_prod_beta prod_eq_iff)
  qed
  ultimately have d: "distinct (map ?name ?keys)" by (simp only: distinct_map)
  have ids: "map ?id (map snd devices @ map (\<lambda>(key, kd). offline_device (rt_cumulative_device rt) (mac_to_string (kd_mac kd)) (kd_ifindex kd) key kd) ?off)
      = map ?name ?keys"
    using assms by (simp add: group_ok_def registry_ok_def offline_device_def case_prod_beta)
  have "mset (map ?id (list_devices t ifs devices rt))
      = mset (map ?name ?keys)"
    unfolding list_devices_def ids [symmetric] mset_map mset_sort ..
  then have "distinct (map ?id (list_devices t ifs devices rt)) = distinct (map ?name ?keys)"
    by (rule mset_eq_imp_distinct_iff)
  with d show ?thesis by blast
qed


section \<open>The interfaces of a snapshot\<close>

definition items_ok :: "topology \<Rightarrow> iface_item list \<Rightarrow> bool" where
  "items_ok t items =
     (distinct (map ii_ifindex items)
      \<and> (\<forall>it \<in> set items. names_of t (ii_ifname it) = Some (ii_ifindex it)
           \<and> (case by_ifindex t (ii_ifindex it) of None \<Rightarrow> False | Some f \<Rightarrow> ii_zone it = if_zone f)))"

lemma account_iface_items:
  assumes "topology_ok t" and "items_ok t (is_items s)" and "n \<notin> ii_ifname ` set (is_items s)"
  shows "items_ok t (is_items (account_iface t stats sec n s))
    \<and> ii_ifname ` set (is_items (account_iface t stats sec n s)) \<subseteq> insert n (ii_ifname ` set (is_items s))"
proof (cases "names_of t n")
  case (Some i)
  obtain f where f: "by_ifindex t i = Some f" using names_ofD [OF assms(1) Some] by blast
  have "i \<notin> ii_ifindex ` set (is_items s)"
    using assms(2,3) names_of_inj [OF assms(1) Some] by (fastforce simp: items_ok_def)
  with assms(2) Some f show ?thesis
    by (auto simp: account_iface_def Let_def case_prod_beta items_ok_def)
qed (use assms in \<open>auto simp: account_iface_def\<close>)

lemma account_ifaces_items:
  assumes "topology_ok t"
  shows "items_ok t (is_items (account_ifaces t ifs stats sec rt))"
proof -
  have "items_ok t (is_items (fold (account_iface t stats sec) ns s))"
    if "items_ok t (is_items s)" "distinct ns" "set ns \<inter> ii_ifname ` set (is_items s) = {}" for ns s
    using that
  proof (induction ns arbitrary: s)
    case (Cons n ns)
    have "n \<notin> ii_ifname ` set (is_items s)" using Cons.prems(3) by auto
    from account_iface_items [OF assms Cons.prems(1) this, of stats sec] Cons.prems(2,3)
    have "items_ok t (is_items (account_iface t stats sec n s))"
      and "set ns \<inter> ii_ifname ` set (is_items (account_iface t stats sec n s)) = {}" by auto
    with Cons.IH [of "account_iface t stats sec n s"] Cons.prems(2) show ?case by simp
  qed simp
  from this [of "\<lparr>is_items = [], is_wan_metrics = quad_default, is_rt = rt\<rparr>", OF _ distinct_first_names]
  show ?thesis by (simp add: account_ifaces_def items_ok_def)
qed

lemma add_wan_iface_once:
  assumes "topology_ok t" and "items_ok t items"
  shows "distinct (map ii_ifindex (add_wan_iface t rt items))"
proof (cases "list_ex (\<lambda>i. ii_zone i = ''wan'') items \<or> wan_index t = None")
  case True
  then show ?thesis using assms(2) by (auto simp: add_wan_iface_def items_ok_def wan_index_def split: option.split)
next
  case False
  then obtain i where i: "wan_index t = Some i" by blast
  then obtain f where f: "List.find (\<lambda>i. if_zone i = ''wan'') (topology_interfaces t) = Some f" "if_ifindex f = i"
    by (auto simp: wan_index_def)
  obtain g where g: "by_ifindex t i = Some g" "if_zone g = ''wan''" using wan_index_listed [OF assms(1) i] by blast
  have "ii_ifindex it \<noteq> i" if it: "it \<in> set items" for it
  proof
    assume "ii_ifindex it = i"
    with assms(2) it g have "ii_zone it = ''wan''" unfolding items_ok_def by fastforce
    with it False show False by (auto simp: list_ex_iff)
  qed
  then have "i \<notin> ii_ifindex ` set items" by auto
  then show ?thesis using assms(2) False f by (simp add: add_wan_iface_def items_ok_def)
qed

lemma index_breakdowns: "map ii_ifindex (fst (apply_tc_breakdowns m b u its rt)) = map ii_ifindex its"
  by (induction its arbitrary: rt) (simp_all add: Let_def case_prod_beta tc_breakdown_step_def)

lemma ok_breakdowns: "runtime_ok rt \<Longrightarrow> runtime_ok (snd (apply_tc_breakdowns m b u its rt))"
proof (induction its arbitrary: rt)
  case (Cons it its)
  have "runtime_ok (snd (tc_breakdown_step m b u it rt))"
    using Cons.prems by (simp add: tc_breakdown_step_def Let_def runtime_ok_defs distinct_update)
  then show ?case by (simp add: Let_def case_prod_beta Cons.IH)
qed simp

lemma inject_ecm_ok:
  "ii_ifindex (fst (inject_ecm w r it rt)) = ii_ifindex it"
  "runtime_ok rt \<Longrightarrow> runtime_ok (snd (inject_ecm w r it rt))"
  by (simp_all add: inject_ecm_def Let_def case_prod_beta runtime_ok_defs distinct_update split: option.split)

lemma index_inject_all: "map ii_ifindex (fst (inject_ecm_all w r its rt)) = map ii_ifindex its"
  by (induction its arbitrary: rt) (simp_all add: Let_def case_prod_beta inject_ecm_ok)

lemma ok_inject_all: "runtime_ok rt \<Longrightarrow> runtime_ok (snd (inject_ecm_all w r its rt))"
  by (induction its arbitrary: rt) (simp_all add: Let_def case_prod_beta inject_ecm_ok)

lemma ecm_on_ifaces_ok:
  "map ii_ifindex (fst (ecm_on_ifaces t s its rt)) = map ii_ifindex its"
  "runtime_ok rt \<Longrightarrow> runtime_ok (snd (ecm_on_ifaces t s its rt))"
  by (simp_all add: ecm_on_ifaces_def Let_def index_inject_all)
    (rule ok_inject_all, simp add: runtime_ok_defs distinct_smooth_ecm_map)


section \<open>A tick keeps the invariant\<close>

lemma ok_stamps:
  "runtime_ok (rt\<lparr>rt_last_snapshot_ms := a\<rparr>) = runtime_ok rt"
  "runtime_ok (rt\<lparr>rt_last_sync_tracking_ms := b\<rparr>) = runtime_ok rt"
  by (simp_all add: runtime_ok_defs)

lemma book_counters_ok:
  fixes inp opts t iface_stats device_stats failures rt
  defines "tk \<equiv> book_counters inp opts t iface_stats device_stats failures rt"
  assumes "runtime_ok rt" and "topology_ok t"
  shows "runtime_ok (tc_rt (tk_tc tk)) \<and> group_ok (tc_devices (tk_tc tk)) \<and> items_ok t (is_items (tk_ifs tk))"
proof -
  let ?now = "si_now inp" and ?enable = "so_enable_ecm opts"
  obtain prune rt1 where p: "device_prune_due ?now (note_insert_failures ?now failures rt) = (prune, rt1)" by fastforce
  obtain ecm_stats ecm_ok refresh rt2 where e: "ecm_reading ?enable inp t rt1 = (ecm_stats, ecm_ok, refresh, rt2)"
    by (metis prod_cases4)
  let ?sec = "snapshot_seconds (so_interval opts) ?now (rt_last_snapshot_ms rt2)" and ?rt3 = "rt2\<lparr>rt_last_snapshot_ms := Some ?now\<rparr>"
  obtain ecm_sec rt4 where s: "(if ?enable then ecm_interval_seconds ?now ?sec ecm_ok ?rt3 else (?sec, ?rt3)) = (ecm_sec, rt4)"
    by fastforce
  let ?rt5 = "if sat_sub ?now (rt_last_sync_tracking_ms rt4) \<ge> 60000 then rt4\<lparr>rt_last_sync_tracking_ms := ?now\<rparr> else rt4"
  let ?ifs = "account_ifaces t (so_monitor_ifaces opts) iface_stats ?sec ?rt5"
  obtain devices rt6 where n: "neighbor_devices inp opts t refresh (is_rt ?ifs) = (devices, rt6)" by fastforce
  have "runtime_ok rt1" using ok_frame(2,3) [of rt] assms(2) p by (metis ok_frame(3) snd_conv)
  then have "runtime_ok rt2" using ok_frame(4) [of rt1 ?enable inp t] e by simp
  then have "runtime_ok rt4" using ok_frame(5) [of ?rt3 ?now ?sec ecm_ok] s by (auto simp: ok_stamps split: if_splits)
  then have "runtime_ok ?rt5" by (simp add: ok_stamps)
  then have "runtime_ok (is_rt ?ifs)" by (rule ok_account_ifaces)
  from neighbor_devices_ok [OF this, of inp opts t refresh] n have "group_ok devices" "runtime_ok rt6" by simp_all
  from account_devices_ok [OF this(2,1)] account_ifaces_items [OF assms(3)]
  show ?thesis unfolding tk_def book_counters_def Let_def p e s n prod.case by (simp only: tick_state.simps)
qed

lemma finish_snapshot_ok:
  assumes "finish_snapshot inp opts t ok ifs tc eff ecm = SnapOk d e rt'"
    and "topology_ok t" and "runtime_ok (ec_rt ecm)" and "group_ok (ec_devices ecm)" and "items_ok t (is_items ifs)"
  shows "runtime_ok rt' \<and> distinct (map ii_ifindex (sd_interfaces d))
    \<and> distinct (map (\<lambda>x. (di_ifindex x, di_mac x)) (sd_devices d))"
proof -
  obtain devices rt1 where td: "total_devices (ec_active ecm) (ec_devices ecm) (ec_rt ecm) = (devices, rt1)" by fastforce
  let ?rt2 = "rt1\<lparr>rt_registry := fold (register_device (si_now inp)) devices (rt_registry rt1)\<rparr>"
  obtain items rt3 where it: "apply_tc_breakdowns (tc_mcast tc) (tc_bcast tc) (tc_unresolved tc)
      (add_wan_iface t ?rt2 (is_items ifs)) ?rt2 = (items, rt3)" by fastforce
  obtain items' rt4 where ec: "(if ok then ecm_on_ifaces t ecm items rt3 else (items, rt3)) = (items', rt4)" by fastforce
  have d: "sd_interfaces d = items'" "sd_devices d = list_devices t (so_monitor_ifaces opts) devices ?rt2" "rt' = rt4"
    using assms(1) unfolding finish_snapshot_def Let_def td it ec prod.case by auto
  from total_devices_ok [OF assms(3,4), of "ec_active ecm"] td have rt1: "runtime_ok rt1" and g: "group_ok devices" by simp_all
  have reg: "registry_ok (rt_registry ?rt2)"
    using rt1 g by (auto simp: runtime_ok_def group_ok_def intro!: register_ok)
  then have rt2: "runtime_ok ?rt2" using rt1 by (simp add: runtime_ok_defs)
  have rt3: "runtime_ok rt3" using ok_breakdowns [OF rt2] it by (metis snd_conv)
  have ix: "map ii_ifindex items = map ii_ifindex (add_wan_iface t ?rt2 (is_items ifs))"
    using index_breakdowns it by (metis fst_conv)
  have "map ii_ifindex items' = map ii_ifindex items \<and> runtime_ok rt4"
    using ec ecm_on_ifaces_ok(1) [of t ecm items rt3] ecm_on_ifaces_ok(2) [OF rt3, of t ecm items] rt3
    by (auto split: if_splits)
  then show ?thesis
    using listed_once [OF g reg] add_wan_iface_once [OF assms(2,5)] ix d by simp
qed


lemma tick_keeps:
  assumes "topology_ok t" and "runtime_ok rt"
  shows "collect_snapshot inp opts t rt = SnapErr rt' \<Longrightarrow> runtime_ok rt'"
    and "collect_snapshot inp opts t rt = SnapOk d e rt' \<Longrightarrow> runtime_ok rt' \<and> distinct (map ii_ifindex (sd_interfaces d))
      \<and> distinct (map (\<lambda>x. (di_ifindex x, di_mac x)) (sd_devices d))"
proof -
  have "case collect_snapshot inp opts t rt of SnapPanic \<Rightarrow> True | SnapErr rt' \<Rightarrow> runtime_ok rt'
    | SnapOk d e rt' \<Rightarrow> runtime_ok rt' \<and> distinct (map ii_ifindex (sd_interfaces d))
        \<and> distinct (map (\<lambda>x. (di_ifindex x, di_mac x)) (sd_devices d))"
  proof (cases "read_iface_stats (si_iface_map inp) = None \<or> read_device_stats (si_device_map inp) = None
      \<or> read_device_insert_failures (si_failures inp) = None")
    case True
    then show ?thesis using assms(2) by (auto simp: collect_snapshot_def Let_def ok_frame split: option.split)
  next
    case False
    then obtain ifs devs failures where r: "read_iface_stats (si_iface_map inp) = Some ifs"
      "read_device_stats (si_device_map inp) = Some devs" "read_device_insert_failures (si_failures inp) = Some failures" by auto
    let ?tk = "book_counters inp opts t ifs devs failures (note_device_capacity (si_now inp) (length devs) rt)"
    have tk: "runtime_ok (tc_rt (tk_tc ?tk))" "group_ok (tc_devices (tk_tc ?tk))" "items_ok t (is_items (tk_ifs ?tk))"
      using book_counters_ok [OF ok_frame(1) [OF assms(2)] assms(1)] by auto
    show ?thesis
    proof (cases "prune_device_counters (si_device_map_writable inp) (si_device_remove inp) (tc_inactive (tk_tc ?tk)) (tc_rt (tk_tc ?tk))")
      case None
      then show ?thesis using tk(1) by (simp add: collect_snapshot_def r Let_def)
    next
      case (Some rr)
      obtain removed rt2 where rr: "rr = (removed, rt2)" by (cases rr)
      let ?ecm = "account_ecm inp (so_enable_ecm opts \<and> tk_ecm_ok ?tk) (tk_ecm_sec ?tk) t (local_v6_subnets (so_enable_ecm opts) t)
          (tk_ecm_stats ?tk) (tc_devices (tk_tc ?tk)) rt2"
      have "runtime_ok rt2" using ok_prune_devices [OF tk(1)] Some rr by simp
      from account_ecm_ok [OF this tk(2)] have ecm: "runtime_ok (ec_rt (fst ?ecm))" "group_ok (ec_devices (fst ?ecm))" by auto
      obtain ecm' where w: "add_wan_device t (si_now inp) (is_wan_metrics (tk_ifs ?tk)) (fst ?ecm) = Ok ecm'"
        using add_wan_device_ok [OF assms(1)] by blast
      have ecm': "runtime_ok (ec_rt ecm')" "group_ok (ec_devices ecm')"
        using ecm add_wan_device_group [OF w] add_wan_device_rt [OF w] by simp_all
      have out: "collect_snapshot inp opts t rt
          = finish_snapshot inp opts t (so_enable_ecm opts \<and> tk_ecm_ok ?tk) (tk_ifs ?tk) (tk_tc ?tk)
              \<lparr>se_removed_devices = removed, se_removed_ecm = snd ?ecm, se_sync_filters = tk_sync ?tk\<rparr> ecm'"
        by (simp add: collect_snapshot_def r Let_def Some rr case_prod_beta w)
      obtain d e rt' where fin: "collect_snapshot inp opts t rt = SnapOk d e rt'"
        unfolding out finish_snapshot_def Let_def case_prod_beta by blast
      from finish_snapshot_ok [OF fin [unfolded out] assms(1) ecm' tk(3)] fin show ?thesis by simp
    qed
  qed
  then show "collect_snapshot inp opts t rt = SnapErr rt' \<Longrightarrow> runtime_ok rt'"
    and "collect_snapshot inp opts t rt = SnapOk d e rt' \<Longrightarrow> runtime_ok rt' \<and> distinct (map ii_ifindex (sd_interfaces d))
      \<and> distinct (map (\<lambda>x. (di_ifindex x, di_mac x)) (sd_devices d))" by simp_all
qed

lemma registry_ok_delete: "registry_ok reg \<Longrightarrow> registry_ok (AList.delete k reg)"
  by (auto simp: registry_ok_def distinct_keys_filter AList.delete_eq)

lemma grace_ok_drop: "grace_ok m \<Longrightarrow> grace_ok (m(k := None))"
  by (simp add: grace_ok_def)

lemma ok_remove_device: "runtime_ok rt \<Longrightarrow> runtime_ok (snd (remove_device i m rt))"
  by (simp add: remove_device_def runtime_ok_defs registry_ok_delete distinct_delete grace_ok_drop)

lemma ok_import: "runtime_ok rt \<Longrightarrow> runtime_ok (import_runtime_state st t rt)"
proof -
  have "registry_ok (fold (import_device t) (ms_known_devices st) [])"
    by (rule fold_keeps)
      (auto simp: import_device_def dest: mac_from_str_length intro!: registry_ok_update split: option.split sum.split)
  moreover have "distinct (map fst (import_breakdown t ps))" for ps
    unfolding import_breakdown_def by (rule fold_keeps) (auto simp: distinct_update split: option.split)
  ultimately show "runtime_ok rt \<Longrightarrow> ?thesis" by (simp add: import_runtime_state_def runtime_ok_defs)
qed


section \<open>The start\<close>

lemma distinct_map_sort: "distinct (map f (sort_key g xs)) = distinct (map f xs)"
  by (rule mset_eq_imp_distinct_iff) simp

lemma foldl_keeps: "P s \<Longrightarrow> (\<And>x s. x \<in> set xs \<Longrightarrow> P s \<Longrightarrow> P (f s x)) \<Longrightarrow> P (foldl f s xs)"
  by (induction xs arbitrary: s) simp_all

lemma distinct_cumulative:
  "distinct (map fst (fst (cumulative_from_all h)))" "distinct (map fst (snd (cumulative_from_all h)))"
proof -
  have "distinct (map fst (fst (cumulative_from_completed h)))" "distinct (map fst (snd (cumulative_from_completed h)))"
    unfolding cumulative_from_completed_def fst_conv snd_conv
    by (rule foldl_keeps; auto simp: distinct_update split: sum.split)+
  then show "distinct (map fst (fst (cumulative_from_all h)))" "distinct (map fst (snd (cumulative_from_all h)))"
    unfolding cumulative_from_all_def Let_def case_prod_beta fst_conv snd_conv
    by - (rule foldl_keeps; auto simp: distinct_upd_entry split: sum.split)+
qed

lemma ok_cumulative:
  "runtime_ok rt \<Longrightarrow> runtime_ok (rt\<lparr>rt_cumulative_iface := fst (cumulative_from_all h),
      rt_cumulative_device := snd (cumulative_from_all h)\<rparr>)"
  by (simp add: runtime_ok_defs distinct_cumulative)

lemma runtime_default_ok: "runtime_ok runtime_default"
  by (simp add: runtime_ok_defs runtime_default_def grace_ok_def)

lemma recovered_once:
  assumes "runtime_ok rt"
  shows "distinct (map ii_ifindex (sd_interfaces (build_recovered_snapshot rt t now)))
    \<and> distinct (map (\<lambda>x. (di_ifindex x, di_mac x)) (sd_devices (build_recovered_snapshot rt t now)))"
proof
  have "map ii_ifindex (List.map_filter (recovered_iface rt t) es)
      = filter (\<lambda>i. by_ifindex t i \<noteq> None) (map fst es)" for es
    by (induction es) (simp_all add: map_filter_simps recovered_iface_def split: option.split)
  then have "distinct (map ii_ifindex (List.map_filter (recovered_iface rt t) (rt_cumulative_iface rt)))"
    using assms by (simp add: runtime_ok_defs)
  then show "distinct (map ii_ifindex (sd_interfaces (build_recovered_snapshot rt t now)))"
    by (simp add: build_recovered_snapshot_def distinct_map)
next
  let ?name = "\<lambda>k. (fst k, mac_to_string (snd k))"
  have reg: "registry_ok (rt_registry rt)" using assms by (simp add: runtime_ok_def)
  have "inj_on ?name (fst ` set (rt_registry rt))"
  proof (rule inj_onI)
    fix x y
    assume "x \<in> fst ` set (rt_registry rt)" "y \<in> fst ` set (rt_registry rt)" and n: "?name x = ?name y"
    then have "length (snd x) = 6" "length (snd y) = 6" using reg unfolding registry_ok_def by fastforce+
    with n show "x = y" using mac_to_string_inj [of "snd x" "snd y"] by (simp add: prod_eq_iff)
  qed
  then have "distinct (map ?name (map fst (rt_registry rt)))"
    using reg by (simp only: distinct_map registry_ok_def set_map)
  then have "distinct (map ((\<lambda>x. (di_ifindex x, di_mac x)) \<circ> (\<lambda>(key, kd). offline_device (rt_cumulative_device rt)
      (mac_to_string (snd key)) (fst key) key kd)) (rt_registry rt))"
    by (simp add: offline_device_def case_prod_beta comp_def)
  then show "distinct (map (\<lambda>x. (di_ifindex x, di_mac x)) (sd_devices (build_recovered_snapshot rt t now)))"
    by (simp add: build_recovered_snapshot_def distinct_map_sort)
qed

end
