(* ===== verification/Device_Store.thy ===== *)
theory Device_Store
  imports Collector Traffic_History Persistence
begin

text \<open>
  What the parts of the program that keep data per device promise about dropping a device: the collector's
  state, the recent history, the histogram and the snapshot. The deletion request of the API and the
  cleanup of expired devices rely on it.
\<close>

section \<open>The interface\<close>

locale device_store =
  fixes drop :: "device_key \<Rightarrow> 's \<Rightarrow> 's \<times> bool"
    and about :: "device_key \<Rightarrow> 's \<Rightarrow> 'v"
    and nothing :: 'v
  assumes dropped: "about k (fst (drop k s)) = nothing"
    and others: "length (snd k) = 6 \<Longrightarrow> length (snd k') = 6 \<Longrightarrow> k' \<noteq> k \<Longrightarrow> about k' (fst (drop k s)) = about k' s"
    and noted: "snd (drop k s) = (about k s \<noteq> nothing)"
begin

lemma about_drop:
  "length (snd k) = 6 \<Longrightarrow> length (snd k') = 6 \<Longrightarrow> about k' (fst (drop k s)) = (if k' = k then nothing else about k' s)"
  by (simp add: dropped others)

lemma about_drops:
  assumes "\<forall>k \<in> set ks. length (snd k) = 6" and "length (snd k') = 6"
  shows "about k' (fold (\<lambda>k s. fst (drop k s)) ks s) = (if k' \<in> set ks then nothing else about k' s)"
  using assms by (induction ks arbitrary: s) (auto simp: about_drop)

lemma noted_again: "\<not> snd (drop k (fst (drop k s)))"
  by (simp add: noted dropped)

end

section \<open>Device names\<close>

lemma lower_join: "to_ascii_lowercase (join sep ss) = join (to_ascii_lowercase sep) (map to_ascii_lowercase ss)"
  by (induction sep ss rule: join.induct) (simp_all add: lower_append, simp add: to_ascii_lowercase_def)

lemma lower_mac [simp]: "to_ascii_lowercase (mac_to_string m) = mac_to_string m"
proof -
  have "to_ascii_lowercase '':'' = '':''" by (simp add: to_ascii_lowercase_def ascii_lower_def)
  then show ?thesis by (simp add: mac_to_string_def lower_join comp_def)
qed

text \<open>Devices whose text matches a device's, ignoring case, are that device.\<close>

lemma matches_one_mac:
  assumes "eq_ignore_ascii_case s (mac_to_string m)" and "eq_ignore_ascii_case s (mac_to_string m')"
    and "length m = 6" and "length m' = 6"
  shows "m = m'"
  using assms mac_to_string_inj [of m m'] by (simp add: eq_ignore_ascii_case_def)

section \<open>The stores\<close>

definition drop_runtime :: "device_key \<Rightarrow> monitor_runtime \<Rightarrow> monitor_runtime \<times> bool" where
  "drop_runtime k rt = (snd (remove_device (fst k) (snd k) rt), fst (remove_device (fst k) (snd k) rt))"

definition runtime_about :: "device_key \<Rightarrow> monitor_runtime \<Rightarrow> known_device option \<times> quad option \<times> quad option" where
  "runtime_about k rt = (map_of (rt_registry rt) k, map_of (rt_cumulative_device rt) k, rt_smoothed_rates rt k)"

definition drop_history :: "device_key \<Rightarrow> traffic_history \<Rightarrow> traffic_history \<times> bool" where
  "drop_history k t = traffic_remove_device (fst k) (mac_to_string (snd k)) t"

definition drop_histogram :: "device_key \<Rightarrow> histogram \<Rightarrow> histogram \<times> bool" where
  "drop_histogram k h = hist_remove_device (fst k) (mac_to_string (snd k)) h"

text \<open>The entries of a list of series that a device's name matches.\<close>

definition entries_about :: "device_key \<Rightarrow> (series_key \<times> 'v) list \<Rightarrow> (series_key \<times> 'v) list" where
  "entries_about k m = filter (\<lambda>e. key_matches (fst k) (mac_to_string (snd k)) (fst e)) m"

definition histogram_about :: "device_key \<Rightarrow> histogram \<Rightarrow> (series_key \<times> bucket) list \<times> (series_key \<times> bucket list) list" where
  "histogram_about k h = (entries_about k (current_hour_device h), entries_about k (completed_device h))"

definition names_device :: "device_key \<Rightarrow> device_item \<Rightarrow> bool" where
  "names_device k d = (di_ifindex d = fst k \<and> eq_ignore_ascii_case (di_mac d) (mac_to_string (snd k)))"

definition drop_listed :: "device_key \<Rightarrow> snapshot_data \<Rightarrow> snapshot_data \<times> bool" where
  "drop_listed k snap =
     (let kept = filter (\<lambda>d. \<not> names_device k d) (sd_devices snap)
      in (snap\<lparr>sd_devices := kept\<rparr>, length kept \<noteq> length (sd_devices snap)))"

definition listed_about :: "device_key \<Rightarrow> snapshot_data \<Rightarrow> device_item list" where
  "listed_about k snap = filter (names_device k) (sd_devices snap)"

text \<open>Filtering: dropping the entries of one name leaves those of the others.\<close>

lemma entries_dropped:
  "entries_about k (filter (\<lambda>(k', v). sk_ifindex k' \<noteq> fst k \<or> \<not> eq_ignore_ascii_case (sk_mac k') (mac_to_string (snd k))) m) = []"
  by (auto simp: entries_about_def key_matches_def filter_empty_conv)

lemma entries_others:
  assumes "length (snd k) = 6" and "length (snd k') = 6" and "k' \<noteq> k"
  shows "entries_about k' (filter (\<lambda>(k', v). sk_ifindex k' \<noteq> fst k \<or> \<not> eq_ignore_ascii_case (sk_mac k') (mac_to_string (snd k))) m)
    = entries_about k' m"
proof -
  have "key_matches (fst k') (mac_to_string (snd k')) s \<Longrightarrow> \<not> key_matches (fst k) (mac_to_string (snd k)) s" for s
    using matches_one_mac [of "sk_mac s" "snd k" "snd k'"] assms by (auto simp: key_matches_def prod_eq_iff)
  then show ?thesis
    unfolding entries_about_def filter_filter by (intro filter_cong) (auto simp: key_matches_def)
qed

lemma length_kept: "length (filter P xs) \<noteq> length xs \<longleftrightarrow> filter (\<lambda>x. \<not> P x) xs \<noteq> []"
  using sum_length_filter_compl [of P xs] by auto

lemma kept_entries:
  "filter (\<lambda>e. \<not> (case e of (k', v) \<Rightarrow> sk_ifindex k' \<noteq> fst k \<or> \<not> eq_ignore_ascii_case (sk_mac k') (mac_to_string (snd k)))) m = entries_about k m"
  unfolding entries_about_def by (rule filter_cong) (auto simp: key_matches_def)

interpretation runtime_store: device_store drop_runtime runtime_about "(None, None, None)"
  by unfold_locales (auto simp: drop_runtime_def runtime_about_def remove_device_def delete_conv')

text \<open>The filter of both \<open>remove_device\<close> functions on series.\<close>

abbreviation keeps :: "device_key \<Rightarrow> series_key \<times> 'v \<Rightarrow> bool" where
  "keeps k \<equiv> \<lambda>(k', v). sk_ifindex k' \<noteq> fst k \<or> \<not> eq_ignore_ascii_case (sk_mac k') (mac_to_string (snd k))"

lemma some_dropped: "(\<exists>e \<in> set m. \<not> keeps k e) = (entries_about k m \<noteq> [])"
  unfolding entries_about_def key_matches_def filter_empty_conv by force

lemma drop_history_eq:
  "drop_history k t = (t\<lparr>device_series := filter (keeps k) (device_series t)\<rparr>, entries_about k (device_series t) \<noteq> [])"
  unfolding drop_history_def traffic_remove_device_def Let_def length_kept kept_entries ..

lemma drop_histogram_eq:
  "drop_histogram k h = (h\<lparr>current_hour_device := filter (keeps k) (current_hour_device h),
      completed_device := filter (keeps k) (completed_device h)\<rparr>,
    entries_about k (current_hour_device h) \<noteq> [] \<or> entries_about k (completed_device h) \<noteq> [])"
  unfolding drop_histogram_def hist_remove_device_def Let_def some_dropped ..

lemma about_kept:
  "entries_about k (filter (keeps k) m) = []"
  "length (snd k) = 6 \<Longrightarrow> length (snd k') = 6 \<Longrightarrow> k' \<noteq> k \<Longrightarrow> entries_about k' (filter (keeps k) m) = entries_about k' m"
  by (rule entries_dropped, rule entries_others)

lemma kept_series:
  "device_series (fst (drop_history k t)) = filter (keeps k) (device_series t)"
  "current_hour_device (fst (drop_histogram k h)) = filter (keeps k) (current_hour_device h)"
  "completed_device (fst (drop_histogram k h)) = filter (keeps k) (completed_device h)"
  by (simp_all add: drop_history_eq drop_histogram_eq)

lemma noted_series:
  "snd (drop_history k t) = (entries_about k (device_series t) \<noteq> [])"
  "snd (drop_histogram k h) = (entries_about k (current_hour_device h) \<noteq> [] \<or> entries_about k (completed_device h) \<noteq> [])"
  by (simp_all only: drop_history_eq drop_histogram_eq snd_conv)

interpretation history_store: device_store drop_history "\<lambda>k t. entries_about k (device_series t)" "[]"
  by unfold_locales (simp_all only: kept_series about_kept(1) noted_series, rule about_kept(2))

interpretation histogram_store: device_store drop_histogram histogram_about "([], [])"
  by unfold_locales
    (simp_all only: kept_series about_kept(1) histogram_about_def noted_series prod.inject de_Morgan_conj, intro conjI about_kept(2))

interpretation snapshot_store: device_store drop_listed listed_about "[]"
proof unfold_locales
  fix k k' :: device_key and snap
  show "listed_about k (fst (drop_listed k snap)) = []"
    by (simp add: listed_about_def drop_listed_def Let_def filter_empty_conv)
  show "snd (drop_listed k snap) = (listed_about k snap \<noteq> [])"
    by (simp add: listed_about_def drop_listed_def Let_def length_kept)
  assume "length (snd k) = 6" "length (snd k') = 6" "k' \<noteq> k"
  then have "names_device k' d \<Longrightarrow> \<not> names_device k d" for d
    using matches_one_mac [of "di_mac d" "snd k" "snd k'"] by (auto simp: names_device_def prod_eq_iff)
  then show "listed_about k' (fst (drop_listed k snap)) = listed_about k' snap"
    unfolding listed_about_def drop_listed_def Let_def fst_conv by (auto simp: filter_filter intro!: filter_cong)
qed

end
