(* ===== verification/State_Files.thy ===== *)
theory State_Files
  imports Runtime
begin

text \<open>
  The two JSON state files of \<open>persistence.rs\<close>: the known devices with the breakdown totals
  (\<open>devices_state.json\<close>) and the running hour (\<open>current_hour_state.json\<close>). Files are written to a
  temporary name and renamed; a file that cannot be parsed is moved to a quarantine name.

  The text format is that of \<open>serde_json\<close>, which is not part of the program: the encoder and the
  decoder are parameters (\<open>to_json\<close>, \<open>from_json\<close>), and what is used of them is that decoding the encoding of a value gives the
  value. Where an I/O call of the write fails, or the machine stops, is the parameter \<open>write_end\<close>.
\<close>

section \<open>Atomic writes\<close>

datatype write_end = CreateFails | WriteStops nat | SyncFails | RenameFails | WriteDone

definition json_tmp_path :: "env \<Rightarrow> path \<Rightarrow> path" where
  "json_tmp_path e p = with_extension p (''tmp.'' @ dec (unat (env_now_ms e)))"

fun write_json_atomic :: "write_end \<Rightarrow> env \<Rightarrow> path \<Rightarrow> bytes \<Rightarrow> files \<Rightarrow> files \<times> unit res" where
  "write_json_atomic CreateFails e p payload fs = (fs, Fail)"
| "write_json_atomic (WriteStops n) e p payload fs = (fs(json_tmp_path e p \<mapsto> take n payload), Fail)"
| "write_json_atomic SyncFails e p payload fs = (fs(json_tmp_path e p \<mapsto> payload), Fail)"
| "write_json_atomic RenameFails e p payload fs = (fs(json_tmp_path e p \<mapsto> payload), Fail)"
| "write_json_atomic WriteDone e p payload fs = ((fs(json_tmp_path e p := None))(p \<mapsto> payload), Ok ())"

definition read_json_or_quarantine :: "(bytes \<Rightarrow> 'a option) \<Rightarrow> bool \<Rightarrow> env \<Rightarrow> path \<Rightarrow> files \<Rightarrow> files \<times> 'a option res" where
  "read_json_or_quarantine from_json readable e p fs =
     (case fs p of
        None \<Rightarrow> (fs, Ok None)
      | Some content \<Rightarrow>
          if \<not> readable then (quarantine_bad_file e p fs, Fail)
          else (case from_json content of
                  Some v \<Rightarrow> (fs, Ok (Some v))
                | None \<Rightarrow> (quarantine_bad_file e p fs, Ok None)))"

section \<open>The two files\<close>

record devices_file =
  df_schema_version :: u32
  df_state :: monitor_runtime_state

abbreviation devices_schema_version :: u32 where "devices_schema_version \<equiv> 1"

definition save_monitor_runtime ::
  "(devices_file \<Rightarrow> bytes) \<Rightarrow> write_end \<Rightarrow> env \<Rightarrow> manager \<Rightarrow> monitor_runtime \<Rightarrow> topology \<Rightarrow> files \<Rightarrow> files \<times> unit res" where
  "save_monitor_runtime to_json w e m rt t fs =
     write_json_atomic w e (pm_devices_path m)
       (to_json \<lparr>df_schema_version = devices_schema_version, df_state = export_runtime_state rt t\<rparr>) fs"

definition load_monitor_runtime ::
  "(bytes \<Rightarrow> devices_file option) \<Rightarrow> bool \<Rightarrow> env \<Rightarrow> manager \<Rightarrow> topology \<Rightarrow> files \<times> monitor_runtime \<Rightarrow> (files \<times> monitor_runtime) \<times> unit res" where
  "load_monitor_runtime from_json readable e m t s =
     (case read_json_or_quarantine from_json readable e (pm_devices_path m) (fst s) of
        (fs, Ok (Some d)) \<Rightarrow>
          if df_schema_version d \<noteq> devices_schema_version then ((fs, snd s), Fail)
          else ((fs, import_runtime_state (df_state d) t (snd s)), Ok ())
      | (fs, Ok None) \<Rightarrow> ((fs, snd s), Ok ())
      | (fs, Fail) \<Rightarrow> ((fs, snd s), Fail)
      | (fs, Panic) \<Rightarrow> ((fs, snd s), Panic))"

definition save_current_hour ::
  "(current_hour_file \<Rightarrow> bytes) \<Rightarrow> write_end \<Rightarrow> env \<Rightarrow> manager \<Rightarrow> histogram \<Rightarrow> topology \<Rightarrow> files \<Rightarrow> files \<times> unit res" where
  "save_current_hour to_json w e m h t fs =
     write_json_atomic w e (pm_current_hour_path m) (to_json (save_current_hour_histogram h t)) fs"

definition load_current_hour ::
  "(bytes \<Rightarrow> current_hour_file option) \<Rightarrow> bool \<Rightarrow> env \<Rightarrow> manager \<Rightarrow> (u64 \<Rightarrow> u64 \<times> u64) \<Rightarrow> u64 \<Rightarrow> topology \<Rightarrow> files \<times> histogram
   \<Rightarrow> (files \<times> histogram) \<times> unit res" where
  "load_current_hour from_json readable e m hour now_ms t s =
     (case read_json_or_quarantine from_json readable e (pm_current_hour_path m) (fst s) of
        (fs, Ok d) \<Rightarrow> ((fs, load_current_hour_histogram hour now_ms d t (snd s)), Ok ())
      | (fs, Fail) \<Rightarrow> ((fs, snd s), Fail)
      | (fs, Panic) \<Rightarrow> ((fs, snd s), Panic))"

section \<open>What is on disk\<close>

text \<open>The temporary name never is the name of the file.\<close>

lemma tmp_neq: "p = (d, ''devices_state.json'') \<or> p = (d, ''current_hour_state.json'') \<Longrightarrow> json_tmp_path e p \<noteq> p"
  by (auto simp: json_tmp_path_def with_extension_def file_stem_def)

lemma manager_paths:
  assumes "manager_new d days = Some m"
  shows "json_tmp_path e (pm_devices_path m) \<noteq> pm_devices_path m"
    and "json_tmp_path e (pm_current_hour_path m) \<noteq> pm_current_hour_path m"
  using assms tmp_neq [of "pm_devices_path m" d e] tmp_neq [of "pm_current_hour_path m" d e]
  by (auto simp: manager_new_def split: if_splits)

lemma write_keeps_or_replaces:
  assumes "json_tmp_path e p \<noteq> p" and "write_json_atomic w e p payload fs = (fs', r)"
  shows "fs' p = (if w = WriteDone then Some payload else fs p)" and "q \<noteq> p \<Longrightarrow> q \<noteq> json_tmp_path e p \<Longrightarrow> fs' q = fs q"
    and "r = (if w = WriteDone then Ok () else Fail)"
  using assms by (cases w; auto)+

text \<open>A sequence of saves, each ending somewhere.\<close>

fun save_all :: "('a \<Rightarrow> bytes) \<Rightarrow> path \<Rightarrow> (write_end \<times> env \<times> 'a) list \<Rightarrow> files \<Rightarrow> files" where
  "save_all to_json p [] fs = fs"
| "save_all to_json p ((w, e, x) # ws) fs = save_all to_json p ws (fst (write_json_atomic w e p (to_json x) fs))"

fun last_saved :: "(write_end \<times> env \<times> 'a) list \<Rightarrow> 'a option \<Rightarrow> 'a option" where
  "last_saved [] x0 = x0"
| "last_saved ((w, e, x) # ws) x0 = last_saved ws (if w = WriteDone then Some x else x0)"

lemma last_saved_default: "last_saved ws x0 = (case last_saved ws None of None \<Rightarrow> x0 | Some x \<Rightarrow> Some x)"
proof (induction ws arbitrary: x0)
  case (Cons s ws)
  obtain w e x where s: "s = (w, e, x)" by (cases s)
  show ?case using Cons [of "Some x"] Cons [of x0] by (auto simp: s split: option.split)
qed simp

lemma save_all_content:
  "\<forall>(w, e, x) \<in> set ws. json_tmp_path e p \<noteq> p \<Longrightarrow>
    save_all to_json p ws fs p = (case last_saved ws None of None \<Rightarrow> fs p | Some x \<Rightarrow> Some (to_json x))"
proof (induction ws arbitrary: fs)
  case (Cons s ws)
  obtain w e x where s: "s = (w, e, x)" by (cases s)
  let ?fs = "fst (write_json_atomic w e p (to_json x) fs)"
  have "?fs p = (if w = WriteDone then Some (to_json x) else fs p)"
    using Cons.prems write_keeps_or_replaces(1) [of e p w "to_json x" fs ?fs "snd (write_json_atomic w e p (to_json x) fs)"] by (simp add: s)
  then show ?case
    using Cons last_saved_default [of ws "Some x"] by (auto simp: s split: option.split)
qed simp


text \<open>A damaged file costs only its own content: it is moved to its quarantine name and the service starts
  without it.\<close>

lemma damaged_state_quarantined:
  assumes "fs (pm_devices_path m) = Some content" and "from_json content = None"
  shows "load_monitor_runtime from_json True e m t (fs, rt)
    = ((fs(pm_devices_path m := None, bad_path e (pm_devices_path m) := Some content), rt), Ok ())"
  using assms by (simp add: load_monitor_runtime_def read_json_or_quarantine_def quarantine_bad_file_def)


end
