(* ===== verification/Api.thy ===== *)
theory Api
  imports Api_Query Device_Store State_Files
begin

text \<open>
  The server side of \<open>api.rs\<close>: starting it, the bearer token in front of every handler, the routes, and the
  two requests that change state, renaming and deleting a device. Parsing HTTP, JSON, TLS and the CORS layer belong to
  axum, hyper, rustls and tower; what is used of them is a parameter.
\<close>

section \<open>Starting the server\<close>

text \<open>\<open>parse::<HeaderValue>\<close> is the parameter \<open>header_valid\<close>.\<close>

definition parse_cors_origin :: "(string \<Rightarrow> bool) \<Rightarrow> string \<Rightarrow> string res" where
  "parse_cors_origin header_valid origin =
     (case (case strip_prefix ''http://'' origin of Some a \<Rightarrow> Some a | None \<Rightarrow> strip_prefix ''https://'' origin) of
        None \<Rightarrow> Fail
      | Some authority \<Rightarrow>
         if authority \<noteq> [] \<and> CHR ''/'' \<notin> set authority \<and> CHR ''?'' \<notin> set authority \<and> CHR ''#'' \<notin> set authority
            \<and> CHR ''@'' \<notin> set authority
         then if header_valid origin then Ok origin else Fail
         else Fail)"

text \<open>Loading the two PEM files is the parameter \<open>from_pem\<close>.\<close>

definition load_tls_config :: "(string \<Rightarrow> string \<Rightarrow> 'c option) \<Rightarrow> string option \<Rightarrow> string option \<Rightarrow> 'c option res" where
  "load_tls_config from_pem cert key =
     (case (cert, key) of
        (Some c, Some k) \<Rightarrow> (case from_pem c k of None \<Rightarrow> Fail | Some cfg \<Rightarrow> Ok (Some cfg))
      | (None, None) \<Rightarrow> Ok None
      | _ \<Rightarrow> Fail)"

record 'c api_server =
  sv_tls :: "'c option"
  sv_bearer_token :: string
  sv_cors_origin :: "string option"

text \<open>\<open>start_server\<close> up to serving requests: \<open>token_file\<close> is what reading the token file returns, \<open>bound\<close> whether the
  address could be bound.\<close>

definition start_server ::
  "(string \<Rightarrow> string \<Rightarrow> 'c option) \<Rightarrow> (string \<Rightarrow> bool) \<Rightarrow> string option \<Rightarrow> bool \<Rightarrow> string option \<Rightarrow> string option \<Rightarrow> string option \<Rightarrow> 'c api_server res" where
  "start_server from_pem header_valid token_file bound tls_cert tls_key cors_origin =
     bindr (load_tls_config from_pem tls_cert tls_key) (\<lambda>tls.
     bindr (of_opt token_file) (\<lambda>content.
       let bearer_token = trim content in
       if length bearer_token < 32 then Fail
       else bindr (case cors_origin of None \<Rightarrow> Ok None
                   | Some c \<Rightarrow> bindr (parse_cors_origin header_valid c) (\<lambda>v. Ok (Some v))) (\<lambda>cors.
            if bound then Ok \<lparr>sv_tls = tls, sv_bearer_token = bearer_token, sv_cors_origin = cors\<rparr> else Fail)))"

section \<open>The token\<close>

unbundle bit_operations_syntax

definition bearer_token_matches :: "bytes \<Rightarrow> bytes \<Rightarrow> bool" where
  "bearer_token_matches supplied expected =
     (fold (\<lambda>i difference. difference OR ((if i < length supplied then supplied ! i else 0) XOR expected ! i))
        [0..<length expected] (if length supplied \<noteq> length expected then 1 else 0) = 0)"

text \<open>A request, and what a handler answers. \<open>ht_authorization\<close> is the header's text when it is visible ASCII.\<close>

record http_request =
  ht_method :: string
  ht_path :: string
  ht_authorization :: "string option"

datatype 'a response = Unauthorized | NoRoute | Answer 'a

definition require_bearer_token :: "string \<Rightarrow> http_request \<Rightarrow> ('s \<Rightarrow> 's \<times> 'a response) \<Rightarrow> 's \<Rightarrow> 's \<times> 'a response" where
  "require_bearer_token bearer_token request next s =
     (if ht_method request = ''OPTIONS'' then next s
      else (let supplied = (case ht_authorization request of None \<Rightarrow> []
                            | Some v \<Rightarrow> (case strip_prefix ''Bearer '' v of None \<Rightarrow> [] | Some t \<Rightarrow> t))
            in if \<not> bearer_token_matches (bytes_of_string supplied) (bytes_of_string bearer_token) then (s, Unauthorized) else next s))"

datatype api_route =
    Health | GetSnapshot | GetOverview | GetDevices | DeleteDevice | PutHostname | GetTrend | GetHistogram | GetRanking
  | GetConnectionDevices | GetConnectionFlows | GetDnsQueries | GetDnsStats | GetDnsConfig

text \<open>The routes. A \<open>get\<close> route of axum also answers \<open>HEAD\<close>.\<close>

definition get_route :: "string \<Rightarrow> api_route option" where
  "get_route p = map_of
     [(''/api/health'', Health), (''/api/snapshot'', GetSnapshot), (''/api/overview'', GetOverview), (''/api/devices'', GetDevices),
      (''/api/trend'', GetTrend), (''/api/histogram'', GetHistogram), (''/api/usage_ranking'', GetRanking),
      (''/api/connection/devices'', GetConnectionDevices), (''/api/connection/flows'', GetConnectionFlows),
      (''/api/dns/queries'', GetDnsQueries), (''/api/dns/stats'', GetDnsStats), (''/api/dns/config'', GetDnsConfig)] p"

definition route :: "http_request \<Rightarrow> api_route option" where
  "route r =
     (if ht_method r = ''GET'' \<or> ht_method r = ''HEAD'' then get_route (ht_path r)
      else if ht_method r = ''DELETE'' \<and> ht_path r = ''/api/devices'' then Some DeleteDevice
      else if ht_method r = ''PUT'' \<and> ht_path r = ''/api/devices/hostname'' then Some PutHostname
      else None)"

definition serve :: "string \<Rightarrow> (api_route \<Rightarrow> http_request \<Rightarrow> 's \<Rightarrow> 's \<times> 'a) \<Rightarrow> http_request \<Rightarrow> 's \<Rightarrow> 's \<times> 'a response" where
  "serve bearer_token handle r =
     require_bearer_token bearer_token r
       (\<lambda>s. case route r of None \<Rightarrow> (s, NoRoute) | Some h \<Rightarrow> (let (s', a) = handle h r s in (s', Answer a)))"

lemma or_fold_zero: "(fold (\<lambda>i d. d OR f i) is a = 0) = (a = 0 \<and> (\<forall>i \<in> set is. f i = 0))" for a :: u8
  by (induction "is" arbitrary: a) (auto simp: or_eq_0_iff)

lemma xor_zero: "(a XOR b = 0) = (a = b)" for a b :: u8
  by (auto simp: bit_eq_iff bit_simps)

lemma matches_iff_equal: "bearer_token_matches supplied expected \<longleftrightarrow> supplied = expected"
proof -
  let ?s = "\<lambda>i. if i < length supplied then supplied ! i else 0"
  have "bearer_token_matches supplied expected
      \<longleftrightarrow> length supplied = length expected \<and> (\<forall>i \<in> set [0..<length expected]. ?s i XOR expected ! i = 0)"
    unfolding bearer_token_matches_def or_fold_zero by simp
  also have "\<dots> \<longleftrightarrow> length supplied = length expected \<and> (\<forall>i < length expected. ?s i = expected ! i)"
    unfolding xor_zero by auto
  also have "\<dots> \<longleftrightarrow> supplied = expected"
    by (metis (no_types, lifting) nth_equalityI)
  finally show ?thesis .
qed

text \<open>Comparing tokens decides equality. The comparison that looks at every byte of the configured token, without an
  early exit, accepts exactly the configured token.\<close>

theorem bearer_token_matches_iff: "bearer_token_matches supplied expected \<longleftrightarrow> supplied = expected"
  by (rule matches_iff_equal)

lemma bytes_of_string_inj: "bytes_of_string a = bytes_of_string b \<longleftrightarrow> a = b"
  by (metis string_of_bytes_of_string)

lemma options_not_routed: "ht_method r = ''OPTIONS'' \<Longrightarrow> route r = None"
  by (simp add: route_def)

lemma strip_prefix_Some_iff: "strip_prefix p s = Some r \<longleftrightarrow> s = p @ r"
  by (auto simp: strip_prefix_def starts_with_def) (metis append_take_drop_id)

lemma token_length: "start_server from_pem header_valid f b c k o' = Ok sv \<Longrightarrow> 32 \<le> length (sv_bearer_token sv)"
  by (auto simp: start_server_def Let_def bindr_Ok_iff split: if_splits)

lemma served_with_token:
  assumes "start_server from_pem header_valid token_file bound tls_cert tls_key cors_origin = Ok sv"
    and "serve (sv_bearer_token sv) handle r s = (s', a)"
  shows "32 \<le> length (sv_bearer_token sv)
    \<and> (if ht_method r \<noteq> ''OPTIONS'' \<and> route r \<noteq> None \<and> ht_authorization r = Some (''Bearer '' @ sv_bearer_token sv)
       then (s', a) = (let (s', x) = handle (the (route r)) r s in (s', Answer x))
       else s' = s \<and> (a = Unauthorized \<or> a = NoRoute))"
proof -
  have long: "32 \<le> length (sv_bearer_token sv)" by (rule token_length [OF assms(1)])
  let ?supplied = "case ht_authorization r of None \<Rightarrow> []
      | Some v \<Rightarrow> (case strip_prefix ''Bearer '' v of None \<Rightarrow> [] | Some t \<Rightarrow> t)"
  have "?supplied = sv_bearer_token sv \<longleftrightarrow> ht_authorization r = Some (''Bearer '' @ sv_bearer_token sv)"
  proof (cases "ht_authorization r")
    case (Some v)
    show ?thesis
    proof (cases "strip_prefix ''Bearer '' v")
      case None
      then have "v \<noteq> ''Bearer '' @ sv_bearer_token sv" by (metis option.distinct(1) strip_prefix_Some_iff)
      with Some None long show ?thesis by auto
    next
      case t: (Some t)
      then have "v = ''Bearer '' @ t" by (simp only: strip_prefix_Some_iff)
      with Some t show ?thesis by simp
    qed
  qed (use long in auto)
  then show ?thesis
    using assms(2) long options_not_routed [of r]
    by (auto simp: serve_def require_bearer_token_def Let_def matches_iff_equal bytes_of_string_inj split: if_splits option.splits prod.splits)
qed

text \<open>C8: no handler runs without the token. For a server that started, whatever the handlers do, a request that is
  answered by a handler or changes the state named a route, was not a preflight request, and carried the header
  \<open>Bearer\<close> with exactly the configured token, which has at least 32 characters; every other request leaves the state as it was.\<close>

theorem no_handler_without_token:
  assumes "start_server from_pem header_valid token_file bound tls_cert tls_key cors_origin = Ok sv"
    and "serve (sv_bearer_token sv) handle r s = (s', a)"
  shows "32 \<le> length (sv_bearer_token sv)
    \<and> (if ht_method r \<noteq> ''OPTIONS'' \<and> route r \<noteq> None \<and> ht_authorization r = Some (''Bearer '' @ sv_bearer_token sv)
       then (s', a) = (let (s', x) = handle (the (route r)) r s in (s', Answer x))
       else s' = s \<and> (a = Unauthorized \<or> a = NoRoute))"
  by (rule served_with_token [OF assms])

text \<open>A request with the token reaches its handler, one without does not.\<close>

definition sample_token :: string where
  "sample_token = replicate 32 CHR ''k''"

definition sample_request :: "string \<Rightarrow> string \<Rightarrow> string option \<Rightarrow> http_request" where
  "sample_request m p a = \<lparr>ht_method = m, ht_path = p, ht_authorization = a\<rparr>"

lemma sample_server:
  "start_server (\<lambda>_ _. None) (\<lambda>_. True) (Some sample_token) True None None None
    = Ok (\<lparr>sv_tls = None, sv_bearer_token = sample_token, sv_cors_origin = None\<rparr> :: unit api_server)"
proof -
  have "trim sample_token = sample_token" by code_simp
  then show ?thesis by (simp add: start_server_def load_tls_config_def Let_def) (simp add: sample_token_def)
qed

theorem no_handler_without_token_witness:
  "snd (serve sample_token (\<lambda>h r n. (Suc n, n)) (sample_request ''DELETE'' ''/api/devices'' (Some (''Bearer '' @ sample_token))) 7) = Answer 7
   \<and> fst (serve sample_token (\<lambda>h r n. (Suc n, n)) (sample_request ''DELETE'' ''/api/devices'' (Some ''Bearer guess'')) 7) = (7 :: nat)"
proof -
  let ?h = "\<lambda>(h :: api_route) (r :: http_request) (n :: nat). (Suc n, n)"
  let ?good = "sample_request ''DELETE'' ''/api/devices'' (Some (''Bearer '' @ sample_token))"
    and ?bad = "sample_request ''DELETE'' ''/api/devices'' (Some ''Bearer guess'')"
  have "''guess'' \<noteq> sample_token" by code_simp
  obtain s a s' a' where g: "serve sample_token ?h ?good 7 = (s, a)" and b: "serve sample_token ?h ?bad 7 = (s', a')" by fastforce
  have r: "route ?good = Some DeleteDevice" "route ?bad = Some DeleteDevice"
    by (simp_all add: route_def sample_request_def)
  from no_handler_without_token [OF sample_server, of ?h ?good 7 s a] no_handler_without_token [OF sample_server, of ?h ?bad 7 s' a']
  show ?thesis using r g b \<open>''guess'' \<noteq> sample_token\<close> by (simp add: sample_request_def split: if_splits)
qed

section \<open>The state behind the handlers\<close>

record api_state =
  as_snapshot :: snapshot_data
  as_history :: traffic_history
  as_histogram :: histogram
  as_runtime :: monitor_runtime
  as_topology :: topology
  as_dns :: dns_monitor
  as_connections :: conntrack_state
  as_persistence :: "manager option"
  as_files :: files

text \<open>The surroundings of one request: the clock, the process and time a file is written by, how the write ends
  (\<open>write_end\<close>), \<open>serde_json\<close>, and the text of an error value.\<close>

record api_env =
  ae_now_ms :: u64
  ae_env :: env
  ae_write :: write_end
  ae_to_json :: "devices_file \<Rightarrow> bytes"
  ae_error_text :: string

definition persist_monitor_runtime_state :: "api_env \<Rightarrow> api_state \<Rightarrow> api_state \<times> unit res" where
  "persist_monitor_runtime_state ev s =
     (case as_persistence s of
        None \<Rightarrow> (s, Ok ())
      | Some m \<Rightarrow> (let (fs, r) = save_monitor_runtime (ae_to_json ev) (ae_write ev) (ae_env ev) m (as_runtime s) (as_topology s) (as_files s)
                  in (s\<lparr>as_files := fs\<rparr>, r)))"

text \<open>\<open>persist_device_deletion_state\<close> has the same body.\<close>

definition persist_device_deletion_state :: "api_env \<Rightarrow> api_state \<Rightarrow> api_state \<times> unit res" where
  "persist_device_deletion_state ev s =
     (case as_persistence s of
        None \<Rightarrow> (s, Ok ())
      | Some m \<Rightarrow> (let (fs, r) = save_monitor_runtime (ae_to_json ev) (ae_write ev) (ae_env ev) m (as_runtime s) (as_topology s) (as_files s)
                  in (s\<lparr>as_files := fs\<rparr>, r)))"

section \<open>Naming a device\<close>

text \<open>The loop over the listed devices: all that match are renamed, the last one is remembered.\<close>

definition rename_listed :: "device_key \<Rightarrow> string \<Rightarrow> snapshot_data \<Rightarrow> snapshot_data" where
  "rename_listed k hostname snap =
     snap\<lparr>sd_devices := map (\<lambda>d. if names_device k d then d\<lparr>di_hostname := hostname\<rparr> else d) (sd_devices snap)\<rparr>"

definition last_renamed :: "device_key \<Rightarrow> snapshot_data \<Rightarrow> device_item option" where
  "last_renamed k snap = (case filter (names_device k) (sd_devices snap) of [] \<Rightarrow> None | ds \<Rightarrow> Some (List.last ds))"

text \<open>The registry: a known device gets the name, a device that is only listed is entered.\<close>

definition rename_known :: "u64 \<Rightarrow> device_key \<Rightarrow> string \<Rightarrow> device_item option \<Rightarrow> registry \<Rightarrow> registry option" where
  "rename_known now k hostname listed reg =
     (case map_of reg k of
        Some known \<Rightarrow> Some (AList.update k (known\<lparr>kd_hostname := hostname\<rparr>) reg)
      | None \<Rightarrow> (case listed of
          Some dev \<Rightarrow> Some (AList.update k \<lparr>kd_ifindex = fst k, kd_mac = snd k, kd_ipv4 = di_ipv4 dev, kd_ipv6 = di_ipv6 dev,
            kd_hostname = hostname, kd_logical_iface = di_logical_iface dev, kd_subnet = di_subnet dev, kd_last_seen_ms = now\<rparr> reg)
        | None \<Rightarrow> None))"

definition set_device_hostname_handler ::
  "api_env \<Rightarrow> string \<Rightarrow> string \<Rightarrow> string \<Rightarrow> api_state \<Rightarrow> api_state \<times> string envelope" where
  "set_device_hostname_handler ev iface0 mac0 hostname0 s =
     (let iface = trim iface0; mac_raw = trim mac0; hostname = trim hostname0
      in if iface = [] then (s, refused ''error'' ''iface is required'')
         else if mac_raw = [] then (s, refused ''error'' ''mac is required'')
         else if hostname = [] then (s, refused ''error'' ''hostname is required'')
         else (case ifindex_by_name (as_topology s) iface of
            None \<Rightarrow> (s, refused ''error'' (''unknown iface: '' @ iface))
          | Some i \<Rightarrow>
             (case mac_from_str mac_raw of
                Inl _ \<Rightarrow> (s, refused ''error'' ''invalid mac format'')
              | Inr mac \<Rightarrow>
                 (let s1 = s\<lparr>as_snapshot := rename_listed (i, mac) hostname (as_snapshot s)\<rparr>
                  in case rename_known (ae_now_ms ev) (i, mac) hostname (last_renamed (i, mac) (as_snapshot s1)) (rt_registry (as_runtime s1)) of
                       None \<Rightarrow> (s1, refused ''error'' ''device not found'')
                     | Some reg \<Rightarrow>
                        (case persist_monitor_runtime_state ev (s1\<lparr>as_runtime := (as_runtime s1)\<lparr>rt_registry := reg\<rparr>\<rparr>) of
                           (s2, Ok _) \<Rightarrow> (s2, answered ''ok'')
                         | (s2, _) \<Rightarrow> (s2, refused ''error'' (''persist devices state failed: '' @ ae_error_text ev)))))))"

section \<open>Deleting a device\<close>

record delete_result =
  dr_device_state_deleted :: bool
  dr_traffic_data_deleted :: bool

definition delete_device_error :: "string \<Rightarrow> delete_result envelope" where
  "delete_device_error message = refused \<lparr>dr_device_state_deleted = False, dr_traffic_data_deleted = False\<rparr> message"

definition delete_device_handler :: "api_env \<Rightarrow> string \<Rightarrow> string \<Rightarrow> api_state \<Rightarrow> api_state \<times> delete_result envelope" where
  "delete_device_handler ev iface0 mac0 s =
     (let iface = trim iface0
      in if iface = [] then (s, delete_device_error ''iface is required'')
         else (case mac_from_str (trim mac0) of
            Inl _ \<Rightarrow> (s, delete_device_error ''invalid mac format'')
          | Inr mac \<Rightarrow>
             (case ifindex_by_name (as_topology s) iface of
                None \<Rightarrow> (s, delete_device_error (''unknown iface: '' @ iface))
              | Some i \<Rightarrow>
                 (let (snap, snapshot_deleted) = drop_listed (i, mac) (as_snapshot s);
                      (rt, runtime_deleted) = drop_runtime (i, mac) (as_runtime s);
                      (th, recent_traffic_deleted) = drop_history (i, mac) (as_history s);
                      (h, histogram_deleted) = drop_histogram (i, mac) (as_histogram s);
                      s1 = s\<lparr>as_snapshot := snap, as_runtime := rt, as_history := th, as_histogram := h\<rparr>;
                      (fs, disk) = (case as_persistence s of
                          Some m \<Rightarrow> delete_device_traffic m iface (mac_to_string mac) (as_files s)
                        | None \<Rightarrow> (as_files s, Ok False));
                      s2 = s1\<lparr>as_files := fs\<rparr>
                  in case disk of
                       Ok disk_traffic_deleted \<Rightarrow>
                         (case persist_device_deletion_state ev s2 of
                            (s3, Ok _) \<Rightarrow> (s3, answered \<lparr>dr_device_state_deleted = (snapshot_deleted \<or> runtime_deleted),
                              dr_traffic_data_deleted = (recent_traffic_deleted \<or> histogram_deleted \<or> disk_traffic_deleted)\<rparr>)
                          | (s3, _) \<Rightarrow> (s3, delete_device_error (''persist device deletion failed: '' @ ae_error_text ev)))
                     | _ \<Rightarrow> (s2, delete_device_error (''delete device traffic failed: '' @ ae_error_text ev))))))"


section \<open>What the requests do\<close>

lemma manager_dirs:
  assumes "manager_new d days = Some m"
  shows "device_ring_path m iface hx \<noteq> pm_devices_path m" and "device_ring_path m iface hx \<noteq> json_tmp_path e (pm_devices_path m)"
  using assms by (auto simp: manager_new_def device_ring_path_def json_tmp_path_def with_extension_def split: if_splits)

lemma persist_frame:
  assumes "persist_device_deletion_state ev s = (s', r)"
  shows "s' = s\<lparr>as_files := as_files s'\<rparr>"
  using assms by (auto simp: persist_device_deletion_state_def split: option.splits prod.splits)

lemma persist_files:
  assumes "persist_device_deletion_state ev s = (s', Ok ())" and "as_persistence s = Some m" and "manager_new d days = Some m"
  shows "as_files s' (pm_devices_path m)
      = Some (ae_to_json ev \<lparr>df_schema_version = devices_schema_version, df_state = export_runtime_state (as_runtime s) (as_topology s)\<rparr>)"
    and "p \<noteq> pm_devices_path m \<Longrightarrow> p \<noteq> json_tmp_path (ae_env ev) (pm_devices_path m) \<Longrightarrow> as_files s' p = as_files s p"
proof -
  obtain fs where w: "save_monitor_runtime (ae_to_json ev) (ae_write ev) (ae_env ev) m (as_runtime s) (as_topology s) (as_files s) = (fs, Ok ())"
    and s': "as_files s' = fs"
    using assms(1,2) by (auto simp: persist_device_deletion_state_def split: prod.splits)
  note k = write_keeps_or_replaces [OF manager_paths(1) [OF assms(3)] w [unfolded save_monitor_runtime_def]]
  from k(3) have "ae_write ev = WriteDone" by (auto split: if_splits)
  with k(1) s' show "as_files s' (pm_devices_path m)
      = Some (ae_to_json ev \<lparr>df_schema_version = devices_schema_version, df_state = export_runtime_state (as_runtime s) (as_topology s)\<rparr>)"
    by simp
  from k(2) s' show "p \<noteq> pm_devices_path m \<Longrightarrow> p \<noteq> json_tmp_path (ae_env ev) (pm_devices_path m) \<Longrightarrow> as_files s' p = as_files s p"
    by simp
qed

text \<open>What the in-memory parts know about a device.\<close>

definition known_about :: "device_key \<Rightarrow> api_state \<Rightarrow>
    device_item list \<times> (known_device option \<times> quad option \<times> quad option) \<times> (series_key \<times> history_point list) list
    \<times> (series_key \<times> bucket) list \<times> (series_key \<times> bucket list) list" where
  "known_about k s = (listed_about k (as_snapshot s), runtime_about k (as_runtime s), entries_about k (device_series (as_history s)),
     histogram_about k (as_histogram s))"

definition forget_device :: "device_key \<Rightarrow> api_state \<Rightarrow> api_state" where
  "forget_device k s = s\<lparr>as_snapshot := fst (drop_listed k (as_snapshot s)), as_runtime := fst (drop_runtime k (as_runtime s)),
     as_history := fst (drop_history k (as_history s)), as_histogram := fst (drop_histogram k (as_histogram s))\<rparr>"

lemma known_after_forget:
  "known_about k (forget_device k s) = ([], (None, None, None), [], [], [])"
  "length (snd k) = 6 \<Longrightarrow> length (snd k') = 6 \<Longrightarrow> k' \<noteq> k \<Longrightarrow> known_about k' (forget_device k s) = known_about k' s"
  by (simp_all add: known_about_def forget_device_def snapshot_store.dropped runtime_store.dropped history_store.dropped
      histogram_store.dropped snapshot_store.others runtime_store.others history_store.others histogram_store.others)

lemma known_about_files [simp]: "known_about k (s\<lparr>as_files := fs\<rparr>) = known_about k s"
  by (simp add: known_about_def)

lemma deletion_exact:
  assumes "delete_device_handler ev iface mac_text s = (s', env)" and "en_ok env"
    and "as_persistence s = Some m" and "manager_new d days = Some m"
  shows "\<exists>i mac. ifindex_by_name (as_topology s) (trim iface) = Some i \<and> mac_from_str (trim mac_text) = Inr mac
    \<and> known_about (i, mac) s' = ([], (None, None, None), [], [], [])
    \<and> (\<forall>k. length (snd k) = 6 \<longrightarrow> k \<noteq> (i, mac) \<longrightarrow> known_about k s' = known_about k s)
    \<and> (let ring = device_ring_path m (trim iface) (concat (map hex02 mac)); devs = pm_devices_path m
       in as_files s' ring = None
        \<and> as_files s' devs = Some (ae_to_json ev \<lparr>df_schema_version = 1, df_state = export_runtime_state (as_runtime s') (as_topology s)\<rparr>)
        \<and> (\<forall>p. p \<noteq> ring \<longrightarrow> p \<noteq> devs \<longrightarrow> p \<noteq> json_tmp_path (ae_env ev) devs \<longrightarrow> as_files s' p = as_files s p)
        \<and> (dr_device_state_deleted (en_data env)
             \<longleftrightarrow> listed_about (i, mac) (as_snapshot s) \<noteq> [] \<or> runtime_about (i, mac) (as_runtime s) \<noteq> (None, None, None))
        \<and> (dr_traffic_data_deleted (en_data env)
             \<longleftrightarrow> entries_about (i, mac) (device_series (as_history s)) \<noteq> [] \<or> histogram_about (i, mac) (as_histogram s) \<noteq> ([], [])
               \<or> as_files s ring \<noteq> None))"
proof -
  have "trim iface \<noteq> []"
    using assms(1,2) by (auto simp: delete_device_handler_def delete_device_error_def Let_def)
  obtain mac where mac: "mac_from_str (trim mac_text) = Inr mac"
    using assms(1,2) \<open>trim iface \<noteq> []\<close> by (auto simp: delete_device_handler_def delete_device_error_def Let_def split: sum.splits)
  obtain i where i: "ifindex_by_name (as_topology s) (trim iface) = Some i"
    using assms(1,2) \<open>trim iface \<noteq> []\<close> mac by (auto simp: delete_device_handler_def delete_device_error_def Let_def split: option.splits)
  let ?k = "(i, mac)"
  have six: "length (snd ?k) = 6" using mac_from_str_length [OF mac] by simp
  let ?ring = "device_ring_path m (trim iface) (concat (map hex02 mac))"
  let ?s1 = "forget_device ?k s"
  define fs where "fs = (if as_files s ?ring = None then as_files s else (as_files s)(?ring := None))"
  have fs: "fs ?ring = None" "q \<noteq> ?ring \<Longrightarrow> fs q = as_files s q" for q by (simp_all add: fs_def)
  have disk: "delete_device_traffic m (trim iface) (mac_to_string mac) (as_files s) = (fs, Ok (as_files s ?ring \<noteq> None))"
    using six by (simp add: delete_device_traffic_def normalize_mac_to_string Let_def fs_def)
  obtain s3 r where p: "persist_device_deletion_state ev (?s1\<lparr>as_files := fs\<rparr>) = (s3, r)" by fastforce
  have handled: "delete_device_handler ev iface mac_text s
      = (case (s3, r) of
          (s3, Ok _) \<Rightarrow> (s3, answered \<lparr>dr_device_state_deleted = (snd (drop_listed ?k (as_snapshot s)) \<or> snd (drop_runtime ?k (as_runtime s))),
             dr_traffic_data_deleted = (snd (drop_history ?k (as_history s)) \<or> snd (drop_histogram ?k (as_histogram s)) \<or> as_files s ?ring \<noteq> None)\<rparr>)
        | (s3, _) \<Rightarrow> (s3, delete_device_error (''persist device deletion failed: '' @ ae_error_text ev)))"
    using \<open>trim iface \<noteq> []\<close> mac i assms(3) disk p
    by (simp add: delete_device_handler_def Let_def case_prod_beta forget_device_def split: res.split)
  then have r: "r = Ok ()" and s': "s' = s3"
    and env: "en_data env = \<lparr>dr_device_state_deleted = (snd (drop_listed ?k (as_snapshot s)) \<or> snd (drop_runtime ?k (as_runtime s))),
             dr_traffic_data_deleted = (snd (drop_history ?k (as_history s)) \<or> snd (drop_histogram ?k (as_histogram s)) \<or> as_files s ?ring \<noteq> None)\<rparr>"
    using assms(1,2) by (auto simp: delete_device_error_def split: res.splits)
  from p r have p: "persist_device_deletion_state ev (?s1\<lparr>as_files := fs\<rparr>) = (s3, Ok ())" by simp
  have mgr: "as_persistence (?s1\<lparr>as_files := fs\<rparr>) = Some m" using assms(3) by (simp add: forget_device_def)
  note frame = persist_frame [OF p] and files = persist_files [OF p mgr assms(4)]
  have known: "known_about k s' = known_about k ?s1" for k
    unfolding s' by (subst frame) simp
  have rt: "as_runtime s' = as_runtime ?s1"
    unfolding s' by (subst frame) simp
  have topo: "as_topology ?s1 = as_topology s" by (simp add: forget_device_def)
  have "as_files s' ?ring = None" using files(2) [OF manager_dirs [OF assms(4)]] fs(1) by (simp add: s')
  moreover have "as_files s' (pm_devices_path m)
      = Some (ae_to_json ev \<lparr>df_schema_version = 1, df_state = export_runtime_state (as_runtime s') (as_topology s)\<rparr>)"
    using files(1) by (simp add: s' rt [unfolded s'] topo)
  moreover have "\<forall>p. p \<noteq> ?ring \<longrightarrow> p \<noteq> pm_devices_path m \<longrightarrow> p \<noteq> json_tmp_path (ae_env ev) (pm_devices_path m) \<longrightarrow> as_files s' p = as_files s p"
    using files(2) fs(2) by (simp add: s')
  ultimately show ?thesis
    using i mac six known known_after_forget [where s = s]
    by (auto simp: env Let_def snapshot_store.noted runtime_store.noted history_store.noted histogram_store.noted)
qed


text \<open>The running hour that was saved stays on disk: a restart before the next periodic save brings the deleted
  device's traffic of that hour back.\<close>

lemma deletion_keeps_saved_hour:
  assumes "delete_device_handler ev iface mac_text s = (s', env)" and "en_ok env"
    and "as_persistence s = Some m" and "manager_new d days = Some m"
  shows "as_files s' (pm_current_hour_path m) = as_files s (pm_current_hour_path m)"
proof -
  have "pm_current_hour_path m \<noteq> pm_devices_path m" "pm_current_hour_path m \<noteq> json_tmp_path (ae_env ev) (pm_devices_path m)"
    "pm_current_hour_path m \<noteq> device_ring_path m (trim iface) hx" for hx
    using assms(4) by (auto simp: manager_new_def device_ring_path_def json_tmp_path_def with_extension_def file_stem_def split: if_splits)
  with deletion_exact [OF assms] show ?thesis unfolding Let_def by metis
qed


lemma persisted_answer:
  assumes "ae_write ev = WriteDone"
  shows "(case persist_device_deletion_state ev s2 of (s3, Ok _) \<Rightarrow> (s3, good) | (s3, _) \<Rightarrow> (s3, bad)) = (fst (persist_device_deletion_state ev s2), good)"
    and "(case persist_monitor_runtime_state ev s2 of (s3, Ok _) \<Rightarrow> (s3, good) | (s3, _) \<Rightarrow> (s3, bad)) = (fst (persist_monitor_runtime_state ev s2), good)"
  using assms
  by (simp_all add: persist_device_deletion_state_def persist_monitor_runtime_state_def save_monitor_runtime_def split: option.split)

lemma deletion_succeeds:
  assumes "trim iface \<noteq> []" and "mac_from_str (trim mac_text) = Inr mac" and "ifindex_by_name (as_topology s) (trim iface) = Some i"
    and "ae_write ev = WriteDone"
  shows "en_ok (snd (delete_device_handler ev iface mac_text s))"
proof -
  have "length mac = 6" using mac_from_str_length [OF assms(2)] .
  then have "\<exists>fs b. (case as_persistence s of Some m \<Rightarrow> delete_device_traffic m (trim iface) (mac_to_string mac) (as_files s)
      | None \<Rightarrow> (as_files s, Ok False)) = (fs, Ok b)"
    by (auto simp: delete_device_traffic_def normalize_mac_to_string Let_def split: option.split)
  then obtain fs b where disk: "(case as_persistence s of Some m \<Rightarrow> delete_device_traffic m (trim iface) (mac_to_string mac) (as_files s)
      | None \<Rightarrow> (as_files s, Ok False)) = (fs, Ok b)" by blast
  obtain snap a rt b1 th c h d where drops: "drop_listed (i, mac) (as_snapshot s) = (snap, a)" "drop_runtime (i, mac) (as_runtime s) = (rt, b1)"
    "drop_history (i, mac) (as_history s) = (th, c)" "drop_histogram (i, mac) (as_histogram s) = (h, d)" by (metis prod.collapse)
  show ?thesis
    unfolding delete_device_handler_def Let_def using assms(1-3) by (simp add: disk drops persisted_answer [OF assms(4)])
qed

definition sample_api_env :: api_env where
  "sample_api_env = \<lparr>ae_now_ms = 9000, ae_env = \<lparr>env_pid = 7, env_now_ms = 9000\<rparr>, ae_write = WriteDone,
     ae_to_json = (\<lambda>_. [123, 125]), ae_error_text = []\<rparr>"

definition sample_api_state :: api_state where
  "sample_api_state =
     \<lparr>as_snapshot = \<lparr>sd_timestamp_ms = 0, sd_interfaces = [], sd_devices = []\<rparr>, as_history = traffic_history_new 60,
      as_histogram = \<lparr>max_hours = 24, current_hour_iface = [], current_hour_device = [], completed_iface = [], completed_device = []\<rparr>,
      as_runtime = runtime_default\<lparr>rt_registry := sample_registry\<rparr>, as_topology = [(3, sample_iface 3)],
      as_dns = dns_new True False 5 [], as_connections = conntrack_new False,
      as_persistence = manager_new ''/d'' 7, as_files = Map.empty\<rparr>"


section \<open>Renaming\<close>

lemma ws_len_append: "ws_len p \<noteq> 0 \<Longrightarrow> ws_len (p @ q) = ws_len p"
proof -
  assume p: "ws_len p \<noteq> 0"
  consider "p = []" | a where "p = [a]" | a b where "p = [a, b]" | a b c r where "p = a # b # c # r"
    by (metis neq_Nil_conv)
  then show ?thesis
  proof cases
    case (2 a)
    with p show ?thesis by (auto simp: Let_def split: if_splits)
  next
    case (3 a b)
    with p show ?thesis by (cases q) (auto simp: Let_def split: if_splits)
  qed (use p in \<open>simp_all add: Let_def\<close>)
qed

lemma trim_end_prefix: "\<exists>q. s = trim_end s @ q"
proof (induction s rule: trim_end.induct)
  case (1 s)
  show ?case
  proof (cases "ws_suffix s = 0 \<or> s = []")
    case False
    then obtain q where "take (length s - ws_suffix s) s = trim_end s @ q"
      using 1 [OF False] trim_end.simps [of s] by auto
    then show ?thesis by (metis append_assoc append_take_drop_id)
  qed (simp add: trim_end.simps [of s])
qed

lemma trim_start_end: "ws_len (trim_start s) = 0" "ws_suffix (trim_end s) = 0"
proof -
  show "ws_len (trim_start s) = 0"
  proof (induction s rule: trim_start.induct)
    case (1 s)
    show ?case
    proof (cases "ws_len s = 0 \<or> s = []")
      case True
      then have "trim_start s = s" by (subst trim_start.simps) (rule if_P)
      with True show ?thesis by auto
    next
      case False
      then have "trim_start s = trim_start (drop (ws_len s) s)" by (subst trim_start.simps) (rule if_not_P)
      with 1 [OF False] show ?thesis by simp
    qed
  qed
  show "ws_suffix (trim_end s) = 0"
  proof (induction s rule: trim_end.induct)
    case (1 s)
    show ?case
    proof (cases "ws_suffix s = 0 \<or> s = []")
      case True
      then have "trim_end s = s" by (subst trim_end.simps) (rule if_P)
      moreover have "ws_suffix [] = 0" by (simp add: ws_suffix_def)
      ultimately show ?thesis using True by metis
    next
      case False
      then have "trim_end s = trim_end (take (length s - ws_suffix s) s)" by (subst trim_end.simps) (rule if_not_P)
      with 1 [OF False] show ?thesis by simp
    qed
  qed
qed

lemma trim_trim [simp]: "trim (trim s) = trim s"
proof (rule trim_no_ws)
  obtain q where "trim_start s = trim s @ q" using trim_end_prefix [of "trim_start s"] by (auto simp: trim_def)
  then have "ws_len (trim s) = 0" using trim_start_end(1) [of s] ws_len_append [of "trim s" q] by auto
  then show "no_ws (trim s)" using trim_start_end(2) by (simp add: no_ws_def trim_def)
qed

lemma persist_runtime_frame:
  assumes "persist_monitor_runtime_state ev s = (s', r)"
  shows "as_snapshot s' = as_snapshot s" and "as_runtime s' = as_runtime s"
  using assms by (auto simp: persist_monitor_runtime_state_def split: option.splits prod.splits)

lemma rename_known_spec:
  assumes "rename_known now k hostname listed reg = Some reg'"
  shows "\<exists>kd. map_of reg' k = Some kd \<and> kd_hostname kd = hostname" and "k' \<noteq> k \<Longrightarrow> map_of reg' k' = map_of reg k'"
  using assms by (auto simp: rename_known_def update_conv' split: option.splits)

text \<open>C39: a renamed device shows its name and goes on showing it. When renaming is answered with success, every listed entry of the device
  has the trimmed name, the registry has it, and the name with which the next tick lists the device is that
  name (unless it is a single dash, which stands for no name); every other entry of the snapshot and of the registry is unchanged.\<close>

theorem renamed_device_shows_its_name:
  assumes "set_device_hostname_handler ev iface mac_text hostname s = (s', env)" and "en_ok env"
  shows "\<exists>i mac. ifindex_by_name (as_topology s) (trim iface) = Some i \<and> mac_from_str (trim mac_text) = Inr mac
    \<and> sd_devices (as_snapshot s') = map (\<lambda>d. if names_device (i, mac) d then d\<lparr>di_hostname := trim hostname\<rparr> else d) (sd_devices (as_snapshot s))
    \<and> (\<exists>kd. map_of (rt_registry (as_runtime s')) (i, mac) = Some kd \<and> kd_hostname kd = trim hostname)
    \<and> (\<forall>k. k \<noteq> (i, mac) \<longrightarrow> map_of (rt_registry (as_runtime s')) k = map_of (rt_registry (as_runtime s)) k)
    \<and> (trim hostname \<noteq> ''-'' \<longrightarrow> device_hostname (as_runtime s') (i, mac) = trim hostname)"
proof -
  have "trim iface = [] \<or> trim mac_text = [] \<or> trim hostname = [] \<Longrightarrow> \<not> en_ok (snd (set_device_hostname_handler ev iface mac_text hostname s))"
    by (auto simp: set_device_hostname_handler_def Let_def)
  with assms have given: "trim iface \<noteq> []" "trim mac_text \<noteq> []" "trim hostname \<noteq> []" by auto
  obtain i where i: "ifindex_by_name (as_topology s) (trim iface) = Some i"
    using assms given by (auto simp: set_device_hostname_handler_def Let_def split: option.splits)
  obtain mac where mac: "mac_from_str (trim mac_text) = Inr mac"
    using assms given i by (auto simp: set_device_hostname_handler_def Let_def split: sum.splits)
  let ?k = "(i, mac)" and ?snap = "rename_listed (i, mac) (trim hostname) (as_snapshot s)"
  obtain reg where reg: "rename_known (ae_now_ms ev) ?k (trim hostname) (last_renamed ?k ?snap) (rt_registry (as_runtime s)) = Some reg"
    using assms given i mac by (auto simp: set_device_hostname_handler_def Let_def split: option.splits)
  let ?s2 = "s\<lparr>as_snapshot := ?snap, as_runtime := (as_runtime s)\<lparr>rt_registry := reg\<rparr>\<rparr>"
  obtain s3 r where p: "persist_monitor_runtime_state ev ?s2 = (s3, r)" by fastforce
  have "s' = s3" using assms given i mac reg p by (auto simp: set_device_hostname_handler_def Let_def split: res.splits)
  with persist_runtime_frame [OF p] have s': "as_snapshot s' = ?snap" "as_runtime s' = (as_runtime s)\<lparr>rt_registry := reg\<rparr>" by simp_all
  obtain kd where kd: "map_of reg ?k = Some kd" "kd_hostname kd = trim hostname" using rename_known_spec(1) [OF reg] by blast
  have "trim (trim hostname) = trim hostname" by simp
  then have "trim hostname \<noteq> ''-'' \<longrightarrow> device_hostname (as_runtime s') ?k = trim hostname"
    using kd given(3) by (simp add: device_hostname_def s' Let_def)
  then show ?thesis using i mac kd rename_known_spec(2) [OF reg] by (auto simp: s' rename_listed_def)
qed

theorem renamed_device_shows_its_name_witness:
  "device_hostname (as_runtime (fst (set_device_hostname_handler sample_api_env ''br-lan'' ''02:00:00:00:00:01'' '' tv '' sample_api_state))) (3, [2, 0, 0, 0, 0, 1]) = ''tv''"
proof -
  let ?run = "set_device_hostname_handler sample_api_env ''br-lan'' ''02:00:00:00:00:01'' '' tv '' sample_api_state"
  have mac: "trim ''02:00:00:00:00:01'' = ''02:00:00:00:00:01''" "mac_from_str ''02:00:00:00:00:01'' = Inr [2, 0, 0, 0, 0, 1]" by code_simp+
  have name: "trim ''br-lan'' = ''br-lan''" "trim '' tv '' = ''tv''" by code_simp+
  have i: "ifindex_by_name [(3, sample_iface 3)] ''br-lan'' = Some 3" by code_simp
  obtain s' env where d: "?run = (s', env)" by fastforce
  have "ae_write sample_api_env = WriteDone" by (simp add: sample_api_env_def)
  then have "en_ok (snd ?run)"
    by (simp add: set_device_hostname_handler_def Let_def mac name i sample_api_state_def rename_known_def sample_registry_def persisted_answer)
  with d have "en_ok env" by simp
  from renamed_device_shows_its_name [OF d this] show ?thesis using d mac name i by (auto simp: sample_api_state_def)
qed

end
