(* ===== verification/Interfaces.thy ===== *)
theory Interfaces
  imports Topology Buckets
begin

text \<open>
  What \<open>utils.rs\<close> reads about the interfaces of the router: the list of interfaces from sysfs and \<open>getifaddrs\<close>, their subnets, and
  the firewall zones of the devices from the two \<open>ubus\<close> answers. The file system, \<open>getifaddrs\<close> and the JSON
  parser are inputs.
\<close>

section \<open>Interfaces\<close>

text \<open>An entry of \<open>/sys/class/net\<close> (\<open>None\<close>: the file cannot be read); \<open>sy_role\<close> is the value of \<open>infer_role_from_sysfs\<close>.\<close>

record sys_entry =
  sy_is_dir :: bool
  sy_name :: string
  sy_ifindex :: "string option"
  sy_address :: "string option"
  sy_operstate :: "string option"
  sy_mtu :: "string option"
  sy_role :: interface_role

text \<open>An item of \<open>getifaddrs\<close>; addresses of other families are \<open>None\<close>.\<close>

record if_addr =
  fa_name :: string
  fa_flags :: u32
  fa_address :: "ip_addr option"
  fa_netmask :: "ip_addr option"

record net_interface =
  ni_ifindex :: u32
  ni_name :: string
  ni_mac :: "string option"
  ni_operstate :: "string option"
  ni_mtu :: "u32 option"
  ni_flags :: "u32 option"
  ni_ipv4 :: "string list"
  ni_ipv6 :: "(string \<times> ipv6_addr_kind) list"
  ni_role :: interface_role

definition sysfs_opt_u32 :: "string option \<Rightarrow> u32 option" where
  "sysfs_opt_u32 content = (case content of None \<Rightarrow> None | Some s \<Rightarrow> parse_u32 (trim s))"

definition nonblank :: "string option \<Rightarrow> string option" where
  "nonblank content = (case content of None \<Rightarrow> None | Some s \<Rightarrow> if trim s = [] then None else Some (trim s))"

definition add_sys_entry :: "sys_entry \<Rightarrow> (u32 \<times> net_interface) list \<Rightarrow> (u32 \<times> net_interface) list" where
  "add_sys_entry e m =
     (if \<not> sy_is_dir e then m
      else (case sysfs_opt_u32 (sy_ifindex e) of
              None \<Rightarrow> m
            | Some i \<Rightarrow> AList.update i
                \<lparr>ni_ifindex = i, ni_name = sy_name e,
                 ni_mac = (case nonblank (sy_address e) of None \<Rightarrow> None
                   | Some s \<Rightarrow> (case mac_from_str s of Inl _ \<Rightarrow> None | Inr mac \<Rightarrow> Some (mac_to_string mac))),
                 ni_operstate = nonblank (sy_operstate e), ni_mtu = sysfs_opt_u32 (sy_mtu e), ni_flags = None, ni_ipv4 = [],
                 ni_ipv6 = [], ni_role = sy_role e\<rparr> m))"

definition note_address :: "ip_addr option \<Rightarrow> net_interface \<Rightarrow> net_interface" where
  "note_address addr info =
     (case addr of
        None \<Rightarrow> info
      | Some (V4 a) \<Rightarrow> (if ipv4_to_string a \<in> set (ni_ipv4 info) then info
                       else info\<lparr>ni_ipv4 := ni_ipv4 info @ [ipv4_to_string a]\<rparr>)
      | Some (V6 a) \<Rightarrow> (if ipv6_to_string a \<in> fst ` set (ni_ipv6 info) then info
                       else info\<lparr>ni_ipv6 := ni_ipv6 info @ [(ipv6_to_string a, ipv6_addr_type a)]\<rparr>))"

definition add_if_addr :: "if_addr \<Rightarrow> (u32 \<times> net_interface) list \<Rightarrow> (u32 \<times> net_interface) list" where
  "add_if_addr f m =
     (case List.find (\<lambda>info. ni_name info = fa_name f) (map snd m) of
        None \<Rightarrow> m
      | Some found \<Rightarrow> (case map_of m (ni_ifindex found) of
          None \<Rightarrow> m
        | Some info \<Rightarrow> AList.update (ni_ifindex found)
            (note_address (fa_address f)
               (if ni_flags info = None then info\<lparr>ni_flags := Some (fa_flags f)\<rparr> else info)) m))"

text \<open>\<open>addrs\<close> is \<open>None\<close> when \<open>getifaddrs\<close> fails, which is not an error; \<open>entries\<close> is \<open>None\<close> when the directory cannot be read.\<close>

definition list_interfaces :: "sys_entry list option \<Rightarrow> if_addr list option \<Rightarrow> net_interface list res" where
  "list_interfaces entries addrs =
     bindr (of_opt entries) (\<lambda>es.
       let m = fold add_sys_entry es [];
           m' = (case addrs of None \<Rightarrow> m | Some fs \<Rightarrow> fold add_if_addr fs m)
       in Ok (sort_key ni_ifindex (map snd m')))"

definition check_interface_exist :: "net_interface list res \<Rightarrow> string list \<Rightarrow> unit res" where
  "check_interface_exist all iface =
     bindr all (\<lambda>is. if list_all (\<lambda>n. n \<in> set (map ni_name is)) iface then Ok () else Fail)"

section \<open>Subnets\<close>

definition count_ones :: "'a::len word \<Rightarrow> nat" where
  "count_ones w = length (filter (bit w) [0..<LENGTH('a)])"

definition subnet_text :: "ip_addr option \<Rightarrow> ip_addr option \<Rightarrow> string option" where
  "subnet_text addr netmask =
     (case (addr, netmask) of
        (Some (V4 a), Some (V4 n)) \<Rightarrow> Some (ipv4_to_string a @ ''/'' @ dec (count_ones n))
      | (Some (V6 a), Some (V6 n)) \<Rightarrow> Some (ipv6_to_string a @ ''/'' @ dec (count_ones n))
      | _ \<Rightarrow> None)"

definition list_interface_subnets :: "if_addr list option \<Rightarrow> (string \<times> string list) list" where
  "list_interface_subnets addrs =
     (case addrs of
        None \<Rightarrow> []
      | Some fs \<Rightarrow> fold (\<lambda>f m. case subnet_text (fa_address f) (fa_netmask f) of
            None \<Rightarrow> m | Some t \<Rightarrow> upd_entry (fa_name f) [] (\<lambda>ts. ts @ [t]) m) fs [])"

section \<open>Firewall zones\<close>

text \<open>A \<open>serde_json::Value\<close>; the members of an object in the order the map iterates them, with distinct names.\<close>

datatype json = JStr string | JArr "json list" | JObj "(string \<times> json) list" | JOther

fun json_get :: "string \<Rightarrow> json \<Rightarrow> json option" where
  "json_get k (JObj ms) = map_of ms k"
| "json_get k _ = None"

fun json_str :: "json \<Rightarrow> string option" where
  "json_str (JStr s) = Some s"
| "json_str _ = None"

definition get_str :: "string \<Rightarrow> json \<Rightarrow> string option" where
  "get_str k v = (case json_get k v of None \<Rightarrow> None | Some x \<Rightarrow> json_str x)"

definition push_unique :: "string \<Rightarrow> string list \<Rightarrow> string list" where
  "push_unique value values = (let v = trim value in if v \<noteq> [] \<and> v \<notin> set values then values @ [v] else values)"

fun json_string_values :: "json option \<Rightarrow> string list" where
  "json_string_values (Some (JStr v)) = (if trim v = [] then [] else [trim v])"
| "json_string_values (Some (JArr vs)) = filter (\<lambda>v. v \<noteq> []) (map trim (List.map_filter json_str vs))"
| "json_string_values _ = []"

definition add_network :: "json \<Rightarrow> (string \<times> string list) list \<Rightarrow> (string \<times> string list) list" where
  "add_network interface m =
     (case get_str ''interface'' interface of
        None \<Rightarrow> m
      | Some n \<Rightarrow>
         (if trim n = [] then m
          else upd_entry (trim n) []
            (\<lambda>devices. fold (\<lambda>key ds. case get_str key interface of None \<Rightarrow> ds | Some d \<Rightarrow> push_unique d ds)
               [''l3_device'', ''device''] (push_unique (trim n) devices)) m))"

text \<open>\<open>entry(device).or_insert(zone)\<close>\<close>

definition or_insert :: "string \<Rightarrow> string \<Rightarrow> (string \<rightharpoonup> string) \<Rightarrow> (string \<rightharpoonup> string)" where
  "or_insert k v m = (case m k of None \<Rightarrow> m(k \<mapsto> v) | Some _ \<Rightarrow> m)"

definition add_zone :: "(string \<times> string list) list \<Rightarrow> json \<Rightarrow> (string \<rightharpoonup> string) \<Rightarrow> (string \<rightharpoonup> string)" where
  "add_zone devices_by_network entry zones =
     (if get_str ''.type'' entry \<noteq> Some ''zone'' then zones
      else (case get_str ''name'' entry of
              None \<Rightarrow> zones
            | Some z \<Rightarrow>
               (if trim z = [] then zones
                else fold (\<lambda>device. or_insert device (trim z)) (json_string_values (json_get ''device'' entry))
                  (fold (\<lambda>network zs. case map_of devices_by_network network of
                       Some devices \<Rightarrow> fold (\<lambda>d. or_insert d (trim z)) devices zs
                     | None \<Rightarrow> or_insert network (trim z) zs) (json_string_values (json_get ''network'' entry)) zones))))"

definition parse_firewall_zones_by_device :: "json \<Rightarrow> json \<Rightarrow> (string \<rightharpoonup> string) res" where
  "parse_firewall_zones_by_device firewall network =
     (case json_get ''interface'' network of
        Some (JArr interfaces) \<Rightarrow>
          (let devices_by_network = fold add_network interfaces []
           in case json_get ''values'' firewall of
                Some (JObj entries) \<Rightarrow> Ok (fold (add_zone devices_by_network) (map snd entries) Map.empty)
              | _ \<Rightarrow> Fail)
      | _ \<Rightarrow> Fail)"

text \<open>\<open>None\<close>: the command cannot be run, fails, or does not print JSON.\<close>

definition list_firewall_zones_by_device :: "json option \<Rightarrow> json option \<Rightarrow> (string \<rightharpoonup> string) res" where
  "list_firewall_zones_by_device firewall network =
     bindr (of_opt firewall) (\<lambda>f. bindr (of_opt network) (\<lambda>n. parse_firewall_zones_by_device f n))"

section \<open>The list of interfaces\<close>

lemma sorted_distinct_list:
  assumes "list_interfaces entries addrs = Ok is"
  shows "sorted (map ni_ifindex is) \<and> distinct (map ni_ifindex is)"
proof -
  define good where "good m = (distinct (map fst m) \<and> (\<forall>(i, info) \<in> set m. ni_ifindex info = i))" for m :: "(u32 \<times> net_interface) list"
  have upd: "good m \<Longrightarrow> ni_ifindex info = i \<Longrightarrow> good (AList.update i info m)" for m i info
  proof -
    have "set (AList.update i info m) \<subseteq> insert (i, info) (set m)" by (induction m) auto
    then show "good m \<Longrightarrow> ni_ifindex info = i \<Longrightarrow> good (AList.update i info m)"
      by (fastforce simp: good_def distinct_update)
  qed
  have sys: "good m \<Longrightarrow> good (fold add_sys_entry es m)" for es m
  proof (induction es arbitrary: m)
    case (Cons e es)
    have "good (add_sys_entry e m)" using Cons.prems by (simp add: add_sys_entry_def upd split: option.split)
    then show ?case by (simp add: Cons.IH)
  qed simp
  have note_ix: "ni_ifindex (note_address a info) = ni_ifindex info" for a info
    by (simp add: note_address_def split: option.split ip_addr.split)
  have addr1: "good m \<Longrightarrow> good (add_if_addr f m)" for f m
    by (auto simp: add_if_addr_def note_ix good_def dest!: map_of_SomeD intro!: upd [unfolded good_def] split: option.split)
  have addr: "good m \<Longrightarrow> good (fold add_if_addr fs m)" for fs m
    by (induction fs arbitrary: m) (simp_all add: addr1)
  obtain es where es: "entries = Some es" using assms by (cases entries) (auto simp: list_interfaces_def)
  let ?m = "fold add_sys_entry es []"
  have m: "good ?m" by (rule sys) (simp add: good_def)
  then have "good (case addrs of None \<Rightarrow> ?m | Some fs \<Rightarrow> fold add_if_addr fs ?m)" by (simp add: addr split: option.split)
  moreover have "good m' \<Longrightarrow> map ni_ifindex (map snd m') = map fst m'" for m' by (auto simp: good_def)
  ultimately obtain m' where m': "good m'" "map ni_ifindex (map snd m') = map fst m'" "is = sort_key ni_ifindex (map snd m')"
    using assms es by (auto simp: list_interfaces_def Let_def)
  have sort: "distinct (map ni_ifindex (sort_key ni_ifindex xs)) = distinct (map ni_ifindex xs)" for xs
    by (rule mset_eq_imp_distinct_iff) simp
  have "distinct (map ni_ifindex is)" unfolding m'(3) sort m'(2) using m'(1) by (simp add: good_def)
  then show ?thesis by (simp add: m'(3))
qed

text \<open>The zones: the first zone that claims a device has it.\<close>

definition zone_claims :: "(string \<times> string list) list \<Rightarrow> json \<Rightarrow> (string \<times> string) list" where
  "zone_claims devices_by_network entry =
     (case (get_str ''.type'' entry, get_str ''name'' entry) of
        (Some t, Some z) \<Rightarrow>
          if t \<noteq> ''zone'' \<or> trim z = [] then []
          else map (\<lambda>d. (d, trim z))
            (concat (map (\<lambda>n. case map_of devices_by_network n of Some ds \<Rightarrow> ds | None \<Rightarrow> [n]) (json_string_values (json_get ''network'' entry)))
             @ json_string_values (json_get ''device'' entry))
      | _ \<Rightarrow> [])"

lemma or_insert_fold: "fold (\<lambda>(d, z). or_insert d z) ps m = map_of ps ++ m"
proof (induction ps arbitrary: m)
  case (Cons p ps)
  have step: "map_of ps ++ or_insert (fst p) (snd p) m = map_of (p # ps) ++ m"
    by (rule ext) (auto simp: or_insert_def map_add_def split: option.split)
  have "fold (\<lambda>(d, z). or_insert d z) (p # ps) m = map_of ps ++ or_insert (fst p) (snd p) m"
    by (cases p) (simp add: Cons)
  with step show ?case by (simp only:)
qed simp

lemma add_zone_claims: "add_zone dbn entry m = map_of (zone_claims dbn entry) ++ m"
proof -
  let ?add = "\<lambda>z. \<lambda>(network :: string) zs. case map_of dbn network of Some devices \<Rightarrow> fold (\<lambda>d. or_insert d z) devices zs | None \<Rightarrow> or_insert network z zs"
  have networks: "fold (?add z) ns zs
      = fold (\<lambda>(d, z). or_insert d z) (map (\<lambda>d. (d, z)) (concat (map (\<lambda>n. case map_of dbn n of Some ds \<Rightarrow> ds | None \<Rightarrow> [n]) ns))) zs" for z ns zs
    by (induction ns arbitrary: zs) (simp_all add: fold_map comp_def split: option.split)
  have devs: "fold (\<lambda>device. or_insert device z) ds zs = fold (\<lambda>(d, z). or_insert d z) (map (\<lambda>d. (d, z)) ds) zs" for z ds zs
    by (simp add: fold_map comp_def)
  show ?thesis
    unfolding or_insert_fold [symmetric]
    by (simp add: add_zone_def zone_claims_def networks devs split: option.split)
qed

text \<open>C38: a device belongs to the first zone that claims it. When both answers have the expected shape, the zones of the
  devices are the first matches in the list of all claims, in the order of the configuration: a zone claims the devices of its networks
  (the network's name, its layer-3 device and its device; the name itself when the network is unknown) and its own
  devices. Otherwise reading the zones fails; it never panics.\<close>

theorem first_zone_claims_device:
  "parse_firewall_zones_by_device firewall network =
     (case (json_get ''interface'' network, json_get ''values'' firewall) of
        (Some (JArr interfaces), Some (JObj entries)) \<Rightarrow>
          Ok (map_of (concat (map (zone_claims (fold add_network interfaces [])) (map snd entries))))
      | _ \<Rightarrow> Fail)"
proof -
  have "fold (add_zone dbn) es m = map_of (concat (map (zone_claims dbn) es)) ++ m" for dbn es m
    by (induction es arbitrary: m) (simp_all add: add_zone_claims map_add_assoc)
  then show ?thesis
    by (simp add: parse_firewall_zones_by_device_def Let_def split: option.split json.split)
qed

end
