(* ===== verification/Startup.thy ===== *)
theory Startup
  imports Interfaces Ebpf
begin

text \<open>
  From the command line to the attached programs: the options and what clap accepts, \<open>validate_arguments\<close>, the choice of the attach
  backend and of the attach options, and the traffic filters that are written into the kernel's maps. What clap, the
  kernel and aya do is an input: the kernel release, whether interfaces exist, and whether a map operation succeeds.
\<close>

section \<open>Options\<close>

datatype tc_order = First | Default | Last | Before | After
datatype tc_backend = Auto | Tcx | Netlink

text \<open>\<open>to_lowercase\<close> as far as it can produce an ASCII text: besides the capital letters, the Kelvin sign (E2 84 AA) becomes \<open>k\<close>.\<close>

fun rust_lower :: "string \<Rightarrow> string" where
  "rust_lower [] = []"
| "rust_lower (c # cs) =
     (if c = char_of (226 :: nat) \<and> take 2 cs = [char_of (132 :: nat), char_of (170 :: nat)] then CHR ''k'' # rust_lower (drop 2 cs)
      else ascii_lower c # rust_lower cs)"

definition tc_order_parse :: "string \<Rightarrow> tc_order option" where
  "tc_order_parse s =
     (let w = rust_lower s
      in if w = ''first'' then Some First else if w = ''default'' then Some Default else if w = ''last'' then Some Last
         else if w = ''before'' then Some Before else if w = ''after'' then Some After else None)"

definition tc_backend_parse :: "string \<Rightarrow> tc_backend option" where
  "tc_backend_parse s =
     (let w = rust_lower s
      in if w = ''auto'' then Some Auto else if w = ''tcx'' then Some Tcx else if w = ''netlink'' then Some Netlink else None)"

record options =
  op_enable_ecm :: bool
  op_enable_ecm_log :: bool
  op_enable_traffic :: bool
  op_enable_dns :: bool
  op_enable_connections :: bool
  op_dns_max_records :: u32
  op_dns_enable_storage :: bool
  op_dns_flush_interval :: u64
  op_traffic_enable_storage :: bool
  op_ring_buffer :: u32
  op_iface :: "string list"
  op_log_level :: string
  op_tc_order :: string
  op_tc_backend :: string
  op_netlink_priority :: "u16 option"
  op_tcx_anchor_ingress_id :: "u32 option"
  op_tcx_anchor_egress_id :: "u32 option"
  op_history_window_minutes :: u32
  op_host :: string
  op_port :: u16
  op_data_dir :: string
  op_cors_origin :: "string option"
  op_api_token_file :: string
  op_tls_cert :: "string option"
  op_tls_key :: "string option"
  op_device_ttl_days :: u32

text \<open>The \<open>requires\<close> and \<open>range\<close> attributes, which clap enforces.\<close>

definition clap_accepts :: "options \<Rightarrow> bool" where
  "clap_accepts o' =
     ((op_enable_ecm_log o' \<longrightarrow> op_enable_ecm o') \<and> (op_enable_dns o' \<longrightarrow> op_enable_traffic o')
      \<and> (op_enable_connections o' \<longrightarrow> op_enable_traffic o')
      \<and> 100 \<le> op_dns_max_records o' \<and> op_dns_max_records o' \<le> 50000
      \<and> 60 \<le> op_dns_flush_interval o' \<and> op_dns_flush_interval o' \<le> 86400
      \<and> 1 \<le> op_ring_buffer o' \<and> op_ring_buffer o' \<le> 90
      \<and> 1 \<le> op_history_window_minutes o' \<and> op_history_window_minutes o' \<le> 60
      \<and> (op_tls_cert o' = None \<longleftrightarrow> op_tls_key o' = None)
      \<and> op_device_ttl_days o' \<le> 3650)"

definition log_level_ok :: "string \<Rightarrow> bool" where
  "log_level_ok s = (rust_lower s \<in> {''trace'', ''debug'', ''info'', ''warn'', ''error''})"

definition validate_arguments :: "(string list \<Rightarrow> unit res) \<Rightarrow> options \<Rightarrow> unit res" where
  "validate_arguments check_ifaces o' =
     bindr (if \<not> op_enable_traffic o' then Ok ()
            else if op_iface o' = [] then Fail
            else bindr (check_ifaces (op_iface o')) (\<lambda>_.
                 bindr (of_opt (tc_order_parse (op_tc_order o'))) (\<lambda>tc_order.
                 bindr (of_opt (tc_backend_parse (op_tc_backend o'))) (\<lambda>tc_backend.
                   if op_netlink_priority o' \<noteq> None \<and> tc_backend = Tcx then Fail
                   else if tc_order = Before \<or> tc_order = After
                   then (if op_tcx_anchor_ingress_id o' = None \<and> op_tcx_anchor_egress_id o' = None then Fail
                         else if tc_backend = Netlink then Fail else Ok ())
                   else if op_tcx_anchor_ingress_id o' \<noteq> None \<or> op_tcx_anchor_egress_id o' \<noteq> None then Fail
                   else Ok ()))))
       (\<lambda>_. if trim (op_host o') = [] then Fail else Ok ())"

text \<open>\<open>run\<close> up to \<open>run_service\<close>: \<open>Ok True\<close> when the service is started.\<close>

definition run_checks :: "(string list \<Rightarrow> unit res) \<Rightarrow> options \<Rightarrow> bool res" where
  "run_checks check_ifaces o' =
     bindr (validate_arguments check_ifaces o') (\<lambda>_. if \<not> log_level_ok (op_log_level o') then Fail else Ok (op_enable_traffic o'))"

section \<open>The attach options\<close>

text \<open>\<open>splitn(3, ...)\<close> at dots and dashes.\<close>

fun splitn_pred :: "nat \<Rightarrow> (char \<Rightarrow> bool) \<Rightarrow> string \<Rightarrow> string list" where
  "splitn_pred 0 p s = []"
| "splitn_pred (Suc 0) p s = [s]"
| "splitn_pred (Suc (Suc n)) p s =
     (case dropWhile (\<lambda>c. \<not> p c) s of [] \<Rightarrow> [s] | _ # rest \<Rightarrow> takeWhile (\<lambda>c. \<not> p c) s # splitn_pred (Suc n) p rest)"

definition num_or_zero :: "string \<Rightarrow> u32" where
  "num_or_zero s = (case parse_u32 s of None \<Rightarrow> 0 | Some n \<Rightarrow> n)"

definition nth_or_zero :: "string list \<Rightarrow> nat \<Rightarrow> string" where
  "nth_or_zero ps i = (if i < length ps then ps ! i else ''0'')"

definition kernel_at_least :: "string option \<Rightarrow> u32 \<Rightarrow> u32 \<Rightarrow> u32 \<Rightarrow> bool" where
  "kernel_at_least release major minor patch =
     (case release of
        None \<Rightarrow> False
      | Some s \<Rightarrow>
         (let parts = splitn_pred 3 (\<lambda>c. c = CHR ''.'' \<or> c = CHR ''-'') s;
              v = (num_or_zero (nth_or_zero parts 0), num_or_zero (nth_or_zero parts 1),
                   num_or_zero (hd (split_on CHR ''-'' (nth_or_zero parts 2))))
          in v \<ge> (major, minor, patch)))"

datatype resolved_backend = ResTcx | ResNetlink

definition resolve_backend :: "string option \<Rightarrow> tc_backend \<Rightarrow> resolved_backend res" where
  "resolve_backend release backend =
     (let supported = kernel_at_least release 6 6 0
      in case backend of
           Auto \<Rightarrow> Ok (if supported then ResTcx else ResNetlink)
         | Tcx \<Rightarrow> (if \<not> supported then Fail else Ok ResTcx)
         | Netlink \<Rightarrow> Ok ResNetlink)"

datatype link_order = LinkFirst | LinkDefault | LinkLast | LinkBefore u32 | LinkAfter u32
datatype attach_options = TcxOrder link_order | NetlinkPriority u16
datatype attach_type = Ingress | Egress

definition attach_opts ::
  "resolved_backend \<Rightarrow> tc_order \<Rightarrow> u16 option \<Rightarrow> u32 option \<Rightarrow> u32 option \<Rightarrow> attach_type \<Rightarrow> attach_options res" where
  "attach_opts backend tc_order priority ingress_anchor egress_anchor attach_type =
     (case backend of
        ResTcx \<Rightarrow>
          (let anchor = (case attach_type of Ingress \<Rightarrow> ingress_anchor | Egress \<Rightarrow> egress_anchor)
           in bindr (case tc_order of
                       First \<Rightarrow> Ok LinkFirst
                     | Default \<Rightarrow> Ok LinkDefault
                     | Last \<Rightarrow> Ok LinkLast
                     | Before \<Rightarrow> bindr (of_opt anchor) (\<lambda>i. Ok (LinkBefore i))
                     | After \<Rightarrow> bindr (of_opt anchor) (\<lambda>i. Ok (LinkAfter i))) (\<lambda>l. Ok (TcxOrder l)))
      | ResNetlink \<Rightarrow>
          (case priority of
             Some v \<Rightarrow> Ok (NetlinkPriority v)
           | None \<Rightarrow> (case tc_order of
               First \<Rightarrow> Ok (NetlinkPriority 1)
             | Default \<Rightarrow> Ok (NetlinkPriority 0)
             | Last \<Rightarrow> Ok (NetlinkPriority 65535)
             | _ \<Rightarrow> Fail)))"

text \<open>The options of the two directions, computed when the programs are attached to an interface.\<close>

definition attach_plan ::
  "string option \<Rightarrow> tc_backend \<Rightarrow> tc_order \<Rightarrow> u16 option \<Rightarrow> u32 option \<Rightarrow> u32 option \<Rightarrow> (attach_options \<times> attach_options) res" where
  "attach_plan release backend tc_order priority ingress_anchor egress_anchor =
     bindr (resolve_backend release backend) (\<lambda>resolved.
       if resolved = ResTcx \<and> priority \<noteq> None then Fail
       else if resolved = ResNetlink \<and> (tc_order = Before \<or> tc_order = After) then Fail
       else bindr (attach_opts resolved tc_order priority ingress_anchor egress_anchor Ingress) (\<lambda>i.
            bindr (attach_opts resolved tc_order priority ingress_anchor egress_anchor Egress) (\<lambda>e. Ok (i, e))))"

text \<open>\<open>run_service\<close> unwraps the two parsed words: \<open>Panic\<close> if they were not validated.\<close>

definition service_attach_plan :: "string option \<Rightarrow> options \<Rightarrow> (attach_options \<times> attach_options) res" where
  "service_attach_plan release o' =
     (case (tc_backend_parse (op_tc_backend o'), tc_order_parse (op_tc_order o')) of
        (Some b, Some r) \<Rightarrow> attach_plan release b r (op_netlink_priority o') (op_tcx_anchor_ingress_id o') (op_tcx_anchor_egress_id o')
      | _ \<Rightarrow> Panic)"

section \<open>Traffic filters\<close>

definition parse_interface_address :: "string \<Rightarrow> ip_addr option" where
  "parse_interface_address cidr = parse_ip (hd (split_on CHR ''/'' (hd (split_on CHR ''%'' cidr))))"

definition v6_octets :: "128 word \<Rightarrow> bytes" where
  "v6_octets a = rev (nat_to_le 16 (unat a))"

fun router_ip_key_of :: "ip_addr \<Rightarrow> router_ip_key" where
  "router_ip_key_of (V4 a) = \<lparr>rk_ip = [a, 0, 0, 0], rk_ip_version = 4\<rparr>"
| "router_ip_key_of (V6 a) = \<lparr>rk_ip = map (\<lambda>i. of_be32 (slice (4 * i) 4 (v6_octets a))) [0, 1, 2, 3], rk_ip_version = 6\<rparr>"

text \<open>\<open>sync_hash_map\<close>: entries that are not wanted are removed where the kernel lets them be removed (a failure is ignored), missing ones
  are inserted; the first insertion that fails is an error. Hash sets are listed in the order they are iterated.\<close>

fun insert_keys :: "('k \<Rightarrow> bool) \<Rightarrow> 'k list \<Rightarrow> ('k \<rightharpoonup> u8) \<Rightarrow> ('k \<rightharpoonup> u8) \<times> unit res" where
  "insert_keys insertable [] m = (m, Ok ())"
| "insert_keys insertable (k # ks) m = (if insertable k then insert_keys insertable ks (m(k \<mapsto> 1)) else (m, Fail))"

definition sync_hash_map ::
  "('k \<Rightarrow> bool) \<Rightarrow> ('k \<Rightarrow> bool) \<Rightarrow> 'k list \<Rightarrow> ('k \<rightharpoonup> u8) \<Rightarrow> ('k \<rightharpoonup> u8) \<times> unit res" where
  "sync_hash_map removable insertable desired m =
     (let m1 = (\<lambda>k. if k \<notin> set desired \<and> removable k then None else m k)
      in insert_keys insertable (filter (\<lambda>k. m k = None) desired) m1)"

definition router_ips :: "topology \<Rightarrow> router_ip_key list" where
  "router_ips t =
     remdups (concat (map (\<lambda>f. map router_ip_key_of (List.map_filter parse_interface_address (if_ipv4_cidrs f @ if_ipv6_cidrs f)))
       (topology_interfaces t)))"

record map_access =
  ma_ip_removable :: "router_ip_key \<Rightarrow> bool"
  ma_ip_insertable :: "router_ip_key \<Rightarrow> bool"
  ma_port_removable :: "u16 \<Rightarrow> bool"
  ma_port_insertable :: "u16 \<Rightarrow> bool"

definition sync_traffic_filter_maps :: "map_access \<Rightarrow> topology \<Rightarrow> u16 \<Rightarrow> kernel_maps \<Rightarrow> kernel_maps \<times> unit res" where
  "sync_traffic_filter_maps acc t api_port k =
     (case sync_hash_map (ma_ip_removable acc) (ma_ip_insertable acc) (router_ips t) (km_router_local_ips k) of
        (ips, Ok _) \<Rightarrow>
          (case sync_hash_map (ma_port_removable acc) (ma_port_insertable acc) (remdups [80, 443, api_port]) (km_management_ports k) of
             (ports, r) \<Rightarrow> (k\<lparr>km_router_local_ips := ips, km_management_ports := ports\<rparr>, r))
      | (ips, r) \<Rightarrow> (k\<lparr>km_router_local_ips := ips\<rparr>, r))"

section \<open>Options that pass the checks\<close>

lemma validated:
  assumes "validate_arguments check_ifaces o' = Ok ()" and "op_enable_traffic o'"
  obtains b r where "tc_backend_parse (op_tc_backend o') = Some b" and "tc_order_parse (op_tc_order o') = Some r"
    and "b = Tcx \<longrightarrow> op_netlink_priority o' = None"
    and "if r = Before \<or> r = After
      then (op_tcx_anchor_ingress_id o' \<noteq> None \<or> op_tcx_anchor_egress_id o' \<noteq> None) \<and> b \<noteq> Netlink
      else op_tcx_anchor_ingress_id o' = None \<and> op_tcx_anchor_egress_id o' = None"
proof -
  obtain r where r: "tc_order_parse (op_tc_order o') = Some r"
    using assms by (cases "tc_order_parse (op_tc_order o')") (auto simp: validate_arguments_def bindr_Ok_iff split: if_splits)
  obtain b where b: "tc_backend_parse (op_tc_backend o') = Some b"
    using assms r by (cases "tc_backend_parse (op_tc_backend o')") (auto simp: validate_arguments_def bindr_Ok_iff split: if_splits)
  show ?thesis
    by (rule that [OF b r]) (use assms in \<open>auto simp: validate_arguments_def bindr_Ok_iff b r split: if_splits\<close>)
qed

lemma of_opt_Ok_iff: "of_opt x = Ok y \<longleftrightarrow> x = Some y"
  by (cases x) simp_all

text \<open>C29: what validated options attach. For options that pass the validation with traffic enabled, working out the
  attach options never panics, and it succeeds exactly when: the request for the tcx backend meets a kernel of at least 6.6; no
  netlink priority is given if the programs go to tcx; and the orders before and after go to tcx and have the anchor
  program of both directions. (Validation asks for one anchor only, so the last condition can fail after it.)\<close>

theorem validated_options_attach:
  assumes "validate_arguments check_ifaces o' = Ok ()" and "op_enable_traffic o'"
  shows "service_attach_plan release o' \<noteq> Panic
    \<and> ((\<exists>plan. service_attach_plan release o' = Ok plan) \<longleftrightarrow>
        (let tcx = (tc_backend_parse (op_tc_backend o') = Some Tcx);
             to_tcx = (kernel_at_least release 6 6 0 \<and> tc_backend_parse (op_tc_backend o') \<noteq> Some Netlink);
             anchored = (tc_order_parse (op_tc_order o') \<in> {Some Before, Some After})
         in (tcx \<longrightarrow> to_tcx) \<and> (to_tcx \<longrightarrow> op_netlink_priority o' = None)
            \<and> (anchored \<longrightarrow> to_tcx \<and> op_tcx_anchor_ingress_id o' \<noteq> None \<and> op_tcx_anchor_egress_id o' \<noteq> None)))"
proof -
  from validated [OF assms] obtain b r where b: "tc_backend_parse (op_tc_backend o') = Some b" and r: "tc_order_parse (op_tc_order o') = Some r"
    and "b = Tcx \<longrightarrow> op_netlink_priority o' = None"
    and "if r = Before \<or> r = After
      then (op_tcx_anchor_ingress_id o' \<noteq> None \<or> op_tcx_anchor_egress_id o' \<noteq> None) \<and> b \<noteq> Netlink
      else op_tcx_anchor_ingress_id o' = None \<and> op_tcx_anchor_egress_id o' = None"
    by blast
  then show ?thesis
    by (cases b; cases r)
      (auto simp: service_attach_plan_def attach_plan_def resolve_backend_def attach_opts_def Let_def bindr_Ok_iff bindr_Panic_iff of_opt_Ok_iff
        split: option.split)
qed

definition sample_options_line :: "string \<Rightarrow> string \<Rightarrow> u32 option \<Rightarrow> u32 option \<Rightarrow> options" where
  "sample_options_line backend order_word ingress egress =
     \<lparr>op_enable_ecm = False, op_enable_ecm_log = False, op_enable_traffic = True, op_enable_dns = False, op_enable_connections = False,
      op_dns_max_records = 5000, op_dns_enable_storage = False, op_dns_flush_interval = 900, op_traffic_enable_storage = True,
      op_ring_buffer = 30, op_iface = [''br-lan''], op_log_level = ''info'', op_tc_order = order_word, op_tc_backend = backend,
      op_netlink_priority = None, op_tcx_anchor_ingress_id = ingress, op_tcx_anchor_egress_id = egress, op_history_window_minutes = 10,
      op_host = ''0.0.0.0'', op_port = 8787, op_data_dir = ''/tmp/bandix-plus'', op_cors_origin = None,
      op_api_token_file = ''/tmp/etc/bandix-plus/api-token'', op_tls_cert = None, op_tls_key = None, op_device_ttl_days = 30\<rparr>"

text \<open>One anchor passes the validation and then fails to attach; two attach.\<close>

theorem validated_options_attach_witness:
  "validate_arguments (\<lambda>_. Ok ()) (sample_options_line ''auto'' ''Before'' (Some 7) None) = Ok ()
   \<and> (\<nexists>plan. service_attach_plan (Some ''6.12.5-owrt'') (sample_options_line ''auto'' ''Before'' (Some 7) None) = Ok plan)
   \<and> (\<exists>plan. service_attach_plan (Some ''6.12.5-owrt'') (sample_options_line ''auto'' ''Before'' (Some 7) (Some 9)) = Ok plan)"
proof -
  let ?one = "sample_options_line ''auto'' ''Before'' (Some 7) None" and ?two = "sample_options_line ''auto'' ''Before'' (Some 7) (Some 9)"
  have words: "tc_order_parse ''Before'' = Some Before" "tc_backend_parse ''auto'' = Some Auto" "trim ''0.0.0.0'' = ''0.0.0.0''"
    by code_simp+
  have "splitn_pred 3 (\<lambda>c. c = CHR ''.'' \<or> c = CHR ''-'') ''6.12.5-owrt'' = [''6'', ''12'', ''5-owrt'']" by code_simp
  moreover have "hd (split_on CHR ''-'' ''5-owrt'') = ''5''" by code_simp
  moreover have "parse_u32 ''6'' = Some 6" "parse_u32 ''12'' = Some 12" by (simp_all add: parse_u32_def from_str_radix_def to_digit_def)
  ultimately have kernel: "kernel_at_least (Some ''6.12.5-owrt'') 6 6 0"
    by (simp add: kernel_at_least_def Let_def nth_or_zero_def num_or_zero_def)
  have v: "validate_arguments (\<lambda>_. Ok ()) ?one = Ok ()" "validate_arguments (\<lambda>_. Ok ()) ?two = Ok ()"
    by (simp_all add: validate_arguments_def sample_options_line_def words)
  have "op_enable_traffic ?one" "op_enable_traffic ?two" by (simp_all add: sample_options_line_def)
  from validated_options_attach [OF v(1) this(1), of "Some ''6.12.5-owrt''"] validated_options_attach [OF v(2) this(2), of "Some ''6.12.5-owrt''"]
  show ?thesis using v kernel words by (simp add: Let_def sample_options_line_def)
qed

section \<open>Filters reach the packets\<close>

lemma insert_keys_ok:
  assumes "insert_keys insertable ks m = (m', Ok ())"
  shows "m' k = (if k \<in> set ks then Some 1 else m k)"
  using assms by (induction ks arbitrary: m) (auto split: if_splits)

lemma inserts_succeed: "snd (insert_keys (\<lambda>_. True) ks m) = Ok ()"
  by (induction ks arbitrary: m) auto

lemma wanted_held:
  assumes "sync_hash_map removable insertable desired m = (m', Ok ())"
  shows "k \<in> set desired \<Longrightarrow> m' k \<noteq> None" and "m' k \<noteq> None \<Longrightarrow> k \<in> set desired \<or> m k \<noteq> None \<and> \<not> removable k"
  using insert_keys_ok [OF assms [unfolded sync_hash_map_def Let_def], of k] by (auto split: if_splits)

lemma digits_only: "c \<in> set (dec n) \<Longrightarrow> is_ascii_hexdigit c"
proof (induction n rule: dec.induct)
  case (1 n)
  have "is_ascii_hexdigit (digit_char d)" if "d < 10" for d
    using that by (simp add: is_ascii_hexdigit_def)
  then show ?case using 1 by (auto simp: dec.simps [of n] split: if_splits)
qed

lemma set_join: "c \<in> set (join sep ss) \<Longrightarrow> c \<in> set sep \<or> (\<exists>s \<in> set ss. c \<in> set s)"
  by (induction sep ss rule: join.induct) auto

lemma ipv4_text_plain: "CHR ''%'' \<notin> set (ipv4_to_string a)" "CHR ''/'' \<notin> set (ipv4_to_string a)" "CHR ''%'' \<notin> set (dec n)"
  using digits_only [of "CHR ''%''"] digits_only [of "CHR ''/''"]
  by (auto simp: ipv4_to_string_def is_ascii_hexdigit_def to_digit_def dest!: set_join)

lemma map_filter_mem: "f x = Some y \<Longrightarrow> x \<in> set xs \<Longrightarrow> y \<in> set (List.map_filter f xs)"
  by (force simp: List.map_filter_def)

lemma router_ip_in:
  assumes "f \<in> set (topology_interfaces t)"
    and "x \<in> set (List.map_filter parse_interface_address (if_ipv4_cidrs f @ if_ipv6_cidrs f))"
  shows "router_ip_key_of x \<in> set (router_ips t)"
proof -
  have "router_ip_key_of x \<in> set (map router_ip_key_of (List.map_filter parse_interface_address (if_ipv4_cidrs f @ if_ipv6_cidrs f)))"
    using assms(2) by (simp only: set_map image_eqI)
  with assms(1) show ?thesis
    unfolding router_ips_def set_remdups set_concat set_map [of _ "topology_interfaces t"] by (rule UN_I [OF imageI])
qed

lemma all_synced: "\<exists>m'. sync_hash_map (\<lambda>_. True) (\<lambda>_. True) ks m = (m', Ok ())"
proof (cases "sync_hash_map (\<lambda>_. True) (\<lambda>_. True) ks m")
  case (Pair m' r)
  then have "r = Ok ()"
    using inserts_succeed [of "filter (\<lambda>k. m k = None) ks" "\<lambda>k. if k \<notin> set ks \<and> True then None else m k"]
    by (simp add: sync_hash_map_def Let_def)
  with Pair show ?thesis by simp
qed

lemma synced:
  assumes "sync_hash_map (ma_ip_removable acc) (ma_ip_insertable acc) (router_ips t) (km_router_local_ips k) = (ips, Ok ())"
    and "sync_hash_map (ma_port_removable acc) (ma_port_insertable acc) (remdups [80, 443, api_port]) (km_management_ports k) = (ports, Ok ())"
  shows "sync_traffic_filter_maps acc t api_port k = (k\<lparr>km_router_local_ips := ips, km_management_ports := ports\<rparr>, Ok ())"
  unfolding sync_traffic_filter_maps_def assms prod.case res.case ..

lemma split_on_none: "c \<notin> set s \<Longrightarrow> split_on c s = [s]"
  by (induction s) auto

lemma hd_split_on: "c \<notin> set a \<Longrightarrow> hd (split_on c (a @ c # b)) = a"
  by (induction a) (auto split: list.split)

text \<open>The subnet text of an IPv4 address is read back as the address.\<close>

lemma parse_subnet_text: "parse_interface_address (ipv4_to_string a @ ''/'' @ dec n) = Some (V4 a)"
proof -
  have "CHR ''%'' \<notin> set (ipv4_to_string a @ ''/'' @ dec n)" using ipv4_text_plain by simp
  then show ?thesis
    using hd_split_on [OF ipv4_text_plain(2), of a "dec n"]
    by (simp add: parse_interface_address_def split_on_none parse_ip_ipv4_to_string)
qed

text \<open>A TCP segment over IPv4 in an Ethernet frame without tags, not a later fragment, that the router receives at its address
  \<open>a\<close> and port \<open>port\<close>, or sends from there.\<close>

definition is_own_tcp :: "skb \<Rightarrow> u8 \<Rightarrow> u32 \<Rightarrow> u16 \<Rightarrow> bool" where
  "is_own_tcp s d a port =
     (case (ptr_at 14 s 0, ptr_at 20 s 14) of
        (Some eth, Some ip) \<Rightarrow>
          field16 eth 12 = eth_p_ip \<and> ip ! 9 = 6 \<and> field16 ip 6 AND 0x1fff = 0 \<and> 20 \<le> unat (ip ! 0 AND 0x0f) * 4
          \<and> (case ptr_at 20 s (14 + unat (ip ! 0 AND 0x0f) * 4) of
               None \<Rightarrow> False
             | Some tcp \<Rightarrow> if d = dir_ingress then of_be32 (slice 16 4 ip) = a \<and> field16 tcp 2 = port
                          else of_be32 (slice 12 4 ip) = a \<and> field16 tcp 0 = port)
      | _ \<Rightarrow> False)"


definition router_port_80 :: bytes where
  "router_port_80 = replicate 12 2 @ [8, 0] @ [0x45, 0, 0, 40, 0, 0, 0, 0, 64, 6, 0, 0, 10, 0, 0, 9, 10, 0, 0, 1]
     @ [0xC0, 0, 0, 80] @ replicate 16 0"

definition router_iface :: interface where
  "router_iface = \<lparr>if_ifindex = 3, if_name = ''br-lan'', if_role = RoleBridge, if_zone = ''lan'', if_parent_ifindex = None,
     if_ipv4_cidrs = [ipv4_to_string 0x0A000001 @ ''/'' @ dec 24], if_ipv6_cidrs = []\<rparr>"


end
