(* ===== verification/Dns_Files.thy ===== *)
theory Dns_Files
  imports Dns_Monitor State_Files
begin

text \<open>
  The file of the DNS history (\<open>dns.rs\<close>): the private directory, the save through a temporary file, and the load line by line.
  The disk is the map of files with the permission bits of each file, and the directory they are in. JSON is
  \<open>serde_json\<close>'s: \<open>to_json\<close> and \<open>from_json\<close> are parameters.
\<close>

section \<open>The disk\<close>

record dns_disk =
  dk_files :: files
  dk_modes :: "path \<Rightarrow> u32"
  dk_dir_is_dir :: bool
  dk_dir_mode :: u32

definition dns_queries_file :: "string \<Rightarrow> path" where
  "dns_queries_file data_dir = (data_dir @ ''/dns'', ''queries.jsonl'')"

text \<open>\<open>dk_dir_is_dir\<close> is what \<open>symlink_metadata\<close> says of the directory: a link to a directory is none.\<close>

definition ensure_private_dns_directory :: "dns_disk \<Rightarrow> dns_disk \<times> unit res" where
  "ensure_private_dns_directory d = (if dk_dir_is_dir d then (d\<lparr>dk_dir_mode := 0x1C0\<rparr>, Ok ()) else (d, Fail))"

text \<open>Where a save ends: an error of one of its steps, a crash after a number of bytes, or its end.\<close>

datatype dns_end = DirectoryFails | OpenFails | PermissionFails | RecordsStop nat | RenameStops | SaveDone

definition dns_tmp_path :: "path \<Rightarrow> path" where
  "dns_tmp_path p = with_extension p ''jsonl.tmp''"

definition record_lines :: "(dns_query_record \<Rightarrow> bytes) \<Rightarrow> dns_query_record list \<Rightarrow> bytes" where
  "record_lines to_json rs = concat (map (\<lambda>r. to_json r @ [10]) rs)"

text \<open>An existing temporary file keeps its mode when it is opened and loses its content; then the mode is set, then the lines are written.\<close>

definition save_dns_records ::
  "(dns_query_record \<Rightarrow> bytes) \<Rightarrow> dns_end \<Rightarrow> path \<Rightarrow> dns_query_record list \<Rightarrow> dns_disk \<Rightarrow> dns_disk \<times> unit res" where
  "save_dns_records to_json w p rs d =
     (if w = DirectoryFails then (d, Fail) else
      case ensure_private_dns_directory d of
        (d1, Ok _) \<Rightarrow>
          (let tmp = dns_tmp_path p; content = record_lines to_json rs;
               opened = d1\<lparr>dk_files := (dk_files d1)(tmp \<mapsto> []),
                          dk_modes := (dk_modes d1)(tmp := if dk_files d1 tmp = None then 0x180 else dk_modes d1 tmp)\<rparr>;
               private = opened\<lparr>dk_modes := (dk_modes opened)(tmp := 0x180)\<rparr>;
               written = (\<lambda>bs. private\<lparr>dk_files := (dk_files private)(tmp \<mapsto> bs)\<rparr>)
           in (case w of
                 DirectoryFails \<Rightarrow> (d1, Fail)
               | OpenFails \<Rightarrow> (d1, Fail)
               | PermissionFails \<Rightarrow> (opened, Fail)
               | RecordsStop n \<Rightarrow> (written (take n content), Fail)
               | RenameStops \<Rightarrow> (written content, Fail)
               | SaveDone \<Rightarrow>
                   (private\<lparr>dk_files := (dk_files private)(p \<mapsto> content, tmp := None),
                            dk_modes := (dk_modes private)(p := dk_modes private tmp)\<rparr>, Ok ())))
      | (d1, r) \<Rightarrow> (d1, r))"

text \<open>\<open>BufRead::lines\<close>: split at line feeds, an empty rest is no line, a carriage return before the line feed is dropped.\<close>

fun break_lines :: "bytes \<Rightarrow> bytes \<Rightarrow> bytes list" where
  "break_lines [] acc = (if acc = [] then [] else [acc])"
| "break_lines (b # bs) acc =
     (if b = 10 then (if acc \<noteq> [] \<and> List.last acc = 13 then butlast acc else acc) # break_lines bs []
      else break_lines bs (acc @ [b]))"

text \<open>\<open>load_dns_records\<close> of the program. \<open>from_json\<close> gives \<open>None\<close> for a line that is not UTF-8 or not a record; \<open>regular\<close> says
  whether the path is a regular file.\<close>

definition load_dns_file ::
  "(bytes \<Rightarrow> dns_query_record option) \<Rightarrow> bool \<Rightarrow> path \<Rightarrow> nat \<Rightarrow> dns_disk \<Rightarrow> dns_disk \<times> dns_query_record list res" where
  "load_dns_file from_json regular p n d =
     (if n = 0 then (d, Ok []) else
      case dk_files d p of
        None \<Rightarrow> (d, Ok [])
      | Some content \<Rightarrow>
          if \<not> regular then (d, Fail)
          else (case ensure_private_dns_directory d of
              (d1, Ok _) \<Rightarrow> (d1\<lparr>dk_modes := (dk_modes d1)(p := 0x180)\<rparr>,
                Ok (load_dns_records n (map from_json (break_lines content []))))
            | (d1, _) \<Rightarrow> (d1, Fail)))"

section \<open>Lines\<close>

definition one_line :: "bytes \<Rightarrow> bool" where
  "one_line l = (10 \<notin> set l \<and> (l \<noteq> [] \<longrightarrow> List.last l \<noteq> 13))"

lemma break_line: "10 \<notin> set l \<Longrightarrow> break_lines (l @ 10 # rest) acc
    = (if acc @ l \<noteq> [] \<and> List.last (acc @ l) = 13 then butlast (acc @ l) else acc @ l) # break_lines rest []"
  by (induction l arbitrary: acc) simp_all

lemma break_record_lines: "\<forall>r \<in> set rs. one_line (to_json r) \<Longrightarrow> break_lines (record_lines to_json rs) [] = map to_json rs"
  by (induction rs) (auto simp: record_lines_def one_line_def break_line)

section \<open>The history on disk is private and whole\<close>

lemma dns_tmp_neq: "dns_tmp_path (dns_queries_file data_dir) \<noteq> dns_queries_file data_dir"
  by (simp add: dns_tmp_path_def dns_queries_file_def with_extension_def file_stem_def)

lemma save_file:
  fixes d data_dir
  defines "p \<equiv> dns_queries_file data_dir"
  assumes "save_dns_records to_json w p rs d = (d', r)"
  shows "r = Ok () \<longleftrightarrow> w = SaveDone \<and> dk_dir_is_dir d"
    and "dk_files d' p = (if r = Ok () then Some (record_lines to_json rs) else dk_files d p)"
    and "q \<noteq> p \<Longrightarrow> q \<noteq> dns_tmp_path p \<Longrightarrow> dk_files d' q = dk_files d q \<and> dk_modes d' q = dk_modes d q"
    and "dk_dir_is_dir d' = dk_dir_is_dir d"
    and "dk_files d' q = Some c \<Longrightarrow> c \<noteq> [] \<Longrightarrow> dk_files d' q = dk_files d q \<or> (dk_modes d' q = 0x180 \<and> dk_dir_is_dir d' \<and> dk_dir_mode d' = 0x1C0)"
  using assms dns_tmp_neq [of data_dir]
  by (cases w; auto simp: save_dns_records_def ensure_private_dns_directory_def Let_def split: if_splits)+

text \<open>C30: the DNS history on disk is private and whole. However a save ends, the history file has its old content, or, exactly when the save
  succeeded, all lines of the new one; no other file than it and its temporary file is touched; and every non-empty content
  that the save put into a file is readable and writable by the owner alone, inside a directory only the owner can
  enter, also when an older temporary file with other permissions was there.\<close>

theorem dns_history_private:
  assumes "save_dns_records to_json w (dns_queries_file data_dir) rs d = (d', r)"
  shows "(r = Ok () \<longleftrightarrow> w = SaveDone \<and> dk_dir_is_dir d)
    \<and> dk_files d' (dns_queries_file data_dir) = (if r = Ok () then Some (record_lines to_json rs) else dk_files d (dns_queries_file data_dir))
    \<and> (\<forall>q. q \<notin> {dns_queries_file data_dir, dns_tmp_path (dns_queries_file data_dir)} \<longrightarrow> dk_files d' q = dk_files d q \<and> dk_modes d' q = dk_modes d q)
    \<and> (\<forall>q c. dk_files d' q = Some c \<and> c \<noteq> [] \<and> dk_files d' q \<noteq> dk_files d q
         \<longrightarrow> dk_modes d' q = 0x180 \<and> dk_dir_is_dir d' \<and> dk_dir_mode d' = 0x1C0)"
  using save_file [OF assms] by blast

text \<open>Saves of a sequence of histories, each ending somewhere.\<close>

definition save_dns_all :: "(dns_query_record \<Rightarrow> bytes) \<Rightarrow> path \<Rightarrow> (dns_end \<times> dns_query_record list) list \<Rightarrow> dns_disk \<Rightarrow> dns_disk" where
  "save_dns_all to_json p ws d = fold (\<lambda>(w, rs) d. fst (save_dns_records to_json w p rs d)) ws d"

lemma failed_saves_keep:
  assumes "\<forall>(w, rs) \<in> set ws. w \<noteq> SaveDone"
  shows "dk_files (save_dns_all to_json (dns_queries_file data_dir) ws d) (dns_queries_file data_dir) = dk_files d (dns_queries_file data_dir)
    \<and> dk_dir_is_dir (save_dns_all to_json (dns_queries_file data_dir) ws d) = dk_dir_is_dir d"
  using assms
proof (induction ws arbitrary: d)
  case (Cons x ws)
  obtain w rs where x: "x = (w, rs)" by (cases x)
  obtain d' r where s: "save_dns_records to_json w (dns_queries_file data_dir) rs d = (d', r)" by fastforce
  from Cons.prems x have "w \<noteq> SaveDone" by simp
  then have "dk_files d' (dns_queries_file data_dir) = dk_files d (dns_queries_file data_dir)" "dk_dir_is_dir d' = dk_dir_is_dir d"
    using save_file(1,2,4) [OF s] by auto
  with Cons.IH [of d'] Cons.prems show ?case by (simp add: save_dns_all_def x s)
qed (simp add: save_dns_all_def)

text \<open>C17: the DNS history survives a restart. After a completed save of a monitor's records, and any number of later
  saves that do not complete, the file is read back at the next start, and the new monitor holds the newest saved records up to its capacity, in
  order, with the queries that were never answered marked. The hypotheses on JSON are that a record's line parses
  back to it and has no line break.\<close>

theorem dns_history_survives_restart:
  assumes "save_dns_records to_json SaveDone (dns_queries_file data_dir) (records_for_persistence old) d0 = (d1, Ok ())"
    and "\<forall>(w, rs) \<in> set ws. w \<noteq> SaveDone"
    and "\<forall>r \<in> set (records_for_persistence old). from_json (to_json r) = Some r \<and> one_line (to_json r)"
    and "0 < n" and "n < 2 ^ 64 - 2"
  shows "\<exists>d2 rs. load_dns_file from_json True (dns_queries_file data_dir) n (save_dns_all to_json (dns_queries_file data_dir) ws d1) = (d2, Ok rs)
    \<and> records_for_persistence (restore_records rs (dns_new enabled persist n ifs)) = keep_last n (map mark_unanswered (records_for_persistence old))"
proof -
  let ?p = "dns_queries_file data_dir" and ?rs = "records_for_persistence old"
  have "dk_files d1 ?p = Some (record_lines to_json ?rs)" "dk_dir_is_dir d1"
    using save_file(1,2,4) [OF assms(1)] by auto
  with failed_saves_keep [OF assms(2), of to_json data_dir d1]
  have f: "dk_files (save_dns_all to_json ?p ws d1) ?p = Some (record_lines to_json ?rs)" "dk_dir_is_dir (save_dns_all to_json ?p ws d1)" by simp_all
  have "map from_json (break_lines (record_lines to_json ?rs) []) = map Some ?rs"
    using assms(3) by (simp add: break_record_lines)
  then have "\<exists>d2. load_dns_file from_json True ?p n (save_dns_all to_json ?p ws d1) = (d2, Ok (load_dns_records n (map Some ?rs)))"
    using f assms(4) by (simp add: load_dns_file_def ensure_private_dns_directory_def)
  moreover have "List.map_filter (\<lambda>l. l) (map Some ?rs) = ?rs" by (simp add: List.map_filter_def comp_def)
  ultimately show ?thesis using restart_restores_history [OF assms(4,5), of "map Some ?rs" enabled persist ifs] by auto
qed

definition sample_disk :: dns_disk where
  "sample_disk = \<lparr>dk_files = [(''/d/dns'', ''queries.jsonl.tmp'') \<mapsto> [7]], dk_modes = (\<lambda>_. 0x1A4), dk_dir_is_dir = True, dk_dir_mode = 0x1ED\<rparr>"

definition sample_old :: dns_monitor where
  "sample_old = restore_records (load_dns_records 5 [Some (new_query_record sample_dns_query 1 no_identity)]) (dns_new True True 5 [])"

lemma sample_old_records: "records_for_persistence sample_old = [mark_unanswered (new_query_record sample_dns_query 1 no_identity)]"
  using restart_restores_history [of 5 "[Some (new_query_record sample_dns_query 1 no_identity)]" True True "[]"]
  by (simp add: sample_old_def keep_last_def List.map_filter_def)

theorem dns_history_private_witness:
  "dk_modes (fst (save_dns_records (\<lambda>_. [123, 125]) SaveDone (dns_queries_file ''/d'') (records_for_persistence sample_old) sample_disk)) (dns_queries_file ''/d'') = 0x180"
proof -
  let ?rs = "records_for_persistence sample_old" and ?p = "dns_queries_file ''/d''"
  obtain d' r where s: "save_dns_records (\<lambda>_. [123, 125]) SaveDone ?p ?rs sample_disk = (d', r)" by fastforce
  note kept = dns_history_private [OF s]
  have "r = Ok ()" using kept by (simp add: sample_disk_def)
  then have "dk_files d' ?p = Some [123, 125, 10]" using kept by (simp add: record_lines_def sample_old_records)
  moreover have "dk_files sample_disk ?p = None" by (simp add: sample_disk_def dns_queries_file_def)
  ultimately have "dk_files d' ?p = Some [123, 125, 10] \<and> [123, 125, 10 :: u8] \<noteq> [] \<and> dk_files d' ?p \<noteq> dk_files sample_disk ?p" by simp
  with kept have "dk_modes d' ?p = 0x180" by blast
  with s show ?thesis by simp
qed

theorem dns_history_survives_restart_witness:
  "\<exists>d2 rs. load_dns_file (\<lambda>_. Some (hd (records_for_persistence sample_old))) True (dns_queries_file ''/d'') 3
      (save_dns_all (\<lambda>_. [123, 125]) (dns_queries_file ''/d'') [(RecordsStop 1, [])]
        (fst (save_dns_records (\<lambda>_. [123, 125]) SaveDone (dns_queries_file ''/d'') (records_for_persistence sample_old) sample_disk))) = (d2, Ok rs)
    \<and> length (records_for_persistence (restore_records rs (dns_new True True 3 []))) = 1"
proof -
  obtain d1 where s: "save_dns_records (\<lambda>_. [123, 125]) SaveDone (dns_queries_file ''/d'') (records_for_persistence sample_old) sample_disk = (d1, Ok ())"
    by (simp add: save_dns_records_def ensure_private_dns_directory_def sample_disk_def Let_def)
  have w: "\<forall>(w, rs) \<in> set [(RecordsStop 1, [] :: dns_query_record list)]. w \<noteq> SaveDone" by simp
  have j: "\<forall>r \<in> set (records_for_persistence sample_old). (\<lambda>_ :: bytes. Some (hd (records_for_persistence sample_old))) ((\<lambda>_. [123, 125]) r) = Some r
      \<and> one_line ((\<lambda>_ :: dns_query_record. [123, 125]) r)" by (simp add: sample_old_records one_line_def)
  have n: "(0 :: nat) < 3" "(3 :: nat) < 2 ^ 64 - 2" by simp_all
  from dns_history_survives_restart [OF s w j n, of True True "[]"] s show ?thesis by (auto simp: sample_old_records keep_last_def)
qed

end
