(* ===== verification/Service.thy ===== *)
theory Service
  imports Api Startup Dns_Files
begin

text \<open>
  \<open>run_service\<close> of \<open>command.rs\<close>: the recovery of the saved state, the turn of the collector loop, the hourly cleanup of
  expired devices and the refresh of the topology, over the state the API serves. The tasks run concurrently and share
  the state through locks; a turn, a cleanup and a request are single steps here, in any order.
\<close>

section \<open>Recovery\<close>

text \<open>What the start reads: the discovered topology, the clock, the files with the directory listings of the two ring directories, whether the JSON files are readable,
  \<open>serde_json\<close>'s decoders, the disk with the DNS history and whether its path is a regular file, and the local hour of an instant.\<close>

record boot =
  bo_topology :: topology
  bo_now_ms :: u64
  bo_env :: env
  bo_files :: files
  bo_iface_entries :: "path list"
  bo_device_entries :: "path list"
  bo_devices_readable :: bool
  bo_hour_readable :: bool
  bo_devices_from_json :: "bytes \<Rightarrow> devices_file option"
  bo_hour_from_json :: "bytes \<Rightarrow> current_hour_file option"
  bo_dns_disk :: dns_disk
  bo_dns_regular :: bool
  bo_dns_from_json :: "bytes \<Rightarrow> dns_query_record option"
  bo_hour :: "u64 \<Rightarrow> u64 \<times> u64"

text \<open>Errors of the three loads are logged and what was loaded so far is kept; \<open>Panic\<close> ends the program.\<close>

definition load_rings :: "boot \<Rightarrow> manager \<Rightarrow> files \<times> histogram \<Rightarrow> (files \<times> histogram) \<times> unit res" where
  "load_rings b m s = load_histogram m (bo_env b) (bo_topology b) (bo_iface_entries b) (bo_device_entries b) s"

definition load_hour :: "boot \<Rightarrow> manager \<Rightarrow> files \<times> histogram \<Rightarrow> (files \<times> histogram) \<times> unit res" where
  "load_hour b m s =
     load_current_hour (bo_hour_from_json b) (bo_hour_readable b) (bo_env b) m (bo_hour b) (bo_now_ms b) (bo_topology b) s"

definition recover_dns :: "boot \<Rightarrow> options \<Rightarrow> dns_monitor" where
  "recover_dns b o' =
     (let storage = (op_enable_dns o' \<and> op_dns_enable_storage o'); n = unat (op_dns_max_records o');
          d = dns_new (op_enable_dns o') storage n (op_iface o')
      in if storage
         then (case snd (load_dns_file (bo_dns_from_json b) (bo_dns_regular b) (dns_queries_file (op_data_dir o')) n (bo_dns_disk b)) of
            Ok rs \<Rightarrow> restore_records rs d
          | _ \<Rightarrow> d)
         else d)"

definition run_service :: "boot \<Rightarrow> options \<Rightarrow> api_state res" where
  "run_service b o' =
     (case manager_new (op_data_dir o') (op_ring_buffer o') of
        None \<Rightarrow> Fail
      | Some m \<Rightarrow>
         (case load_monitor_runtime (bo_devices_from_json b) (bo_devices_readable b) (bo_env b) m (bo_topology b) (bo_files b, runtime_default) of
            (_, Panic) \<Rightarrow> Panic
          | ((fs1, rt), _) \<Rightarrow>
             (case with_capacity_hours (unat (op_ring_buffer o') * 24) of
                None \<Rightarrow> Panic
              | Some h0 \<Rightarrow>
                 (case (if op_traffic_enable_storage o' then load_rings b m (fs1, h0) else ((fs1, h0), Ok ())) of
                    (_, Panic) \<Rightarrow> Panic
                  | (s2, _) \<Rightarrow>
                     (case (if op_traffic_enable_storage o' then load_hour b m s2 else (s2, Ok ())) of
                        (_, Panic) \<Rightarrow> Panic
                      | ((fs3, h), _) \<Rightarrow>
                         (let rt' = rt\<lparr>rt_cumulative_iface := fst (cumulative_from_all h), rt_cumulative_device := snd (cumulative_from_all h)\<rparr>
                          in Ok \<lparr>as_snapshot = build_recovered_snapshot rt' (bo_topology b) (bo_now_ms b),
                                as_history = traffic_history_new (max (unat (op_history_window_minutes o') * 60) 1),
                                as_histogram = h, as_runtime = rt', as_topology = bo_topology b, as_dns = recover_dns b o',
                                as_connections = conntrack_new (op_enable_connections o'), as_persistence = Some m, as_files = fs3\<rparr>))))))"

section \<open>The collector loop\<close>

text \<open>The surroundings of one turn: what the tick reads, the local hour, the time the files are written at, how the two state files' writes
  end, and \<open>serde_json\<close>.\<close>

record turn_env =
  tu_input :: snap_input
  tu_options :: snap_options
  tu_storage :: bool
  tu_hour :: "u64 \<Rightarrow> u64 \<times> u64"
  tu_env :: env
  tu_devices_write :: write_end
  tu_hour_write :: write_end
  tu_devices_to_json :: "devices_file \<Rightarrow> bytes"
  tu_hour_to_json :: "current_hour_file \<Rightarrow> bytes"

text \<open>The state of the service: what the API shares, and the time of the last complete periodic save.\<close>

record service =
  se_api :: api_state
  se_last_persist_ms :: u64

text \<open>Errors of the appends are logged.\<close>

fun persist_completed :: "manager \<Rightarrow> env \<Rightarrow> completed_aggregate \<Rightarrow> files \<Rightarrow> files" where
  "persist_completed m e (CompletedIface iface b) fs = fst (append_iface_bucket m e iface b fs)"
| "persist_completed m e (CompletedDevice iface mac b) fs = fst (append_device_bucket m e iface mac b fs)"

text \<open>The periodic save: both files, the second one only with traffic storage; the time is noted when both succeeded.\<close>

definition periodic_save :: "turn_env \<Rightarrow> manager \<Rightarrow> u64 \<Rightarrow> service \<Rightarrow> service" where
  "periodic_save te m ts sv =
     (let s = se_api sv in
      if sat_sub ts (se_last_persist_ms sv) \<ge> 10 * 60 * 1000
      then (let (fs1, r1) = save_monitor_runtime (tu_devices_to_json te) (tu_devices_write te) (tu_env te) m (as_runtime s) (as_topology s) (as_files s);
                (fs2, r2) = (if tu_storage te
                             then save_current_hour (tu_hour_to_json te) (tu_hour_write te) (tu_env te) m (as_histogram s) (as_topology s) fs1
                             else (fs1, Ok ()))
            in \<lparr>se_api = s\<lparr>as_files := fs2\<rparr>,
                se_last_persist_ms = (if r1 = Ok () \<and> r2 = Ok () then ts else se_last_persist_ms sv)\<rparr>)
      else sv)"

definition collector_turn :: "turn_env \<Rightarrow> manager \<Rightarrow> service \<Rightarrow> service res" where
  "collector_turn te m sv =
     (let s = se_api sv in
      case collect_snapshot (tu_input te) (tu_options te) (as_topology s) (as_runtime s) of
        SnapPanic \<Rightarrow> Panic
      | SnapErr rt \<Rightarrow> Ok (sv\<lparr>se_api := s\<lparr>as_runtime := rt\<rparr>\<rparr>)
      | SnapOk data eff rt \<Rightarrow>
          (let th = traffic_ingest_snapshot data (as_history s);
               (h, completed) = ingest_snapshot_collect_completed (tu_hour te) data (as_histogram s);
               fs = (if tu_storage te then fold (persist_completed m (tu_env te)) completed (as_files s) else as_files s)
           in Ok (periodic_save te m (sd_timestamp_ms data)
                (sv\<lparr>se_api := s\<lparr>as_runtime := rt, as_history := th, as_histogram := h, as_files := fs, as_snapshot := data\<rparr>\<rparr>))))"

section \<open>The cleanup of expired devices\<close>

definition stale_devices :: "u32 \<Rightarrow> u64 \<Rightarrow> registry \<Rightarrow> device_key list" where
  "stale_devices ttl_days now_ms reg =
     (let stale_threshold = sat_sub now_ms (ucast ttl_days * 24 * 3600 * 1000)
      in map fst (filter (\<lambda>(k, known). kd_last_seen_ms known < stale_threshold) reg))"

definition delete_stale_files :: "manager \<Rightarrow> topology \<Rightarrow> device_key list \<Rightarrow> files \<Rightarrow> files" where
  "delete_stale_files m t ks fs =
     fold (\<lambda>k fs. case by_ifindex t (fst k) of
        None \<Rightarrow> fs
      | Some f \<Rightarrow> fst (delete_device_traffic m (if_name f) (mac_to_string (snd k)) fs)) ks fs"

definition cleanup_turn :: "u32 \<Rightarrow> u64 \<Rightarrow> manager \<Rightarrow> service \<Rightarrow> service" where
  "cleanup_turn ttl_days now_ms m sv =
     (let s = se_api sv; ks = stale_devices ttl_days now_ms (rt_registry (as_runtime s))
      in if ttl_days = 0 \<or> ks = [] then sv
         else sv\<lparr>se_api := s\<lparr>as_runtime := fold (\<lambda>k rt. fst (drop_runtime k rt)) ks (as_runtime s),
                            as_history := fold (\<lambda>k th. fst (drop_history k th)) ks (as_history s),
                            as_histogram := fold (\<lambda>k h. fst (drop_histogram k h)) ks (as_histogram s),
                            as_files := delete_stale_files m (as_topology s) ks (as_files s)\<rparr>\<rparr>)"

text \<open>The refresh of the topology; a failed discovery keeps the old one.\<close>

definition refresh_topology :: "topology option \<Rightarrow> service \<Rightarrow> service" where
  "refresh_topology found sv =
     (case found of None \<Rightarrow> sv | Some t \<Rightarrow> sv\<lparr>se_api := (se_api sv)\<lparr>as_topology := t\<rparr>\<rparr>)"

section \<open>The cleanup is exact\<close>

lemma stale_iff:
  assumes "registry_ok reg"
  shows "k \<in> set (stale_devices ttl_days now_ms reg)
    \<longleftrightarrow> (\<exists>kd. map_of reg k = Some kd \<and> kd_last_seen_ms kd < sat_sub now_ms (ucast ttl_days * 24 * 3600 * 1000))"
proof -
  have "map_of reg k = Some kd \<longleftrightarrow> (k, kd) \<in> set reg" for kd
    using assms by (simp add: registry_ok_def)
  then show ?thesis by (cases k) (auto simp: stale_devices_def Let_def image_iff)
qed

lemma unat_ttl:
  fixes ttl_days :: u32
  assumes "ttl_days \<le> 3650"
  shows "unat (ucast ttl_days * 24 * 3600 * 1000 :: u64) = unat ttl_days * 86400000"
proof -
  have "unat ttl_days \<le> 3650" using assms by (simp add: word_le_nat_alt)
  then have small: "unat ttl_days * 86400000 < 2 ^ 64" by simp
  have days: "(ucast ttl_days * 24 * 3600 * 1000 :: u64) = word_of_nat (unat ttl_days * 86400000)"
    by (simp add: mult.commute)
  show ?thesis unfolding days unat_of_nat using small by simp
qed

lemma stale_six:
  assumes "registry_ok reg" and "k \<in> set (stale_devices ttl_days now_ms reg)"
  shows "length (snd k) = 6"
  using assms by (auto simp: stale_iff dest: registry_okD)



section \<open>The invariant of the running service\<close>

definition listed_ok :: "snapshot_data \<Rightarrow> bool" where
  "listed_ok snap = (distinct (map ii_ifindex (sd_interfaces snap)) \<and> distinct (map (\<lambda>x. (di_ifindex x, di_mac x)) (sd_devices snap)))"

definition service_ok :: "api_state \<Rightarrow> bool" where
  "service_ok s = (runtime_ok (as_runtime s) \<and> topology_ok (as_topology s) \<and> hist_ok (as_histogram s) \<and> listed_ok (as_snapshot s))"

lemma ok_periodic: "service_ok (se_api sv) \<Longrightarrow> service_ok (se_api (periodic_save te m ts sv))"
  by (simp add: periodic_save_def Let_def case_prod_beta service_ok_def)

lemma turn_keeps:
  assumes "service_ok (se_api sv)"
  shows "case collector_turn te m sv of Ok sv' \<Rightarrow> service_ok (se_api sv') | _ \<Rightarrow> False"
proof -
  let ?s = "se_api sv"
  have t: "topology_ok (as_topology ?s)" and rt: "runtime_ok (as_runtime ?s)" using assms by (simp_all add: service_ok_def)
  show ?thesis
  proof (cases "collect_snapshot (tu_input te) (tu_options te) (as_topology ?s) (as_runtime ?s)")
    case SnapPanic
    then show ?thesis using tick_ends [OF t] by blast
  next
    case (SnapErr rt')
    then show ?thesis using assms tick_keeps(1) [OF t rt SnapErr] by (simp add: collector_turn_def service_ok_def Let_def)
  next
    case (SnapOk data eff rt')
    have h: "hist_ok (fst (ingest_snapshot_collect_completed (tu_hour te) data (as_histogram ?s)))"
      using hist_ok_ingest_snapshot [of "as_histogram ?s"] assms by (simp add: service_ok_def)
    have l: "listed_ok data \<and> runtime_ok rt'" using tick_keeps(2) [OF t rt SnapOk] by (simp add: listed_ok_def)
    show ?thesis
      unfolding collector_turn_def Let_def SnapOk snap_outcome.case case_prod_beta res.case
      by (rule ok_periodic) (use assms h l in \<open>simp add: service_ok_def\<close>)
  qed
qed

lemma fold_ok: "P s \<Longrightarrow> (\<And>x s. P s \<Longrightarrow> P (f x s)) \<Longrightarrow> P (fold f xs s)"
  by (rule fold_keeps)

lemma drop_ok:
  "runtime_ok rt \<Longrightarrow> runtime_ok (fst (drop_runtime k rt))"
  "hist_ok h \<Longrightarrow> hist_ok (fst (drop_histogram k h))"
  "listed_ok snap \<Longrightarrow> listed_ok (fst (drop_listed k snap))"
  by (simp_all add: drop_runtime_def ok_remove_device drop_histogram_def hist_ok_remove drop_listed_def Let_def listed_ok_def distinct_map_filter)

lemma cleanup_keeps: "service_ok (se_api sv) \<Longrightarrow> service_ok (se_api (cleanup_turn ttl_days now_ms m sv))"
  by (auto simp: cleanup_turn_def Let_def service_ok_def intro: fold_ok drop_ok)

lemma refresh_keeps: "service_ok (se_api sv) \<Longrightarrow>
    service_ok (se_api (refresh_topology (if found then Some (discover master infos subnet_map zones) else None) sv))"
  by (simp add: refresh_topology_def service_ok_def discover_ok)

lemma persist_ok:
  "service_ok s \<Longrightarrow> service_ok (fst (persist_monitor_runtime_state ev s))" "service_ok s \<Longrightarrow> service_ok (fst (persist_device_deletion_state ev s))"
  by (simp_all add: persist_monitor_runtime_state_def persist_device_deletion_state_def service_ok_def Let_def case_prod_beta split: option.split)

lemma fst_case_ok: "fst (case p of (s, Ok a) \<Rightarrow> (s, good a) | (s, _) \<Rightarrow> (s, bad)) = fst p"
  by (cases p) (simp split: res.split)

lemma ok_listed_names: "listed_ok (rename_listed k name snap) = listed_ok snap"
proof -
  have "(\<lambda>x. (di_ifindex x, di_mac x)) \<circ> (\<lambda>d. if names_device k d then d\<lparr>di_hostname := name\<rparr> else d) = (\<lambda>x. (di_ifindex x, di_mac x))"
    by auto
  then show ?thesis by (simp add: listed_ok_def rename_listed_def)
qed

lemma ok_rename_known:
  assumes "rename_known now k name listed reg = Some reg'" and "registry_ok reg" and "length (snd k) = 6"
  shows "registry_ok reg'"
  using assms by (auto simp: rename_known_def dest: registry_okD intro!: registry_ok_update split: option.splits)

lemma rename_keeps:
  assumes "service_ok s"
  shows "service_ok (fst (set_device_hostname_handler ev iface mac_text hostname s))"
proof (cases "trim iface = [] \<or> trim mac_text = [] \<or> trim hostname = []")
  case True
  then show ?thesis using assms by (auto simp: set_device_hostname_handler_def Let_def)
next
  case given: False
  show ?thesis
  proof (cases "ifindex_by_name (as_topology s) (trim iface)")
    case None
    then show ?thesis using assms given by (simp add: set_device_hostname_handler_def Let_def)
  next
    case (Some i)
    show ?thesis
    proof (cases "mac_from_str (trim mac_text)")
      case (Inl e)
      then show ?thesis using assms given Some by (simp add: set_device_hostname_handler_def Let_def)
    next
      case (Inr mac)
      let ?snap = "rename_listed (i, mac) (trim hostname) (as_snapshot s)"
      have listed: "service_ok (s\<lparr>as_snapshot := ?snap\<rparr>)" using assms by (simp add: service_ok_def ok_listed_names)
      show ?thesis
      proof (cases "rename_known (ae_now_ms ev) (i, mac) (trim hostname) (last_renamed (i, mac) ?snap) (rt_registry (as_runtime s))")
        case None
        then show ?thesis using listed given Some Inr by (simp add: set_device_hostname_handler_def Let_def)
      next
        case (Some reg)
        have "registry_ok reg"
          using ok_rename_known [OF Some] assms mac_from_str_length [OF Inr] by (simp add: service_ok_def runtime_ok_def)
        then have "service_ok (s\<lparr>as_snapshot := ?snap, as_runtime := (as_runtime s)\<lparr>rt_registry := reg\<rparr>\<rparr>)"
          using listed by (simp add: service_ok_def runtime_ok_defs)
        then show ?thesis
          using given Inr Some \<open>ifindex_by_name (as_topology s) (trim iface) = Some i\<close>
          by (simp add: set_device_hostname_handler_def Let_def fst_case_ok persist_ok)
      qed
    qed
  qed
qed

lemma delete_keeps:
  assumes "service_ok s"
  shows "service_ok (fst (delete_device_handler ev iface mac_text s))"
proof (cases "trim iface = []")
  case True
  then show ?thesis using assms by (simp add: delete_device_handler_def Let_def)
next
  case given: False
  show ?thesis
  proof (cases "mac_from_str (trim mac_text)")
    case (Inl e)
    then show ?thesis using assms given by (simp add: delete_device_handler_def Let_def)
  next
    case (Inr mac)
    show ?thesis
    proof (cases "ifindex_by_name (as_topology s) (trim iface)")
      case None
      then show ?thesis using assms given Inr by (simp add: delete_device_handler_def Let_def)
    next
      case (Some i)
      obtain fs disk where d: "(case as_persistence s of Some m \<Rightarrow> delete_device_traffic m (trim iface) (mac_to_string mac) (as_files s)
          | None \<Rightarrow> (as_files s, Ok False)) = (fs, disk)" by fastforce
      have "service_ok ((forget_device (i, mac) s)\<lparr>as_files := fs\<rparr>)"
        using assms by (simp add: forget_device_def service_ok_def drop_ok)
      then show ?thesis
        using given Inr Some d
        by (simp add: delete_device_handler_def Let_def case_prod_beta forget_device_def persist_ok split: res.split)
    qed
  qed
qed

section \<open>The start\<close>

definition ascii_name :: "string \<Rightarrow> bool" where
  "ascii_name n = list_all (\<lambda>c. byte_of c < 128) n"

lemma chars_of_ascii: "ascii_name n \<Longrightarrow> chars n = map (\<lambda>c. [c]) n"
  by (induction n) (simp_all add: ascii_name_def chars_ascii)

lemma pairs_even: "length cs mod 2 = 0 \<Longrightarrow> decode_pairs cs acc \<noteq> Panic"
proof (induction cs acc rule: decode_pairs.induct)
  case (3 hi lo rest acc)
  then show ?case by (cases "parse_hex_u8 (hi @ lo)") simp_all
qed simp_all

lemma component_of_ascii: "ascii_name n \<Longrightarrow> decode_component n \<noteq> Panic"
  using pairs_even [of "map (\<lambda>c. [c]) n" "[]"]
  by (cases "decode_pairs (map (\<lambda>c. [c]) n) []") (auto simp: decode_component_def chars_of_ascii)

lemma split_once_rest: "split_once c n = Some (a, b) \<Longrightarrow> set b \<subseteq> set n"
  by (induction n arbitrary: a b) (auto split: if_splits)

lemma rsplit_once_first: "rsplit_once c n = Some (a, b) \<Longrightarrow> set a \<subseteq> set n"
  using split_once_rest [of c "rev n"] by auto

lemma stem_ascii: "ascii_name n \<Longrightarrow> ascii_name (file_stem n)"
  using rsplit_once_first [of "CHR ''.''" n]
  by (auto simp: file_stem_def ascii_name_def list_all_iff simp del: rsplit_once.simps split: option.split)

text \<open>Loading keeps the histogram's invariant, and ends without a panic when the names of the ring files are ASCII.\<close>

lemma load_ring_ok:
  assumes "hist_ok (snd s)" and "\<And>b h. hist_ok h \<Longrightarrow> hist_ok (restore b h)"
  shows "hist_ok (snd (fst (load_ring m e p restore s))) \<and> snd (load_ring m e p restore s) \<noteq> Panic"
proof -
  have "hist_ok (fold (\<lambda>r. restore (rr_bucket r)) rs (snd s))" for rs :: "ring_record list"
    using assms(1) by (rule fold_ok) (rule assms(2))
  then show ?thesis using assms(1) by (auto simp: load_ring_def split: prod.split sum.split)
qed

lemma load_iface_entry_ok:
  assumes "hist_ok (snd s)"
  shows "hist_ok (snd (fst (load_iface_entry m e t p s)))"
    and "ascii_name (snd p) \<Longrightarrow> snd (load_iface_entry m e t p s) \<noteq> Panic"
  using load_ring_ok [OF assms hist_ok_restore(1), where m = m and e = e and p = p] component_of_ascii [OF stem_ascii, of "snd p"] assms
  by (auto simp: load_iface_entry_def split: res.split option.split)

lemma load_device_entry_ok:
  assumes "hist_ok (snd s)"
  shows "hist_ok (snd (fst (load_device_entry m e t p s)))"
    and "ascii_name (snd p) \<Longrightarrow> snd (load_device_entry m e t p s) \<noteq> Panic"
proof -
  have ring: "hist_ok (snd (fst (load_ring m e p (restore_device_bucket i mac) s))) \<and> snd (load_ring m e p (restore_device_bucket i mac) s) \<noteq> Panic" for i mac
    by (rule load_ring_ok [OF assms]) (rule hist_ok_restore(2))
  show "hist_ok (snd (fst (load_device_entry m e t p s)))"
    using ring assms by (auto simp: load_device_entry_def simp del: rsplit_once.simps split: res.split option.split)
  assume "ascii_name (snd p)"
  then have "decode_component a \<noteq> Panic" if "rsplit_once CHR ''-'' (file_stem (snd p)) = Some (a, b)" for a b
    using component_of_ascii [of a] stem_ascii [of "snd p"] rsplit_once_first [OF that] by (auto simp: ascii_name_def list_all_iff)
  then have *: "\<forall>a b. rsplit_once CHR ''-'' (file_stem (snd p)) = Some (a, b) \<longrightarrow> decode_component a \<noteq> Panic" by blast
  show "snd (load_device_entry m e t p s) \<noteq> Panic"
  proof (cases "rsplit_once CHR ''-'' (file_stem (snd p))")
    case None
    then show ?thesis unfolding load_device_entry_def None by simp
  next
    case (Some ab)
    obtain a b where ab: "ab = (a, b)" by (cases ab)
    from * Some ab have "decode_component a \<noteq> Panic" by blast
    then show ?thesis
      using ring unfolding load_device_entry_def Some ab option.case prod.case by (auto split: res.split option.split)
  qed
qed

lemma load_entries_ok:
  assumes "\<And>p s. hist_ok (snd s) \<Longrightarrow> hist_ok (snd (fst (step p s)))" and "hist_ok (snd s)"
  shows "hist_ok (snd (fst (load_entries step ps s)))"
    and "(\<And>p s. p \<in> set ps \<Longrightarrow> hist_ok (snd s) \<Longrightarrow> snd (step p s) \<noteq> Panic) \<Longrightarrow> snd (load_entries step ps s) \<noteq> Panic"
proof -
  show "hist_ok (snd (fst (load_entries step ps s)))"
    using assms(2)
  proof (induction ps arbitrary: s)
    case (Cons p ps)
    obtain s' r where st: "step p s = (s', r)" by fastforce
    with assms(1) [OF Cons.prems, of p] have "hist_ok (snd s')" by simp
    with Cons.IH [of s'] show ?case by (cases r) (simp_all add: st)
  qed simp
  show "(\<And>p s. p \<in> set ps \<Longrightarrow> hist_ok (snd s) \<Longrightarrow> snd (step p s) \<noteq> Panic) \<Longrightarrow> snd (load_entries step ps s) \<noteq> Panic"
    using assms(2)
  proof (induction ps arbitrary: s)
    case (Cons p ps)
    obtain s' r where st: "step p s = (s', r)" by fastforce
    with assms(1) [OF Cons.prems(2), of p] have "hist_ok (snd s')" by simp
    moreover have "r \<noteq> Panic" using Cons.prems(1) [of p s] Cons.prems(2) st by simp
    ultimately show ?case using Cons.IH [of s'] Cons.prems(1) by (cases r) (simp_all add: st)
  qed simp
qed

lemma load_rings_ok:
  assumes "hist_ok (snd s)"
  shows "hist_ok (snd (fst (load_rings b m s)))"
    and "\<forall>p \<in> set (bo_iface_entries b) \<union> set (bo_device_entries b). ascii_name (snd p) \<Longrightarrow> snd (load_rings b m s) \<noteq> Panic"
proof -
  let ?a = "load_entries (load_iface_entry m (bo_env b) (bo_topology b)) (bo_iface_entries b) s"
  obtain s' r where a: "?a = (s', r)" by fastforce
  have s': "hist_ok (snd s')"
    using load_entries_ok(1) [where step = "load_iface_entry m (bo_env b) (bo_topology b)", OF load_iface_entry_ok(1) assms, of "bo_iface_entries b"] a
    by simp
  have run: "load_rings b m s = (case r of Ok _ \<Rightarrow> load_entries (load_device_entry m (bo_env b) (bo_topology b)) (bo_device_entries b) s' | _ \<Rightarrow> (s', r))"
    by (simp add: load_rings_def load_histogram_def a split: res.split)
  show "hist_ok (snd (fst (load_rings b m s)))"
    using load_entries_ok(1) [where step = "load_device_entry m (bo_env b) (bo_topology b)", OF load_device_entry_ok(1) s'] s'
    unfolding run by (simp split: res.split)
  assume names: "\<forall>p \<in> set (bo_iface_entries b) \<union> set (bo_device_entries b). ascii_name (snd p)"
  have "r \<noteq> Panic"
    using load_entries_ok(2) [where step = "load_iface_entry m (bo_env b) (bo_topology b)", OF load_iface_entry_ok(1) assms, of "bo_iface_entries b"]
      load_iface_entry_ok(2) names a by fastforce
  moreover have "snd (load_entries (load_device_entry m (bo_env b) (bo_topology b)) (bo_device_entries b) s') \<noteq> Panic"
    by (rule load_entries_ok(2) [OF load_device_entry_ok(1) s']) (use names load_device_entry_ok(2) in auto)
  ultimately show "snd (load_rings b m s) \<noteq> Panic" unfolding run by (simp split: res.split)
qed

lemma load_hour_ok:
  assumes "hist_ok (snd s)"
  shows "hist_ok (snd (fst (load_hour b m s)))" and "snd (load_hour b m s) \<noteq> Panic"
proof -
  have i: "hist_ok h \<Longrightarrow> hist_ok (load_current_iface start t item h)" for start t item h
    by (simp add: load_current_iface_def hist_ok_def distinct_update split: option.split)
  have d: "hist_ok h \<Longrightarrow> hist_ok (load_current_device start t item h)" for start t item h
    by (simp add: load_current_device_def hist_ok_def distinct_update split: option.split)
  have "hist_ok (load_current_hour_histogram hour now f t (snd s))" for hour now f t
    unfolding load_current_hour_histogram_def Let_def
    by (cases f) (simp_all add: assms fold_ok [where P = hist_ok] i d)
  then show "hist_ok (snd (fst (load_hour b m s)))" and "snd (load_hour b m s) \<noteq> Panic"
    using assms by (auto simp: load_hour_def load_current_hour_def read_json_or_quarantine_def split: option.split res.split prod.split)
qed

lemma load_state_ok:
  assumes "runtime_ok (snd s)"
  shows "runtime_ok (snd (fst (load_monitor_runtime fj rd e m t s)))" and "snd (load_monitor_runtime fj rd e m t s) \<noteq> Panic"
  using assms ok_import by (auto simp: load_monitor_runtime_def read_json_or_quarantine_def split: option.split)


lemma run_service_run:
  assumes "manager_new (op_data_dir o') (op_ring_buffer o') = Some m"
    and "with_capacity_hours (unat (op_ring_buffer o') * 24) = Some h0"
  shows "\<exists>rt h fs. runtime_ok rt \<and> hist_ok h
    \<and> (run_service b o' = Panic \<or> (\<exists>s. run_service b o' = Ok s
         \<and> as_runtime s = rt\<lparr>rt_cumulative_iface := fst (cumulative_from_all h), rt_cumulative_device := snd (cumulative_from_all h)\<rparr>
         \<and> as_snapshot s = build_recovered_snapshot (as_runtime s) (bo_topology b) (bo_now_ms b)
         \<and> as_histogram s = h \<and> as_topology s = bo_topology b \<and> as_persistence s = Some m \<and> as_files s = fs))
    \<and> ((\<forall>p \<in> set (bo_iface_entries b) \<union> set (bo_device_entries b). ascii_name (snd p)) \<longrightarrow> run_service b o' \<noteq> Panic)"
proof -
  let ?names = "\<forall>p \<in> set (bo_iface_entries b) \<union> set (bo_device_entries b). ascii_name (snd p)"
  obtain fs1 rt r where st: "load_monitor_runtime (bo_devices_from_json b) (bo_devices_readable b) (bo_env b) m (bo_topology b)
      (bo_files b, runtime_default) = ((fs1, rt), r)" by (metis surj_pair)
  have rt: "runtime_ok rt" "r \<noteq> Panic"
    using load_state_ok [of "(bo_files b, runtime_default)" "bo_devices_from_json b" "bo_devices_readable b" "bo_env b" m "bo_topology b"] st
    by (simp_all add: runtime_default_ok)
  have h0: "hist_ok h0" using hist_ok_new [OF assms(2)] by simp
  obtain fs2 h2 r2 where l: "(if op_traffic_enable_storage o' then load_rings b m (fs1, h0) else ((fs1, h0), Ok ())) = ((fs2, h2), r2)"
    by (metis surj_pair)
  have h2: "hist_ok h2" "?names \<Longrightarrow> r2 \<noteq> Panic"
    using load_rings_ok [of "(fs1, h0)" b m] h0 l by (auto split: if_splits)
  obtain fs3 h3 r3 where c: "(if op_traffic_enable_storage o' then load_hour b m (fs2, h2) else ((fs2, h2), Ok ())) = ((fs3, h3), r3)"
    by (metis surj_pair)
  have h3: "hist_ok h3" "r3 \<noteq> Panic"
    using load_hour_ok [of "(fs2, h2)" b m] h2(1) c by (auto split: if_splits)
  have run: "run_service b o' = (case r2 of Panic \<Rightarrow> Panic | _ \<Rightarrow>
      (let rt' = rt\<lparr>rt_cumulative_iface := fst (cumulative_from_all h3), rt_cumulative_device := snd (cumulative_from_all h3)\<rparr>
                          in Ok \<lparr>as_snapshot = build_recovered_snapshot rt' (bo_topology b) (bo_now_ms b),
                                as_history = traffic_history_new (max (unat (op_history_window_minutes o') * 60) 1),
                                as_histogram = h3, as_runtime = rt', as_topology = bo_topology b, as_dns = recover_dns b o',
                                as_connections = conntrack_new (op_enable_connections o'), as_persistence = Some m, as_files = fs3\<rparr>))"
    using rt(2) h3(2) unfolding run_service_def assms option.case st
    by (cases r; cases r2; cases r3) (simp_all only: prod.case res.case l c res.simps simp_thms)
  show ?thesis
    by (rule exI [of _ rt], rule exI [of _ h3], rule exI [of _ fs3]) (use rt(1) h3(1) h2(2) in \<open>auto simp: run Let_def split: res.split\<close>)
qed

lemma run_needs:
  assumes "run_service b o' = Ok s"
  obtains m h0 where "manager_new (op_data_dir o') (op_ring_buffer o') = Some m"
    and "with_capacity_hours (unat (op_ring_buffer o') * 24) = Some h0"
proof -
  obtain m where m: "manager_new (op_data_dir o') (op_ring_buffer o') = Some m"
    using assms by (auto simp: run_service_def split: option.splits)
  then have "1 \<le> op_ring_buffer o'" by (auto simp: manager_new_def split: if_splits)
  then have "0 < unat (op_ring_buffer o')" by (simp add: word_le_nat_alt)
  then have "with_capacity_hours (unat (op_ring_buffer o') * 24) \<noteq> None" by (simp add: with_capacity_hours_def)
  with m that show thesis by blast
qed

lemma started_ok:
  assumes "run_service b o' = Ok s" and "topology_ok (bo_topology b)"
  shows "service_ok s"
proof -
  obtain m h0 where m: "manager_new (op_data_dir o') (op_ring_buffer o') = Some m"
    and h0: "with_capacity_hours (unat (op_ring_buffer o') * 24) = Some h0" by (rule run_needs [OF assms(1)])
  from run_service_run [OF m h0, of b] assms(1) obtain rt h where
    "runtime_ok rt" and h: "hist_ok h" "as_histogram s = h" "as_topology s = bo_topology b"
    and s: "as_runtime s = rt\<lparr>rt_cumulative_iface := fst (cumulative_from_all h), rt_cumulative_device := snd (cumulative_from_all h)\<rparr>"
      "as_snapshot s = build_recovered_snapshot (as_runtime s) (bo_topology b) (bo_now_ms b)"
    by auto
  then have "runtime_ok (as_runtime s)" using ok_cumulative by simp
  from recovered_once [OF this] have "listed_ok (as_snapshot s)" using s(2) by (simp add: listed_ok_def)
  with \<open>runtime_ok (as_runtime s)\<close> h assms(2) show ?thesis by (simp add: service_ok_def)
qed

lemma service_starts:
  assumes "clap_accepts o'" and "\<forall>p \<in> set (bo_iface_entries b) \<union> set (bo_device_entries b). ascii_name (snd p)"
  shows "\<exists>s. run_service b o' = Ok s
    \<and> (rt_cumulative_iface (as_runtime s), rt_cumulative_device (as_runtime s)) = cumulative_from_all (as_histogram s)
    \<and> as_snapshot s = build_recovered_snapshot (as_runtime s) (bo_topology b) (bo_now_ms b)
    \<and> as_persistence s = manager_new (op_data_dir o') (op_ring_buffer o') \<and> hist_ok (as_histogram s)"
proof -
  have ring: "1 \<le> op_ring_buffer o'" "op_ring_buffer o' \<le> 90" using assms(1) by (simp_all add: clap_accepts_def)
  then have "0 < unat (op_ring_buffer o')" by (simp add: word_le_nat_alt)
  with ring obtain m h0 where m: "manager_new (op_data_dir o') (op_ring_buffer o') = Some m"
    and h0: "with_capacity_hours (unat (op_ring_buffer o') * 24) = Some h0" by (simp add: manager_new_def with_capacity_hours_def)
  from run_service_run [OF m h0, of b] assms(2) obtain h s where run: "run_service b o' = Ok s" and "hist_ok h" "as_histogram s = h"
    "rt_cumulative_iface (as_runtime s) = fst (cumulative_from_all h)" "rt_cumulative_device (as_runtime s) = snd (cumulative_from_all h)"
    "as_snapshot s = build_recovered_snapshot (as_runtime s) (bo_topology b) (bo_now_ms b)" "as_persistence s = Some m"
    by auto
  then show ?thesis using m by (intro exI [of _ s]) simp
qed


definition sample_boot :: boot where
  "sample_boot = \<lparr>bo_topology = [], bo_now_ms = 5000, bo_env = \<lparr>env_pid = 7, env_now_ms = 5000\<rparr>,
     bo_files = [(''/d'', ''devices_state.json'') \<mapsto> [0, 1]], bo_iface_entries = [(''/d/traffic/iface'', ''6c616e.ring'')],
     bo_device_entries = [], bo_devices_readable = True, bo_hour_readable = True, bo_devices_from_json = (\<lambda>_. None),
     bo_hour_from_json = (\<lambda>_. None), bo_dns_disk = sample_disk, bo_dns_regular = True, bo_dns_from_json = (\<lambda>_. None), bo_hour = (\<lambda>ts. (ts div 3600000 * 3600000, ts div 3600000 * 3600000 + 3600000))\<rparr>"

abbreviation sample_line :: options where "sample_line \<equiv> sample_options_line ''auto'' ''last'' None None"

lemma sample_start: "clap_accepts sample_line" "\<forall>p \<in> set (bo_iface_entries sample_boot) \<union> set (bo_device_entries sample_boot). ascii_name (snd p)"
  by (simp_all add: clap_accepts_def sample_options_line_def sample_boot_def ascii_name_def byte_of_def)


end
