(* ===== verification/System.thy ===== *)
theory System
  imports Service
begin

text \<open>
  The whole service: the HTTP interface with the handler of every route, and the step relation of everything that
  changes the shared state: turns of the collector, cleanups, topology refreshes, HTTP requests, batches
  of captured DNS packets and events of the connection table.
\<close>

section \<open>The HTTP interface\<close>

text \<open>What axum's extractors take from the query string or the body, for all routes together; \<open>None\<close> when the request
  does not have it, which axum answers itself.\<close>

record api_call =
  ca_iface :: "string option"
  ca_mac :: "string option"
  ca_period :: "string option"
  ca_aggregate :: aggregate_query
  ca_ranking :: ranking_query
  ca_flows :: flows_query
  ca_dns :: dns_query_filter
  ca_device_iface :: string
  ca_device_mac :: string
  ca_device_hostname :: string

datatype api_answer =
    AnsRejected
  | AnsHealth "string envelope"
  | AnsSnapshot "snapshot_data envelope"
  | AnsOverview "iface_item list envelope res"
  | AnsDevices "device_item list envelope res"
  | AnsDeleted "delete_result envelope"
  | AnsRenamed "string envelope"
  | AnsTrend "history_sample list envelope"
  | AnsHistogram "bucket list envelope"
  | AnsRanking "ranking_item list envelope res"
  | AnsConnectionDevices "(conn_summary \<times> nat) envelope"
  | AnsConnectionFlows "flows_page envelope"
  | AnsDnsQueries "dns_page envelope"
  | AnsDnsStats "dns_stats envelope res"
  | AnsDnsConfig "dns_config envelope"

text \<open>The surroundings of a request: the calendar, the bounds of the local day of an instant, the instant a year ago, and what
  writing a file needs (with the clock).\<close>

record 'd surroundings =
  su_calendar :: "'d calendar"
  su_day :: "u64 \<Rightarrow> u64 \<times> u64"
  su_year_ago :: u64
  su_env :: api_env

text \<open>The two handlers without a query: the health check, and the snapshot as it is.\<close>

definition health :: "string envelope" where
  "health = answered ''ok''"

definition snapshot_handler :: "api_state \<Rightarrow> snapshot_data envelope" where
  "snapshot_handler s = answered (as_snapshot s)"

text \<open>The handler of each route. \<open>api_read\<close> has the reading routes that take a query; \<open>api_handle\<close> has the others and
  passes on only those, so the last case of \<open>api_read\<close> is not reached.\<close>

definition api_read :: "'d surroundings \<Rightarrow> api_call \<Rightarrow> api_route \<Rightarrow> api_state \<Rightarrow> api_answer" where
  "api_read su c h s =
     (let now = ae_now_ms (su_env su)
      in case h of
           GetOverview \<Rightarrow> AnsOverview (overview (su_calendar su) (su_day su) now (ca_period c) (as_snapshot s) (as_histogram s))
         | GetDevices \<Rightarrow> AnsDevices (devices (su_calendar su) (su_day su) now (ca_iface c) (ca_period c) (as_snapshot s) (as_histogram s))
         | GetTrend \<Rightarrow> AnsTrend (history (as_topology s) (as_snapshot s) (as_history s) (ca_iface c) (ca_mac c))
         | GetHistogram \<Rightarrow> AnsHistogram (aggregate (su_day su) now (as_topology s) (as_snapshot s) (rt_registry (as_runtime s)) (as_histogram s) (ca_aggregate c))
         | GetRanking \<Rightarrow> AnsRanking (usage_ranking (su_day su) now (su_year_ago su) (as_topology s) (as_snapshot s)
             (rt_registry (as_runtime s)) (as_histogram s) (ca_ranking c))
         | GetConnectionFlows \<Rightarrow> AnsConnectionFlows (connection_flows (as_connections s) (ca_flows c))
         | GetDnsQueries \<Rightarrow> AnsDnsQueries (dns_queries (ca_dns c) (as_dns s))
         | _ \<Rightarrow> AnsRejected)"

definition api_handle :: "'d surroundings \<Rightarrow> api_call option \<Rightarrow> api_route \<Rightarrow> api_state \<Rightarrow> api_state \<times> api_answer" where
  "api_handle su call h s =
     (case h of
        Health \<Rightarrow> (s, AnsHealth health)
      | GetSnapshot \<Rightarrow> (s, AnsSnapshot (snapshot_handler s))
      | GetConnectionDevices \<Rightarrow> (s, AnsConnectionDevices (connection_devices (as_connections s)))
      | GetDnsStats \<Rightarrow> (s, AnsDnsStats (dns_stats_handler (ae_now_ms (su_env su)) (as_dns s)))
      | GetDnsConfig \<Rightarrow> (s, AnsDnsConfig (dns_config_handler (as_dns s)))
      | _ \<Rightarrow>
         (case call of
            None \<Rightarrow> (s, AnsRejected)
          | Some c \<Rightarrow>
             (case h of
                DeleteDevice \<Rightarrow> (let (s', d) = delete_device_handler (su_env su) (ca_device_iface c) (ca_device_mac c) s in (s', AnsDeleted d))
              | PutHostname \<Rightarrow> (let (s', a) = set_device_hostname_handler (su_env su) (ca_device_iface c) (ca_device_mac c) (ca_device_hostname c) s
                  in (s', AnsRenamed a))
              | _ \<Rightarrow> (s, api_read su c h s))))"

definition handle_request ::
  "string \<Rightarrow> 'd surroundings \<Rightarrow> api_call option \<Rightarrow> http_request \<Rightarrow> api_state \<Rightarrow> api_state \<times> api_answer response" where
  "handle_request bearer_token su call r s = serve bearer_token (\<lambda>h _. api_handle su call h) r s"

section \<open>What requests change\<close>

lemma reading_routes:
  assumes "h \<noteq> DeleteDevice" and "h \<noteq> PutHostname"
  shows "fst (api_handle su call h s) = s"
  using assms by (cases h; cases call) (simp_all add: api_handle_def)

text \<open>The parts of the state that no request touches.\<close>

definition fixed_parts :: "api_state \<Rightarrow> topology \<times> dns_monitor \<times> conntrack_state \<times> manager option" where
  "fixed_parts s = (as_topology s, as_dns s, as_connections s, as_persistence s)"

lemma fixed_persist:
  "fixed_parts (fst (persist_monitor_runtime_state ev s)) = fixed_parts s" "fixed_parts (fst (persist_device_deletion_state ev s)) = fixed_parts s"
  "as_history (fst (persist_monitor_runtime_state ev s)) = as_history s" "as_histogram (fst (persist_monitor_runtime_state ev s)) = as_histogram s"
  by (simp_all add: persist_monitor_runtime_state_def persist_device_deletion_state_def fixed_parts_def Let_def case_prod_beta split: option.split)

lemma rename_frame:
  "fixed_parts (fst (set_device_hostname_handler ev iface mac_text hostname s)) = fixed_parts s
   \<and> as_history (fst (set_device_hostname_handler ev iface mac_text hostname s)) = as_history s
   \<and> as_histogram (fst (set_device_hostname_handler ev iface mac_text hostname s)) = as_histogram s"
proof (cases "trim iface = [] \<or> trim mac_text = [] \<or> trim hostname = []")
  case True
  then show ?thesis by (auto simp: set_device_hostname_handler_def Let_def)
next
  case False
  then show ?thesis
    by (simp add: set_device_hostname_handler_def Let_def fst_case_ok fixed_persist split: option.split sum.split)
      (simp add: fixed_parts_def)
qed

lemma delete_frame: "fixed_parts (fst (delete_device_handler ev iface mac_text s)) = fixed_parts s"
proof (cases "trim iface = []")
  case True
  then show ?thesis by (simp add: delete_device_handler_def Let_def)
next
  case False
  have persisted: "fst (case persist_device_deletion_state ev s2 of (s3, Ok _) \<Rightarrow> (s3, good) | (s3, _) \<Rightarrow> (s3, bad)) = fst (persist_device_deletion_state ev s2)"
    for s2 and good bad :: "delete_result envelope" by (rule fst_case_ok)
  from False show ?thesis
    by (simp add: delete_device_handler_def Let_def case_prod_beta persisted fixed_persist split: option.split sum.split res.split)
      (simp add: fixed_parts_def)
qed


lemma get_route_reads: "get_route p = Some h \<Longrightarrow> h \<noteq> DeleteDevice \<and> h \<noteq> PutHostname"
  unfolding get_route_def by (drule map_of_SomeD) auto

lemma changing_routes:
  assumes "route r = Some h"
  shows "h = DeleteDevice \<Longrightarrow> ht_method r = ''DELETE'' \<and> ht_path r = ''/api/devices''"
    and "h = PutHostname \<Longrightarrow> ht_method r = ''PUT'' \<and> ht_path r = ''/api/devices/hostname''"
    and "ht_method r = ''PUT'' \<Longrightarrow> h = PutHostname"
  using assms get_route_reads [of "ht_path r" h] unfolding route_def by (auto simp del: list.inject split: if_splits)

text \<open>C9: only two authenticated requests change anything. For a server that started, whatever a request carries, the topology, the DNS
  monitor, the connection table and the persistence manager stay as they are; if the state changes at
  all, the request carried the configured token and asked to delete or to rename a device; and a renaming
  leaves both histories as they are.\<close>

theorem requests_change_only_devices:
  assumes "start_server from_pem header_valid token_file bound tls_cert tls_key cors_origin = Ok sv"
    and "handle_request (sv_bearer_token sv) su call r s = (s', a)"
  shows "fixed_parts s' = fixed_parts s
    \<and> (s' \<noteq> s \<longrightarrow> ht_authorization r = Some (''Bearer '' @ sv_bearer_token sv)
         \<and> (ht_method r, ht_path r) \<in> {(''DELETE'', ''/api/devices''), (''PUT'', ''/api/devices/hostname'')})
    \<and> (ht_method r = ''PUT'' \<longrightarrow> as_history s' = as_history s \<and> as_histogram s' = as_histogram s)"
proof -
  have kept: "fixed_parts (fst (api_handle su call h s)) = fixed_parts s" for h
    by (cases h; cases call) (simp_all add: api_handle_def Let_def case_prod_beta rename_frame delete_frame)
  have put: "as_history (fst (api_handle su call PutHostname s)) = as_history s \<and> as_histogram (fst (api_handle su call PutHostname s)) = as_histogram s"
    by (cases call) (simp_all add: api_handle_def Let_def case_prod_beta rename_frame)
  note served = served_with_token [OF assms(1) assms(2) [unfolded handle_request_def]]
  show ?thesis
  proof (cases "ht_method r \<noteq> ''OPTIONS'' \<and> route r \<noteq> None \<and> ht_authorization r = Some (''Bearer '' @ sv_bearer_token sv)")
    case False
    with served have "s' = s" by (auto split: if_splits)
    then show ?thesis by simp
  next
    case True
    then obtain h where h: "route r = Some h" by blast
    with served True have s': "s' = fst (api_handle su call h s)" by (simp add: Let_def case_prod_beta)
    have "h = DeleteDevice \<or> h = PutHostname" if "s' \<noteq> s" using that s' reading_routes [of h su call s] by auto
    then have "s' \<noteq> s \<longrightarrow> (ht_method r, ht_path r) \<in> {(''DELETE'', ''/api/devices''), (''PUT'', ''/api/devices/hostname'')}"
      using changing_routes(1,2) [OF h] by blast
    moreover have "ht_method r = ''PUT'' \<longrightarrow> as_history s' = as_history s \<and> as_histogram s' = as_histogram s"
      using changing_routes(3) [OF h] put s' by blast
    ultimately show ?thesis using True kept [of h] s' by simp
  qed
qed


section \<open>The running service\<close>

text \<open>Everything that changes the shared state, from a state \<open>sv0\<close> on; the number counts the items taken from the DNS ring
  buffer. Local dates are counted as numbers of days.\<close>

inductive system_run :: "manager \<Rightarrow> string \<Rightarrow> service \<Rightarrow> nat \<Rightarrow> service \<Rightarrow> bool" for m bearer_token sv0 where
  Start: "system_run m bearer_token sv0 0 sv0"
| Turn: "system_run m bearer_token sv0 n sv \<Longrightarrow> collector_turn te m sv = Ok sv' \<Longrightarrow> system_run m bearer_token sv0 n sv'"
| Cleanup: "system_run m bearer_token sv0 n sv \<Longrightarrow> system_run m bearer_token sv0 n (cleanup_turn ttl_days now_ms m sv)"
| Refresh: "system_run m bearer_token sv0 n sv \<Longrightarrow> system_run m bearer_token sv0 n
    (refresh_topology (if found then Some (discover master infos subnet_map zones) else None) sv)"
| Request: "system_run m bearer_token sv0 n sv \<Longrightarrow>
    handle_request bearer_token (su :: int surroundings) call r (se_api sv) = (s', a) \<Longrightarrow> system_run m bearer_token sv0 n (sv\<lparr>se_api := s'\<rparr>)"
| Dns: "system_run m bearer_token sv0 n sv \<Longrightarrow>
    reader_batch (rt_registry (as_runtime (se_api sv))) (as_topology (se_api sv)) off items (as_dns (se_api sv)) = Ok (Some d) \<Longrightarrow>
    system_run m bearer_token sv0 (n + length items) (sv\<lparr>se_api := (se_api sv)\<lparr>as_dns := d\<rparr>\<rparr>)"
| Connection: "system_run m bearer_token sv0 n sv \<Longrightarrow> conntrack_step (as_connections (se_api sv)) c \<Longrightarrow>
    system_run m bearer_token sv0 n (sv\<lparr>se_api := (se_api sv)\<lparr>as_connections := c\<rparr>\<rparr>)"

section \<open>The DNS monitor in the service\<close>

definition dns_ok :: "nat \<Rightarrow> dns_monitor \<Rightarrow> bool" where
  "dns_ok n d = (dns_inv d \<and> caches_bounded d \<and> unat (next_id d) \<le> n)"

lemma dns_run_keeps:
  assumes "dns_ok n d" and "n + length es < 2 ^ 64"
  shows "\<exists>d'. dns_run es d = Some d' \<and> dns_ok (n + length es) d'"
  using assms
proof (induction es arbitrary: n d)
  case Nil
  then show ?case by simp
next
  case (Cons e es)
  obtain msg now ts dev where e: "e = (msg, now, ts, dev)" by (cases e)
  have "unat (next_id d) < 2 ^ 64 - 1" using Cons.prems by (simp add: dns_ok_def)
  then have "next_id d < - 1" by (simp add: word_less_nat_alt unsigned_minus_1_eq_mask mask_eq_exp_minus_1)
  then obtain d1 where d1: "dns_ingest msg now ts dev d = Some d1" and ok: "dns_ok (Suc n) d1"
    using dns_ingest_ok [of d msg now ts dev] Cons.prems(1) by (auto simp: dns_ok_def)
  from Cons.IH [OF ok] Cons.prems(2) d1 show ?case by (simp add: e)
qed

lemma dns_ok_mono: "dns_ok n d \<Longrightarrow> n \<le> k \<Longrightarrow> dns_ok k d"
  by (simp add: dns_ok_def)

lemma reader_batch_keeps:
  assumes "dns_ok n d" and "n + length items < 2 ^ 64"
  shows "\<exists>d'. reader_batch reg t off items d = Ok (Some d') \<and> dns_ok (n + length items) d'"
proof -
  obtain ms errs where m: "drain_items items [] 0 = Ok (ms, errs)" "length ms + unat errs = length items"
    using drain_items_total [of 0 items "[]"] assms(2) by auto
  have errs: "dns_ok n (note_parse_errors errs d)"
    using assms(1) by (simp add: dns_ok_def note_parse_errors_def dns_inv_def dns_wf_def caches_bounded_def)
  have "n + length (map (message_event reg t off) ms) < 2 ^ 64" using m(2) assms(2) by simp
  from dns_run_keeps [OF errs this] obtain d' where d': "dns_run (map (message_event reg t off) ms) (note_parse_errors errs d) = Some d'"
    "dns_ok (n + length ms) d'" by auto
  have "dns_ok (n + length items) d'" "dns_ok (n + length items) d"
    using dns_ok_mono [OF d'(2)] dns_ok_mono [OF assms(1)] m(2) by simp_all
  with m(1) d'(1) show ?thesis by (simp add: reader_batch_def)
qed

lemma restore_record_frame:
  "max_records (restore_record r d) = max_records d" "recent_queries (restore_record r d) = recent_queries d"
  "recent_responses (restore_record r d) = recent_responses d" "length (order (restore_record r d)) = Suc (length (order d))"
  by (simp_all add: restore_record_def Let_def)

lemma restore_fold_ok:
  "dns_wf d \<Longrightarrow> unat (next_id d) + length rs < 2 ^ 64 \<Longrightarrow>
    dns_wf (fold restore_record rs d) \<and> unat (next_id (fold restore_record rs d)) = unat (next_id d) + length rs
    \<and> max_records (fold restore_record rs d) = max_records d \<and> recent_queries (fold restore_record rs d) = recent_queries d
    \<and> recent_responses (fold restore_record rs d) = recent_responses d \<and> length (order (fold restore_record rs d)) = length (order d) + length rs"
proof (induction rs arbitrary: d)
  case (Cons r rs)
  have "next_id d < - 1"
    using Cons.prems(2) by (simp add: word_less_nat_alt unsigned_minus_1_eq_mask mask_eq_exp_minus_1)
  from restore_record_ok [OF Cons.prems(1) this, of r] Cons restore_record_frame [of r d] show ?case by simp
qed simp

lemma restored_ok: "n < 2 ^ 62 \<Longrightarrow> dns_ok (2 ^ 62 + 1) (restore_records rs (dns_new enabled persist n ifs))"
proof -
  assume n: "n < 2 ^ 62"
  let ?d = "dns_new enabled persist n ifs" and ?rs = "rev (take (max n 1) (rev rs))"
  have wf: "dns_wf ?d" using dns_new_ok by (simp add: dns_inv_def)
  have len: "length ?rs \<le> max n 1" by simp
  then have small: "length ?rs \<le> 2 ^ 62" using n by linarith
  moreover have "unat (next_id ?d) = 1" by (simp add: dns_new_def)
  ultimately have "unat (next_id ?d) + length ?rs < 2 ^ 64" by (simp del: length_rev length_take)
  from restore_fold_ok [OF wf this] have f: "dns_wf (fold restore_record ?rs ?d)" "unat (next_id (fold restore_record ?rs ?d)) = 1 + length ?rs"
    "max_records (fold restore_record ?rs ?d) = max n 1" "recent_queries (fold restore_record ?rs ?d) = []"
    "recent_responses (fold restore_record ?rs ?d) = []" "length (order (fold restore_record ?rs ?d)) = length ?rs"
    by (simp_all add: dns_new_def)
  have "length (records (fold restore_record ?rs ?d)) \<le> max n 1" using dns_wf_length [OF f(1)] f(6) len by simp
  moreover have "restore_records rs ?d = fold restore_record ?rs ?d" by (simp add: restore_records_def dns_new_def)
  moreover have "unat (next_id (fold restore_record ?rs ?d)) \<le> 2 ^ 62 + 1" using f(2) small by linarith
  ultimately show ?thesis using f(1,3-5) by (simp add: dns_ok_def dns_inv_def caches_bounded_def)
qed

section \<open>The invariant of the running service\<close>

definition system_ok :: "nat \<Rightarrow> api_state \<Rightarrow> bool" where
  "system_ok n s = (service_ok s \<and> dns_ok (2 ^ 62 + 1 + n) (as_dns s) \<and> table_ok (as_connections s))"

lemma request_keeps: "service_ok s \<Longrightarrow> service_ok (fst (api_handle su call h s))"
  by (cases h; cases call) (simp_all add: api_handle_def Let_def case_prod_beta rename_keeps delete_keeps)

lemma handled_by_route:
  assumes "handle_request bearer_token su call r s = (s', a)"
  shows "s' = s \<or> (\<exists>h. s' = fst (api_handle su call h s))"
  using assms by (auto simp: handle_request_def serve_def require_bearer_token_def Let_def case_prod_beta split: if_splits option.splits)

lemma handled_fixed: "fixed_parts (fst (api_handle su call h s)) = fixed_parts s"
  by (cases h; cases call) (simp_all add: api_handle_def Let_def case_prod_beta rename_frame delete_frame)

lemma turn_frame:
  assumes "collector_turn te m sv = Ok sv'"
  shows "as_dns (se_api sv') = as_dns (se_api sv)" and "as_connections (se_api sv') = as_connections (se_api sv)"
  using assms by (auto simp: collector_turn_def periodic_save_def Let_def case_prod_beta split: snap_outcome.splits if_splits)

lemma step_frame:
  "as_dns (se_api (cleanup_turn ttl_days now_ms m sv)) = as_dns (se_api sv)"
  "as_connections (se_api (cleanup_turn ttl_days now_ms m sv)) = as_connections (se_api sv)"
  "as_dns (se_api (refresh_topology found sv)) = as_dns (se_api sv)"
  "as_connections (se_api (refresh_topology found sv)) = as_connections (se_api sv)"
  by (simp_all add: cleanup_turn_def refresh_topology_def Let_def split: option.split)

lemma system_run_ok:
  "system_run m bearer_token sv0 n sv \<Longrightarrow> system_ok 0 (se_api sv0) \<Longrightarrow> n < 2 ^ 63 \<Longrightarrow> system_ok n (se_api sv)"
proof (induction rule: system_run.induct)
  case (Turn n sv te sv')
  then show ?case using turn_keeps [of sv te m] turn_frame [OF Turn.hyps(2)] by (simp add: system_ok_def)
next
  case (Request n sv su call r s' a)
  have "service_ok s' \<and> fixed_parts s' = fixed_parts (se_api sv)"
    using handled_by_route [OF Request.hyps(2)] Request request_keeps [of "se_api sv" su call] handled_fixed [of su call _ "se_api sv"]
    by (auto simp: system_ok_def)
  with Request show ?case by (simp add: system_ok_def fixed_parts_def)
next
  case (Dns n sv off items d)
  then have ok: "system_ok n (se_api sv)" by simp
  then have "dns_ok (2 ^ 62 + 1 + n) (as_dns (se_api sv))" by (simp add: system_ok_def)
  moreover have "2 ^ 62 + 1 + n + length items < 2 ^ 64" using Dns.prems(2) by simp
  ultimately have "dns_ok (2 ^ 62 + 1 + n + length items) d"
    using reader_batch_keeps [of "2 ^ 62 + 1 + n" "as_dns (se_api sv)" items "rt_registry (as_runtime (se_api sv))" "as_topology (se_api sv)" off]
      Dns.hyps(2) by auto
  with ok show ?case by (simp add: system_ok_def service_ok_def add.assoc)
next
  case (Connection n sv c)
  then show ?case using conntrack_step_ok by (simp add: system_ok_def service_ok_def)
qed (simp_all add: system_ok_def cleanup_keeps refresh_keeps step_frame)


lemma started_parts:
  assumes "run_service b o' = Ok s"
  shows "as_dns s = recover_dns b o'" and "as_connections s = conntrack_new (op_enable_connections o')"
  using assms unfolding run_service_def Let_def by (auto split: option.splits prod.splits res.splits)

lemma recovered_dns_ok: "dns_ok (2 ^ 62 + 1) (recover_dns b o')"
proof -
  have n: "unat (op_dns_max_records o') < 2 ^ 62" using unat_lt [of "op_dns_max_records o'"] by simp
  have "restore_records [] (dns_new e p k ifs) = dns_new e p k ifs" for e p k ifs by (simp add: restore_records_def)
  then have fresh: "dns_ok (2 ^ 62 + 1) (dns_new e p (unat (op_dns_max_records o')) ifs)" for e p ifs
    using restored_ok [OF n, of "[]" e p ifs] by simp
  show ?thesis
    unfolding recover_dns_def Let_def using fresh restored_ok [OF n] by (simp split: res.split)
qed

lemma started_system_ok:
  assumes "run_service b o' = Ok s" and "topology_ok (bo_topology b)"
  shows "system_ok 0 s"
  using started_ok [OF assms] started_parts [OF assms(1)] recovered_dns_ok [of b o']
  by (simp add: system_ok_def table_ok_def conntrack_new_def)



definition sample_surroundings :: "nat surroundings" where
  "sample_surroundings =
     \<lparr>su_calendar = \<lparr>cal_date = (\<lambda>t. Some (unat t div 86400000)), cal_midnight = (\<lambda>d. Some (of_nat (d * 86400000))),
        cal_weekday = (\<lambda>d. (d + 3) mod 7), cal_minus_days = (\<lambda>d n. d - n), cal_month_start = (\<lambda>d. d), cal_year_start = (\<lambda>d. d)\<rparr>,
      su_day = (\<lambda>t. (t div 86400000 * 86400000, t div 86400000 * 86400000 + 86399999)), su_year_ago = 0, su_env = sample_api_env\<rparr>"

definition sample_call :: api_call where
  "sample_call =
     \<lparr>ca_iface = None, ca_mac = None, ca_period = None,
      ca_aggregate = \<lparr>aq_iface = None, aq_mac = None, aq_traffic_type = None, aq_start_ms = None, aq_end_ms = None, aq_bucket = None\<rparr>,
      ca_ranking = \<lparr>rq_iface = None, rq_traffic_type = None, rq_start_ms = None, rq_end_ms = None, rq_limit = None\<rparr>,
      ca_flows = \<lparr>fq_ip = None, fq_protocol = None, fq_state = None, fq_page = None, fq_page_size = None\<rparr>,
      ca_dns = \<lparr>qf_domain = None, qf_device = None, qf_dns_server = None, qf_query_type = None, qf_result = None, qf_iface = None, qf_protocol = None, qf_page = None, qf_page_size = None\<rparr>,
      ca_device_iface = ''br-lan'', ca_device_mac = ''02:00:00:00:00:01'', ca_device_hostname = []\<rparr>"

theorem requests_change_only_devices_witness:
  "fixed_parts (fst (handle_request sample_token sample_surroundings (Some sample_call)
      (sample_request ''DELETE'' ''/api/devices'' (Some (''Bearer '' @ sample_token))) sample_api_state)) = fixed_parts sample_api_state
   \<and> fst (handle_request sample_token sample_surroundings (Some sample_call) (sample_request ''DELETE'' ''/api/devices'' None) sample_api_state) = sample_api_state"
proof -
  let ?run = "\<lambda>auth. handle_request sample_token sample_surroundings (Some sample_call) (sample_request ''DELETE'' ''/api/devices'' auth) sample_api_state"
  have run: "?run auth = (fst (?run auth), snd (?run auth))" for auth by simp
  have token: "sv_bearer_token \<lparr>sv_tls = None, sv_bearer_token = sample_token, sv_cors_origin = None\<rparr> = sample_token" by simp
  note req = requests_change_only_devices [OF sample_server, unfolded token, OF run]
  from req [of "Some (''Bearer '' @ sample_token)"] req [of None] show ?thesis
    by (auto simp: sample_request_def)
qed

end
