(* ===== verification/Redaction.thy ===== *)
theory Redaction
  imports Ip_Text Runtime
begin

text \<open>
  The texts computed for the log: the redaction of IPv6 addresses (\<open>utils.rs\<close>), and the address and the neighbour of an offloaded
  flow that cannot be attributed (\<open>monitor.rs\<close>). A string is a UTF-8 byte string, a Rust \<open>char\<close> the bytes that encode it.
\<close>

definition char_is_hexdigit :: "string \<Rightarrow> bool" where
  "char_is_hexdigit c = (case c of [b] \<Rightarrow> is_ascii_hexdigit b | _ \<Rightarrow> False)"

definition redact_ipv6_addr_part_keep_edge_chars :: "string \<Rightarrow> string" where
  "redact_ipv6_addr_part_keep_edge_chars addr_part =
     (let cs = chars addr_part; n = length cs
      in if n \<le> 8 then concat (map (\<lambda>c. if char_is_hexdigit c then ''*'' else c) cs)
         else concat (map (\<lambda>i. let c = cs ! i
                in if i < 4 \<or> i \<ge> n - 4 then c else if char_is_hexdigit c then ''*'' else c) [0..<n]))"

definition redact_ipv6_cidr_for_log :: "string \<Rightarrow> string" where
  "redact_ipv6_cidr_for_log cidr =
     (let trimmed = trim cidr;
          (before_slash, slash_suffix) = (case split_once CHR ''/'' trimmed of Some (a, p) \<Rightarrow> (a, ''/'' @ trim p) | None \<Rightarrow> (trimmed, []));
          (addr_part, zone_suffix) = (case split_once CHR ''%'' before_slash of Some (a, z) \<Rightarrow> (a, ''%'' @ z) | None \<Rightarrow> (before_slash, []))
      in redact_ipv6_addr_part_keep_edge_chars addr_part @ zone_suffix @ slash_suffix)"

section \<open>What the log does not reveal\<close>

lemma chars_of_ascii_text: "list_all (\<lambda>c. byte_of c < 128) s \<Longrightarrow> chars s = map (\<lambda>c. [c]) s"
  by (induction s) (simp_all add: chars_ascii)

text \<open>Two texts look the same to the reader of the log when they differ only in hex digits that are not among the first or last
  four characters.\<close>

definition same_edges :: "string \<Rightarrow> string \<Rightarrow> bool" where
  "same_edges a b = (length a = length b \<and> (\<forall>i < length a. a ! i = b ! i
     \<or> (is_ascii_hexdigit (a ! i) \<and> is_ascii_hexdigit (b ! i) \<and> (length a \<le> 8 \<or> 4 \<le> i \<and> i < length a - 4))))"

definition shown_at :: "string \<Rightarrow> nat \<Rightarrow> string" where
  "shown_at s i = (if is_ascii_hexdigit (s ! i) \<and> (length s \<le> 8 \<or> 4 \<le> i \<and> i < length s - 4) then ''*'' else [s ! i])"

lemma redact_shown:
  assumes "list_all (\<lambda>c. byte_of c < 128) s"
  shows "redact_ipv6_addr_part_keep_edge_chars s = concat (map (shown_at s) [0..<length s])"
proof (cases "length s \<le> 8")
  case True
  have "map (\<lambda>c. if char_is_hexdigit c then ''*'' else c) (chars s) = map (shown_at s) [0..<length s]"
    using True by (intro nth_equalityI) (auto simp: chars_of_ascii_text [OF assms] shown_at_def char_is_hexdigit_def)
  then show ?thesis using True by (simp add: redact_ipv6_addr_part_keep_edge_chars_def chars_of_ascii_text [OF assms] Let_def)
next
  case False
  then have "map (\<lambda>i. let c = chars s ! i in if i < 4 \<or> i \<ge> length s - 4 then c else if char_is_hexdigit c then ''*'' else c) [0..<length s]
      = map (shown_at s) [0..<length s]"
    by (intro map_cong) (auto simp: chars_of_ascii_text [OF assms] shown_at_def char_is_hexdigit_def Let_def)
  moreover have "length (chars s) = length s" by (simp add: chars_of_ascii_text [OF assms])
  ultimately show ?thesis using False by (simp only: redact_ipv6_addr_part_keep_edge_chars_def Let_def if_False)
qed

lemma redacted_same:
  assumes "same_edges a b" and "list_all (\<lambda>c. byte_of c < 128) (a @ b)"
  shows "redact_ipv6_addr_part_keep_edge_chars a = redact_ipv6_addr_part_keep_edge_chars b"
proof -
  have "map (shown_at a) [0..<length a] = map (shown_at b) [0..<length b]"
  proof (rule nth_equalityI)
    fix i
    assume "i < length (map (shown_at a) [0..<length a])"
    then show "map (shown_at a) [0..<length a] ! i = map (shown_at b) [0..<length b] ! i"
      using assms(1) by (simp add: same_edges_def shown_at_def) (elim conjE, drule spec [of _ i], auto)
  qed (use assms(1) in \<open>simp add: same_edges_def\<close>)
  then show ?thesis using assms(2) by (simp add: redact_shown)
qed

lemma split_once_absent: "c \<notin> set s \<Longrightarrow> split_once c s = None"
  by (induction s) auto

lemma split_once_at: "c \<notin> set a \<Longrightarrow> split_once c (a @ c # b) = Some (a, b)"
  by (induction a) auto

text \<open>The log does not reveal IPv6 addresses. Two addresses that agree in their first and last four characters and in the places of the colons (of
  short addresses: only in the places of the colons) are logged as the same text, with the same prefix length.\<close>

theorem redaction_reveals_only_edges:
  assumes "same_edges a b" and "list_all (\<lambda>c. byte_of c < 128) (a @ b)"
    and "{CHR ''/'', CHR ''%''} \<inter> set (a @ b) = {}" and "no_ws (a @ ''/'' @ p)" and "no_ws (b @ ''/'' @ p)"
  shows "redact_ipv6_cidr_for_log (a @ ''/'' @ p) = redact_ipv6_cidr_for_log (b @ ''/'' @ p)"
proof -
  have "redact_ipv6_cidr_for_log (s @ ''/'' @ p) = redact_ipv6_addr_part_keep_edge_chars s @ ''/'' @ trim p"
    if "s = a \<or> s = b" for s
  proof -
    have "CHR ''/'' \<notin> set s" "CHR ''%'' \<notin> set s" "trim (s @ ''/'' @ p) = s @ ''/'' @ p"
      using that assms(3-5) by (auto simp: trim_no_ws)
    then show ?thesis using split_once_at [of "CHR ''/''" s p]
      by (simp add: redact_ipv6_cidr_for_log_def Let_def split_once_absent)
  qed
  then show ?thesis using redacted_same [OF assms(1,2)] by simp
qed

theorem redaction_reveals_only_edges_witness:
  "redact_ipv6_cidr_for_log ''2408:820c:a93a:1::1/60'' = redact_ipv6_cidr_for_log ''2408:ffff:0000:1::1/60''"
proof -
  let ?a = "''2408:820c:a93a:1::1''" and ?b = "''2408:ffff:0000:1::1''"
  have "same_edges ?a ?b"
    unfolding same_edges_def by (simp add: less_Suc_eq is_ascii_hexdigit_def to_digit_def)
  moreover have "list_all (\<lambda>c. byte_of c < 128) (?a @ ?b)" by (simp add: byte_of_def)
  moreover have "{CHR ''/'', CHR ''%''} \<inter> set (?a @ ?b) = {}" by simp
  moreover have "no_ws (?a @ ''/'' @ ''60'')" "no_ws (?b @ ''/'' @ ''60'')" by code_simp+
  ultimately show ?thesis using redaction_reveals_only_edges [of ?a ?b "''60''"] by simp
qed

section \<open>Offloaded flows in the log\<close>

definition format_ecm_ip :: "u32 list \<Rightarrow> u8 \<Rightarrow> string" where
  "format_ecm_ip ip ver =
     (if ver = 4 then ipv4_to_string (ip ! 0)
      else ipv6_to_string (ipv6_of_segments
        [ucast (drop_bit 16 (ip ! 0)), ucast (ip ! 0), ucast (drop_bit 16 (ip ! 1)), ucast (ip ! 1),
         ucast (drop_bit 16 (ip ! 2)), ucast (ip ! 2), ucast (drop_bit 16 (ip ! 3)), ucast (ip ! 3)]))"

definition ipv6_neighbor_diagnostic_of :: "monitor_runtime \<Rightarrow> u32 list \<Rightarrow> string \<times> string \<times> string" where
  "ipv6_neighbor_diagnostic_of rt ip =
     (case rt_ipv6_neighbor_diagnostics rt ip of
        None \<Rightarrow> (''absent'', ''-'', ''-'')
      | Some entry \<Rightarrow> (nd_state entry, nd_dev entry, nd_mac entry))"

text \<open>The address the kernel counts a flow under is shown as the address itself, for both versions.\<close>

lemma join_halves:
  fixes x :: "128 word" and w :: u32
  shows "push_bit 16 (push_bit 16 x OR ucast (ucast (drop_bit 16 w) :: u16)) OR ucast (ucast w :: u16) = push_bit 32 x OR ucast w"
  by (rule bit_word_eqI) (auto simp: bit_simps not_le not_less dest: bit_imp_le_length)

lemma join_word:
  fixes b :: "128 word"
  shows "push_bit 32 (drop_bit 32 b) OR ucast (ucast b :: u32) = b"
  by (rule bit_word_eqI) (auto simp: bit_simps not_le not_less)

lemma top_word:
  fixes a :: "128 word"
  shows "ucast (ucast (drop_bit 96 a) :: u32) = drop_bit 96 a"
  by (rule bit_word_eqI) (auto simp: bit_simps dest: bit_imp_le_length)

lemma ipv6_words_list: "ipv6_words a = [ucast (drop_bit 96 a), ucast (drop_bit 64 a), ucast (drop_bit 32 a), ucast a]"
  by (simp add: ipv6_words_def upt_rec)

lemma segments_of_words:
  "ipv6_of_segments
     [ucast (drop_bit 16 (ipv6_words a ! 0)), ucast (ipv6_words a ! 0), ucast (drop_bit 16 (ipv6_words a ! 1)), ucast (ipv6_words a ! 1),
      ucast (drop_bit 16 (ipv6_words a ! 2)), ucast (ipv6_words a ! 2), ucast (drop_bit 16 (ipv6_words a ! 3)), ucast (ipv6_words a ! 3)] = a"
proof -
  have nth: "ipv6_words a ! 0 = ucast (drop_bit 96 a)" "ipv6_words a ! 1 = ucast (drop_bit 64 a)"
    "ipv6_words a ! 2 = ucast (drop_bit 32 a)" "ipv6_words a ! 3 = ucast a"
    unfolding ipv6_words_list by simp_all
  have words: "push_bit 32 (drop_bit 96 a) OR ucast (ucast (drop_bit 64 a) :: u32) = drop_bit 64 a"
    "push_bit 32 (drop_bit 64 a) OR ucast (ucast (drop_bit 32 a) :: u32) = drop_bit 32 a"
    using join_word [of "drop_bit 64 a"] join_word [of "drop_bit 32 a"] by simp_all
  have joined: "ipv6_of_segments [ucast (drop_bit 16 p), ucast p, ucast (drop_bit 16 q), ucast q, ucast (drop_bit 16 r), ucast r, ucast (drop_bit 16 t), ucast t]
      = push_bit 32 (push_bit 32 (push_bit 32 (ucast p) OR ucast q) OR ucast r) OR ucast t" for p q r t :: u32
    using join_halves [of 0 p] by (simp only: ipv6_of_segments_def fold.simps id_apply comp_apply join_halves push_bit_of_0 or.left_neutral)
  show ?thesis unfolding nth joined top_word words by (rule join_word)
qed

theorem format_ecm_ip_shows_address:
  "format_ecm_ip (ipv6_words a) 6 = ip_to_string (V6 a)" and "format_ecm_ip [b, 0, 0, 0] 4 = ip_to_string (V4 b)"
  unfolding format_ecm_ip_def by (simp_all only: segments_of_words ip_to_string.simps) simp_all

end
