(* ===== verification/Spec2Isabelle.thy ===== *)
theory Spec2Isabelle
  imports End_To_End System Redaction
begin

text \<open>
  bandix-plus-lite: a traffic monitor for routers, its packet program in the kernel and its daemon.

  The program and its parts.

  A packet program (\<open>src/bandix-plus-ebpf/src/main.rs\<close>) is attached to the ingress and egress of the monitored
  interfaces. It classifies every frame, skips the router's own management traffic, counts packets and bytes per
  interface and per device in hash maps, and copies DNS packets into a ring buffer. Two probes count
  the traffic that a hardware offload engine (ECM) reports by address. The types it shares with the daemon are in
  \<open>src/bandix-plus-common/src/lib.rs\<close>.
  The daemon (\<open>src/bandix-plus/src\<close>) recovers its saved state, attaches the program and then runs concurrent loops:
  \<^item> the collector reads the maps every tick, books what the counters grew by, computes rates and a
    snapshot, feeds the recent history and the hourly histogram, and saves (\<open>monitor.rs\<close>, \<open>command.rs\<close>, \<open>persistence.rs\<close>);
  \<^item> the cleanup removes devices that were not seen for a number of days, and the topology is discovered anew every minute;
  \<^item> the DNS reader parses captured packets, matches responses to queries and keeps a bounded history (\<open>dns.rs\<close>);
  \<^item> the conntrack monitor applies netlink events and dumps to a bounded table of connections (\<open>conntrack.rs\<close>);
  \<^item> the HTTP server answers queries from all of this, and renames and deletes devices (\<open>api.rs\<close>).

  Which theory models what. Definitions keep the names of the code where Isabelle allows it.
  \<^item> \<open>Prelude\<close>: machine integers, saturating arithmetic, byte codecs, the result type of code that may panic,
    the interface of a bounded log, and the collections \<open>sat_simps\<close>, \<open>codec_simps\<close>, \<open>res_simps\<close>.
  \<^item> \<open>Rust_Strings\<close>, \<open>Ip_Text\<close>, \<open>F64\<close>: the parts of Rust's standard library that the code uses: string operations on
    UTF-8 bytes, IP addresses as text, double precision rounding.
  \<^item> \<open>Addresses\<close>, \<open>Interfaces\<close>, \<open>Neighbors\<close>, \<open>Redaction\<close>: \<open>utils.rs\<close> (MAC texts, address classes, roles; interface list, subnets,
    firewall zones; neighbour tables, leases and host names; texts for the log). \<open>Topology\<close>: \<open>topology.rs\<close>. \<open>Common\<close>: the shared types.
  \<^item> \<open>Ebpf\<close>: the packet program over explicit maps.
  \<^item> \<open>Buckets\<close>, \<open>Histogram\<close>, \<open>Traffic_History\<close>: \<open>CounterQuad\<close>, \<open>AggregatedBucket\<close>, \<open>HistogramHistory\<close> and
    \<open>TrafficHistory\<close> of \<open>monitor.rs\<close>.
  \<^item> \<open>Accounting\<close>, \<open>Runtime\<close>, \<open>Snapshot\<close>: the accounting rules, \<open>MonitorRuntime\<close>, and \<open>collect_snapshot\<close> of
    \<open>monitor.rs\<close>. Their theorems are in \<open>Ledger\<close> (a tick books every increment once), \<open>Totals\<close> (over many ticks),
    \<open>Tick_Outcome\<close> (how a tick ends), \<open>Rates\<close> (smoothing) and \<open>Collector\<close> (the invariant of the collector's state).
  \<^item> \<open>Ring_Codec\<close>, \<open>Ring\<close>, \<open>Persistence\<close>, \<open>State_Files\<close>: \<open>persistence.rs\<close> (record format, ring files, manager, JSON files).
  \<^item> \<open>Dns_Wire\<close>, \<open>Dns_Monitor\<close>, \<open>Dns_Files\<close>: \<open>dns.rs\<close> (packet parser, \<open>DnsMonitor\<close> and reader, history file).
  \<^item> \<open>Netlink\<close>, \<open>Flow_Parser\<close>, \<open>Conntrack\<close>: \<open>conntrack.rs\<close> (buffer iterators, ctnetlink parser, connection table).
  \<^item> \<open>Api_Query\<close>, \<open>Device_Store\<close>, \<open>Api\<close>: \<open>api.rs\<close> (reading handlers; what dropping a device means for each store;
    server start, token, routes, renaming and deletion).
  \<^item> \<open>Startup\<close>: \<open>options.rs\<close>, \<open>validate_arguments\<close> of \<open>command.rs\<close>, and \<open>ebpf/shared.rs\<close> (attach plan and filter maps).
  \<^item> \<open>Service\<close>: \<open>run_service\<close> of \<open>command.rs\<close>: recovery, the collector's turn, cleanup, refresh.
  \<^item> \<open>End_To_End\<close> composes the packet program with the collector; \<open>System\<close> composes the whole daemon.

  How state corresponds. A struct is a record with a prefix per type, an enum a datatype, \<open>u8\<close> to \<open>u128\<close> are words of
  that width. \<open>usize\<close> is \<open>nat\<close>: the values are lengths and indices in memory. A string is the list of its UTF-8 bytes. A hash map whose order
  can be observed, or that is iterated, is an association list with distinct keys in an arbitrary order, another one a
  partial function. \<open>res\<close> has the ways a computation ends: \<open>Ok\<close>, \<open>Fail\<close> for an error value, and \<open>Panic\<close> for an
  index, slice or unwrap that fails; each check the code makes before an access is a branch of the model. Files are a map from paths to
  bytes. How a write ends (complete, interrupted before or after the rename) is an input, so crashes are among the modelled
  histories. Rates are computed in double precision as exact rationals rounded to 53 bits, ties to even.
  A collector turn, a cleanup, a request, a batch of DNS packets and a netlink datagram are single atomic steps; the
  step relation \<open>system_run\<close> has every interleaving of them.

  Interfaces between components. \<open>bounded_log\<close> (the ring file, the hourly queue, the window of recent samples and
  the load of the DNS history), \<open>fixed_codec\<close> (header and record of a ring), \<open>byte_iterator\<close> and \<open>framed_iterator\<close> (netlink
  messages and attributes), \<open>counter_map\<close> (the three maps of the packet program), \<open>saturating_ledger\<close> (the three
  loops of a tick) and \<open>device_store\<close> (the four stores a deletion goes through). Each is interpreted on the
  model's own operations, and the properties rest on those interpretations.

  What the lemmas show.
  \<^item> From packets to totals: the hooks count every classified packet once, a tick books every increment
    once, and so the totals shown are the bytes of the packets that passed (\<open>Ebpf\<close>, \<open>Ledger\<close>, \<open>Totals\<close>, \<open>End_To_End\<close>).
  \<^item> The service as a whole: it starts whenever its options are accepted, and after any history of turns, requests and
    packets the served lists have no duplicates, everything kept is bounded and nothing panics (\<open>Service\<close>, \<open>System\<close>).
  \<^item> Storage: a ring file refines a bounded log, damaged records are detected, migration keeps the newest
    records, the state files survive interrupted saves (\<open>Ring\<close>, \<open>Persistence\<close>, \<open>State_Files\<close>, \<open>Dns_Files\<close>).
  \<^item> Parsers: no input makes the DNS and netlink parsers panic, and what is encoded is parsed back (\<open>Dns_Wire\<close>, \<open>Netlink\<close>, \<open>Flow_Parser\<close>).
  \<^item> Histories: grouping by hour, bounded queues, the oldest pending query is the one answered (\<open>Histogram\<close>, \<open>Dns_Monitor\<close>).
  \<^item> Requests: nothing is reached without the token, only deletions and renamings change the state, a
    deletion removes the device everywhere, rankings and sums are what they say (\<open>Api\<close>, \<open>Api_Query\<close>, \<open>System\<close>).

  Bounds. Loops that consume a buffer are \<open>function\<close>s with a measure; the jumps in a DNS name are bounded by the code itself.
  The eviction loop of the DNS history, whose end depends on its invariant, is the \<open>partial_function\<close> \<open>evict_excess\<close>,
  and that it returns is part of the theorems about it. No definition takes fuel. The properties about counts of events assume fewer than
  \<open>2 ^ 62\<close> DNS messages since the start, because record ids are 64 bits wide and start after at most \<open>2 ^ 62\<close> restored ones.
  The rates of offloaded traffic vanish after 125 ticks, the number that the smoothing factor and the largest rate need.

  Parameters. Local time is a function from an instant to the bounds of its hour or day, and chrono's calendar a record of
  its operations; \<open>serde_json\<close> is a pair of functions, with the round trip as a hypothesis where a property
  needs it; the answers of the kernel's maps, of sysfs, \<open>getifaddrs\<close>, \<open>ubus\<close>, the neighbour commands and the
  lease file are inputs; so are the results of the packet program's helpers (ring reservation, map insertion, clock).

  Not modelled.
  \<^item> Loading the object file with aya, the memory limit, the optional kprobe attachments and opening and binding netlink
    sockets: system calls and library calls without a decision of the program's own.
  \<^item> Threads, timers and locks: tasks are the steps described above. A data race inside the packet program's shared
    maps is not visible in the model, which takes one packet at a time.
  \<^item> axum, rustls and tower: parsing of requests, TLS, the CORS layer and the JSON text of answers. A request is its
    method, path, token and extracted query.
  \<^item> I/O errors of ring files other than a missing file or a short read.
  \<^item> \<open>main.rs\<close>, \<open>build.rs\<close>, log lines and the tests of the repository.
\<close>

end
